(* ===== verification/Prelude.thy ===== *)
theory Prelude
  imports Main "HOL-Library.Word" "HOL-Library.Sublist" "HOL-Library.Monad_Syntax"
    "HOL-Library.Signed_Division"
begin

text \<open>
  The C layer every component of libunalix stands on: characters and the
  ctype classes in the "C" locale, C strings as character lists without a NUL,
  pointers into a string as offsets, \<open>strstr\<close>, \<open>strchr\<close>, \<open>memcpy\<close>, \<open>atoi\<close>,
  \<open>snprintf\<close>, \<open>size_t\<close> and \<open>int\<close> arithmetic, and the platform (allocator and
  \<open>inet_pton\<close>) as a record of parameters.

  Results.  An operation whose behaviour C leaves undefined on some input
  (a null dereference, an access outside an object) has a result of type
  \<open>'a option\<close> and is None there.  A stage of a function with early returns has
  a result of type \<open>('r + 'a) option\<close>: \<open>Some (Inl r)\<close> is \<open>return r\<close>,
  \<open>Some (Inr a)\<close> falls through to the next statement with the local state \<open>a\<close>.
\<close>

named_theorems ctype_simps \<open>the ctype classes as ranges of character codes\<close>
named_theorems stage_simps \<open>rules for statements with early returns\<close>
named_theorems cstring_simps \<open>searches and copies on strings built by append\<close>

section \<open>Characters\<close>

definition nul :: char where
  "nul = CHR 0x00"

abbreviation code :: "char \<Rightarrow> nat" where
  "code c \<equiv> of_char c"

definition isdigit :: "char \<Rightarrow> bool" where
  "isdigit c \<longleftrightarrow> 48 \<le> code c \<and> code c \<le> 57"

definition isupper :: "char \<Rightarrow> bool" where
  "isupper c \<longleftrightarrow> 65 \<le> code c \<and> code c \<le> 90"

definition islower :: "char \<Rightarrow> bool" where
  "islower c \<longleftrightarrow> 97 \<le> code c \<and> code c \<le> 122"

definition isalpha :: "char \<Rightarrow> bool" where
  "isalpha c \<longleftrightarrow> isupper c \<or> islower c"

definition isalnum :: "char \<Rightarrow> bool" where
  "isalnum c \<longleftrightarrow> isalpha c \<or> isdigit c"

declare isdigit_def [ctype_simps] isupper_def [ctype_simps] islower_def [ctype_simps]
  isalpha_def [ctype_simps] isalnum_def [ctype_simps]

text \<open>\<open>if (isupper(ch)) ch = ch + 32\<close>: the statement the parsers lower a letter with.\<close>

definition lower :: "char \<Rightarrow> char" where
  "lower c = (if isupper c then char_of (code c + 32) else c)"

lemma code_char_of: "n < 256 \<Longrightarrow> code (char_of n) = n"
  by simp

lemma lower_upper: "isupper c \<Longrightarrow> code (lower c) = code c + 32"
  by (simp add: lower_def isupper_def)

lemma islower_lower: "isupper c \<Longrightarrow> islower (lower c)"
  by (simp add: islower_def lower_upper) (simp add: isupper_def)

lemma not_isupper_lower [simp]: "\<not> isupper (lower c)"
  using lower_upper[of c] by (cases "isupper c") (auto simp: isupper_def lower_def)

lemma lower_idem [simp]: "lower (lower c) = lower c"
  by (simp add: lower_def[of "lower c"])

lemma lower_id [simp]: "\<not> isupper c \<Longrightarrow> lower c = c"
  by (simp add: lower_def)

lemma isalnum_lower [simp]: "isalnum (lower c) = isalnum c"
  using islower_lower[of c] by (cases "isupper c") (auto simp: isalnum_def isalpha_def)

lemma isalpha_lower [simp]: "isalpha (lower c) = isalpha c"
  using islower_lower[of c] by (cases "isupper c") (auto simp: isalpha_def)

lemma isalnum_lower_eq: "isalnum c \<Longrightarrow> lower c = d \<Longrightarrow> isalnum d"
  by auto

lemma lower_eq_nonalpha: "\<not> isalpha d \<Longrightarrow> lower c = d \<longleftrightarrow> c = d"
  by (metis isalpha_def isalpha_lower lower_id)

section \<open>Machine integers\<close>

text \<open>\<open>size_t\<close> is 64 bits wide; offsets and lengths are naturals below \<open>2 ^ 64\<close>.\<close>

definition PTRDIFF_MAX :: nat where
  "PTRDIFF_MAX = 2 ^ 63 - 1"

text \<open>\<open>(size_t) (a - b)\<close> for two pointers into one object, given by their offsets.\<close>

definition size_diff :: "nat \<Rightarrow> nat \<Rightarrow> nat" where
  "size_diff a b = (if b \<le> a then a - b else 2 ^ 64 - (b - a))"

lemma size_diff_le [simp]: "b \<le> a \<Longrightarrow> size_diff a b = a - b"
  by (simp add: size_diff_def)

lemma size_diff_wrap:
  "a < b \<Longrightarrow> b - a \<le> PTRDIFF_MAX \<Longrightarrow> PTRDIFF_MAX < size_diff a b"
  by (simp add: size_diff_def PTRDIFF_MAX_def)

text \<open>A conversion to the 32-bit \<open>int\<close> of the platform, two's complement.\<close>

definition to_int :: "int \<Rightarrow> int" where
  "to_int n = (n + 2 ^ 31) mod 2 ^ 32 - 2 ^ 31"

lemma to_int_sint: "to_int n = sint (word_of_int n :: 32 word)"
  by (simp add: to_int_def int_word_sint)

lemma to_int_range: "- (2 ^ 31) \<le> to_int n \<and> to_int n < 2 ^ 31"
  by (simp add: to_int_def)

lemma to_int_id: "0 \<le> n \<Longrightarrow> n < 2 ^ 31 \<Longrightarrow> to_int n = n"
  by (simp add: to_int_def)

section \<open>The platform\<close>

text \<open>
  Every call of \<open>malloc\<close> and \<open>realloc\<close> has a site, and the allocator answers by
  site and size.  A call made in a loop or in a nested call carries the iteration.
  Within one function every combination of successes and failures is possible;
  functions called with the same platform share their sites, so requests of the same
  site and size in two of them are answered alike (the headers of a request and the
  parameters of an URL, for example).
\<close>

datatype site =
    AtScheme | AtUsername | AtPassword | AtHostname | AtFragment | AtQuery | AtPath
  | AtKey nat | AtValue nat | AtItems nat
  | AtBuffer | AtBody | AtParameters | AtRewrite | AtRules nat nat | AtRuleset nat | AtLocation
  | InCall nat site

record platform =
  malloc_ok :: "site \<Rightarrow> nat \<Rightarrow> bool"
  slack :: nat
  inet_pton4 :: "string \<Rightarrow> bool"
  inet_pton6 :: "string \<Rightarrow> bool"

text \<open>
  \<open>malloc\<close> of more than \<open>PTRDIFF_MAX\<close> bytes fails; any other request is
  answered by the allocator.  \<open>slack\<close> is the number of bytes past the end of an
  object that the platform leaves unused (0 is the C standard's object model).
\<close>

definition malloc :: "platform \<Rightarrow> site \<Rightarrow> nat \<Rightarrow> bool" where
  "malloc p s n \<longleftrightarrow> n \<le> PTRDIFF_MAX \<and> malloc_ok p s n"

definition in_call :: "nat \<Rightarrow> platform \<Rightarrow> platform" where
  "in_call k p = p\<lparr>malloc_ok := (\<lambda>s. malloc_ok p (InCall k s))\<rparr>"

text \<open>An allocator that answers every request of at most \<open>PTRDIFF_MAX\<close> bytes.\<close>

definition ample :: "platform \<Rightarrow> bool" where
  "ample p \<longleftrightarrow> malloc_ok p = (\<lambda>s n. True)"

lemma malloc_code [code]:
  "malloc p s n \<longleftrightarrow> int n \<le> 2 ^ 63 - 1 \<and> malloc_ok p s n"
  by (auto simp: malloc_def PTRDIFF_MAX_def)

lemma malloc_ample [simp]: "ample p \<Longrightarrow> malloc p s n \<longleftrightarrow> n \<le> PTRDIFF_MAX"
  by (simp add: malloc_def ample_def)

lemma ample_in_call [simp]: "ample p \<Longrightarrow> ample (in_call k p)"
  by (simp add: ample_def in_call_def)

lemma in_call_simps [simp]:
  "slack (in_call k p) = slack p" "inet_pton4 (in_call k p) = inet_pton4 p"
  "inet_pton6 (in_call k p) = inet_pton6 p"
  by (simp_all add: in_call_def)

text \<open>A concrete platform for witnesses: ample memory, strict objects.\<close>

definition test_platform :: platform where
  "test_platform = \<lparr>malloc_ok = (\<lambda>s n. True), slack = 0,
     inet_pton4 = (\<lambda>s. s = ''127.0.0.1''), inet_pton6 = (\<lambda>s. s = ''::1'')\<rparr>"

lemma ample_test_platform [simp]: "ample test_platform"
  by (simp add: ample_def test_platform_def)

lemma test_platform_simps [simp]:
  "slack test_platform = 0"
  "inet_pton4 test_platform = (\<lambda>s. s = ''127.0.0.1'')"
  "inet_pton6 test_platform = (\<lambda>s. s = ''::1'')"
  by (simp_all add: test_platform_def)

section \<open>Statements with early returns\<close>

definition stage :: "('r + 'a) option \<Rightarrow> ('a \<Rightarrow> ('r + 'b) option) \<Rightarrow> ('r + 'b) option" where
  "stage m f = (case m of None \<Rightarrow> None | Some (Inl r) \<Rightarrow> Some (Inl r) | Some (Inr a) \<Rightarrow> f a)"

text \<open>The body of a function ends in a return on every path.\<close>

definition body :: "('r + 'r) option \<Rightarrow> 'r option" where
  "body m = map_option (case_sum id id) m"

lemma stage_cases [stage_simps, simp]:
  "stage None f = None" "stage (Some (Inl r)) f = Some (Inl r)" "stage (Some (Inr a)) f = f a"
  by (simp_all add: stage_def)

lemma body_cases [stage_simps, simp]:
  "body None = None" "body (Some (Inl r)) = Some r" "body (Some (Inr r)) = Some r"
  by (simp_all add: body_def)

lemma stage_eq_Some:
  "stage m f = Some x \<longleftrightarrow>
     (\<exists>r. m = Some (Inl r) \<and> x = Inl r) \<or> (\<exists>a. m = Some (Inr a) \<and> f a = Some x)"
  by (auto simp: stage_def split: option.splits sum.splits)

subsection \<open>Total correctness of statements\<close>

text \<open>
  \<open>ends m E P\<close>: the statement \<open>m\<close> is defined, a return satisfies \<open>E\<close>, and a
  fall-through satisfies \<open>P\<close>.  One such fact per stage composes by \<open>ends_stage\<close>.
\<close>

definition ends :: "('r + 'a) option \<Rightarrow> ('r \<Rightarrow> bool) \<Rightarrow> ('a \<Rightarrow> bool) \<Rightarrow> bool" where
  "ends m E P \<longleftrightarrow> (case m of None \<Rightarrow> False | Some (Inl r) \<Rightarrow> E r | Some (Inr a) \<Rightarrow> P a)"

lemma ends_simps [simp, stage_simps]:
  "ends None E P = False" "ends (Some (Inl r)) E P = E r" "ends (Some (Inr a)) E P = P a"
  by (simp_all add: ends_def)

lemma ends_stage:
  assumes "ends m E Q" "\<And>a. Q a \<Longrightarrow> ends (f a) E P"
  shows "ends (stage m f) E P"
proof (cases m)
  case None
  with assms(1) show ?thesis by simp
next
  case (Some x)
  with assms show ?thesis by (cases x) auto
qed

lemma ends_stage_eq:
  assumes "ends m E Q" "\<And>a. m = Some (Inr a) \<Longrightarrow> Q a \<Longrightarrow> ends (f a) E P"
  shows "ends (stage m f) E P"
proof (cases m)
  case None
  with assms(1) show ?thesis by simp
next
  case (Some x)
  with assms show ?thesis by (cases x) auto
qed

lemma ends_mono:
  "ends m E P \<Longrightarrow> (\<And>r. E r \<Longrightarrow> E' r) \<Longrightarrow> (\<And>a. P a \<Longrightarrow> P' a) \<Longrightarrow> ends m E' P'"
  by (auto simp: ends_def split: option.splits sum.splits)

lemma ends_body: "ends m E E \<Longrightarrow> \<exists>r. body m = Some r \<and> E r"
  by (auto simp: ends_def split: option.splits sum.splits)

lemma ends_Inr: "ends m E P \<Longrightarrow> m = Some (Inr a) \<Longrightarrow> P a"
  by simp

lemma ends_Inl: "ends m E P \<Longrightarrow> m = Some (Inl r) \<Longrightarrow> E r"
  by simp

lemma ends_defined: "ends m E P \<Longrightarrow> m \<noteq> None"
  by (cases m) auto

subsection \<open>Partial correctness of statements\<close>

text \<open>\<open>leaves m E P\<close>: if \<open>m\<close> returns, \<open>E\<close> holds of the result; if it falls through, \<open>P\<close>.\<close>

definition leaves :: "('r + 'a) option \<Rightarrow> ('r \<Rightarrow> bool) \<Rightarrow> ('a \<Rightarrow> bool) \<Rightarrow> bool" where
  "leaves m E P \<longleftrightarrow> (\<forall>r. m = Some (Inl r) \<longrightarrow> E r) \<and> (\<forall>a. m = Some (Inr a) \<longrightarrow> P a)"

lemma leaves_simps [simp]:
  "leaves None E P" "leaves (Some (Inl r)) E P = E r" "leaves (Some (Inr a)) E P = P a"
  by (simp_all add: leaves_def)

lemma leaves_stage:
  "leaves m E Q \<Longrightarrow> (\<And>a. Q a \<Longrightarrow> leaves (f a) E P) \<Longrightarrow> leaves (stage m f) E P"
  by (auto simp: leaves_def stage_def split: option.splits sum.splits)

lemma leaves_body: "leaves m E E \<Longrightarrow> body m = Some r \<Longrightarrow> E r"
  by (cases m; cases "the m") auto

lemma leaves_map_Inr: "(\<And>r. m = Some r \<Longrightarrow> P r) \<Longrightarrow> leaves (map_option Inr m) E P"
  by (auto simp: leaves_def)

lemma leaves_map_Inl: "leaves m (\<lambda>r. E (g r)) P \<Longrightarrow> leaves (map_option (map_sum g id) m) E P"
  by (cases m; cases "the m") auto

lemma leavesI:
  "(\<And>r. m = Some (Inl r) \<Longrightarrow> E r) \<Longrightarrow> (\<And>a. m = Some (Inr a) \<Longrightarrow> P a) \<Longrightarrow> leaves m E P"
  by (simp add: leaves_def)

lemma leaves_mono: "leaves m E P \<Longrightarrow> (\<And>r. E r \<Longrightarrow> E' r) \<Longrightarrow> (\<And>a. P a \<Longrightarrow> P' a) \<Longrightarrow> leaves m E' P'"
  by (simp add: leaves_def)

end
