(* ===== verification/CString.thy ===== *)
theory CString
  imports Prelude
begin

text \<open>
  The string functions of the C library the code uses, over C strings as
  character lists and pointers as offsets: searching (\<open>strstr\<close>, \<open>strchr\<close>),
  copying a range into fresh memory, and decimal conversion (\<open>atoi\<close>, \<open>%i\<close>).
\<close>

section \<open>Searching\<close>

text \<open>Offset of the first occurrence of a pattern.\<close>

fun find_sub :: "string \<Rightarrow> string \<Rightarrow> nat option" where
  "find_sub pat [] = (if pat = [] then Some 0 else None)"
| "find_sub pat (c # cs) =
     (if prefix pat (c # cs) then Some 0 else map_option Suc (find_sub pat cs))"

text \<open>\<open>strstr(&s[p], pat)\<close>: the offset found, as an offset into \<open>s\<close>, or NULL.\<close>

definition strstr :: "string \<Rightarrow> nat \<Rightarrow> string \<Rightarrow> nat option" where
  "strstr s p pat = map_option ((+) p) (find_sub pat (drop p s))"

text \<open>\<open>strchr(set, ch) != NULL\<close>: C finds the terminator as well.\<close>

definition strchr_in :: "string \<Rightarrow> char \<Rightarrow> bool" where
  "strchr_in set_of c \<longleftrightarrow> c = nul \<or> c \<in> set set_of"

text \<open>A byte buffer read as a C string ends at its first NUL.\<close>

definition c_str :: "string \<Rightarrow> string" where
  "c_str bs = takeWhile (\<lambda>c. c \<noteq> nul) bs"

lemma nul_notin_c_str [simp]: "nul \<notin> set (c_str bs)"
  by (auto simp: c_str_def dest: set_takeWhileD)

lemma c_str_id [simp]: "nul \<notin> set s \<Longrightarrow> c_str s = s"
  by (auto simp: c_str_def)

lemma length_c_str: "length (c_str s) \<le> length s"
  by (simp add: c_str_def length_takeWhile_le)

lemma find_sub_SomeD:
  "find_sub pat s = Some q \<Longrightarrow> q + length pat \<le> length s \<and> prefix pat (drop q s)"
proof (induction s arbitrary: q)
  case Nil
  then show ?case by (auto split: if_splits)
next
  case (Cons c cs)
  then show ?case
    by (auto split: if_splits dest: prefix_length_le)
qed

lemma find_sub_least:
  "find_sub pat s = Some q \<Longrightarrow> i < q \<Longrightarrow> \<not> prefix pat (drop i s)"
proof (induction s arbitrary: q i)
  case Nil
  then show ?case by (auto split: if_splits)
next
  case (Cons c cs)
  then show ?case
    by (cases i) (auto split: if_splits)
qed

lemma find_sub_None_iff: "find_sub pat s = None \<longleftrightarrow> \<not> sublist pat s"
proof (induction s)
  case Nil
  then show ?case by auto
next
  case (Cons c cs)
  then show ?case by (auto simp: sublist_Cons_right)
qed

lemma find_sub_char_None: "c \<notin> set s \<Longrightarrow> find_sub [c] s = None"
  by (auto simp: find_sub_None_iff sublist_def)

lemma find_sub_char:
  "find_sub [c] s = (if c \<in> set s then Some (length (takeWhile (\<lambda>x. x \<noteq> c) s)) else None)"
  by (induction s) auto

lemma find_sub_char_app [cstring_simps]:
  "c \<notin> set xs \<Longrightarrow> find_sub [c] (xs @ c # ys) = Some (length xs)"
  by (induction xs) auto

lemma find_sub_skip:
  "hd pat \<notin> set xs \<Longrightarrow> pat \<noteq> [] \<Longrightarrow>
     find_sub pat (xs @ ys) = map_option ((+) (length xs)) (find_sub pat ys)"
proof (induction xs)
  case Nil
  then show ?case by (simp add: option.map_ident)
next
  case (Cons x xs)
  then have "\<not> prefix pat (x # xs @ ys)"
    by (cases pat) auto
  with Cons show ?case by (simp add: option.map_comp comp_def)
qed

lemma find_sub_here: "prefix pat s \<Longrightarrow> find_sub pat s = Some 0"
  by (cases s) auto

lemma strstr_SomeD:
  assumes "strstr s p pat = Some q"
  shows "p \<le> q" "p \<le> length s \<Longrightarrow> q + length pat \<le> length s"
    and "prefix pat (drop q s)"
proof -
  obtain d where d: "find_sub pat (drop p s) = Some d" "q = p + d"
    using assms by (auto simp: strstr_def)
  from find_sub_SomeD[OF d(1)] d(2)
  show "p \<le> q" "p \<le> length s \<Longrightarrow> q + length pat \<le> length s" "prefix pat (drop q s)"
    by (auto simp: add.commute)
qed

lemma strstr_app [cstring_simps]:
  "strstr (xs @ ys) (length xs) pat = map_option ((+) (length xs)) (find_sub pat ys)"
  by (simp add: strstr_def)

lemma strstrI: "s = xs @ ys \<Longrightarrow> a = length xs \<Longrightarrow> strstr s a pat = map_option ((+) a) (find_sub pat ys)"
  by (simp add: strstr_app)

lemma find_sub_char_skip:
  "c \<notin> set xs \<Longrightarrow> find_sub [c] (xs @ ys) = map_option ((+) (length xs)) (find_sub [c] ys)"
  by (rule find_sub_skip) simp_all

lemma strstr_char:
  "strstr s p [c] = (if c \<in> set (drop p s)
     then Some (p + length (takeWhile (\<lambda>x. x \<noteq> c) (drop p s))) else None)"
  by (simp add: strstr_def find_sub_char)

lemma strstr_char_None_iff: "strstr s p [c] = None \<longleftrightarrow> c \<notin> set (drop p s)"
  by (simp add: strstr_char)

lemma strstr_char_nth:
  assumes "strstr s p [c] = Some q" shows "q < length s" "s ! q = c"
proof -
  have *: "prefix [c] (drop q s)"
    using assms by (rule strstr_SomeD(3))
  then show "q < length s"
    by (cases "q < length s") auto
  with * show "s ! q = c"
    by (metis Cons_nth_drop_Suc Cons_prefix_Cons)
qed

lemma strstr_char_between:
  assumes "strstr s p [c] = Some q" "p \<le> i" "i < q"
  shows "s ! i \<noteq> c"
proof -
  let ?t = "takeWhile (\<lambda>x. x \<noteq> c) (drop p s)"
  have q: "q = p + length ?t"
    using assms(1) by (auto simp: strstr_char split: if_splits)
  then have i: "i - p < length ?t"
    using assms(2,3) by simp
  have "?t ! (i - p) = drop p s ! (i - p)"
    by (rule takeWhile_nth[OF i])
  moreover have "?t ! (i - p) \<noteq> c"
    using nth_mem[OF i] by (auto dest: set_takeWhileD)
  moreover have "drop p s ! (i - p) = s ! i"
    using assms(2) strstr_char_nth(1)[OF assms(1)] assms(3) by simp
  ultimately show ?thesis by simp
qed

text \<open>The pieces between the occurrences of a delimiter: a specification of the scanning loops.\<close>

fun split_on :: "char \<Rightarrow> string \<Rightarrow> string list" where
  "split_on d [] = [[]]"
| "split_on d (c # cs) =
     (if c = d then [] # split_on d cs
      else (c # hd (split_on d cs)) # tl (split_on d cs))"

lemma split_on_nonempty [simp]: "split_on d s \<noteq> []"
  by (cases s) auto

lemma split_on_app:
  "d \<notin> set xs \<Longrightarrow> split_on d (xs @ ys) = (xs @ hd (split_on d ys)) # tl (split_on d ys)"
  by (induction xs) auto

lemma split_on_single [simp]: "d \<notin> set xs \<Longrightarrow> split_on d xs = [xs]"
  using split_on_app[of d xs "[]"] by simp

lemma split_on_sep: "d \<notin> set xs \<Longrightarrow> split_on d (xs @ d # ys) = xs # split_on d ys"
  by (simp add: split_on_app)

lemma split_on_Cons:
  obtains x xs where "split_on d s = x # xs"
  by (cases "split_on d s") auto

lemma split_on_notin: "x \<in> set (split_on d s) \<Longrightarrow> d \<notin> set x"
proof (induction s arbitrary: x)
  case Nil
  then show ?case by simp
next
  case (Cons c s)
  obtain y ys where "split_on d s = y # ys"
    by (rule split_on_Cons)
  with Cons show ?case by (auto split: if_splits)
qed

lemma in_split_on: "c \<in> set s \<Longrightarrow> c \<noteq> d \<Longrightarrow> \<exists>x \<in> set (split_on d s). c \<in> set x"
proof (induction s)
  case Nil
  then show ?case by simp
next
  case (Cons a s)
  obtain y ys where "split_on d s = y # ys"
    by (rule split_on_Cons)
  with Cons show ?case by auto
qed

lemma set_split_on: "x \<in> set (split_on d s) \<Longrightarrow> c \<in> set x \<Longrightarrow> c \<in> set s"
proof (induction s arbitrary: x)
  case Nil
  then show ?case by simp
next
  case (Cons a s)
  obtain y ys where "split_on d s = y # ys"
    by (rule split_on_Cons)
  with Cons.prems Cons.IH[of y] Cons.IH[of x] show ?case by (auto split: if_splits)
qed

section \<open>Copying\<close>

text \<open>The \<open>n\<close> bytes from offset \<open>a\<close> of a string object.\<close>

definition slice :: "string \<Rightarrow> nat \<Rightarrow> nat \<Rightarrow> string" where
  "slice s a n = take n (drop a s)"

lemma length_slice [simp]: "length (slice s a n) = min (length s - a) n"
  by (simp add: slice_def)

lemma set_slice_subset: "set (slice s a n) \<subseteq> set s"
  by (auto simp: slice_def dest: in_set_takeD in_set_dropD)

lemma slice_app [cstring_simps]: "slice (xs @ ys @ zs) (length xs) (length ys) = ys"
  by (simp add: slice_def)

lemma sliceI: "s = xs @ ys @ zs \<Longrightarrow> a = length xs \<Longrightarrow> n = length ys \<Longrightarrow> slice s a n = ys"
  by (simp add: slice_app)

lemma nth_slice: "i < n \<Longrightarrow> a + n \<le> length s \<Longrightarrow> slice s a n ! i = s ! (a + i)"
  by (simp add: slice_def)

text \<open>\<open>memcpy\<close> of a range of \<open>s\<close>, whose object ends with the terminator: undefined outside.\<close>

definition memcpy_range :: "string \<Rightarrow> nat \<Rightarrow> nat \<Rightarrow> string option" where
  "memcpy_range s a n = (if a + n \<le> length s then Some (slice s a n) else None)"

text \<open>
  The statement group
  \<open>d = malloc(n + 1); if (d == NULL) return ...; memcpy(d, &s[a], n); d[n] = '\\0'\<close>:
  \<open>Some None\<close> when the allocation fails.
\<close>

definition dup_range :: "platform \<Rightarrow> site \<Rightarrow> string \<Rightarrow> nat \<Rightarrow> nat \<Rightarrow> string option option" where
  "dup_range p at s a n =
     (if \<not> malloc p at (n + 1) then Some None
      else map_option Some (memcpy_range s a n))"

lemma dup_range_in_bounds:
  "a + n \<le> length s \<Longrightarrow>
     dup_range p at s a n = Some (if malloc p at (n + 1) then Some (slice s a n) else None)"
  by (simp add: dup_range_def memcpy_range_def)

lemma dup_range_too_big:
  "PTRDIFF_MAX < n \<Longrightarrow> dup_range p at s a n = Some None"
  by (simp add: dup_range_def malloc_def)

lemma dup_range_Some:
  "dup_range p at s a n = Some (Some t) \<Longrightarrow> t = slice s a n \<and> a + n \<le> length s"
  by (auto simp: dup_range_def memcpy_range_def split: if_splits)

lemma dup_rangeI:
  "s = xs @ ys @ zs \<Longrightarrow> a = length xs \<Longrightarrow> n = length ys \<Longrightarrow> malloc p at (n + 1) \<Longrightarrow>
     dup_range p at s a n = Some (Some ys)"
  by (simp add: dup_range_in_bounds sliceI)

text \<open>\<open>d = malloc(strlen(s) + 1); strcpy(d, s)\<close>\<close>

definition strdup :: "platform \<Rightarrow> site \<Rightarrow> string \<Rightarrow> string option" where
  "strdup p at s = (if malloc p at (length s + 1) then Some s else None)"

text \<open>
  \<open>strcat(d, s)\<close> where \<open>d\<close> is an array of \<open>cap\<close> bytes: undefined when the result
  and its terminator do not fit.  \<open>strcats\<close> is a run of \<open>strcat\<close> statements.
\<close>

definition strcat :: "nat \<Rightarrow> string \<Rightarrow> string \<Rightarrow> string option" where
  "strcat cap d s = (if length d + length s + 1 \<le> cap then Some (d @ s) else None)"

fun strcats :: "nat \<Rightarrow> string \<Rightarrow> string list \<Rightarrow> string option" where
  "strcats cap d [] = Some d"
| "strcats cap d (s # ss) = Option.bind (strcat cap d s) (\<lambda>d'. strcats cap d' ss)"

lemma strcats_fits:
  "length d + length (concat ss) + 1 \<le> cap \<Longrightarrow> strcats cap d ss = Some (d @ concat ss)"
  by (induction ss arbitrary: d) (auto simp: strcat_def)

lemma strcats_overflows:
  "length d + 1 \<le> cap \<Longrightarrow> cap < length d + length (concat ss) + 1 \<Longrightarrow> strcats cap d ss = None"
  by (induction ss arbitrary: d) (auto simp: strcat_def)

lemma strcats_Some:
  "strcats cap d ss = Some t \<Longrightarrow> t = d @ concat ss"
  by (induction ss arbitrary: d) (fastforce simp: strcat_def bind_eq_Some_conv split: if_splits)+

section \<open>Decimal numbers\<close>

definition digit_of :: "int \<Rightarrow> char" where
  "digit_of n = char_of (48 + nat n)"

text \<open>The digits \<open>%i\<close> and \<open>%zu\<close> print for a value that is not negative.\<close>

function show_digits :: "int \<Rightarrow> string" where
  "show_digits n = (if n < 10 then [digit_of n] else show_digits (n div 10) @ [digit_of (n mod 10)])"
  by pat_completeness auto
termination
  by (relation "measure nat") auto

declare show_digits.simps [simp del]

definition show_int :: "int \<Rightarrow> string" where
  "show_int i = (if i < 0 then CHR ''-'' # show_digits (- i) else show_digits i)"

text \<open>\<open>snprintf(buf, n, ...)\<close> writes at most \<open>n - 1\<close> characters.\<close>

definition snprintf :: "nat \<Rightarrow> string \<Rightarrow> string" where
  "snprintf n s = take (n - 1) s"

fun digits_val :: "int \<Rightarrow> string \<Rightarrow> int" where
  "digits_val acc [] = acc"
| "digits_val acc (c # cs) = digits_val (acc * 10 + (int (code c) - 48)) cs"

text \<open>
  \<open>atoi\<close> on a string of digits: \<open>(int) strtol(s, NULL, 10)\<close>, where \<open>strtol\<close>
  saturates at \<open>LONG_MAX\<close> and the conversion to \<open>int\<close> keeps the low 32 bits.
\<close>

definition atoi :: "string \<Rightarrow> int" where
  "atoi s = to_int (min (digits_val 0 (takeWhile isdigit s)) (2 ^ 63 - 1))"

lemma code_digit_of [simp]: "0 \<le> n \<Longrightarrow> n < 10 \<Longrightarrow> code (digit_of n) = 48 + nat n"
  by (simp add: digit_of_def)

lemma isdigit_digit_of [simp]: "0 \<le> n \<Longrightarrow> n < 10 \<Longrightarrow> isdigit (digit_of n)"
  by (simp add: isdigit_def)

lemma show_digits_nonempty [simp]: "show_digits n \<noteq> []"
  by (subst show_digits.simps) simp

lemma show_digits_isdigit: "0 \<le> n \<Longrightarrow> c \<in> set (show_digits n) \<Longrightarrow> isdigit c"
proof (induction n rule: show_digits.induct)
  case (1 n)
  then show ?case
    by (subst (asm) (2) show_digits.simps) (auto split: if_splits)
qed

lemma digits_val_app: "digits_val acc (xs @ [c]) = digits_val acc xs * 10 + (int (code c) - 48)"
  by (induction xs arbitrary: acc) auto

lemma digits_val_show_digits [simp]: "0 \<le> n \<Longrightarrow> digits_val 0 (show_digits n) = n"
proof (induction n rule: show_digits.induct)
  case (1 n)
  then show ?case
    by (subst show_digits.simps) (auto simp: digits_val_app)
qed

lemma atoi_show_digits: "0 \<le> n \<Longrightarrow> n < 2 ^ 31 \<Longrightarrow> atoi (show_digits n) = n"
proof -
  assume n: "0 \<le> n" "n < 2 ^ 31"
  then have all: "takeWhile isdigit (show_digits n) = show_digits n"
    by (simp add: show_digits_isdigit)
  from n show ?thesis
    unfolding atoi_def all by (simp add: to_int_id min_def)
qed

lemma digits_val_nonneg: "0 \<le> acc \<Longrightarrow> \<forall>c \<in> set s. isdigit c \<Longrightarrow> 0 \<le> digits_val acc s"
  by (induction s arbitrary: acc) (auto simp: isdigit_def)

lemma digits_val_bound:
  "\<forall>c \<in> set s. isdigit c \<Longrightarrow> digits_val acc s < (acc + 1) * 10 ^ length s"
proof (induction s arbitrary: acc)
  case Nil
  then show ?case by simp
next
  case (Cons c s)
  then have "digits_val (acc * 10 + (int (code c) - 48)) s < (acc * 10 + (int (code c) - 48) + 1) * 10 ^ length s"
    by (intro Cons.IH) simp
  also have "\<dots> \<le> (acc * 10 + 10) * 10 ^ length s"
    using Cons.prems by (intro mult_right_mono) (auto simp: isdigit_def)
  finally show ?case by (simp add: algebra_simps)
qed

end
