(* ===== verification/Errors.thy ===== *)
theory Errors
  imports CString
begin

text \<open>
  \<open>src/errors.h\<close> and \<open>src/errors.c\<close>: the error codes every operation returns and
  the message of each, and from \<open>src/unalix_jni.c\<close> the Java exception class a
  code is thrown as.  The codes are a datatype with the header's names,
  \<open>err_code\<close> is the integer the header defines for each; the two tables take
  any \<open>int\<close>, as the C functions do.
\<close>

section \<open>Error codes\<close>

datatype unalixerr =
    UNALIXERR_SUCCESS
  | UNALIXERR_MEMORY_ALLOCATE_FAILURE
  | UNALIXERR_FILE_CANNOT_OPEN
  | UNALIXERR_FILE_CANNOT_READ
  | UNALIXERR_FILE_CANNOT_WRITE
  | UNALIXERR_FILE_CANNOT_MOVE
  | UNALIXERR_JSON_CANNOT_PARSE
  | UNALIXERR_JSON_MISSING_REQUIRED_KEY
  | UNALIXERR_JSON_NON_MATCHING_TYPE
  | UNALIXERR_REGEX_COMPILE_PATTERN_FAILURE
  | UNALIXERR_URI_SCHEME_INVALID
  | UNALIXERR_URI_SCHEME_MISSING
  | UNALIXERR_URI_SCHEME_SHOULD_STARTS_WITH_LETTER
  | UNALIXERR_URI_SCHEME_EMPTY
  | UNALIXERR_URI_SCHEME_CONTAINS_INVALID_CHARACTER
  | UNALIXERR_URI_HOSTNAME_LABEL_CONNOT_STARTS_WITH_HYPHEN
  | UNALIXERR_URI_HOSTNAME_TOO_LONG
  | UNALIXERR_URI_HOSTNAME_TOO_SHORT
  | UNALIXERR_URI_HOSTNAME_LABEL_TOO_LONG
  | UNALIXERR_URI_HOSTNAME_LABEL_EMPTY
  | UNALIXERR_URI_HOSTNAME_LABEL_CONTAINS_INVALID_CHARACTER
  | UNALIXERR_URI_HOSTNAME_LABEL_CONNOT_ENDS_WITH_HYPHEN
  | UNALIXERR_URI_PORT_OUT_OF_RANGE
  | UNALIXERR_URI_PORT_CONTAINS_INVALID_CHARACTER
  | UNALIXERR_URI_HOSTNAME_MISSING_CLOSING_BRACKET
  | UNALIXERR_URI_IPV6_ADDRESS_TOO_SHORT
  | UNALIXERR_URI_IPV6_ADDRESS_TOO_LONG
  | UNALIXERR_URI_IPV6_ADDRESS_INVALID
  | UNALIXERR_RULESETS_EMPTY
  | UNALIXERR_RULESETS_NOT_MODIFIED
  | UNALIXERR_RULESETS_UPDATE_AVAILABLE
  | UNALIXERR_RULESETS_MISMATCH_HASH
  | UNALIXERR_DNS_GAI_FAILURE
  | UNALIXERR_DNS_CANNOT_PARSE_ADDRESS
  | UNALIXERR_SOCKET_FAILURE
  | UNALIXERR_SOCKET_SETOPT_FAILURE
  | UNALIXERR_SOCKET_SEND_FAILURE
  | UNALIXERR_SOCKET_RECV_FAILURE
  | UNALIXERR_SOCKET_CLOSE_FAILURE
  | UNALIXERR_SOCKET_CONNECT_FAILURE
  | UNALIXERR_SSL_FAILURE
  | UNALIXERR_HTTP_UNSUPPORTED_VERSION
  | UNALIXERR_HTTP_MALFORMED_STATUS_CODE
  | UNALIXERR_HTTP_UNKNOWN_STATUS_CODE
  | UNALIXERR_HTTP_MALFORMED_HEADER
  | UNALIXERR_HTTP_MISSING_HEADER_NAME
  | UNALIXERR_HTTP_MISSING_HEADER_VALUE
  | UNALIXERR_HTTP_HEADER_CONTAINS_INVALID_CHARACTER
  | UNALIXERR_HTTP_HEADERS_TOO_BIG
  | UNALIXERR_HTTP_HEADERS_INVALID_LOCATION
  | UNALIXERR_HTTP_TOO_MANY_REDIRECTS
  | UNALIXERR_HTTP_BAD_STATUS_CODE
  | UNALIXERR_OS_STAT_FAILURE
  | UNALIXERR_OS_GMTIME_FAILURE
  | UNALIXERR_OS_MKTIME_FAILURE
  | UNALIXERR_OS_STRFTIME_FAILURE
  | UNALIXERR_OS_STRPTIME_FAILURE
  | UNALIXERR_ARG_INVALID

text \<open>The header's \<open>#define\<close> lines, in order.\<close>

fun err_code :: "unalixerr \<Rightarrow> int" where
  "err_code UNALIXERR_SUCCESS = 0"
| "err_code UNALIXERR_MEMORY_ALLOCATE_FAILURE = - 1"
| "err_code UNALIXERR_FILE_CANNOT_OPEN = - 2"
| "err_code UNALIXERR_FILE_CANNOT_READ = - 3"
| "err_code UNALIXERR_FILE_CANNOT_WRITE = - 4"
| "err_code UNALIXERR_FILE_CANNOT_MOVE = - 5"
| "err_code UNALIXERR_JSON_CANNOT_PARSE = - 6"
| "err_code UNALIXERR_JSON_MISSING_REQUIRED_KEY = - 7"
| "err_code UNALIXERR_JSON_NON_MATCHING_TYPE = - 8"
| "err_code UNALIXERR_REGEX_COMPILE_PATTERN_FAILURE = - 9"
| "err_code UNALIXERR_URI_SCHEME_INVALID = - 10"
| "err_code UNALIXERR_URI_SCHEME_MISSING = - 11"
| "err_code UNALIXERR_URI_SCHEME_SHOULD_STARTS_WITH_LETTER = - 12"
| "err_code UNALIXERR_URI_SCHEME_EMPTY = - 13"
| "err_code UNALIXERR_URI_SCHEME_CONTAINS_INVALID_CHARACTER = - 14"
| "err_code UNALIXERR_URI_HOSTNAME_LABEL_CONNOT_STARTS_WITH_HYPHEN = - 15"
| "err_code UNALIXERR_URI_HOSTNAME_TOO_LONG = - 16"
| "err_code UNALIXERR_URI_HOSTNAME_TOO_SHORT = - 17"
| "err_code UNALIXERR_URI_HOSTNAME_LABEL_TOO_LONG = - 18"
| "err_code UNALIXERR_URI_HOSTNAME_LABEL_EMPTY = - 19"
| "err_code UNALIXERR_URI_HOSTNAME_LABEL_CONTAINS_INVALID_CHARACTER = - 20"
| "err_code UNALIXERR_URI_HOSTNAME_LABEL_CONNOT_ENDS_WITH_HYPHEN = - 21"
| "err_code UNALIXERR_URI_PORT_OUT_OF_RANGE = - 22"
| "err_code UNALIXERR_URI_PORT_CONTAINS_INVALID_CHARACTER = - 23"
| "err_code UNALIXERR_URI_HOSTNAME_MISSING_CLOSING_BRACKET = - 24"
| "err_code UNALIXERR_URI_IPV6_ADDRESS_TOO_SHORT = - 25"
| "err_code UNALIXERR_URI_IPV6_ADDRESS_TOO_LONG = - 26"
| "err_code UNALIXERR_URI_IPV6_ADDRESS_INVALID = - 27"
| "err_code UNALIXERR_RULESETS_EMPTY = - 28"
| "err_code UNALIXERR_RULESETS_NOT_MODIFIED = - 29"
| "err_code UNALIXERR_RULESETS_UPDATE_AVAILABLE = - 30"
| "err_code UNALIXERR_RULESETS_MISMATCH_HASH = - 31"
| "err_code UNALIXERR_DNS_GAI_FAILURE = - 32"
| "err_code UNALIXERR_DNS_CANNOT_PARSE_ADDRESS = - 33"
| "err_code UNALIXERR_SOCKET_FAILURE = - 34"
| "err_code UNALIXERR_SOCKET_SETOPT_FAILURE = - 35"
| "err_code UNALIXERR_SOCKET_SEND_FAILURE = - 36"
| "err_code UNALIXERR_SOCKET_RECV_FAILURE = - 37"
| "err_code UNALIXERR_SOCKET_CLOSE_FAILURE = - 38"
| "err_code UNALIXERR_SOCKET_CONNECT_FAILURE = - 39"
| "err_code UNALIXERR_SSL_FAILURE = - 40"
| "err_code UNALIXERR_HTTP_UNSUPPORTED_VERSION = - 41"
| "err_code UNALIXERR_HTTP_MALFORMED_STATUS_CODE = - 42"
| "err_code UNALIXERR_HTTP_UNKNOWN_STATUS_CODE = - 43"
| "err_code UNALIXERR_HTTP_MALFORMED_HEADER = - 44"
| "err_code UNALIXERR_HTTP_MISSING_HEADER_NAME = - 45"
| "err_code UNALIXERR_HTTP_MISSING_HEADER_VALUE = - 46"
| "err_code UNALIXERR_HTTP_HEADER_CONTAINS_INVALID_CHARACTER = - 47"
| "err_code UNALIXERR_HTTP_HEADERS_TOO_BIG = - 48"
| "err_code UNALIXERR_HTTP_HEADERS_INVALID_LOCATION = - 49"
| "err_code UNALIXERR_HTTP_TOO_MANY_REDIRECTS = - 50"
| "err_code UNALIXERR_HTTP_BAD_STATUS_CODE = - 51"
| "err_code UNALIXERR_OS_STAT_FAILURE = - 52"
| "err_code UNALIXERR_OS_GMTIME_FAILURE = - 53"
| "err_code UNALIXERR_OS_MKTIME_FAILURE = - 54"
| "err_code UNALIXERR_OS_STRFTIME_FAILURE = - 55"
| "err_code UNALIXERR_OS_STRPTIME_FAILURE = - 56"
| "err_code UNALIXERR_ARG_INVALID = - 57"

definition all_errors :: "unalixerr list" where
  "all_errors = [
     UNALIXERR_SUCCESS,
     UNALIXERR_MEMORY_ALLOCATE_FAILURE,
     UNALIXERR_FILE_CANNOT_OPEN,
     UNALIXERR_FILE_CANNOT_READ,
     UNALIXERR_FILE_CANNOT_WRITE,
     UNALIXERR_FILE_CANNOT_MOVE,
     UNALIXERR_JSON_CANNOT_PARSE,
     UNALIXERR_JSON_MISSING_REQUIRED_KEY,
     UNALIXERR_JSON_NON_MATCHING_TYPE,
     UNALIXERR_REGEX_COMPILE_PATTERN_FAILURE,
     UNALIXERR_URI_SCHEME_INVALID,
     UNALIXERR_URI_SCHEME_MISSING,
     UNALIXERR_URI_SCHEME_SHOULD_STARTS_WITH_LETTER,
     UNALIXERR_URI_SCHEME_EMPTY,
     UNALIXERR_URI_SCHEME_CONTAINS_INVALID_CHARACTER,
     UNALIXERR_URI_HOSTNAME_LABEL_CONNOT_STARTS_WITH_HYPHEN,
     UNALIXERR_URI_HOSTNAME_TOO_LONG,
     UNALIXERR_URI_HOSTNAME_TOO_SHORT,
     UNALIXERR_URI_HOSTNAME_LABEL_TOO_LONG,
     UNALIXERR_URI_HOSTNAME_LABEL_EMPTY,
     UNALIXERR_URI_HOSTNAME_LABEL_CONTAINS_INVALID_CHARACTER,
     UNALIXERR_URI_HOSTNAME_LABEL_CONNOT_ENDS_WITH_HYPHEN,
     UNALIXERR_URI_PORT_OUT_OF_RANGE,
     UNALIXERR_URI_PORT_CONTAINS_INVALID_CHARACTER,
     UNALIXERR_URI_HOSTNAME_MISSING_CLOSING_BRACKET,
     UNALIXERR_URI_IPV6_ADDRESS_TOO_SHORT,
     UNALIXERR_URI_IPV6_ADDRESS_TOO_LONG,
     UNALIXERR_URI_IPV6_ADDRESS_INVALID,
     UNALIXERR_RULESETS_EMPTY,
     UNALIXERR_RULESETS_NOT_MODIFIED,
     UNALIXERR_RULESETS_UPDATE_AVAILABLE,
     UNALIXERR_RULESETS_MISMATCH_HASH,
     UNALIXERR_DNS_GAI_FAILURE,
     UNALIXERR_DNS_CANNOT_PARSE_ADDRESS,
     UNALIXERR_SOCKET_FAILURE,
     UNALIXERR_SOCKET_SETOPT_FAILURE,
     UNALIXERR_SOCKET_SEND_FAILURE,
     UNALIXERR_SOCKET_RECV_FAILURE,
     UNALIXERR_SOCKET_CLOSE_FAILURE,
     UNALIXERR_SOCKET_CONNECT_FAILURE,
     UNALIXERR_SSL_FAILURE,
     UNALIXERR_HTTP_UNSUPPORTED_VERSION,
     UNALIXERR_HTTP_MALFORMED_STATUS_CODE,
     UNALIXERR_HTTP_UNKNOWN_STATUS_CODE,
     UNALIXERR_HTTP_MALFORMED_HEADER,
     UNALIXERR_HTTP_MISSING_HEADER_NAME,
     UNALIXERR_HTTP_MISSING_HEADER_VALUE,
     UNALIXERR_HTTP_HEADER_CONTAINS_INVALID_CHARACTER,
     UNALIXERR_HTTP_HEADERS_TOO_BIG,
     UNALIXERR_HTTP_HEADERS_INVALID_LOCATION,
     UNALIXERR_HTTP_TOO_MANY_REDIRECTS,
     UNALIXERR_HTTP_BAD_STATUS_CODE,
     UNALIXERR_OS_STAT_FAILURE,
     UNALIXERR_OS_GMTIME_FAILURE,
     UNALIXERR_OS_MKTIME_FAILURE,
     UNALIXERR_OS_STRFTIME_FAILURE,
     UNALIXERR_OS_STRPTIME_FAILURE,
     UNALIXERR_ARG_INVALID]"

section \<open>Messages\<close>

text \<open>The \<open>switch\<close> of \<open>unalix_strerror\<close>: one entry per \<open>case\<close>.\<close>

definition strerror_table :: "(unalixerr \<times> string) list" where
  "strerror_table = [
     (UNALIXERR_SUCCESS, ''No error''),
     (UNALIXERR_MEMORY_ALLOCATE_FAILURE, ''Failed to allocate memory''),
     (UNALIXERR_FILE_CANNOT_OPEN, ''Cannot open file for read/write''),
     (UNALIXERR_FILE_CANNOT_READ, ''Cannot read contents of file''),
     (UNALIXERR_FILE_CANNOT_WRITE, ''Cannot write contents to file''),
     (UNALIXERR_FILE_CANNOT_MOVE, ''Cannot move file''),
     (UNALIXERR_JSON_CANNOT_PARSE, ''Cannot parse JSON tree''),
     (UNALIXERR_JSON_MISSING_REQUIRED_KEY, ''Missing required key in JSON tree''),
     (UNALIXERR_JSON_NON_MATCHING_TYPE, ''JSON object does not match the required type''),
     (UNALIXERR_REGEX_COMPILE_PATTERN_FAILURE, ''Regex pattern compilation failed''),
     (UNALIXERR_URI_SCHEME_INVALID, ''URI has an invalid or unrecognized scheme''),
     (UNALIXERR_URI_SCHEME_MISSING, ''There is no scheme in the URI''),
     (UNALIXERR_URI_SCHEME_SHOULD_STARTS_WITH_LETTER, ''URI scheme should starts with a letter''),
     (UNALIXERR_URI_SCHEME_EMPTY, ''URI has an empty scheme''),
     (UNALIXERR_URI_SCHEME_CONTAINS_INVALID_CHARACTER, ''URI scheme contains invalid character''),
     (UNALIXERR_URI_HOSTNAME_LABEL_CONNOT_STARTS_WITH_HYPHEN, ''Hostname label cannot starts with a hyphen''),
     (UNALIXERR_URI_HOSTNAME_TOO_LONG, ''Hostname has more than 253 characters''),
     (UNALIXERR_URI_HOSTNAME_TOO_SHORT, ''Hostname is lower than 4 characters''),
     (UNALIXERR_URI_HOSTNAME_LABEL_TOO_LONG, ''Hostname label has more than 63 characters''),
     (UNALIXERR_URI_HOSTNAME_LABEL_EMPTY, ''Hostname label is empty''),
     (UNALIXERR_URI_HOSTNAME_LABEL_CONTAINS_INVALID_CHARACTER, ''Hostname label contains invalid character''),
     (UNALIXERR_URI_HOSTNAME_LABEL_CONNOT_ENDS_WITH_HYPHEN, ''Hostname label cannot ends with hyphen''),
     (UNALIXERR_URI_PORT_OUT_OF_RANGE, ''Hostname port is out of range, should be between 1 and 65535''),
     (UNALIXERR_URI_PORT_CONTAINS_INVALID_CHARACTER, ''Hostname port contains non-numerical character''),
     (UNALIXERR_URI_HOSTNAME_MISSING_CLOSING_BRACKET, ''Missing closing bracket in IPv6 address''),
     (UNALIXERR_URI_IPV6_ADDRESS_TOO_SHORT, ''The IPv6 address is too short''),
     (UNALIXERR_URI_IPV6_ADDRESS_TOO_LONG, ''The IPv6 address is too long''),
     (UNALIXERR_URI_IPV6_ADDRESS_INVALID, ''The IPv6 address is invalid''),
     (UNALIXERR_RULESETS_EMPTY, ''No rulesets have been loaded''),
     (UNALIXERR_RULESETS_NOT_MODIFIED, ''The remote file was not modified since the last update''),
     (UNALIXERR_RULESETS_UPDATE_AVAILABLE, ''The remote file was modified since the last update''),
     (UNALIXERR_RULESETS_MISMATCH_HASH, ''The SHA256 hash of the remote file did not match''),
     (UNALIXERR_DNS_GAI_FAILURE, ''Cannot resolve hostname''),
     (UNALIXERR_DNS_CANNOT_PARSE_ADDRESS, ''Cannot parse IP address''),
     (UNALIXERR_SOCKET_FAILURE, ''Connot create socket''),
     (UNALIXERR_SOCKET_SETOPT_FAILURE, ''Cannot set option on socket''),
     (UNALIXERR_SOCKET_SEND_FAILURE, ''Cannot send data on socket''),
     (UNALIXERR_SOCKET_RECV_FAILURE, ''Cannot receive data on socket''),
     (UNALIXERR_SOCKET_CLOSE_FAILURE, ''Cannot close socket''),
     (UNALIXERR_SOCKET_CONNECT_FAILURE, ''Cannot connect to remote address''),
     (UNALIXERR_SSL_FAILURE, ''SSL/TLS connection failure''),
     (UNALIXERR_HTTP_UNSUPPORTED_VERSION, ''The HTTP server replied using a unsupported protocol version''),
     (UNALIXERR_HTTP_MALFORMED_STATUS_CODE, ''Malformed HTTP status code''),
     (UNALIXERR_HTTP_UNKNOWN_STATUS_CODE, ''Unknown HTTP status code''),
     (UNALIXERR_HTTP_MALFORMED_HEADER, ''Malformed HTTP header''),
     (UNALIXERR_HTTP_MISSING_HEADER_NAME, ''HTTP header has an empty name''),
     (UNALIXERR_HTTP_MISSING_HEADER_VALUE, ''HTTP header has an empty value''),
     (UNALIXERR_HTTP_HEADER_CONTAINS_INVALID_CHARACTER, ''HTTP header contains invalid character''),
     (UNALIXERR_HTTP_HEADERS_TOO_BIG, ''HTTP headers exceeded max allowed size''),
     (UNALIXERR_HTTP_HEADERS_INVALID_LOCATION, ''This HTTP redirect points to an invalid location''),
     (UNALIXERR_HTTP_TOO_MANY_REDIRECTS, ''Too many HTTP redirects followed''),
     (UNALIXERR_HTTP_BAD_STATUS_CODE, ''Got a unexpected HTTP status code''),
     (UNALIXERR_OS_STAT_FAILURE, ''Cannot get file status''),
     (UNALIXERR_OS_GMTIME_FAILURE, ''Cannot convert local time to UTC time''),
     (UNALIXERR_OS_MKTIME_FAILURE, ''Cannot get epoch representation of time object''),
     (UNALIXERR_OS_STRFTIME_FAILURE, ''Cannot format time object to string''),
     (UNALIXERR_OS_STRPTIME_FAILURE, ''Cannot parse string into time object'')]"

definition unalix_strerror :: "int \<Rightarrow> string" where
  "unalix_strerror c =
     (case map_of (map (\<lambda>(e, m). (err_code e, m)) strerror_table) c of
        Some m \<Rightarrow> m
      | None \<Rightarrow> ''Unknown error code'')"

section \<open>Java exception classes\<close>

text \<open>The \<open>switch\<close> of \<open>get_exception_class\<close>: the labels that share a \<open>return\<close>.\<close>

definition exception_table :: "(unalixerr list \<times> string) list" where
  "exception_table = [
     ([UNALIXERR_MEMORY_ALLOCATE_FAILURE],
      ''com/amanoteam/libunalix/exceptions/UnalixMemoryException''),
     ([UNALIXERR_FILE_CANNOT_OPEN, UNALIXERR_FILE_CANNOT_READ, UNALIXERR_FILE_CANNOT_WRITE, UNALIXERR_FILE_CANNOT_MOVE],
      ''com/amanoteam/libunalix/exceptions/UnalixFileException''),
     ([UNALIXERR_JSON_CANNOT_PARSE, UNALIXERR_JSON_MISSING_REQUIRED_KEY, UNALIXERR_JSON_NON_MATCHING_TYPE],
      ''com/amanoteam/libunalix/exceptions/UnalixJSONException''),
     ([UNALIXERR_REGEX_COMPILE_PATTERN_FAILURE],
      ''com/amanoteam/libunalix/exceptions/UnalixRegexException''),
     ([UNALIXERR_URI_SCHEME_INVALID, UNALIXERR_URI_SCHEME_MISSING, UNALIXERR_URI_SCHEME_SHOULD_STARTS_WITH_LETTER, UNALIXERR_URI_SCHEME_EMPTY, UNALIXERR_URI_SCHEME_CONTAINS_INVALID_CHARACTER, UNALIXERR_URI_HOSTNAME_LABEL_CONNOT_STARTS_WITH_HYPHEN, UNALIXERR_URI_HOSTNAME_TOO_LONG, UNALIXERR_URI_HOSTNAME_TOO_SHORT, UNALIXERR_URI_HOSTNAME_LABEL_TOO_LONG, UNALIXERR_URI_HOSTNAME_LABEL_EMPTY, UNALIXERR_URI_HOSTNAME_LABEL_CONTAINS_INVALID_CHARACTER, UNALIXERR_URI_HOSTNAME_LABEL_CONNOT_ENDS_WITH_HYPHEN, UNALIXERR_URI_PORT_OUT_OF_RANGE, UNALIXERR_URI_PORT_CONTAINS_INVALID_CHARACTER, UNALIXERR_URI_HOSTNAME_MISSING_CLOSING_BRACKET, UNALIXERR_URI_IPV6_ADDRESS_TOO_SHORT, UNALIXERR_URI_IPV6_ADDRESS_TOO_LONG, UNALIXERR_URI_IPV6_ADDRESS_INVALID],
      ''com/amanoteam/libunalix/exceptions/UnalixURIException''),
     ([UNALIXERR_RULESETS_EMPTY, UNALIXERR_RULESETS_NOT_MODIFIED, UNALIXERR_RULESETS_UPDATE_AVAILABLE, UNALIXERR_RULESETS_MISMATCH_HASH],
      ''com/amanoteam/libunalix/exceptions/UnalixRulesetsException''),
     ([UNALIXERR_DNS_GAI_FAILURE, UNALIXERR_DNS_CANNOT_PARSE_ADDRESS],
      ''com/amanoteam/libunalix/exceptions/UnalixDNSException''),
     ([UNALIXERR_SOCKET_FAILURE, UNALIXERR_SOCKET_SETOPT_FAILURE, UNALIXERR_SOCKET_SEND_FAILURE, UNALIXERR_SOCKET_RECV_FAILURE, UNALIXERR_SOCKET_CLOSE_FAILURE, UNALIXERR_SOCKET_CONNECT_FAILURE],
      ''com/amanoteam/libunalix/exceptions/UnalixSocketException''),
     ([UNALIXERR_SSL_FAILURE],
      ''com/amanoteam/libunalix/exceptions/UnalixSSLException''),
     ([UNALIXERR_HTTP_UNSUPPORTED_VERSION, UNALIXERR_HTTP_MALFORMED_STATUS_CODE, UNALIXERR_HTTP_UNKNOWN_STATUS_CODE, UNALIXERR_HTTP_MALFORMED_HEADER, UNALIXERR_HTTP_MISSING_HEADER_NAME, UNALIXERR_HTTP_MISSING_HEADER_VALUE, UNALIXERR_HTTP_HEADER_CONTAINS_INVALID_CHARACTER, UNALIXERR_HTTP_HEADERS_TOO_BIG, UNALIXERR_HTTP_HEADERS_INVALID_LOCATION, UNALIXERR_HTTP_TOO_MANY_REDIRECTS, UNALIXERR_HTTP_BAD_STATUS_CODE],
      ''com/amanoteam/libunalix/exceptions/UnalixHTTPException''),
     ([UNALIXERR_OS_STAT_FAILURE, UNALIXERR_OS_GMTIME_FAILURE, UNALIXERR_OS_MKTIME_FAILURE, UNALIXERR_OS_STRFTIME_FAILURE, UNALIXERR_OS_STRPTIME_FAILURE],
      ''com/amanoteam/libunalix/exceptions/UnalixOSException'')]"

definition get_exception_class :: "int \<Rightarrow> string" where
  "get_exception_class c =
     (case find (\<lambda>(es, k). c \<in> set (map err_code es)) exception_table of
        Some (es, k) \<Rightarrow> k
      | None \<Rightarrow> ''com/amanoteam/libunalix/exceptions/UnalixException'')"
section \<open>Properties of the tables\<close>

lemma all_errors_complete [simp]: "e \<in> set all_errors"
  by (cases e) (simp_all add: all_errors_def)

lemma err_code_eq: "err_code e = - int (length (takeWhile (\<lambda>x. x \<noteq> e) all_errors))"
  by (cases e) (simp_all add: all_errors_def)

lemma takeWhile_neq_nth: "e \<in> set xs \<Longrightarrow> xs ! length (takeWhile (\<lambda>x. x \<noteq> e) xs) = e"
  by (induction xs) auto

lemma err_code_inj: "err_code e = err_code f \<Longrightarrow> e = f"
proof -
  assume "err_code e = err_code f"
  then have "length (takeWhile (\<lambda>x. x \<noteq> e) all_errors) = length (takeWhile (\<lambda>x. x \<noteq> f) all_errors)"
    by (simp add: err_code_eq)
  then show "e = f"
    using takeWhile_neq_nth[OF all_errors_complete] by metis
qed

lemma err_code_eq_iff [simp]: "err_code e = err_code f \<longleftrightarrow> e = f"
  using err_code_inj by blast

lemma strerror_err_code:
  "unalix_strerror (err_code e) =
     (case map_of strerror_table e of Some m \<Rightarrow> m | None \<Rightarrow> ''Unknown error code'')"
proof -
  have "map_of (map (\<lambda>(e, m). (err_code e, m)) t) (err_code e) = map_of t e" for t :: "(unalixerr \<times> string) list"
    by (induction t) auto
  then show ?thesis by (simp add: unalix_strerror_def)
qed

lemma strerror_other:
  "c \<notin> range err_code \<Longrightarrow> unalix_strerror c = ''Unknown error code''"
proof -
  assume c: "c \<notin> range err_code"
  have "map_of (map (\<lambda>(e, m). (err_code e, m)) t) c = None" for t :: "(unalixerr \<times> string) list"
    using c by (induction t) auto
  then show ?thesis by (simp add: unalix_strerror_def)
qed

lemma strerror_table_domain: "map fst strerror_table = butlast all_errors"
  by (simp add: strerror_table_def all_errors_def)

lemma strerror_table_messages:
  "distinct (map snd strerror_table)" "''Unknown error code'' \<notin> snd ` set strerror_table"
  by (code_simp, code_simp)

lemma all_errors_distinct: "distinct all_errors"
  by (simp add: all_errors_def)

lemma strerror_table_lookup:
  "e \<noteq> UNALIXERR_ARG_INVALID \<Longrightarrow> \<exists>m. map_of strerror_table e = Some m \<and> (e, m) \<in> set strerror_table"
proof -
  assume e: "e \<noteq> UNALIXERR_ARG_INVALID"
  have "all_errors = butlast all_errors @ [UNALIXERR_ARG_INVALID]"
    by (simp add: all_errors_def)
  then have "e \<in> set (map fst strerror_table)"
    using e all_errors_complete[of e] strerror_table_domain by (metis Un_iff empty_iff insert_iff list.set set_append)
  then show ?thesis
    by (metis domIff dom_map_of_conv_image_fst list.set_map map_of_SomeD not_None_eq)
qed

lemma strerror_ARG_INVALID: "unalix_strerror (err_code UNALIXERR_ARG_INVALID) = ''Unknown error code''"
  unfolding strerror_err_code by (simp add: strerror_table_def)

lemma strerror_table_inj:
  "(e, m) \<in> set strerror_table \<Longrightarrow> (f, m) \<in> set strerror_table \<Longrightarrow> e = f"
  using strerror_table_messages(1) by (metis eq_snd_iff inj_on_eq_iff prod.inject distinct_map)

lemma strerror_known_inj:
  assumes "unalix_strerror (err_code e) = unalix_strerror (err_code f)"
    and "e \<noteq> UNALIXERR_ARG_INVALID" "f \<noteq> UNALIXERR_ARG_INVALID"
  shows "e = f"
proof -
  from strerror_table_lookup[OF assms(2)] strerror_table_lookup[OF assms(3)]
  obtain m n where "map_of strerror_table e = Some m" "(e, m) \<in> set strerror_table"
    "map_of strerror_table f = Some n" "(f, n) \<in> set strerror_table" by blast
  with assms(1) show ?thesis
    by (auto simp: strerror_err_code intro: strerror_table_inj)
qed

lemma strerror_known:
  "e \<noteq> UNALIXERR_ARG_INVALID \<Longrightarrow> unalix_strerror (err_code e) \<noteq> ''Unknown error code''"
  using strerror_table_lookup[of e] strerror_table_messages(2)
  by (auto simp: strerror_err_code image_iff)

lemma exception_class_none:
  "find (\<lambda>(es, k). c \<in> set (map err_code es)) t = None \<longleftrightarrow> (\<forall>(es, k) \<in> set t. c \<notin> err_code ` set es)"
  by (auto simp: find_None_iff)

text \<open>The codes that have an exception class of their own: each occurs under one label.\<close>

lemma exception_labels: "concat (map fst exception_table) = butlast (tl all_errors)"
  by (simp add: exception_table_def all_errors_def)

end
