(* ===== verification/DNS.thy ===== *)
theory DNS
  imports CString Errors
begin

text \<open>
  \<open>src/dns.c\<close>: the message \<open>dns_request_stringify\<close> builds for a domain name, and
  what a resolver reads from it.  The buffer it returns is larger than what it
  writes; a byte that was never written is None.
\<close>

section \<open>Building a request\<close>

datatype dns_qtype = Qtype_A | Qtype_AAAA

fun qtype_code :: "dns_qtype \<Rightarrow> nat" where
  "qtype_code Qtype_A = 1"
| "qtype_code Qtype_AAAA = 28"

datatype dns_specification = DNS_OVER_HTTPS | DNS_OVER_TLS | DNS_OVER_PLAIN_UDP | DNS_OVER_PLAIN_TCP

record dns_request =
  dr_qtype :: dns_qtype
  dr_domain_name :: string
  dr_specification :: dns_specification

definition TCP_LENGTH_FIELD :: string where "TCP_LENGTH_FIELD = [CHR 0x00, CHR 0x00]"

definition DNS_BUFFER_PREFIX :: string where
  "DNS_BUFFER_PREFIX =
    [CHR 0x00, CHR 0x00, CHR 0x01, CHR 0x00,
     CHR 0x00, CHR 0x01, CHR 0x00, CHR 0x00,
     CHR 0x00, CHR 0x00, CHR 0x00, CHR 0x00]"

definition DNS_BUFFER_SUFFIX :: string where
  "DNS_BUFFER_SUFFIX = [CHR 0x00, CHR 0x00, CHR 0x00, CHR 0x00, CHR 0x01]"

text \<open>
  The buffer, a byte that was never written being None, and \<open>int buffer_offset\<close>.
  \<open>memcpy\<close> to the offset is undefined when a byte of it is outside the buffer.
\<close>

definition write_bytes :: "char option list \<Rightarrow> int \<Rightarrow> string \<Rightarrow> char option list option" where
  "write_bytes buffer offset bytes =
     (if 0 \<le> offset \<and> nat offset + length bytes \<le> length buffer
      then Some (take (nat offset) buffer @ map Some bytes @ drop (nat offset + length bytes) buffer) else None)"

text \<open>
  \<open>buffer_offset += n\<close> for a \<open>size_t\<close> is done in \<open>size_t\<close> and converted back to
  \<open>int\<close>; \<open>buffer_offset++\<close> is an \<open>int\<close> addition and undefined at the largest one.
\<close>

definition advance :: "int \<Rightarrow> nat \<Rightarrow> int" where
  "advance offset n = to_int (offset + int n)"

definition increment :: "int \<Rightarrow> int option" where
  "increment offset = (if offset = 2 ^ 31 - 1 then None else Some (offset + 1))"

text \<open>The length of a label, kept in a char, and the label.\<close>

definition write_label :: "string \<Rightarrow> char option list \<times> int \<Rightarrow> (char option list \<times> int) option" where
  "write_label label = (\<lambda>(buffer, offset). do {
     next_offset \<leftarrow> increment offset;
     buffer \<leftarrow> write_bytes buffer offset [char_of (length label)];
     buffer \<leftarrow> write_bytes buffer next_offset label;
     Some (buffer, advance next_offset (length label)) })"

text \<open>
  The loop over the name and its terminator: a label is written at each dot and at the
  end.  The first argument is the text between \<open>label_start\<close> and \<open>ch\<close>.
\<close>

fun write_labels :: "string \<Rightarrow> string \<Rightarrow> char option list \<times> int \<Rightarrow> (char option list \<times> int) option" where
  "write_labels label [] state = write_label label state"
| "write_labels label (ch # name) state =
     (if ch = CHR ''.'' then do {
        state \<leftarrow> write_label label state;
        write_labels [] name state }
      else write_labels (label @ [ch]) name state)"

text \<open>\<open>memcpy\<close> of one of the arrays, and \<open>buffer_offset += sizeof(...)\<close>.\<close>

definition write_array :: "string \<Rightarrow> char option list \<times> int \<Rightarrow> (char option list \<times> int) option" where
  "write_array bytes = (\<lambda>(buffer, offset). do {
     buffer \<leftarrow> write_bytes buffer offset bytes;
     Some (buffer, advance offset (length bytes)) })"

definition length_field_required :: "dns_request \<Rightarrow> bool" where
  "length_field_required obj \<longleftrightarrow> dr_specification obj = DNS_OVER_PLAIN_TCP \<or> dr_specification obj = DNS_OVER_TLS"

definition request_size :: "dns_request \<Rightarrow> nat" where
  "request_size obj =
     (let domain_size = length (dr_domain_name obj) + 1
      in (if length_field_required obj then length TCP_LENGTH_FIELD else 0) + length DNS_BUFFER_PREFIX + domain_size + length DNS_BUFFER_PREFIX)"

text \<open>
  The length field: the array, then its last byte, \<open>(char) buffer_size - buffer_offset\<close>,
  which is cut to a char again.
\<close>

definition write_length :: "nat \<Rightarrow> char option list \<times> int \<Rightarrow> (char option list \<times> int) option" where
  "write_length buffer_size state = do {
     (buffer, offset) \<leftarrow> write_array TCP_LENGTH_FIELD state;
     buffer \<leftarrow> write_bytes buffer (offset - 1) [char_of (nat ((int buffer_size - offset) mod 256))];
     Some (buffer, offset) }"

definition dns_request_stringify :: "platform \<Rightarrow> dns_request \<Rightarrow> (unalixerr \<times> char option list) option" where
  "dns_request_stringify p obj =
     (let buffer_size = request_size obj in
      if \<not> malloc p AtBuffer buffer_size then Some (UNALIXERR_MEMORY_ALLOCATE_FAILURE, [])
      else do {
        state \<leftarrow> (if length_field_required obj then write_length buffer_size (replicate buffer_size None, 0)
                 else Some (replicate buffer_size None, 0));
        state \<leftarrow> write_array DNS_BUFFER_PREFIX state;
        state \<leftarrow> write_labels [] (dr_domain_name obj) state;
        (buffer, offset) \<leftarrow> write_array DNS_BUFFER_SUFFIX state;
        buffer \<leftarrow> write_bytes buffer (offset - 3) [char_of (qtype_code (dr_qtype obj))];
        Some (UNALIXERR_SUCCESS, buffer) })"

section \<open>The buffer from its front\<close>

text \<open>A buffer of \<open>n\<close> bytes whose first ones are written, and the offset behind them.\<close>

definition filled :: "nat \<Rightarrow> string \<Rightarrow> char option list \<times> int" where
  "filled n bs = (map Some bs @ replicate (n - length bs) None, int (length bs))"

lemma filled_empty: "(replicate n None, 0) = filled n []"
  by (simp add: filled_def)

lemma write_bytes_filled:
  assumes "length bs + length cs \<le> n"
  shows "write_bytes (fst (filled n bs)) (snd (filled n bs)) cs = Some (fst (filled n (bs @ cs)))"
  using assms by (simp add: write_bytes_def filled_def)

lemma write_bytes_inside:
  assumes "length bs \<le> n" "0 \<le> i" "nat i < length bs"
  shows "write_bytes (fst (filled n bs)) i [c] = Some (fst (filled n (bs[nat i := c])))"
  using assms by (simp add: write_bytes_def filled_def upd_conv_take_nth_drop take_map drop_map)

lemma advance_filled:
  assumes "length bs + length cs < 2 ^ 31"
  shows "advance (snd (filled n bs)) (length cs) = snd (filled n (bs @ cs))"
  using assms by (simp add: advance_def filled_def to_int_id)

lemma write_array_filled:
  assumes "length bs + length cs \<le> n" "length bs + length cs < 2 ^ 31"
  shows "write_array cs (filled n bs) = Some (filled n (bs @ cs))"
  using write_bytes_filled[OF assms(1)] advance_filled[OF assms(2), of n]
  by (cases "filled n bs"; cases "filled n (bs @ cs)") (simp add: write_array_def)

lemma write_label_filled:
  assumes "length bs + length label + 1 \<le> n" "length bs + length label + 1 < 2 ^ 31"
  shows "write_label label (filled n bs) = Some (filled n (bs @ char_of (length label) # label))"
proof -
  let ?bs = "bs @ [char_of (length label)]"
  have next_offset: "increment (snd (filled n bs)) = Some (snd (filled n ?bs))"
    using assms(2) by (simp add: increment_def filled_def)
  have "write_bytes (fst (filled n bs)) (snd (filled n bs)) [char_of (length label)] = Some (fst (filled n ?bs))"
    "write_bytes (fst (filled n ?bs)) (snd (filled n ?bs)) label = Some (fst (filled n (?bs @ label)))"
    "advance (snd (filled n ?bs)) (length label) = snd (filled n (?bs @ label))"
    using assms write_bytes_filled[of bs "[char_of (length label)]" n] write_bytes_filled[of ?bs label n]
      advance_filled[of ?bs label n] by simp_all
  then show ?thesis
    using next_offset by (simp add: write_label_def split_beta)
qed

section \<open>What the labels are\<close>

text \<open>What the loop writes.\<close>

fun label_bytes :: "string \<Rightarrow> string \<Rightarrow> string" where
  "label_bytes label [] = char_of (length label) # label"
| "label_bytes label (ch # name) =
     (if ch = CHR ''.'' then char_of (length label) # label @ label_bytes [] name
      else label_bytes (label @ [ch]) name)"

lemma label_bytes_eq: "CHR ''.'' \<notin> set label \<Longrightarrow>
   label_bytes label name = concat (map (\<lambda>l. char_of (length l) # l) (split_on CHR ''.'' (label @ name)))"
proof (induction label name rule: label_bytes.induct)
  case (1 label)
  then show ?case by simp
next
  case (2 label ch name)
  show ?case
  proof (cases "ch = CHR ''.''")
    case True
    then show ?thesis
      using 2 by (simp add: split_on_sep)
  next
    case False
    then show ?thesis
      using 2 by simp
  qed
qed

lemma length_label_bytes [simp]: "length (label_bytes label name) = length label + length name + 1"
  by (induction label name rule: label_bytes.induct) simp_all

lemma write_labels_filled:
  assumes "length bs + length label + length name + 1 \<le> n" "length bs + length label + length name + 1 < 2 ^ 31"
  shows "write_labels label name (filled n bs) = Some (filled n (bs @ label_bytes label name))"
  using assms
proof (induction label name arbitrary: bs rule: label_bytes.induct)
  case (1 label)
  then show ?case
    by (simp add: write_label_filled)
next
  case (2 label ch name)
  show ?case
  proof (cases "ch = CHR ''.''")
    case True
    then show ?thesis
      using 2(1)[OF True, of "bs @ char_of (length label) # label"] 2(3,4) by (simp add: write_label_filled)
  next
    case False
    then show ?thesis
      using 2(2)[OF False, of bs] 2(3,4) by simp
  qed
qed

section \<open>What a resolver reads\<close>

text \<open>
  A name in the notation of RFC 1035: a length below 64 and as many bytes for each
  label, and the length 0 at the end.  The result is the labels and what follows.
\<close>

fun read_name :: "string \<Rightarrow> (string list \<times> string) option" where
  "read_name [] = None"
| "read_name (n # s) =
     (if code n = 0 then Some ([], s)
      else if code n \<ge> 64 \<or> code n > length s then None
      else map_option (\<lambda>(ls, rest). (take (code n) s # ls, rest)) (read_name (drop (code n) s)))"

lemma read_name_labels:
  assumes "\<forall>l \<in> set ls. l \<noteq> [] \<and> length l < 64"
  shows "read_name (concat (map (\<lambda>l. char_of (length l) # l) ls) @ CHR 0x00 # rest) = Some (ls, rest)"
  using assms
proof (induction ls)
  case (Cons l ls)
  then have "code (char_of (length l) :: char) = length l" "length l \<noteq> 0"
    by auto
  then show ?case
    using Cons by simp
qed simp

text \<open>The header of a query with one question, its name, type and class.\<close>

definition read_query :: "string \<Rightarrow> (string list \<times> nat \<times> nat) option" where
  "read_query s =
     (if take 12 s \<noteq> DNS_BUFFER_PREFIX then None
      else case read_name (drop 12 s) of
        Some (ls, [t1, t0, c1, c0]) \<Rightarrow> Some (ls, 256 * code t1 + code t0, 256 * code c1 + code c0)
      | _ \<Rightarrow> None)"

text \<open>The parts of the message, and the seven bytes behind it that are not written.\<close>

definition query_text :: "dns_request \<Rightarrow> string" where
  "query_text obj = DNS_BUFFER_PREFIX @ label_bytes [] (dr_domain_name obj) @
     [CHR 0x00, CHR 0x00, char_of (qtype_code (dr_qtype obj)), CHR 0x00, CHR 0x01]"

text \<open>The length field as it is sent: the second byte is the size behind it, cut to a char.\<close>

definition length_field :: "nat \<Rightarrow> string" where
  "length_field buffer_size = [CHR 0x00, char_of (nat ((int buffer_size - 2) mod 256))]"

lemma array_lengths: "length DNS_BUFFER_PREFIX = 12" "length DNS_BUFFER_SUFFIX = 5" "length TCP_LENGTH_FIELD = 2"
  "length (length_field n) = 2"
  by (simp_all add: DNS_BUFFER_PREFIX_def DNS_BUFFER_SUFFIX_def TCP_LENGTH_FIELD_def length_field_def)

lemma write_length_filled:
  assumes "2 \<le> n"
  shows "write_length n (filled n []) = Some (filled n (length_field n))"
proof -
  have array: "write_array TCP_LENGTH_FIELD (filled n []) = Some (filled n TCP_LENGTH_FIELD)"
    using write_array_filled[of "[]" TCP_LENGTH_FIELD n] assms by (simp add: array_lengths)
  have offset: "snd (filled n TCP_LENGTH_FIELD) = 2" "snd (filled n (length_field n)) = 2"
    by (simp_all add: filled_def array_lengths)
  have "write_bytes (fst (filled n TCP_LENGTH_FIELD)) 1 [char_of (nat ((int n - 2) mod 256))] = Some (fst (filled n (length_field n)))"
    using write_bytes_inside[of TCP_LENGTH_FIELD n 1] assms by (simp add: array_lengths) (simp add: TCP_LENGTH_FIELD_def length_field_def)
  then show ?thesis
    using array offset by (simp add: write_length_def split_beta prod_eq_iff)
qed

lemma dns_request_stringify_eq:
  assumes "malloc p AtBuffer (request_size obj)" "length (dr_domain_name obj) + 20 < 2 ^ 31"
  shows "dns_request_stringify p obj = Some (UNALIXERR_SUCCESS,
     map Some ((if length_field_required obj then length_field (request_size obj) else []) @ query_text obj) @ replicate 7 None)"
proof -
  let ?n = "request_size obj" and ?ls = "label_bytes [] (dr_domain_name obj)"
  let ?f = "if length_field_required obj then length_field ?n else []"
  let ?b = "?f @ DNS_BUFFER_PREFIX @ ?ls"
  have room: "?n = length ?b + 12"
    by (simp add: request_size_def Let_def array_lengths)
  have small: "length ?b + 5 < 2 ^ 31"
    using assms(2) by (simp add: array_lengths)
  have "(if length_field_required obj then write_length ?n (replicate ?n None, 0) else Some (replicate ?n None, 0)) = Some (filled ?n ?f)"
    using write_length_filled[of ?n] room by (simp add: filled_empty array_lengths)
  moreover have "write_array DNS_BUFFER_PREFIX (filled ?n ?f) = Some (filled ?n (?f @ DNS_BUFFER_PREFIX))"
    using room small by (intro write_array_filled) (simp_all add: array_lengths)
  moreover have "write_labels [] (dr_domain_name obj) (filled ?n (?f @ DNS_BUFFER_PREFIX)) = Some (filled ?n ?b)"
    using write_labels_filled[of "?f @ DNS_BUFFER_PREFIX" "[]" "dr_domain_name obj" ?n] room small by (simp add: array_lengths)
  moreover have "write_array DNS_BUFFER_SUFFIX (filled ?n ?b) = Some (filled ?n (?b @ DNS_BUFFER_SUFFIX))"
    using room small by (intro write_array_filled) (simp_all add: array_lengths)
  moreover have "write_bytes (fst (filled ?n (?b @ DNS_BUFFER_SUFFIX))) (snd (filled ?n (?b @ DNS_BUFFER_SUFFIX)) - 3)
      [char_of (qtype_code (dr_qtype obj))] = Some (fst (filled ?n (?f @ query_text obj)))"
  proof -
    have i: "snd (filled ?n (?b @ DNS_BUFFER_SUFFIX)) - 3 = int (length ?b + 2)"
      by (simp add: filled_def array_lengths)
    have upd: "(?b @ DNS_BUFFER_SUFFIX)[length ?b + 2 := c] = ?b @ [CHR 0x00, CHR 0x00, c, CHR 0x00, CHR 0x01]" for c
      by (simp add: DNS_BUFFER_SUFFIX_def list_update_append eval_nat_numeral)
    have "length ?b + 2 < length (?b @ DNS_BUFFER_SUFFIX)" "length (?b @ DNS_BUFFER_SUFFIX) \<le> ?n"
      using room by (simp_all only: length_append array_lengths)
    then have "write_bytes (fst (filled ?n (?b @ DNS_BUFFER_SUFFIX))) (int (length ?b + 2)) [c] =
        Some (fst (filled ?n (?b @ [CHR 0x00, CHR 0x00, c, CHR 0x00, CHR 0x01])))" for c
      using write_bytes_inside[of "?b @ DNS_BUFFER_SUFFIX" ?n "int (length ?b + 2)" c] unfolding nat_int upd by simp
    then show ?thesis
      unfolding i by (simp only: query_text_def append_assoc)
  qed
  moreover have "fst (filled ?n (?f @ query_text obj)) = map Some (?f @ query_text obj) @ replicate 7 None"
    using room by (simp add: filled_def query_text_def array_lengths)
  ultimately show ?thesis
    using assms(1) by (simp add: dns_request_stringify_def Let_def split_beta)
qed

lemma read_query_text:
  assumes "\<forall>l \<in> set (split_on CHR ''.'' (dr_domain_name obj)). l \<noteq> [] \<and> length l < 64"
  shows "read_query (query_text obj) = Some (split_on CHR ''.'' (dr_domain_name obj), qtype_code (dr_qtype obj), 1)"
proof -
  have len: "length DNS_BUFFER_PREFIX = 12"
    by (simp add: DNS_BUFFER_PREFIX_def)
  have "code (char_of (qtype_code q) :: char) = qtype_code q" for q
    by (cases q) simp_all
  then show ?thesis
    using read_name_labels[OF assms]
    by (simp add: read_query_def query_text_def len label_bytes_eq)
qed

end
