(* ===== verification/Utils.thy ===== *)
theory Utils
  imports CString
begin

text \<open>
  \<open>src/utils.c\<close>, the string helpers: \<open>isipv6\<close>, \<open>intlen\<close>, \<open>to_hex\<close>, \<open>isnumeric\<close>,
  \<open>basename\<close>, \<open>normpath\<close>, \<open>countp\<close>, \<open>in_range\<close> and \<open>httpnormpath\<close>.  The path
  normalisers write into a buffer of a given capacity and are undefined (None)
  when a write leaves it; an abstract machine on lists of path components says
  what \<open>httpnormpath\<close> computes.
\<close>

section \<open>Numbers and classes\<close>

definition isipv6 :: "platform \<Rightarrow> string \<Rightarrow> bool" where
  "isipv6 p address = inet_pton6 p address"

text \<open>The \<open>do ... while\<close> loop; C division truncates towards zero.\<close>

function intlen :: "int \<Rightarrow> nat" where
  "intlen v = (let w = v sdiv 10 in if 0 < w then Suc (intlen w) else 1)"
  by pat_completeness auto
termination
  by (relation "measure nat") (auto simp: signed_divide_int_def sgn_if split: if_splits)

declare intlen.simps [simp del]

text \<open>The value of a \<open>char\<close>, a signed byte.\<close>

definition schar :: "char \<Rightarrow> int" where
  "schar c = (if code c < 128 then int (code c) else int (code c) - 256)"

definition to_hex :: "char \<Rightarrow> char" where
  "to_hex c = char_of (nat ((schar c + (if schar c > 9 then 97 - 10 else 48)) mod 256))"

fun isnumeric :: "string \<Rightarrow> bool" where
  "isnumeric [] = True"
| "isnumeric (c # cs) = (if \<not> isdigit c then False else isnumeric cs)"

lemma isnumeric_iff: "isnumeric s \<longleftrightarrow> (\<forall>c \<in> set s. isdigit c)"
  by (induction s) auto

fun countp :: "string \<Rightarrow> nat \<Rightarrow> char \<Rightarrow> nat" where
  "countp s 0 p = 0"
| "countp [] (Suc n) p = 0"
| "countp (c # cs) (Suc n) p = (if c \<noteq> p then 0 else Suc (countp cs n p))"

definition in_range :: "nat \<Rightarrow> nat \<Rightarrow> nat \<Rightarrow> bool" where
  "in_range index lo hi \<longleftrightarrow> index \<ge> lo \<and> index \<le> hi"

lemma countp_eq: "n \<le> length s \<Longrightarrow> countp s n p = length (takeWhile (\<lambda>c. c = p) (take n s))"
  by (induction s n p rule: countp.induct) auto

lemma sdiv_10: "0 \<le> v \<Longrightarrow> v sdiv 10 = v div (10::int)"
  by (simp add: signed_divide_int_def sgn_if)

lemma intlen_show_digits: "0 \<le> v \<Longrightarrow> intlen v = length (show_digits v)"
proof (induction v rule: show_digits.induct)
  case (1 v)
  then show ?case
    by (subst intlen.simps, subst show_digits.simps) (auto simp: sdiv_10 Let_def)
qed

lemma intlen_negative: "v < 0 \<Longrightarrow> intlen v = 1"
  by (subst intlen.simps) (auto simp: signed_divide_int_def sgn_if Let_def)

lemma intlen_show_int: "0 \<le> v \<Longrightarrow> length (show_int v) = intlen v"
  by (simp add: show_int_def intlen_show_digits)

lemma snprintf_intlen: "0 \<le> v \<Longrightarrow> snprintf (intlen v + 1) (show_int v) = show_int v"
  by (simp add: snprintf_def intlen_show_int[symmetric])

section \<open>basename and normpath\<close>

text \<open>The offset of the last component: the loop of \<open>strchr\<close> calls.\<close>

function basename_from :: "string \<Rightarrow> nat \<Rightarrow> nat" where
  "basename_from path last_comp =
     (case strstr path last_comp ''/'' of
        None \<Rightarrow> last_comp
      | Some slash_at \<Rightarrow> basename_from path (slash_at + 1))"
  by pat_completeness auto
termination
proof (relation "measure (\<lambda>(path, last_comp). length path - last_comp)")
  fix path last_comp slash_at
  assume "strstr path last_comp ''/'' = Some slash_at"
  then have "last_comp \<le> slash_at" "slash_at < length path"
    using strstr_SomeD(1) strstr_char_nth(1) by blast+
  then show "((path, slash_at + 1), path, last_comp) \<in> measure (\<lambda>(path, last_comp). length path - last_comp)"
    by auto
qed simp

declare basename_from.simps [simp del]

definition basename :: "string \<Rightarrow> nat" where
  "basename path = basename_from path 0"

text \<open>\<open>*((char* ) basename(s) - 1) = '\0'\<close>: undefined when it writes before the string.\<close>

definition cut_last :: "string \<Rightarrow> string option" where
  "cut_last s = (if basename s = 0 then None else Some (take (basename s - 1) s))"

text \<open>
  One separator of \<open>normpath\<close>: \<open>comp'\<close> holds the characters from \<open>comp_start\<close> to the
  separator \<open>ch\<close> (NUL at the end of the path).
\<close>

definition normpath_comp :: "nat \<Rightarrow> string \<Rightarrow> char \<Rightarrow> string \<Rightarrow> string option" where
  "normpath_comp cap comp' ch norm =
     (if length comp' < 1 \<or> (length comp' = 1 \<and> ch = CHR ''/'') then Some norm
      else if \<not> prefix ''..'' comp' \<or> (norm \<noteq> [] \<and> prefix ''..'' (drop (basename norm) norm))
           then strcats cap norm [''/'', comp']
      else if norm \<noteq> [] then cut_last norm
      else Some norm)"

fun normpath_loop :: "nat \<Rightarrow> string \<Rightarrow> string \<Rightarrow> string \<Rightarrow> string option" where
  "normpath_loop cap comp' norm [] = normpath_comp cap comp' nul norm"
| "normpath_loop cap comp' norm (c # cs) =
     (if c = CHR ''/''
      then do { norm \<leftarrow> normpath_comp cap comp' c norm; normpath_loop cap [] norm cs }
      else normpath_loop cap (comp' @ [c]) norm cs)"

definition normpath :: "platform \<Rightarrow> string \<Rightarrow> string option" where
  "normpath p path =
     (let cap = length path + 1 + 1 in
      if \<not> malloc p AtPath cap then None
      else do {
        norm \<leftarrow> normpath_loop cap [] [] path;
        if norm = [] then strcat cap norm ''/'' else Some norm })"

section \<open>httpnormpath\<close>

fun cut_times :: "nat \<Rightarrow> string \<Rightarrow> string option" where
  "cut_times 0 norm = Some norm"
| "cut_times (Suc n) norm = do { norm \<leftarrow> cut_last norm; cut_times n norm }"

definition httpnormpath_comp :: "nat \<Rightarrow> string \<Rightarrow> string \<Rightarrow> string option" where
  "httpnormpath_comp cap comp' norm =
     (let comp_length = length comp';
          dotted = countp comp' comp_length CHR ''.'';
          bname = drop (basename norm) norm;
          bname_length = length bname
      in if \<not> (in_range comp_length 1 2 \<and> dotted = comp_length) \<or>
            (in_range bname_length 1 2 \<and> countp bname bname_length CHR ''.'' = bname_length)
         then strcats cap norm [''/'', comp']
         else if norm \<noteq> [] then cut_times dotted norm
         else Some norm)"

fun httpnormpath_loop ::
  "nat \<Rightarrow> string \<Rightarrow> string \<Rightarrow> string \<Rightarrow> (string \<times> string option) option" where
  "httpnormpath_loop cap comp' norm [] =
     (if comp' = [] then Some (norm, None)
      else do { norm \<leftarrow> httpnormpath_comp cap comp' norm; Some (norm, None) })"
| "httpnormpath_loop cap comp' norm (c # cs) =
     (let query_or_fragment = (c = CHR ''?'' \<or> c = CHR ''#'') in
      if c = CHR ''/'' \<or> query_or_fragment then
        if comp' = [] then httpnormpath_loop cap [] norm cs
        else do {
          norm \<leftarrow> httpnormpath_comp cap comp' norm;
          if query_or_fragment then Some (norm, Some (c # cs))
          else httpnormpath_loop cap [] norm cs }
      else httpnormpath_loop cap (comp' @ [c]) norm cs)"

definition httpnormpath :: "nat \<Rightarrow> string \<Rightarrow> string option" where
  "httpnormpath cap path = do {
     (norm, suffix) \<leftarrow> httpnormpath_loop cap [] [] path;
     norm \<leftarrow> (if norm = [] then strcat cap norm ''/'' else Some norm);
     (case suffix of None \<Rightarrow> Some norm | Some s \<Rightarrow> strcat cap norm s) }"

end
