(* ===== verification/URI.thy ===== *)
theory URI
  imports Utils Errors
begin

text \<open>
  \<open>src/uri.h\<close> and \<open>src/uri.c\<close>: the URI record, the parser \<open>parse_uri\<close> in the
  stages the C function goes through (scheme, user information, the search for
  the delimiters, port, host, fragment, query, path), \<open>uri_parse\<close>,
  \<open>uri_stringify\<close>, \<open>uri_free\<close> and the percent decoder.  Pointers into the URI
  are offsets; a pointer that is NULL is None.
\<close>

section \<open>Constants and data\<close>

definition HTTP_SCHEME :: string where "HTTP_SCHEME = ''http''"
definition HTTPS_SCHEME :: string where "HTTPS_SCHEME = ''https''"
definition HTTP_PORT :: int where "HTTP_PORT = 80"
definition HTTPS_PORT :: int where "HTTPS_PORT = 443"
definition SCHEME_SEPARATOR :: string where "SCHEME_SEPARATOR = ''://''"

definition MIN_HOSTNAME_SIZE :: nat where "MIN_HOSTNAME_SIZE = 4"
definition MAX_HOSTNAME_SIZE :: nat where "MAX_HOSTNAME_SIZE = 253"
definition MIN_LABEL_SIZE :: nat where "MIN_LABEL_SIZE = 1"
definition MAX_LABEL_SIZE :: nat where "MAX_LABEL_SIZE = 63"
definition MIN_IPV6_ADDRESS_SIZE :: nat where "MIN_IPV6_ADDRESS_SIZE = 2"
definition MAX_IPV6_ADDRESS_SIZE :: nat where "MAX_IPV6_ADDRESS_SIZE = 39"
definition MIN_PORT_NUMBER :: int where "MIN_PORT_NUMBER = 1"
definition MAX_PORT_NUMBER :: int where "MAX_PORT_NUMBER = 65535"

definition URI_SAFE_SYMBOLS :: string where
  "URI_SAFE_SYMBOLS = ''!#$%&'' @ [CHR 0x27] @ ''()*+,-./:;=?@[]_~''"
definition SCHEME_SAFE_SYMBOLS :: string where "SCHEME_SAFE_SYMBOLS = ''+.-''"

lemmas uri_consts = HTTP_SCHEME_def HTTPS_SCHEME_def HTTP_PORT_def HTTPS_PORT_def
  SCHEME_SEPARATOR_def MIN_HOSTNAME_SIZE_def MAX_HOSTNAME_SIZE_def MIN_LABEL_SIZE_def
  MAX_LABEL_SIZE_def MIN_IPV6_ADDRESS_SIZE_def MAX_IPV6_ADDRESS_SIZE_def
  MIN_PORT_NUMBER_def MAX_PORT_NUMBER_def SCHEME_SAFE_SYMBOLS_def

record uri =
  uri_is_ipv6 :: bool
  uri_has_authentication :: bool
  uri_username :: "string option"
  uri_password :: "string option"
  uri_scheme :: "string option"
  uri_hostname :: "string option"
  uri_port :: int
  uri_path :: "string option"
  uri_query :: "string option"
  uri_fragment :: "string option"

text \<open>\<open>struct URI uri = {0}\<close>\<close>

definition zero_uri :: uri where
  "zero_uri = \<lparr>uri_is_ipv6 = False, uri_has_authentication = False, uri_username = None,
     uri_password = None, uri_scheme = None, uri_hostname = None, uri_port = 0,
     uri_path = None, uri_query = None, uri_fragment = None\<rparr>"

definition uri_free :: "uri \<Rightarrow> uri" where
  "uri_free obj = obj\<lparr>uri_is_ipv6 := False, uri_scheme := None, uri_username := None,
     uri_password := None, uri_has_authentication := False, uri_hostname := None,
     uri_port := 0, uri_path := None, uri_query := None, uri_fragment := None\<rparr>"

lemma uri_free_zero [simp]: "uri_free obj = zero_uri"
  by (simp add: uri_free_def zero_uri_def)

abbreviation return_err :: "unalixerr \<Rightarrow> uri \<Rightarrow> ((unalixerr \<times> uri) + 'a) option" where
  "return_err e obj \<equiv> Some (Inl (e, obj))"

section \<open>parse_uri: scheme\<close>

text \<open>
  The \<open>for\<close> loop over the scheme: \<open>done\<close> holds the characters before \<open>index\<close>,
  already lowered in place.
\<close>

fun scheme_loop :: "string \<Rightarrow> string \<Rightarrow> (unalixerr \<times> string) + string" where
  "scheme_loop before [] = Inr before"
| "scheme_loop before (ch # rest) =
     (if before = [] \<and> \<not> isalpha ch then
        Inl (UNALIXERR_URI_SCHEME_SHOULD_STARTS_WITH_LETTER, before @ ch # rest)
      else if \<not> (isalnum ch \<or> strchr_in SCHEME_SAFE_SYMBOLS ch) then
        Inl (UNALIXERR_URI_SCHEME_CONTAINS_INVALID_CHARACTER, before @ ch # rest)
      else scheme_loop (before @ [lower ch]) rest)"

definition parse_scheme :: "platform \<Rightarrow> uri \<Rightarrow> string \<Rightarrow> ((unalixerr \<times> uri) + (uri \<times> nat)) option" where
  "parse_scheme p obj uri =
     (case strstr uri 0 SCHEME_SEPARATOR of
        None \<Rightarrow> return_err UNALIXERR_URI_SCHEME_MISSING obj
      | Some scheme_end \<Rightarrow>
          let scheme_size = size_diff scheme_end 0 in
          if scheme_size < 1 then return_err UNALIXERR_URI_SCHEME_EMPTY obj
          else (case dup_range p AtScheme uri 0 scheme_size of
              None \<Rightarrow> None
            | Some None \<Rightarrow> return_err UNALIXERR_MEMORY_ALLOCATE_FAILURE (obj\<lparr>uri_scheme := None\<rparr>)
            | Some (Some scheme) \<Rightarrow>
                (case scheme_loop [] scheme of
                   Inl (e, s) \<Rightarrow> return_err e (obj\<lparr>uri_scheme := Some s\<rparr>)
                 | Inr s \<Rightarrow> Some (Inr (obj\<lparr>uri_scheme := Some s\<rparr>, scheme_end + length SCHEME_SEPARATOR)))))"

section \<open>parse_uri: user information\<close>

text \<open>
  The statement group that stores a component whose size is not 0:
  \<open>if (n > 0) { obj->f = malloc(n + 1); if (obj->f == NULL) return ...; memcpy ... }\<close>
\<close>

definition store_range ::
  "platform \<Rightarrow> site \<Rightarrow> string \<Rightarrow> nat \<Rightarrow> nat \<Rightarrow> (string option \<Rightarrow> uri \<Rightarrow> uri) \<Rightarrow> uri
     \<Rightarrow> ((unalixerr \<times> uri) + uri) option" where
  "store_range p at s a n set_field obj =
     (if n > 0 then
        (case dup_range p at s a n of
           None \<Rightarrow> None
         | Some None \<Rightarrow> return_err UNALIXERR_MEMORY_ALLOCATE_FAILURE (set_field None obj)
         | Some (Some t) \<Rightarrow> Some (Inr (set_field (Some t) obj)))
      else Some (Inr obj))"

definition parse_authentication ::
  "platform \<Rightarrow> uri \<Rightarrow> string \<Rightarrow> nat \<Rightarrow> ((unalixerr \<times> uri) + (uri \<times> nat option)) option" where
  "parse_authentication p obj uri authentication_start =
     (case strstr uri authentication_start ''@'' of
        None \<Rightarrow> Some (Inr (obj, None))
      | Some authentication_end \<Rightarrow>
          let separator = (case strstr uri authentication_start '':'' of
                  None \<Rightarrow> authentication_end
                | Some s \<Rightarrow> if s > authentication_end then authentication_end else s);
              username_size = size_diff separator authentication_start
          in stage
               (store_range p AtUsername uri authentication_start username_size
                  (\<lambda>v obj. obj\<lparr>uri_username := v,
                      uri_has_authentication := uri_has_authentication obj \<or> v \<noteq> None\<rparr>) obj)
               (\<lambda>obj.
                  let separator = (if separator \<noteq> authentication_end then separator + 1 else separator);
                      password_size = size_diff authentication_end separator
                  in stage
                       (store_range p AtPassword uri separator password_size
                          (\<lambda>v obj. obj\<lparr>uri_password := v,
                              uri_has_authentication := uri_has_authentication obj \<or> v \<noteq> None\<rparr>) obj)
                       (\<lambda>obj. Some (Inr (obj, Some authentication_end)))))"

section \<open>parse_uri: the delimiters\<close>

text \<open>The local pointers of the function after the user information.\<close>

record cursors =
  hostname_start :: nat
  hostname_end :: "nat option"
  path_start :: "nat option"
  query_start :: "nat option"
  fragment_start :: "nat option"
  port_start :: "nat option"
  is_ipv6 :: bool

definition char_at :: "string \<Rightarrow> nat \<Rightarrow> char" where
  "char_at s i = (if i < length s then s ! i else nul)"

definition locate_authority ::
  "uri \<Rightarrow> string \<Rightarrow> nat \<Rightarrow> nat option \<Rightarrow> ((unalixerr \<times> uri) + cursors) option" where
  "locate_authority obj uri authentication_start authentication_end =
     (let h = (case authentication_end of None \<Rightarrow> authentication_start | Some e \<Rightarrow> e + 1);
          c = \<lparr>hostname_start = h, hostname_end = None,
               path_start = strstr uri h ''/'', query_start = strstr uri h ''?'',
               fragment_start = strstr uri h ''#'', port_start = strstr uri h '':'',
               is_ipv6 = (char_at uri h = CHR ''['')\<rparr>
      in if is_ipv6 c then
           (case strstr uri h '']'' of
              None \<Rightarrow> return_err UNALIXERR_URI_HOSTNAME_MISSING_CLOSING_BRACKET obj
            | Some e \<Rightarrow> Some (Inr (c\<lparr>hostname_end := Some e,
                 port_start := (if port_start c \<noteq> None then strstr uri e '':'' else None),
                 hostname_start := h + 1\<rparr>)))
         else Some (Inr c))"

section \<open>parse_uri: port\<close>

text \<open>
  The end of the port.  When there is a query and no path the code takes
  \<open>path_start\<close>, which is NULL then; no pointer is less than NULL.
\<close>

definition port_end :: "string \<Rightarrow> cursors \<Rightarrow> nat option" where
  "port_end uri c =
     (if path_start c \<noteq> None then path_start c
      else if query_start c \<noteq> None then path_start c
      else if fragment_start c \<noteq> None then fragment_start c
      else Some (length uri))"

definition store_port :: "uri \<Rightarrow> string \<Rightarrow> nat \<Rightarrow> nat \<Rightarrow> ((unalixerr \<times> uri) + uri) option" where
  "store_port obj uri start port_size =
     (if port_size > 0 then
        (case memcpy_range uri start port_size of
           None \<Rightarrow> None
         | Some v \<Rightarrow>
             if \<not> isnumeric v then return_err UNALIXERR_URI_PORT_CONTAINS_INVALID_CHARACTER obj
             else let obj = obj\<lparr>uri_port := atoi v\<rparr> in
               if uri_port obj < MIN_PORT_NUMBER then return_err UNALIXERR_URI_PORT_OUT_OF_RANGE obj
               else if uri_port obj > MAX_PORT_NUMBER then return_err UNALIXERR_URI_PORT_OUT_OF_RANGE obj
               else Some (Inr obj))
      else Some (Inr obj))"

definition parse_port :: "uri \<Rightarrow> string \<Rightarrow> cursors \<Rightarrow> ((unalixerr \<times> uri) + (uri \<times> cursors)) option" where
  "parse_port obj uri c =
     (case (port_start c, port_end uri c) of
        (Some s, Some e) \<Rightarrow>
          if s < e then
            stage (store_port obj uri (s + 1) (size_diff e (s + 1)))
              (\<lambda>obj. Some (Inr (obj, if \<not> is_ipv6 c then c\<lparr>hostname_end := Some s\<rparr> else c)))
          else Some (Inr (obj, c))
      | _ \<Rightarrow> Some (Inr (obj, c)))"

section \<open>parse_uri: host\<close>

definition host_end :: "string \<Rightarrow> cursors \<Rightarrow> nat" where
  "host_end uri c =
     (case hostname_end c of Some e \<Rightarrow> e
      | None \<Rightarrow> (case path_start c of Some e \<Rightarrow> e
      | None \<Rightarrow> (case query_start c of Some e \<Rightarrow> e
      | None \<Rightarrow> (case fragment_start c of Some e \<Rightarrow> e
      | None \<Rightarrow> length uri))))"

text \<open>The tests at the end of a label of \<open>n\<close> characters, at a dot or the terminator.\<close>

definition label_end :: "string \<Rightarrow> nat \<Rightarrow> unalixerr option" where
  "label_end before n =
     (if n < MIN_LABEL_SIZE then Some UNALIXERR_URI_HOSTNAME_LABEL_EMPTY
      else if n > MAX_LABEL_SIZE then Some UNALIXERR_URI_HOSTNAME_LABEL_TOO_LONG
      else if last before = CHR ''-'' then Some UNALIXERR_URI_HOSTNAME_LABEL_CONNOT_ENDS_WITH_HYPHEN
      else None)"

text \<open>
  The \<open>for\<close> loop over the host name and its terminator: \<open>before\<close> holds the
  characters passed, already lowered; \<open>n\<close> is \<open>label_length\<close>.
\<close>

fun label_loop :: "string \<Rightarrow> nat \<Rightarrow> string \<Rightarrow> (unalixerr \<times> string) + string" where
  "label_loop before n [] =
     (case label_end before n of Some e \<Rightarrow> Inl (e, before) | None \<Rightarrow> Inr before)"
| "label_loop before n (ch # rest) =
     (if n = 0 \<and> ch = CHR ''-'' then
        Inl (UNALIXERR_URI_HOSTNAME_LABEL_CONNOT_STARTS_WITH_HYPHEN, before @ ch # rest)
      else if ch = CHR ''.'' then
        (case label_end before n of
           Some e \<Rightarrow> Inl (e, before @ ch # rest)
         | None \<Rightarrow> label_loop (before @ [ch]) 0 rest)
      else if \<not> (isalnum ch \<or> ch = CHR ''-'') then
        Inl (UNALIXERR_URI_HOSTNAME_LABEL_CONTAINS_INVALID_CHARACTER, before @ ch # rest)
      else label_loop (before @ [lower ch]) (Suc n) rest)"

definition hostname_size_error :: "bool \<Rightarrow> nat \<Rightarrow> unalixerr option" where
  "hostname_size_error ipv6 n =
     (if ipv6 then
        (if n < MIN_IPV6_ADDRESS_SIZE then Some UNALIXERR_URI_IPV6_ADDRESS_TOO_SHORT
         else if n > MAX_IPV6_ADDRESS_SIZE then Some UNALIXERR_URI_IPV6_ADDRESS_TOO_LONG
         else None)
      else
        (if n < MIN_HOSTNAME_SIZE then Some UNALIXERR_URI_HOSTNAME_TOO_SHORT
         else if n > MAX_HOSTNAME_SIZE then Some UNALIXERR_URI_HOSTNAME_TOO_LONG
         else None))"

definition parse_hostname :: "platform \<Rightarrow> uri \<Rightarrow> string \<Rightarrow> cursors \<Rightarrow> ((unalixerr \<times> uri) + uri) option" where
  "parse_hostname p obj uri c =
     (let hostname_size = size_diff (host_end uri c) (hostname_start c) in
      case hostname_size_error (is_ipv6 c) hostname_size of
        Some e \<Rightarrow> return_err e obj
      | None \<Rightarrow>
          (case dup_range p AtHostname uri (hostname_start c) hostname_size of
             None \<Rightarrow> None
           | Some None \<Rightarrow> return_err UNALIXERR_MEMORY_ALLOCATE_FAILURE (obj\<lparr>uri_hostname := None\<rparr>)
           | Some (Some h) \<Rightarrow>
               if is_ipv6 c then
                 if \<not> isipv6 p h then
                   return_err UNALIXERR_URI_IPV6_ADDRESS_INVALID (obj\<lparr>uri_hostname := Some h\<rparr>)
                 else Some (Inr (obj\<lparr>uri_hostname := Some h, uri_is_ipv6 := True\<rparr>))
               else
                 (case label_loop [] 0 h of
                    Inl (e, h') \<Rightarrow> return_err e (obj\<lparr>uri_hostname := Some h'\<rparr>)
                  | Inr h' \<Rightarrow> Some (Inr (obj\<lparr>uri_hostname := Some h', uri_is_ipv6 := False\<rparr>)))))"

section \<open>parse_uri: fragment, query, path\<close>

definition parse_fragment :: "platform \<Rightarrow> uri \<Rightarrow> string \<Rightarrow> cursors \<Rightarrow> ((unalixerr \<times> uri) + uri) option" where
  "parse_fragment p obj uri c =
     (case fragment_start c of
        None \<Rightarrow> Some (Inr obj)
      | Some f \<Rightarrow> store_range p AtFragment uri (f + 1) (size_diff (length uri) (f + 1))
                    (\<lambda>v obj. obj\<lparr>uri_fragment := v\<rparr>) obj)"

definition parse_query :: "platform \<Rightarrow> uri \<Rightarrow> string \<Rightarrow> cursors \<Rightarrow> ((unalixerr \<times> uri) + uri) option" where
  "parse_query p obj uri c =
     (case query_start c of
        None \<Rightarrow> Some (Inr obj)
      | Some q \<Rightarrow> store_range p AtQuery uri (q + 1)
                    (size_diff (case fragment_start c of None \<Rightarrow> length uri | Some f \<Rightarrow> f) (q + 1))
                    (\<lambda>v obj. obj\<lparr>uri_query := v\<rparr>) obj)"

definition parse_path :: "platform \<Rightarrow> uri \<Rightarrow> string \<Rightarrow> cursors \<Rightarrow> ((unalixerr \<times> uri) + uri) option" where
  "parse_path p obj uri c =
     (case path_start c of
        None \<Rightarrow> Some (Inr obj)
      | Some s \<Rightarrow> store_range p AtPath uri (s + 1)
                    (size_diff (case query_start c of None \<Rightarrow> length uri | Some q \<Rightarrow> q) (s + 1))
                    (\<lambda>v obj. obj\<lparr>uri_path := v\<rparr>) obj)"

section \<open>parse_uri and uri_parse\<close>

definition parse_uri :: "platform \<Rightarrow> uri \<Rightarrow> string \<Rightarrow> (unalixerr \<times> uri) option" where
  "parse_uri p obj uri = body (
     stage (parse_scheme p obj uri) (\<lambda>(obj, authentication_start).
     stage (parse_authentication p obj uri authentication_start) (\<lambda>(obj, authentication_end).
     stage (locate_authority obj uri authentication_start authentication_end) (\<lambda>c.
     stage (parse_port obj uri c) (\<lambda>(obj, c).
     stage (parse_hostname p obj uri c) (\<lambda>obj.
     stage (parse_fragment p obj uri c) (\<lambda>obj.
     stage (parse_query p obj uri c) (\<lambda>obj.
     stage (parse_path p obj uri c) (\<lambda>obj.
     Some (Inr (UNALIXERR_SUCCESS, obj)))))))))))"

definition uri_parse :: "platform \<Rightarrow> uri \<Rightarrow> string \<Rightarrow> (unalixerr \<times> uri) option" where
  "uri_parse p obj uri = do {
     (e, obj) \<leftarrow> parse_uri p obj uri;
     Some (e, if e \<noteq> UNALIXERR_SUCCESS then uri_free obj else obj) }"

section \<open>uri_stringify\<close>

definition opt_len :: "string option \<Rightarrow> nat" where
  "opt_len v = (case v of None \<Rightarrow> 0 | Some s \<Rightarrow> length s)"

definition opt_str :: "string option \<Rightarrow> string" where
  "opt_str v = (case v of None \<Rightarrow> [] | Some s \<Rightarrow> s)"

definition uri_mem_size :: "uri \<Rightarrow> nat" where
  "uri_mem_size obj =
     (if uri_scheme obj \<noteq> None then opt_len (uri_scheme obj) + length SCHEME_SEPARATOR else 0) +
     (if uri_has_authentication obj
      then opt_len (uri_username obj) + opt_len (uri_password obj) + (1 + 1) else 0) +
     (if uri_hostname obj \<noteq> None
      then opt_len (uri_hostname obj) + (if uri_is_ipv6 obj then 1 + 1 else 0) else 0) +
     (if uri_port obj > 0 then 1 + intlen (uri_port obj) else 0) +
     1 +
     opt_len (uri_path obj) +
     (if uri_query obj \<noteq> None then 1 + opt_len (uri_query obj) else 0) +
     (if uri_fragment obj \<noteq> None then 1 + opt_len (uri_fragment obj) else 0)"

text \<open>The arguments of the \<open>strcat\<close> calls, in order.\<close>

definition uri_parts :: "uri \<Rightarrow> string list" where
  "uri_parts obj =
     (case uri_scheme obj of None \<Rightarrow> [] | Some s \<Rightarrow> [s, SCHEME_SEPARATOR]) @
     (if uri_has_authentication obj then
        (case uri_username obj of None \<Rightarrow> [] | Some s \<Rightarrow> [s]) @ ['':''] @
        (case uri_password obj of None \<Rightarrow> [] | Some s \<Rightarrow> [s]) @ [''@'']
      else []) @
     (case uri_hostname obj of None \<Rightarrow> []
      | Some s \<Rightarrow> (if uri_is_ipv6 obj then [''['', s, '']''] else [s])) @
     (if uri_port obj > 0 then
        ['':'', snprintf (intlen (uri_port obj) + 1) (show_int (uri_port obj))] else []) @
     [''/''] @
     (case uri_path obj of None \<Rightarrow> [] | Some s \<Rightarrow> [s]) @
     (case uri_query obj of None \<Rightarrow> [] | Some s \<Rightarrow> [''?'', s]) @
     (case uri_fragment obj of None \<Rightarrow> [] | Some s \<Rightarrow> [''#'', s])"

text \<open>\<open>malloc\<close> is not checked: \<open>memset(NULL, ...)\<close> is undefined.\<close>

definition uri_stringify :: "platform \<Rightarrow> uri \<Rightarrow> string option" where
  "uri_stringify p obj =
     (let cap = uri_mem_size obj + 1 in
      if \<not> malloc p AtBuffer cap then None else strcats cap [] (uri_parts obj))"

section \<open>Percent decoding\<close>

definition from_hex :: "char \<Rightarrow> char" where
  "from_hex ch =
     (if code ch \<le> 57 \<and> code ch \<ge> 48 then char_of (code ch - 48)
      else if code ch \<le> 102 \<and> code ch \<ge> 97 then char_of (code ch - (97 - 10))
      else if code ch \<le> 70 \<and> code ch \<ge> 65 then char_of (code ch - (65 - 10))
      else nul)"

text \<open>
  The bytes written to \<open>dst\<close> before the terminator; a decoded \<open>%00\<close> is one of
  them, so as a C string the result is \<open>c_str\<close> of these bytes.
\<close>

fun rfc3986_unquote_safe :: "string \<Rightarrow> string" where
  "rfc3986_unquote_safe [] = []"
| "rfc3986_unquote_safe (ch # rest) =
     (if ch = CHR ''%'' \<and> length rest \<ge> 2 then
        let ch1 = from_hex (rest ! 0);
            ch2 = from_hex (rest ! 1);
            c = char_of ((code ch1 * 16 + code ch2) mod 256)
        in if isalnum ch \<or> strchr_in URI_SAFE_SYMBOLS ch
           then c # rfc3986_unquote_safe (drop 2 rest)
           else ch # rfc3986_unquote_safe rest
      else ch # rfc3986_unquote_safe rest)"

end
