(* ===== verification/Accounting.thy ===== *)
theory Accounting
  imports CString Errors
begin

text \<open>
  The interface between the growable arrays of the library (the parameters of a
  query, the headers of a message) and the routines that print them: an append
  operation keeps \<open>slength\<close>, the number of characters the array prints to, and
  the printing loop writes into a buffer of \<open>slength + 1\<close> bytes without a check.
\<close>

section \<open>Joining and printing\<close>

fun join :: "string \<Rightarrow> string list \<Rightarrow> string" where
  "join sep [] = []"
| "join sep [x] = x"
| "join sep (x # y # zs) = x @ sep @ join sep (y # zs)"

lemma join_Cons: "join sep (x # xs) = x @ (if xs = [] then [] else sep @ join sep xs)"
  by (cases xs) simp_all

lemma join_snoc: "join sep (xs @ [x]) = (if xs = [] then x else join sep xs @ sep @ x)"
  by (induction xs) (simp_all add: join_Cons)

lemma join_Nil: "[] \<notin> set xs \<Longrightarrow> join sep xs = [] \<longleftrightarrow> xs = []"
  by (cases xs) (auto simp: join_Cons)

text \<open>
  The loop \<open>for (...) { if (*dst != '\0') strcat(dst, sep); strcat(dst, ...); ... }\<close>
  on a buffer of \<open>cap\<close> bytes; \<open>parts x\<close> are the strings appended for \<open>x\<close>, in order.
\<close>

fun print_items :: "nat \<Rightarrow> string \<Rightarrow> ('a \<Rightarrow> string list) \<Rightarrow> string \<Rightarrow> 'a list \<Rightarrow> string option" where
  "print_items cap sep parts dst [] = Some dst"
| "print_items cap sep parts dst (x # xs) = do {
     dst \<leftarrow> strcats cap dst ((if dst \<noteq> [] then [sep] else []) @ parts x);
     print_items cap sep parts dst xs }"

text \<open>What printing \<open>x\<close> appends to a buffer that is empty or not.\<close>

abbreviation rendered :: "('a \<Rightarrow> string list) \<Rightarrow> 'a list \<Rightarrow> string list" where
  "rendered parts xs \<equiv> map (\<lambda>x. concat (parts x)) xs"

lemma join_rendered_Nil:
  "(\<And>x. concat (parts x) \<noteq> []) \<Longrightarrow> join sep (rendered parts xs) = [] \<longleftrightarrow> xs = []"
  by (cases xs) (simp_all only: join_Cons list.map append_is_Nil_conv, simp_all)

lemma print_items_app:
  assumes "\<And>x. concat (parts x) \<noteq> []"
    and "length (join sep (rendered parts (ys @ xs))) + 1 \<le> cap"
  shows "print_items cap sep parts (join sep (rendered parts ys)) xs =
     Some (join sep (rendered parts (ys @ xs)))"
  using assms(2)
proof (induction xs arbitrary: ys)
  case Nil
  then show ?case by simp
next
  case (Cons x xs)
  have empty: "join sep (rendered parts ys) = [] \<longleftrightarrow> ys = []"
    by (rule join_rendered_Nil[OF assms(1)])
  have prefix: "length (join sep (rendered parts (ys @ [x]))) \<le> length (join sep (rendered parts (ys @ x # xs)))"
    by (induction ys) (auto simp: join_Cons)
  have "strcats cap (join sep (rendered parts ys))
      ((if join sep (rendered parts ys) \<noteq> [] then [sep] else []) @ parts x) =
      Some (join sep (rendered parts (ys @ [x])))"
    using Cons.prems prefix by (subst strcats_fits) (auto simp: empty join_snoc)
  then show ?case
    using Cons.IH[of "ys @ [x]"] Cons.prems by simp
qed

lemma print_items_fits:
  assumes "\<And>x. concat (parts x) \<noteq> []" "length (join sep (rendered parts xs)) + 1 \<le> cap"
  shows "print_items cap sep parts [] xs = Some (join sep (rendered parts xs))"
  using print_items_app[of parts sep "[]" xs cap] assms by simp

text \<open>A buffer that is too small is overrun, whatever is in it.\<close>

lemma print_items_Some:
  "print_items cap sep parts dst xs = Some t \<Longrightarrow> length dst + 1 \<le> cap \<Longrightarrow>
     length t + 1 \<le> cap \<and> length dst \<le> length t"
proof (induction xs arbitrary: dst)
  case (Cons x xs)
  let ?ss = "(if dst \<noteq> [] then [sep] else []) @ parts x"
  from Cons.prems(1) obtain d where d: "strcats cap dst ?ss = Some d" "print_items cap sep parts d xs = Some t"
    by (auto simp: bind_eq_Some_conv)
  have "length dst + length (concat ?ss) + 1 \<le> cap"
    using strcats_overflows[of dst cap ?ss] Cons.prems(2) d(1) by (cases "cap < length dst + length (concat ?ss) + 1") auto
  with strcats_Some[OF d(1)] have "length d + 1 \<le> cap" "length dst \<le> length d"
    by simp_all
  with Cons.IH[OF d(2)] show ?case by auto
qed simp

text \<open>A run of appends that stops at the first error, as the parsers do.\<close>

fun push_all ::
  "('s \<Rightarrow> 'x \<Rightarrow> (unalixerr \<times> 's) option) \<Rightarrow> 's \<Rightarrow> 'x list \<Rightarrow> (unalixerr \<times> 's) option" where
  "push_all push s [] = Some (UNALIXERR_SUCCESS, s)"
| "push_all push s (x # xs) = do {
     (e, s) \<leftarrow> push s x;
     if e \<noteq> UNALIXERR_SUCCESS then Some (e, s) else push_all push s xs }"

text \<open>A larger buffer changes nothing, so what is printed does not depend on it.\<close>

lemma strcats_larger: "strcats cap d ss = Some t \<Longrightarrow> cap \<le> cap' \<Longrightarrow> strcats cap' d ss = Some t"
  by (induction ss arbitrary: d) (auto simp: strcat_def bind_eq_Some_conv split: if_splits)

lemma print_items_larger:
  "print_items cap sep parts dst xs = Some t \<Longrightarrow> cap \<le> cap' \<Longrightarrow> print_items cap' sep parts dst xs = Some t"
proof (induction xs arbitrary: dst)
  case (Cons x xs)
  from Cons.prems(1) obtain d where
    "strcats cap dst ((if dst \<noteq> [] then [sep] else []) @ parts x) = Some d" "print_items cap sep parts d xs = Some t"
    by (auto simp: bind_eq_Some_conv)
  with Cons.IH[of d] Cons.prems(2) strcats_larger[OF _ Cons.prems(2)] show ?case
    by (simp only: print_items.simps bind.bind_lunit)
qed simp

lemma print_items_exact:
  assumes "\<And>x. concat (parts x) \<noteq> []" "1 \<le> cap"
  shows "print_items cap sep parts [] xs =
     (if length (join sep (rendered parts xs)) + 1 \<le> cap then Some (join sep (rendered parts xs)) else None)"
proof (cases "print_items cap sep parts [] xs")
  case None
  then show ?thesis
    using print_items_fits[of parts sep xs cap] assms(1) by auto
next
  case (Some t)
  let ?n = "cap + length (join sep (rendered parts xs)) + 1"
  have "print_items ?n sep parts [] xs = Some t"
    by (rule print_items_larger[OF Some]) simp
  moreover have "print_items ?n sep parts [] xs = Some (join sep (rendered parts xs))"
    by (rule print_items_fits[OF assms(1)]) simp
  ultimately show ?thesis
    using Some print_items_Some[OF Some] assms(2) by auto
qed

section \<open>The interface\<close>

text \<open>
  \<open>push p s x\<close> appends the item \<open>mk x\<close> to the array \<open>s\<close>; the providers are
  \<open>put_parameter\<close>, \<open>add_parameter\<close> and \<open>http_headers_add\<close>.  On an error the array
  is as before.
\<close>

locale accounted_array =
  fixes push :: "platform \<Rightarrow> 's \<Rightarrow> 'x \<Rightarrow> (unalixerr \<times> 's) option"
    and mk :: "'x \<Rightarrow> 'a"
    and items :: "'s \<Rightarrow> 'a list"
    and slen :: "'s \<Rightarrow> nat"
    and inv :: "'s \<Rightarrow> bool"
    and empty :: "'s"
    and sep :: string
    and parts :: "'a \<Rightarrow> string list"
  assumes push_ok: "inv s \<Longrightarrow> push p s x = Some (UNALIXERR_SUCCESS, t) \<Longrightarrow>
      inv t \<and> items t = items s @ [mk x] \<and>
      slen t = (if slen s > 0 then slen s + length sep else slen s) + length (concat (parts (mk x)))"
    and push_err: "inv s \<Longrightarrow> push p s x = Some (e, t) \<Longrightarrow> e \<noteq> UNALIXERR_SUCCESS \<Longrightarrow> t = s"
    and push_defined: "inv s \<Longrightarrow> \<exists>r. push p s x = Some r"
    and push_ample: "inv s \<Longrightarrow> ample p \<Longrightarrow> length (items s) < 2 ^ 58 \<Longrightarrow>
      length (concat (parts (mk x))) < PTRDIFF_MAX \<Longrightarrow> \<exists>t. push p s x = Some (UNALIXERR_SUCCESS, t)"
    and parts_nonempty: "concat (parts a) \<noteq> []"
    and empty: "inv empty" "items empty = []" "slen empty = 0"
begin

definition accounted :: "'s \<Rightarrow> bool" where
  "accounted s \<longleftrightarrow> inv s \<and> slen s = length (join sep (rendered parts (items s)))"

lemma accounted_empty: "accounted empty"
  by (simp add: accounted_def empty)

lemma slen_positive: "accounted s \<Longrightarrow> 0 < slen s \<longleftrightarrow> items s \<noteq> []"
  using join_rendered_Nil[of parts sep "items s", OF parts_nonempty]
  by (cases "items s") (auto simp: accounted_def)

lemma accounted_push:
  assumes "accounted s" "push p s x = Some (e, t)"
  shows "accounted t \<and> items t = (if e = UNALIXERR_SUCCESS then items s @ [mk x] else items s)"
proof (cases "e = UNALIXERR_SUCCESS")
  case True
  have "inv s"
    using assms(1) by (simp add: accounted_def)
  from push_ok[OF this] assms(2) True
  have t: "inv t" "items t = items s @ [mk x]"
    "slen t = (if slen s > 0 then slen s + length sep else slen s) + length (concat (parts (mk x)))"
    by auto
  have "slen t = length (join sep (rendered parts (items t)))"
    using t(2,3) slen_positive[OF assms(1)] assms(1) by (auto simp: accounted_def join_snoc)
  with t True show ?thesis
    by (simp add: accounted_def)
next
  case False
  then have "t = s"
    using assms push_err[of s p x e t] by (simp add: accounted_def)
  then show ?thesis
    using assms(1) False by simp
qed

lemma push_all_accounted:
  assumes "accounted s"
  shows "\<exists>e t. push_all (push p) s xs = Some (e, t) \<and> accounted t \<and>
     (if e = UNALIXERR_SUCCESS then items t = items s @ map mk xs
      else prefix (items t) (items s @ map mk xs))"
  using assms
proof (induction xs arbitrary: s)
  case Nil
  then show ?case by simp
next
  case (Cons x xs)
  have "inv s"
    using Cons.prems by (simp add: accounted_def)
  then obtain e t where push: "push p s x = Some (e, t)"
    using push_defined[of s p x] by auto
  note t = accounted_push[OF Cons.prems push]
  show ?case
  proof (cases "e = UNALIXERR_SUCCESS")
    case True
    from Cons.IH[of t] t obtain e' u where "push_all (push p) t xs = Some (e', u)" "accounted u"
      "if e' = UNALIXERR_SUCCESS then items u = items t @ map mk xs
       else prefix (items u) (items t @ map mk xs)"
      by auto
    then show ?thesis
      using t True push by (auto split: if_splits)
  next
    case False
    then show ?thesis
      using t push by simp
  qed
qed

lemma push_all_ample:
  assumes "accounted s" "ample p" "length (items s) + length xs < 2 ^ 58"
    and "\<forall>x \<in> set xs. length (concat (parts (mk x))) < PTRDIFF_MAX"
  shows "\<exists>t. push_all (push p) s xs = Some (UNALIXERR_SUCCESS, t) \<and> accounted t \<and> items t = items s @ map mk xs"
  using assms(1,3,4)
proof (induction xs arbitrary: s)
  case Nil
  then show ?case by simp
next
  case (Cons x xs)
  have "inv s"
    using Cons.prems(1) by (simp add: accounted_def)
  then obtain t where push: "push p s x = Some (UNALIXERR_SUCCESS, t)"
    using push_ample[of s p x] assms(2) Cons.prems(2,3) by auto
  have t: "accounted t" "items t = items s @ [mk x]"
    using accounted_push[OF Cons.prems(1) push] by simp_all
  then show ?case
    using Cons.IH[of t] Cons.prems(2,3) push by simp
qed

text \<open>An array whose \<open>slength\<close> is at least what it prints to, as after a release.\<close>

definition roomy :: "'s \<Rightarrow> bool" where
  "roomy s \<longleftrightarrow> inv s \<and> length (join sep (rendered parts (items s))) \<le> slen s"

lemma accounted_roomy: "accounted s \<Longrightarrow> roomy s"
  by (simp add: accounted_def roomy_def)

lemma roomy_push:
  assumes "roomy s" "push p s x = Some (UNALIXERR_SUCCESS, t)"
  shows "roomy t \<and> items t = items s @ [mk x]"
proof -
  have inv: "inv s" and len: "length (join sep (rendered parts (items s))) \<le> slen s"
    using assms(1) by (simp_all add: roomy_def)
  have "items s \<noteq> [] \<Longrightarrow> join sep (rendered parts (items s)) \<noteq> []"
    using join_rendered_Nil[of parts sep "items s", OF parts_nonempty] by simp
  then have "items s \<noteq> [] \<Longrightarrow> 0 < slen s"
    using len by (cases "join sep (rendered parts (items s))") auto
  then show ?thesis
    using push_ok[OF inv assms(2)] len by (auto simp: roomy_def join_snoc)
qed

lemma roomy_print:
  assumes "roomy s" "slen s + 1 \<le> cap"
  shows "print_items cap sep parts [] (items s) = Some (join sep (rendered parts (items s)))"
  using assms print_items_fits[of parts sep "items s" cap] parts_nonempty by (simp add: roomy_def)

lemma push_all_items:
  assumes "inv s" "ample p" "length (items s) + length xs < 2 ^ 58"
    and "\<forall>x \<in> set xs. length (concat (parts (mk x))) < PTRDIFF_MAX"
  shows "\<exists>t. push_all (push p) s xs = Some (UNALIXERR_SUCCESS, t) \<and> inv t \<and> items t = items s @ map mk xs"
  using assms(1,3,4)
proof (induction xs arbitrary: s)
  case (Cons x xs)
  obtain t where push: "push p s x = Some (UNALIXERR_SUCCESS, t)"
    using push_ample[of s p x] assms(2) Cons.prems by auto
  have "inv t" "items t = items s @ [mk x]"
    using push_ok[OF Cons.prems(1) push] by simp_all
  then show ?case
    using Cons.IH[of t] Cons.prems(2,3) push by simp
qed simp

lemma print_accounted:
  assumes "accounted s" "slen s + 1 \<le> cap"
  shows "print_items cap sep parts [] (items s) = Some (join sep (rendered parts (items s)))"
  using assms print_items_fits[of parts sep "items s" cap] parts_nonempty
  by (simp add: accounted_def)

end

end
