(* ===== verification/HTTP.thy ===== *)
theory HTTP
  imports URI Accounting
begin

text \<open>
  \<open>src/http.h\<close> and the request side of \<open>src/http.c\<close>: methods, versions and status
  codes, header lists, bodies, contexts, \<open>http_request_stringify\<close>, the \<open>Host\<close>
  header, \<open>http_request_set_url\<close>, \<open>http_request_set_uri\<close> and the functions that
  release a context.
\<close>

section \<open>Constants\<close>

definition PROTOCOL_NAME :: string where "PROTOCOL_NAME = ''HTTP''"
definition CRLF :: string where "CRLF = [CHR 0x0D, CHR 0x0A]"
definition CRLFCRLF :: string where "CRLFCRLF = [CHR 0x0D, CHR 0x0A, CHR 0x0D, CHR 0x0A]"
definition SLASH :: string where "SLASH = ''/''"
definition QUESTION_MARK :: string where "QUESTION_MARK = ''?''"
definition COLON :: string where "COLON = '':''"
definition SPACE :: string where "SPACE = '' ''"
definition HEADER_SEPARATOR :: string where "HEADER_SEPARATOR = '': ''"
definition HEADER_NAME_SAFE_SYMBOLS :: string where "HEADER_NAME_SAFE_SYMBOLS = ''-_''"
definition HEADER_VALUE_SAFE_SYMBOLS :: string where
  "HEADER_VALUE_SAFE_SYMBOLS = ''_ :;.,'' @ [CHR 0x5C] @ ''/'' @ [CHR 0x22, CHR 0x27] @ ''?!(){}[]@<>=-+*#$&'' @
     [CHR 0x60] @ ''|~^%''"
definition MAX_CHUNK_SIZE :: nat where "MAX_CHUNK_SIZE = 1024"
definition MAX_HEADERS_SIZE :: nat where "MAX_HEADERS_SIZE = MAX_CHUNK_SIZE * 10"

lemmas http_consts = PROTOCOL_NAME_def CRLF_def CRLFCRLF_def SLASH_def QUESTION_MARK_def COLON_def SPACE_def
  HEADER_SEPARATOR_def

fun header_name_safe :: "string \<Rightarrow> bool" where
  "header_name_safe [] = True"
| "header_name_safe (ch # s) =
     (if \<not> (isalnum ch \<or> strchr_in HEADER_NAME_SAFE_SYMBOLS ch) then False else header_name_safe s)"

fun header_value_safe :: "string \<Rightarrow> bool" where
  "header_value_safe [] = True"
| "header_value_safe (ch # s) =
     (if \<not> (isalnum ch \<or> strchr_in HEADER_VALUE_SAFE_SYMBOLS ch) then False else header_value_safe s)"

section \<open>Methods, versions, status codes\<close>

datatype http_method = GET | HEAD | POST | PUT | DELETE | CONNECT | OPTIONS | TRACE

datatype http_version = HTTP10 | HTTP11

fun http_method_stringify :: "http_method \<Rightarrow> string" where
  "http_method_stringify GET = ''GET''"
| "http_method_stringify HEAD = ''HEAD''"
| "http_method_stringify POST = ''POST''"
| "http_method_stringify PUT = ''PUT''"
| "http_method_stringify DELETE = ''DELETE''"
| "http_method_stringify CONNECT = ''CONNECT''"
| "http_method_stringify OPTIONS = ''OPTIONS''"
| "http_method_stringify TRACE = ''TRACE''"

fun http_version_stringify :: "http_version \<Rightarrow> string" where
  "http_version_stringify HTTP10 = ''1.0''"
| "http_version_stringify HTTP11 = ''1.1''"

text \<open>The enumerators of \<open>enum HTTPStatusCode\<close>.\<close>

definition HTTPStatusCode :: "(string \<times> int) list" where
  "HTTPStatusCode = [(''CONTINUE'', 100),
   (''SWITCHING_PROTOCOLS'', 101),
   (''PROCESSING'', 102),
   (''EARLY_HINTS'', 103),
   (''OK'', 200),
   (''CREATED'', 201),
   (''ACCEPTED'', 202),
   (''NON_AUTHORITATIVE_INFORMATION'', 203),
   (''NO_CONTENT'', 204),
   (''RESET_CONTENT'', 205),
   (''PARTIAL_CONTENT'', 206),
   (''MULTI_STATUS'', 207),
   (''ALREADY_REPORTED'', 208),
   (''IM_USED'', 226),
   (''MULTIPLE_CHOICES'', 300),
   (''MOVED_PERMANENTLY'', 301),
   (''FOUND'', 302),
   (''SEE_OTHER'', 303),
   (''NOT_MODIFIED'', 304),
   (''USE_PROXY'', 305),
   (''TEMPORARY_REDIRECT'', 307),
   (''PERMANENT_REDIRECT'', 308),
   (''BAD_REQUEST'', 400),
   (''UNAUTHORIZED'', 401),
   (''PAYMENT_REQUIRED'', 402),
   (''FORBIDDEN'', 403),
   (''NOT_FOUND'', 404),
   (''METHOD_NOT_ALLOWED'', 405),
   (''NOT_ACCEPTABLE'', 406),
   (''PROXY_AUTHENTICATION_REQUIRED'', 407),
   (''REQUEST_TIMEOUT'', 408),
   (''CONFLICT'', 409),
   (''GONE'', 410),
   (''LENGTH_REQUIRED'', 411),
   (''PRECONDITION_FAILED'', 412),
   (''REQUEST_ENTITY_TOO_LARGE'', 413),
   (''REQUEST_URI_TOO_LONG'', 414),
   (''UNSUPPORTED_MEDIA_TYPE'', 415),
   (''REQUESTED_RANGE_NOT_SATISFIABLE'', 416),
   (''EXPECTATION_FAILED'', 417),
   (''IM_A_TEAPOT'', 418),
   (''MISDIRECTED_REQUEST'', 421),
   (''UNPROCESSABLE_ENTITY'', 422),
   (''LOCKED'', 423),
   (''FAILED_DEPENDENCY'', 424),
   (''TOO_EARLY'', 425),
   (''UPGRADE_REQUIRED'', 426),
   (''PRECONDITION_REQUIRED'', 428),
   (''TOO_MANY_REQUESTS'', 429),
   (''REQUEST_HEADER_FIELDS_TOO_LARGE'', 431),
   (''UNAVAILABLE_FOR_LEGAL_REASONS'', 451),
   (''INTERNAL_SERVER_ERROR'', 500),
   (''NOT_IMPLEMENTED'', 501),
   (''BAD_GATEWAY'', 502),
   (''SERVICE_UNAVAILABLE'', 503),
   (''GATEWAY_TIMEOUT'', 504),
   (''HTTP_VERSION_NOT_SUPPORTED'', 505),
   (''VARIANT_ALSO_NEGOTIATES'', 506),
   (''INSUFFICIENT_STORAGE'', 507),
   (''LOOP_DETECTED'', 508),
   (''NOT_EXTENDED'', 510),
   (''NETWORK_AUTHENTICATION_REQUIRED'', 511)]"

text \<open>
  A status code is the \<open>int\<close> the code casts to \<open>enum HTTPStatusCode\<close>; the table
  lists the enumerators with the texts of the \<open>switch\<close>.
\<close>

definition status_table :: "(int \<times> string) list" where
  "status_table = [(100, ''Continue''),
   (101, ''Switching Protocols''),
   (102, ''Processing''),
   (103, ''Early Hints''),
   (200, ''OK''),
   (201, ''Created''),
   (202, ''Accepted''),
   (203, ''Non-Authoritative Information''),
   (204, ''No Content''),
   (205, ''Reset Content''),
   (206, ''Partial Content''),
   (207, ''Multi-Status''),
   (208, ''Already Reported''),
   (226, ''IM Used''),
   (300, ''Multiple Choices''),
   (301, ''Moved Permanently''),
   (302, ''Found''),
   (303, ''See Other''),
   (304, ''Not Modified''),
   (305, ''Use Proxy''),
   (307, ''Temporary Redirect''),
   (308, ''Permanent Redirect''),
   (400, ''Bad Request''),
   (401, ''Unauthorized''),
   (402, ''Payment Required''),
   (403, ''Forbidden''),
   (404, ''Not Found''),
   (405, ''Method Not Allowed''),
   (406, ''Not Acceptable''),
   (407, ''Proxy Authentication Required''),
   (408, ''Request Timeout''),
   (409, ''Conflict''),
   (410, ''Gone''),
   (411, ''Length Required''),
   (412, ''Precondition Failed''),
   (413, ''Request Entity Too Large''),
   (414, ''Request-URI Too Long''),
   (415, ''Unsupported Media Type''),
   (416, ''Requested Range Not Satisfiable''),
   (417, ''Expectation Failed''),
   (418, ''I'' @ [CHR 0x27] @ ''m a Teapot''),
   (421, ''Misdirected Request''),
   (422, ''Unprocessable Entity''),
   (423, ''Locked''),
   (424, ''Failed Dependency''),
   (425, ''Too Early''),
   (426, ''Upgrade Required''),
   (428, ''Precondition Required''),
   (429, ''Too Many Requests''),
   (431, ''Request Header Fields Too Large''),
   (451, ''Unavailable For Legal Reasons''),
   (500, ''Internal Server Error''),
   (501, ''Not Implemented''),
   (502, ''Bad Gateway''),
   (503, ''Service Unavailable''),
   (504, ''Gateway Timeout''),
   (505, ''HTTP Version Not Supported''),
   (506, ''Variant Also Negotiates''),
   (507, ''Insufficient Storage''),
   (508, ''Loop Detected''),
   (510, ''Not Extended''),
   (511, ''Network Authentication Required'')]"

definition http_status_stringify :: "int \<Rightarrow> string option" where
  "http_status_stringify status_code = map_of status_table status_code"

definition STATUS_OK :: int where "STATUS_OK = 200"
definition MOVED_PERMANENTLY :: int where "MOVED_PERMANENTLY = 301"
definition FOUND :: int where "FOUND = 302"
definition SEE_OTHER :: int where "SEE_OTHER = 303"
definition TEMPORARY_REDIRECT :: int where "TEMPORARY_REDIRECT = 307"
definition PERMANENT_REDIRECT :: int where "PERMANENT_REDIRECT = 308"

lemmas status_consts = STATUS_OK_def MOVED_PERMANENTLY_def FOUND_def SEE_OTHER_def
  TEMPORARY_REDIRECT_def PERMANENT_REDIRECT_def

section \<open>Structures\<close>

record http_header =
  hdr_key :: "string option"
  hdr_value :: "string option"

record http_headers =
  hs_offset :: nat
  hs_size :: nat
  hs_items :: "http_header list"
  hs_slength :: nat

record http_body =
  body_size :: nat
  body_content :: "string option"

record http_status =
  status_code :: int
  status_message :: "string option"

record http_request =
  rq_version :: http_version
  rq_method :: http_method
  rq_headers :: http_headers
  rq_body :: http_body
  rq_uri :: uri

record http_response =
  rs_status :: http_status
  rs_version :: http_version
  rs_headers :: http_headers
  rs_body :: http_body

definition zero_headers :: http_headers where
  "zero_headers = \<lparr>hs_offset = 0, hs_size = 0, hs_items = [], hs_slength = 0\<rparr>"

definition zero_body :: http_body where
  "zero_body = \<lparr>body_size = 0, body_content = None\<rparr>"

definition zero_request :: http_request where
  "zero_request = \<lparr>rq_version = HTTP10, rq_method = GET, rq_headers = zero_headers,
     rq_body = zero_body, rq_uri = zero_uri\<rparr>"

definition zero_response :: http_response where
  "zero_response = \<lparr>rs_status = \<lparr>status_code = 0, status_message = None\<rparr>, rs_version = HTTP10,
     rs_headers = zero_headers, rs_body = zero_body\<rparr>"

section \<open>Headers\<close>

definition sizeof_HTTPHeader :: nat where "sizeof_HTTPHeader = 16"

definition header_parts :: "http_header \<Rightarrow> string list" where
  "header_parts header =
     (case hdr_key header of None \<Rightarrow> [] | Some k \<Rightarrow> [k]) @ [COLON, SPACE] @
     (case hdr_value header of None \<Rightarrow> [] | Some v \<Rightarrow> [v])"

text \<open>\<open>dst\<close> is an array of \<open>cap\<close> bytes.\<close>

definition http_headers_stringify :: "nat \<Rightarrow> http_headers \<Rightarrow> string \<Rightarrow> string option" where
  "http_headers_stringify cap headers dst =
     print_items cap CRLF header_parts dst (take (hs_offset headers) (hs_items headers))"

definition http_headers_add ::
  "platform \<Rightarrow> http_headers \<Rightarrow> string \<Rightarrow> string \<Rightarrow> (unalixerr \<times> http_headers) option" where
  "http_headers_add p obj key val =
     (let k = strdup p (AtKey (hs_offset obj)) key;
          v = strdup p (AtValue (hs_offset obj)) val;
          header = \<lparr>hdr_key = k, hdr_value = v\<rparr>;
          sz = hs_size obj + sizeof_HTTPHeader * 1
      in if k = None \<or> v = None then Some (UNALIXERR_MEMORY_ALLOCATE_FAILURE, obj)
      else if \<not> malloc p (AtItems (hs_offset obj)) sz then Some (UNALIXERR_MEMORY_ALLOCATE_FAILURE, obj)
      else if sz < sizeof_HTTPHeader * (hs_offset obj + 1) then None
      else
        let obj = obj\<lparr>hs_size := sz, hs_items := take (hs_offset obj) (hs_items obj) @ [header],
                       hs_offset := hs_offset obj + 1\<rparr>;
            obj = (if hs_slength obj > 0 then obj\<lparr>hs_slength := hs_slength obj + length CRLF\<rparr> else obj);
            obj = obj\<lparr>hs_slength := hs_slength obj + length key\<rparr>;
            obj = obj\<lparr>hs_slength := hs_slength obj + (length COLON + length SPACE)\<rparr>;
            obj = obj\<lparr>hs_slength := hs_slength obj + length val\<rparr>
        in Some (UNALIXERR_SUCCESS, obj))"

text \<open>\<open>strcmp\<close> on a key that is NULL is undefined.\<close>

fun headers_find :: "http_header list \<Rightarrow> string \<Rightarrow> http_header option option" where
  "headers_find [] key = Some None"
| "headers_find (header # rest) key =
     (case hdr_key header of
        None \<Rightarrow> None
      | Some k \<Rightarrow> if k = key then Some (Some header) else headers_find rest key)"

definition http_headers_get :: "http_headers \<Rightarrow> string \<Rightarrow> http_header option option" where
  "http_headers_get obj key = headers_find (take (hs_offset obj) (hs_items obj)) key"

definition http_headers_free :: "http_headers \<Rightarrow> http_headers" where
  "http_headers_free obj =
     (if hs_size obj < 1 then obj else obj\<lparr>hs_items := [], hs_size := 0, hs_offset := 0\<rparr>)"

section \<open>Bodies\<close>

definition http_body_set :: "platform \<Rightarrow> http_body \<Rightarrow> string \<Rightarrow> unalixerr \<times> http_body" where
  "http_body_set p obj buffer =
     (if \<not> malloc p AtBody (length buffer)
      then (UNALIXERR_MEMORY_ALLOCATE_FAILURE, obj\<lparr>body_content := None\<rparr>)
      else (UNALIXERR_SUCCESS, obj\<lparr>body_content := Some buffer, body_size := length buffer\<rparr>))"

definition http_body_free :: "http_body \<Rightarrow> http_body" where
  "http_body_free obj =
     (if body_size obj < 1 then obj else obj\<lparr>body_content := None, body_size := 0\<rparr>)"

section \<open>http_request_stringify\<close>

text \<open>
  The length header is added to the request itself.  \<open>intlen\<close> takes an \<open>int\<close>,
  so a size beyond its range is converted first.
\<close>

definition add_content_length :: "platform \<Rightarrow> http_request \<Rightarrow> (unalixerr \<times> http_request) option" where
  "add_content_length p obj =
     (if body_size (rq_body obj) > 0 then
        let size = int (body_size (rq_body obj)) in do {
          (e, hs) \<leftarrow> http_headers_add p (rq_headers obj) ''Content-Length''
                      (snprintf (intlen (to_int size) + 1) (show_int size));
          Some (e, obj\<lparr>rq_headers := hs\<rparr>) }
      else Some (UNALIXERR_SUCCESS, obj))"

definition resource_location :: "uri \<Rightarrow> string option" where
  "resource_location uri =
     strcats (length SLASH + opt_len (uri_path uri) +
         (if uri_query uri \<noteq> None then length QUESTION_MARK + opt_len (uri_query uri) else 0) + 1) []
       ([SLASH] @ (case uri_path uri of None \<Rightarrow> [] | Some s \<Rightarrow> [s]) @
        (case uri_query uri of None \<Rightarrow> [] | Some s \<Rightarrow> [QUESTION_MARK, s]))"

text \<open>
  The buffer has no room for the terminator that the last \<open>strcat\<close> writes when
  the body is empty: that write needs a byte of \<open>slack\<close>.
\<close>

definition request_buffer ::
  "platform \<Rightarrow> http_request \<Rightarrow> string \<Rightarrow> string \<Rightarrow> (unalixerr \<times> string option) option" where
  "request_buffer p obj location headers =
     (let http_method = http_method_stringify (rq_method obj);
          http_version = http_version_stringify (rq_version obj);
          buffer_size = length http_method + length SPACE + length location + length SPACE +
            length PROTOCOL_NAME + length SLASH + length http_version + length CRLF +
            length headers + length CRLFCRLF + body_size (rq_body obj)
      in if \<not> malloc p AtBuffer buffer_size then Some (UNALIXERR_MEMORY_ALLOCATE_FAILURE, None)
      else do {
        buffer \<leftarrow> strcats (buffer_size + slack p) []
          [http_method, SPACE, location, SPACE, PROTOCOL_NAME, SLASH, http_version, CRLF,
           headers, CRLFCRLF];
        if body_size (rq_body obj) > 0 then
          (case body_content (rq_body obj) of
             None \<Rightarrow> None
           | Some content \<Rightarrow>
               if length buffer + body_size (rq_body obj) \<le> buffer_size + slack p \<and>
                  body_size (rq_body obj) \<le> length content
               then Some (UNALIXERR_SUCCESS, Some (buffer @ take (body_size (rq_body obj)) content))
               else None)
        else Some (UNALIXERR_SUCCESS, Some buffer) })"

definition http_request_stringify ::
  "platform \<Rightarrow> http_request \<Rightarrow> (unalixerr \<times> http_request \<times> string option) option" where
  "http_request_stringify p obj = do {
     (e, obj) \<leftarrow> add_content_length p obj;
     if e \<noteq> UNALIXERR_SUCCESS then Some (e, obj, None)
     else do {
       location \<leftarrow> resource_location (rq_uri obj);
       headers \<leftarrow> http_headers_stringify (hs_slength (rq_headers obj) + 1) (rq_headers obj) [];
       (e, buffer) \<leftarrow> request_buffer p obj location headers;
       Some (e, obj, buffer) } }"

section \<open>The Host header\<close>

definition set_host_header :: "platform \<Rightarrow> http_headers \<Rightarrow> uri \<Rightarrow> (unalixerr \<times> http_headers) option" where
  "set_host_header p headers uri =
     (case uri_hostname uri of
        None \<Rightarrow> None
      | Some hostname \<Rightarrow>
          let port_size = intlen (uri_port uri);
              cap = length hostname + length COLON + (if uri_port uri > 0 then port_size else 0) + slack p
          in do {
            host \<leftarrow> strcat cap [] hostname;
            host \<leftarrow> (if uri_port uri > 0 then
                (case uri_scheme uri of
                   None \<Rightarrow> None
                 | Some scheme \<Rightarrow>
                     if (scheme = HTTP_SCHEME \<and> uri_port uri \<noteq> HTTP_PORT) \<or>
                        (scheme = HTTPS_SCHEME \<and> uri_port uri \<noteq> HTTPS_PORT)
                     then strcats cap host [COLON, snprintf (port_size + 1) (show_int (uri_port uri))]
                     else Some host)
              else Some host);
            http_headers_add p headers ''Host'' host })"

definition http_request_add_header ::
  "platform \<Rightarrow> http_request \<Rightarrow> string \<Rightarrow> string \<Rightarrow> (unalixerr \<times> http_request) option" where
  "http_request_add_header p request key val = do {
     (e, hs) \<leftarrow> http_headers_add p (rq_headers request) key val;
     Some (e, request\<lparr>rq_headers := hs\<rparr>) }"

definition http_response_get_header :: "http_response \<Rightarrow> string \<Rightarrow> http_header option option" where
  "http_response_get_header response key = http_headers_get (rs_headers response) key"

definition http_response_get_body :: "http_response \<Rightarrow> http_body" where
  "http_response_get_body response = rs_body response"

definition http_response_get_status :: "http_response \<Rightarrow> http_status" where
  "http_response_get_status response = rs_status response"

definition http_request_set_url :: "platform \<Rightarrow> http_request \<Rightarrow> string \<Rightarrow> (unalixerr \<times> http_request) option" where
  "http_request_set_url p request url = do {
     (rc, uri) \<leftarrow> uri_parse p (rq_uri request) url;
     let request = request\<lparr>rq_uri := uri\<rparr>;
     if rc \<noteq> UNALIXERR_SUCCESS then Some (rc, request)
     else do {
       (rc, hs) \<leftarrow> set_host_header p (rq_headers request) (rq_uri request);
       Some (rc, request\<lparr>rq_headers := hs\<rparr>) } }"

text \<open>\<open>if (uri.f != NULL) { obj.f = malloc(...); if (obj.f == NULL) return ...; strcpy(...) }\<close>\<close>

definition copy_field ::
  "platform \<Rightarrow> site \<Rightarrow> string option \<Rightarrow> (string option \<Rightarrow> uri \<Rightarrow> uri) \<Rightarrow> uri \<Rightarrow> ((unalixerr \<times> uri) + uri) option" where
  "copy_field p at v set_field obj =
     (case v of
        None \<Rightarrow> Some (Inr obj)
      | Some s \<Rightarrow>
          (case strdup p at s of
             None \<Rightarrow> return_err UNALIXERR_MEMORY_ALLOCATE_FAILURE (set_field None obj)
           | Some t \<Rightarrow> Some (Inr (set_field (Some t) obj))))"

definition copy_uri :: "platform \<Rightarrow> uri \<Rightarrow> uri \<Rightarrow> ((unalixerr \<times> uri) + uri) option" where
  "copy_uri p obj uri =
     (let obj = obj\<lparr>uri_is_ipv6 := uri_is_ipv6 uri, uri_has_authentication := uri_has_authentication uri\<rparr> in
      stage (copy_field p AtUsername (uri_username uri) (\<lambda>v u. u\<lparr>uri_username := v\<rparr>) obj) (\<lambda>obj.
      stage (copy_field p AtPassword (uri_password uri) (\<lambda>v u. u\<lparr>uri_password := v\<rparr>) obj) (\<lambda>obj.
      stage (copy_field p AtScheme (uri_scheme uri) (\<lambda>v u. u\<lparr>uri_scheme := v\<rparr>) obj) (\<lambda>obj.
      stage (copy_field p AtHostname (uri_hostname uri) (\<lambda>v u. u\<lparr>uri_hostname := v\<rparr>) obj) (\<lambda>obj.
      let obj = obj\<lparr>uri_port := uri_port uri\<rparr> in
      stage (copy_field p AtQuery (uri_query uri) (\<lambda>v u. u\<lparr>uri_query := v\<rparr>) obj) (\<lambda>obj.
      stage (copy_field p AtPath (uri_path uri) (\<lambda>v u. u\<lparr>uri_path := v\<rparr>) obj) (\<lambda>obj.
      copy_field p AtFragment (uri_fragment uri) (\<lambda>v u. u\<lparr>uri_fragment := v\<rparr>) obj)))))))"

definition http_request_set_uri :: "platform \<Rightarrow> http_request \<Rightarrow> uri \<Rightarrow> (unalixerr \<times> http_request) option" where
  "http_request_set_uri p request uri =
     (case copy_uri p (rq_uri request) uri of
        None \<Rightarrow> None
      | Some (Inl (e, u)) \<Rightarrow> Some (e, request\<lparr>rq_uri := u\<rparr>)
      | Some (Inr u) \<Rightarrow> do {
          (rc, hs) \<leftarrow> set_host_header p (rq_headers request) u;
          Some (rc, request\<lparr>rq_uri := u, rq_headers := hs\<rparr>) })"

section \<open>Releasing\<close>

definition http_request_free :: "http_request \<Rightarrow> http_request" where
  "http_request_free obj = obj\<lparr>rq_version := HTTP10, rq_method := GET,
     rq_headers := http_headers_free (rq_headers obj), rq_body := http_body_free (rq_body obj),
     rq_uri := uri_free (rq_uri obj)\<rparr>"

definition http_response_free :: "http_response \<Rightarrow> http_response" where
  "http_response_free obj = obj\<lparr>rs_status := \<lparr>status_code = 0, status_message = None\<rparr>,
     rs_version := HTTP10, rs_headers := http_headers_free (rs_headers obj),
     rs_body := http_body_free (rs_body obj)\<rparr>"

end
