(* ===== verification/HTTP_Response.thy ===== *)
theory HTTP_Response
  imports HTTP
begin

text \<open>
  The response side of \<open>src/http.c\<close>: \<open>parse_http_response\<close>, \<open>find_crlfcrlf\<close> and
  \<open>http_get_redirect\<close>.
\<close>

section \<open>parse_http_response\<close>

text \<open>
  The received bytes, cut at the first CRLFCRLF: the header block and the body.
  \<open>strstr\<close> stops at a NUL; when it finds nothing the code subtracts from NULL
  and copies that many bytes, which is undefined.
\<close>

definition split_message :: "string \<Rightarrow> (string \<times> string) option" where
  "split_message buffer =
     (case find_sub CRLFCRLF (c_str buffer) of
        None \<Rightarrow> None
      | Some separator \<Rightarrow> Some (take separator buffer, drop (separator + length CRLFCRLF) buffer))"

text \<open>
  The version: the offset of its end (the space behind it) and the text.
\<close>

definition version_text :: "string \<Rightarrow> (nat \<times> string) option" where
  "version_text headers =
     (case strstr headers 0 SLASH of
        None \<Rightarrow> None
      | Some slash \<Rightarrow>
          let http_version_start = slash + length SLASH in
          (case strstr headers http_version_start SPACE of
             None \<Rightarrow> None
           | Some http_version_end \<Rightarrow>
               map_option (Pair http_version_end)
                 (memcpy_range headers http_version_start (size_diff http_version_end http_version_start))))"

text \<open>
  The three digits of the status code behind the version.  Without a space after
  the code \<open>status_code_end\<close> is NULL, and NULL minus an address is not 3.
\<close>

definition status_text :: "string \<Rightarrow> nat \<Rightarrow> (unalixerr + string) option" where
  "status_text headers http_version_end =
     (case strstr headers http_version_end SPACE of
        None \<Rightarrow> None
      | Some space \<Rightarrow>
          let status_code_start = space + length SPACE in
          (case strstr headers status_code_start SPACE of
             None \<Rightarrow> Some (Inl UNALIXERR_HTTP_MALFORMED_STATUS_CODE)
           | Some status_code_end \<Rightarrow>
               let status_code_size = size_diff status_code_end status_code_start in
               if status_code_size \<noteq> intlen STATUS_OK then Some (Inl UNALIXERR_HTTP_MALFORMED_STATUS_CODE)
               else (case memcpy_range headers status_code_start status_code_size of
                   None \<Rightarrow> None
                 | Some digits \<Rightarrow>
                     if \<not> isnumeric digits then Some (Inl UNALIXERR_HTTP_MALFORMED_STATUS_CODE)
                     else Some (Inr digits))))"

text \<open>One header line, from \<open>header_start\<close> to \<open>header_end\<close>: its name and value.\<close>

definition header_line :: "string \<Rightarrow> nat \<Rightarrow> nat \<Rightarrow> (unalixerr + string \<times> string) option" where
  "header_line headers header_start header_end =
     (case strstr headers header_start HEADER_SEPARATOR of
        None \<Rightarrow> Some (Inl UNALIXERR_HTTP_MALFORMED_HEADER)
      | Some separator \<Rightarrow>
          if separator > header_end then Some (Inl UNALIXERR_HTTP_MALFORMED_HEADER)
          else
            let key_size = size_diff separator header_start in
            if key_size < 1 then Some (Inl UNALIXERR_HTTP_MISSING_HEADER_NAME)
            else (case memcpy_range headers header_start key_size of
                None \<Rightarrow> None
              | Some key \<Rightarrow>
                  if \<not> header_name_safe key then Some (Inl UNALIXERR_HTTP_HEADER_CONTAINS_INVALID_CHARACTER)
                  else
                    let separator = separator + length HEADER_SEPARATOR;
                        value_size = size_diff header_end separator
                    in if value_size < 1 then Some (Inl UNALIXERR_HTTP_MISSING_HEADER_VALUE)
                    else (case memcpy_range headers separator value_size of
                        None \<Rightarrow> None
                      | Some val \<Rightarrow>
                          if \<not> header_value_safe val
                          then Some (Inl UNALIXERR_HTTP_HEADER_CONTAINS_INVALID_CHARACTER)
                          else Some (Inr (key, val)))))"

function header_loop ::
  "platform \<Rightarrow> http_headers \<Rightarrow> string \<Rightarrow> nat \<Rightarrow> (unalixerr \<times> http_headers) option" where
  "header_loop p obj headers header_start =
     (let headers_end = length headers;
          header_end = (case strstr headers header_start CRLF of None \<Rightarrow> headers_end | Some e \<Rightarrow> e)
      in case header_line headers header_start header_end of
           None \<Rightarrow> None
         | Some (Inl e) \<Rightarrow> Some (e, obj)
         | Some (Inr (key, val)) \<Rightarrow>
             (case http_headers_add p obj key val of
                None \<Rightarrow> None
              | Some (e, obj) \<Rightarrow>
                  if e \<noteq> UNALIXERR_SUCCESS then Some (e, obj)
                  else if header_end = headers_end then Some (UNALIXERR_SUCCESS, obj)
                  else header_loop p obj headers (header_end + length CRLF)))"
  by pat_completeness auto
termination
proof (relation "measure (\<lambda>(p, obj, headers, header_start). length headers - header_start)")
  fix p :: platform and obj obj' :: http_headers and headers :: string
    and header_start n x a b c d e f
  assume n: "n = length headers"
    and x: "x = (case strstr headers header_start CRLF of None \<Rightarrow> n | Some e \<Rightarrow> e)" "x \<noteq> n"
  from x obtain i where i: "strstr headers header_start CRLF = Some i" "x = i"
    by (auto split: option.splits)
  have "i < length headers"
  proof (cases "header_start \<le> length headers")
    case True
    then show ?thesis
      using strstr_SomeD(2)[OF i(1)] by (simp add: CRLF_def)
  next
    case False
    then show ?thesis
      using i(1) by (simp add: strstr_def CRLF_def)
  qed
  with strstr_SomeD(1)[OF i(1)] i(2)
  show "((p, obj', headers, x + length CRLF), p, obj, headers, header_start)
     \<in> measure (\<lambda>(p, obj, headers, header_start). length headers - header_start)"
    by (auto simp: CRLF_def)
qed simp

declare header_loop.simps [simp del]

definition parse_http_response :: "platform \<Rightarrow> http_response \<Rightarrow> string \<Rightarrow> (unalixerr \<times> http_response) option" where
  "parse_http_response p obj buffer = do {
     (headers, bdy) \<leftarrow> split_message buffer;
     (http_version_end, version) \<leftarrow> version_text headers;
     (case (if version = http_version_stringify HTTP10 then Some HTTP10
            else if version = http_version_stringify HTTP11 then Some HTTP11 else None) of
        None \<Rightarrow> Some (UNALIXERR_HTTP_UNSUPPORTED_VERSION, obj)
      | Some version \<Rightarrow> do {
          let obj = obj\<lparr>rs_version := version\<rparr>;
          r \<leftarrow> status_text headers http_version_end;
          (case r of
             Inl e \<Rightarrow> Some (e, obj)
           | Inr status \<Rightarrow>
               let http_status = atoi status;
                   http_status_message = http_status_stringify http_status;
                   obj = obj\<lparr>rs_status := \<lparr>status_code = http_status, status_message = http_status_message\<rparr>\<rparr>
               in if http_status_message = None then Some (UNALIXERR_HTTP_UNKNOWN_STATUS_CODE, obj)
               else (case strstr headers 0 CRLF of
                   None \<Rightarrow> None
                 | Some line_end \<Rightarrow> do {
                     (e, hs) \<leftarrow> header_loop p (rs_headers obj) headers (line_end + length CRLF);
                     let obj = obj\<lparr>rs_headers := hs\<rparr>;
                     if e \<noteq> UNALIXERR_SUCCESS then Some (e, obj)
                     else if length bdy > 0 then
                       if \<not> malloc p AtBody (length bdy)
                       then Some (UNALIXERR_MEMORY_ALLOCATE_FAILURE,
                              obj\<lparr>rs_body := (rs_body obj)\<lparr>body_content := None\<rparr>\<rparr>)
                       else Some (UNALIXERR_SUCCESS,
                              obj\<lparr>rs_body := \<lparr>body_size = length bdy, body_content = Some bdy\<rparr>\<rparr>)
                     else Some (UNALIXERR_SUCCESS, obj) })) }) }"

section \<open>find_crlfcrlf\<close>

text \<open>
  \<open>memory\<close> is the array the \<open>size\<close> received bytes are in the front of;
  \<open>memcmp\<close> looks at four bytes from every received one, so it reads behind them.
\<close>

fun find_crlfcrlf_from :: "string \<Rightarrow> nat \<Rightarrow> bool option" where
  "find_crlfcrlf_from memory 0 = Some False"
| "find_crlfcrlf_from memory (Suc n) =
     (if length memory < length CRLFCRLF then None
      else if take (length CRLFCRLF) memory = CRLFCRLF then Some True
      else find_crlfcrlf_from (drop 1 memory) n)"

definition find_crlfcrlf :: "string \<Rightarrow> nat \<Rightarrow> bool option" where
  "find_crlfcrlf memory buffer_size = find_crlfcrlf_from memory buffer_size"

section \<open>http_get_redirect\<close>

definition is_redirect :: "int \<Rightarrow> bool" where
  "is_redirect status \<longleftrightarrow> status = MOVED_PERMANENTLY \<or> status = FOUND \<or> status = SEE_OTHER \<or>
     status = TEMPORARY_REDIRECT \<or> status = PERMANENT_REDIRECT"

text \<open>
  \<open>*dst = malloc(...); strcpy; strcat ...\<close>: the scheme, \<open>://\<close>, the \<open>Host\<close>
  header and the path in a buffer of exactly their size.
\<close>

definition absolute_url :: "platform \<Rightarrow> uri \<Rightarrow> string \<Rightarrow> string \<Rightarrow> (unalixerr \<times> string option) option" where
  "absolute_url p uri host normalized_path =
     (case uri_scheme uri of
        None \<Rightarrow> None
      | Some scheme \<Rightarrow>
          let cap = length scheme + length SCHEME_SEPARATOR + length host + length normalized_path + 1 in
          if \<not> malloc p AtLocation cap then Some (UNALIXERR_MEMORY_ALLOCATE_FAILURE, None)
          else map_option (\<lambda>s. (UNALIXERR_SUCCESS, Some s))
            (strcats cap [] [scheme, SCHEME_SEPARATOR, host, normalized_path]))"

definition header_text :: "http_header option \<Rightarrow> string option" where
  "header_text header = Option.bind header hdr_value"

definition redirect_absolute :: "platform \<Rightarrow> uri \<Rightarrow> string option \<Rightarrow> string \<Rightarrow> (unalixerr \<times> string option) option" where
  "redirect_absolute p uri host location = do {
     normalized_path \<leftarrow> httpnormpath (length location + length SLASH + 1) location;
     h \<leftarrow> host;
     absolute_url p uri h normalized_path }"

definition redirect_relative :: "platform \<Rightarrow> uri \<Rightarrow> string option \<Rightarrow> string \<Rightarrow> (unalixerr \<times> string option) option" where
  "redirect_relative p uri host location = do {
     h \<leftarrow> host;
     path \<leftarrow> strcats (length SLASH * 2 + opt_len (uri_path uri) + length h + length location + 1) []
       ([SLASH] @ (case uri_path uri of None \<Rightarrow> [] | Some s \<Rightarrow> [s, SLASH]) @ [location]);
     normalized_path \<leftarrow> httpnormpath (length path + length SLASH + 1) path;
     absolute_url p uri h normalized_path }"

text \<open>The size of this buffer is not checked: \<open>strcpy\<close> to NULL is undefined.\<close>

definition redirect_network :: "platform \<Rightarrow> uri \<Rightarrow> string \<Rightarrow> (unalixerr \<times> string option) option" where
  "redirect_network p uri location =
     (case uri_scheme uri of
        None \<Rightarrow> None
      | Some scheme \<Rightarrow>
          let start = drop (countp location (length location) CHR ''/'') location;
              cap = length scheme + length SCHEME_SEPARATOR + length start + 1
          in if \<not> malloc p AtLocation cap then None
          else map_option (\<lambda>s. (UNALIXERR_SUCCESS, Some s)) (strcats cap [] [scheme, SCHEME_SEPARATOR, start]))"

text \<open>
  The result is the code and what is stored in \<open>*dst\<close>, None when nothing is
  (or NULL).
\<close>

definition http_get_redirect ::
  "platform \<Rightarrow> http_request \<Rightarrow> http_response \<Rightarrow> (unalixerr \<times> string option) option" where
  "http_get_redirect p request response = do {
     location_header \<leftarrow> http_headers_get (rs_headers response) ''Location'';
     if is_redirect (status_code (rs_status response)) \<and> location_header \<noteq> None then do {
       location \<leftarrow> header_text location_header;
       if prefix HTTP_SCHEME location \<or> prefix HTTPS_SCHEME location then
         (case strdup p AtLocation location of
            None \<Rightarrow> Some (UNALIXERR_MEMORY_ALLOCATE_FAILURE, None)
          | Some s \<Rightarrow> Some (UNALIXERR_SUCCESS, Some s))
       else do {
         host_header \<leftarrow> http_headers_get (rq_headers request) ''Host'';
         let host = header_text host_header;
         if char_at location 0 = CHR ''/'' \<and> length location > 1 \<and> char_at location 2 \<noteq> CHR ''/''
         then redirect_absolute p (rq_uri request) host location
         else if char_at location 0 \<noteq> CHR ''/''
         then redirect_relative p (rq_uri request) host location
         else if prefix ''///'' location \<or> prefix ''//'' location
         then redirect_network p (rq_uri request) location
         else Some (UNALIXERR_HTTP_HEADERS_INVALID_LOCATION, None) } }
     else Some (UNALIXERR_SUCCESS, None) }"

end
