(* ===== verification/SHA256.thy ===== *)
theory SHA256
  imports Prelude "HOL-Library.Word" "HOL-Library.While_Combinator"
begin

unbundle bit_operations_syntax

text \<open>
  BearSSL's SHA-256, which \<open>src/sha256.c\<close> calls: the macros and functions of
  \<open>submodules/bearssl/src/hash/sha2small.c\<close> and the big-endian codecs of
  \<open>inner.h\<close>, \<open>codec/dec32be.c\<close> and \<open>codec/enc32be.c\<close> (their portable branch).
  An \<open>uint32_t\<close> is a 32 word and the counter of bytes a 64 word, both wrap; an
  array of bytes is a string.
\<close>

section \<open>Big-endian codecs\<close>

abbreviation byte32 :: "char \<Rightarrow> 32 word" where
  "byte32 c \<equiv> of_nat (code c)"

definition br_dec32be :: "string \<Rightarrow> 32 word" where
  "br_dec32be buf =
     push_bit 24 (byte32 (buf ! 0)) OR push_bit 16 (byte32 (buf ! 1)) OR push_bit 8 (byte32 (buf ! 2)) OR byte32 (buf ! 3)"

definition br_enc32be :: "32 word \<Rightarrow> string" where
  "br_enc32be x = map (\<lambda>n. char_of (unat (drop_bit n x))) [24, 16, 8, 0]"

definition br_enc64be :: "64 word \<Rightarrow> string" where
  "br_enc64be x = br_enc32be (ucast (drop_bit 32 x)) @ br_enc32be (ucast x)"

primrec br_range_dec32be :: "nat \<Rightarrow> string \<Rightarrow> 32 word list" where
  "br_range_dec32be 0 buf = []"
| "br_range_dec32be (Suc num) buf = br_dec32be buf # br_range_dec32be num (drop 4 buf)"

primrec br_range_enc32be :: "32 word list \<Rightarrow> nat \<Rightarrow> string" where
  "br_range_enc32be v 0 = []"
| "br_range_enc32be v (Suc num) = br_enc32be (v ! 0) @ br_range_enc32be (tl v) num"

section \<open>The compression function\<close>

definition CH :: "32 word \<Rightarrow> 32 word \<Rightarrow> 32 word \<Rightarrow> 32 word" where
  "CH X Y Z = ((Y XOR Z) AND X) XOR Z"

definition MAJ :: "32 word \<Rightarrow> 32 word \<Rightarrow> 32 word \<Rightarrow> 32 word" where
  "MAJ X Y Z = (Y AND Z) OR ((Y OR Z) AND X)"

definition ROTR :: "32 word \<Rightarrow> nat \<Rightarrow> 32 word" where
  "ROTR x n = push_bit (32 - n) x OR drop_bit n x"

definition BSG2_0 :: "32 word \<Rightarrow> 32 word" where
  "BSG2_0 x = ROTR x 2 XOR ROTR x 13 XOR ROTR x 22"

definition BSG2_1 :: "32 word \<Rightarrow> 32 word" where
  "BSG2_1 x = ROTR x 6 XOR ROTR x 11 XOR ROTR x 25"

definition SSG2_0 :: "32 word \<Rightarrow> 32 word" where
  "SSG2_0 x = ROTR x 7 XOR ROTR x 18 XOR drop_bit 3 x"

definition SSG2_1 :: "32 word \<Rightarrow> 32 word" where
  "SSG2_1 x = ROTR x 17 XOR ROTR x 19 XOR drop_bit 10 x"

definition br_sha256_IV :: "32 word list" where
  "br_sha256_IV =
    [0x6A09E667, 0xBB67AE85, 0x3C6EF372, 0xA54FF53A,
     0x510E527F, 0x9B05688C, 0x1F83D9AB, 0x5BE0CD19]"

definition K256 :: "32 word list" where
  "K256 =
    [0x428A2F98, 0x71374491, 0xB5C0FBCF, 0xE9B5DBA5,
     0x3956C25B, 0x59F111F1, 0x923F82A4, 0xAB1C5ED5,
     0xD807AA98, 0x12835B01, 0x243185BE, 0x550C7DC3,
     0x72BE5D74, 0x80DEB1FE, 0x9BDC06A7, 0xC19BF174,
     0xE49B69C1, 0xEFBE4786, 0x0FC19DC6, 0x240CA1CC,
     0x2DE92C6F, 0x4A7484AA, 0x5CB0A9DC, 0x76F988DA,
     0x983E5152, 0xA831C66D, 0xB00327C8, 0xBF597FC7,
     0xC6E00BF3, 0xD5A79147, 0x06CA6351, 0x14292967,
     0x27B70A85, 0x2E1B2138, 0x4D2C6DFC, 0x53380D13,
     0x650A7354, 0x766A0ABB, 0x81C2C92E, 0x92722C85,
     0xA2BFE8A1, 0xA81A664B, 0xC24B8B70, 0xC76C51A3,
     0xD192E819, 0xD6990624, 0xF40E3585, 0x106AA070,
     0x19A4C116, 0x1E376C08, 0x2748774C, 0x34B0BCB5,
     0x391C0CB3, 0x4ED8AA4A, 0x5B9CCA4F, 0x682E6FF3,
     0x748F82EE, 0x78A5636F, 0x84C87814, 0x8CC70208,
     0x90BEFFFA, 0xA4506CEB, 0xBEF9A3F7, 0xC67178F2]"

text \<open>The array \<open>w\<close>, filled from the left: 16 words of the block, then 48 iterations.\<close>

definition schedule_entry :: "32 word list \<Rightarrow> nat \<Rightarrow> 32 word" where
  "schedule_entry w i = SSG2_1 (w ! (i - 2)) + w ! (i - 7) + SSG2_0 (w ! (i - 15)) + w ! (i - 16)"

definition sha2_schedule :: "string \<Rightarrow> 32 word list" where
  "sha2_schedule buf = fold (\<lambda>i w. w @ [schedule_entry w i]) [16..<64] (br_range_dec32be 16 buf)"

text \<open>The macro assigns to its arguments D and H; the result is their new values.\<close>

definition SHA2_STEP ::
  "32 word list \<Rightarrow> 32 word \<Rightarrow> 32 word \<Rightarrow> 32 word \<Rightarrow> 32 word \<Rightarrow> 32 word \<Rightarrow> 32 word \<Rightarrow> 32 word \<Rightarrow> 32 word
     \<Rightarrow> nat \<Rightarrow> 32 word \<times> 32 word" where
  "SHA2_STEP w A B C D E F G H j =
     (let T1 = H + BSG2_1 E + CH E F G + K256 ! j + w ! j;
          T2 = BSG2_0 A + MAJ A B C
      in (D + T1, T1 + T2))"

type_synonym working = "32 word \<times> 32 word \<times> 32 word \<times> 32 word \<times> 32 word \<times> 32 word \<times> 32 word \<times> 32 word"

text \<open>One iteration: eight steps, in which the names of the variables rotate instead of their values.\<close>

definition sha2_steps :: "32 word list \<Rightarrow> nat \<Rightarrow> working \<Rightarrow> working" where
  "sha2_steps w i v =
     (let (a, b, c, d, e, f, g, h) = v;
          (d, h) = SHA2_STEP w a b c d e f g h (i + 0);
          (c, g) = SHA2_STEP w h a b c d e f g (i + 1);
          (b, f) = SHA2_STEP w g h a b c d e f (i + 2);
          (a, e) = SHA2_STEP w f g h a b c d e (i + 3);
          (h, d) = SHA2_STEP w e f g h a b c d (i + 4);
          (g, c) = SHA2_STEP w d e f g h a b c (i + 5);
          (f, b) = SHA2_STEP w c d e f g h a b (i + 6);
          (e, a) = SHA2_STEP w b c d e f g h a (i + 7)
      in (a, b, c, d, e, f, g, h))"

definition br_sha2small_round :: "string \<Rightarrow> 32 word list \<Rightarrow> 32 word list" where
  "br_sha2small_round buf val =
     (let w = sha2_schedule buf;
          (a, b, c, d, e, f, g, h) = fold (sha2_steps w) [0, 8, 16, 24, 32, 40, 48, 56]
            (val ! 0, val ! 1, val ! 2, val ! 3, val ! 4, val ! 5, val ! 6, val ! 7)
      in [val ! 0 + a, val ! 1 + b, val ! 2 + c, val ! 3 + d, val ! 4 + e, val ! 5 + f, val ! 6 + g, val ! 7 + h])"

section \<open>The context\<close>

record br_sha256_context =
  sha_buf :: string
  sha_count :: "64 word"
  sha_val :: "32 word list"

text \<open>\<open>context = {0}\<close> and \<open>br_sha256_init\<close>.\<close>

definition zero_sha256 :: br_sha256_context where
  "zero_sha256 = \<lparr>sha_buf = replicate 64 nul, sha_count = 0, sha_val = replicate 8 0\<rparr>"

definition br_sha256_init :: "br_sha256_context \<Rightarrow> br_sha256_context" where
  "br_sha256_init cc = cc\<lparr>sha_val := br_sha256_IV, sha_count := 0\<rparr>"

text \<open>The body of the loop of \<open>sha2small_update\<close>: the next part of the data fills the buffer.\<close>

definition update_step :: "nat \<times> string \<times> br_sha256_context \<Rightarrow> nat \<times> string \<times> br_sha256_context" where
  "update_step s =
     (let (ptr, buf, cc) = s;
          clen = 64 - ptr;
          clen = (if clen > length buf then length buf else clen);
          cc = cc\<lparr>sha_buf := take ptr (sha_buf cc) @ take clen buf @ drop (ptr + clen) (sha_buf cc)\<rparr>;
          ptr = ptr + clen;
          buf = drop clen buf
      in if ptr = 64 then (0, buf, cc\<lparr>sha_val := br_sha2small_round (sha_buf cc) (sha_val cc)\<rparr>)
         else (ptr, buf, cc))"

definition br_sha256_update :: "br_sha256_context \<Rightarrow> string \<Rightarrow> br_sha256_context" where
  "br_sha256_update cc data =
     (let ptr = unat (sha_count cc AND 63);
          cc = cc\<lparr>sha_count := sha_count cc + of_nat (length data)\<rparr>
      in snd (snd (while (\<lambda>(ptr, buf, cc). length buf > 0) update_step (ptr, data, cc))))"

text \<open>The last one or two blocks, made of what is in the buffer, the bit 1, zeros and the length in bits.\<close>

definition sha2small_out :: "br_sha256_context \<Rightarrow> nat \<Rightarrow> string" where
  "sha2small_out cc num =
     (let ptr = unat (sha_count cc AND 63);
          buf = take ptr (sha_buf cc) @ [CHR 0x80];
          ptr = ptr + 1;
          (buf, val) =
            (if ptr > 56 then
               (replicate 56 nul, br_sha2small_round (buf @ replicate (64 - ptr) nul) (sha_val cc))
             else (buf @ replicate (56 - ptr) nul, sha_val cc));
          val = br_sha2small_round (buf @ br_enc64be (push_bit 3 (sha_count cc))) val
      in br_range_enc32be val num)"

definition br_sha256_out :: "br_sha256_context \<Rightarrow> string" where
  "br_sha256_out cc = sha2small_out cc 8"

end
