(* ===== verification/Files.thy ===== *)
theory Files
  imports Utils Errors SHA256
begin

text \<open>
  The file helpers of \<open>src/utils.c\<close> and \<open>src/sha256.c\<close>.  The file system is a map
  from names to files that every operation returns updated; what the operating
  system answers (permissions, I/O errors, environment variables, \<open>rename\<close>) is a
  parameter.
\<close>

section \<open>Files and the operating system\<close>

record node =
  file_content :: string
  file_mtime :: int
  file_regular :: bool

type_synonym filesys = "string \<Rightarrow> node option"

datatype rename_answer = Renamed | Rename_EXDEV | Rename_Error

text \<open>
  \<open>os_read_error\<close>: the number of bytes after which reading a file fails, if it
  does.  \<open>os_space\<close>: the number of bytes a file can take, if there is a limit.
  \<open>os_ferror_closed\<close>: what \<open>ferror\<close> answers on a closed stream, which C leaves
  undefined (None).  \<open>os_clock\<close>: the modification time a write sets.
\<close>

record os =
  os_getenv :: "string \<Rightarrow> string option"
  os_can_read :: "string \<Rightarrow> bool"
  os_can_write :: "string \<Rightarrow> bool"
  os_read_error :: "string \<Rightarrow> nat option"
  os_space :: "string \<Rightarrow> nat option"
  os_unlink :: "string \<Rightarrow> bool"
  os_rename :: "string \<Rightarrow> string \<Rightarrow> rename_answer"
  os_ferror_closed :: "string \<Rightarrow> bool option"
  os_clock :: int

definition FILERW_MAX_CHUNK_SIZE :: nat where "FILERW_MAX_CHUNK_SIZE = 8192"

text \<open>The bytes that \<open>fread\<close> delivers from a stream before it returns 0.\<close>

definition stream_data :: "os \<Rightarrow> string \<Rightarrow> node \<Rightarrow> string" where
  "stream_data os name f =
     (case os_read_error os name of None \<Rightarrow> file_content f | Some k \<Rightarrow> take k (file_content f))"

definition stream_error :: "os \<Rightarrow> string \<Rightarrow> bool" where
  "stream_error os name \<longleftrightarrow> os_read_error os name \<noteq> None"

definition fopen_read :: "os \<Rightarrow> filesys \<Rightarrow> string \<Rightarrow> string option" where
  "fopen_read os fs name =
     (case fs name of
        None \<Rightarrow> None
      | Some f \<Rightarrow> if os_can_read os name then Some (stream_data os name f) else None)"

text \<open>\<open>fopen(name, "wb")\<close> truncates or creates; a directory cannot be opened so.\<close>

definition fopen_write :: "os \<Rightarrow> filesys \<Rightarrow> string \<Rightarrow> filesys option" where
  "fopen_write os fs name =
     (if os_can_write os name \<and> (case fs name of None \<Rightarrow> True | Some f \<Rightarrow> file_regular f)
      then Some (fs(name \<mapsto> \<lparr>file_content = [], file_mtime = os_clock os, file_regular = True\<rparr>))
      else None)"

text \<open>\<open>fwrite\<close> at the end of a file: the number of bytes written and the file system.\<close>

definition fwrite :: "os \<Rightarrow> string \<Rightarrow> string \<Rightarrow> filesys \<Rightarrow> nat \<times> filesys" where
  "fwrite os name bytes fs =
     (case fs name of
        None \<Rightarrow> (0, fs)
      | Some f \<Rightarrow>
          let n = (case os_space os name of None \<Rightarrow> length bytes
                   | Some space \<Rightarrow> min (length bytes) (space - length (file_content f)))
          in (n, fs(name \<mapsto> f\<lparr>file_content := file_content f @ take n bytes\<rparr>)))"

section \<open>Queries\<close>

definition file_exists :: "filesys \<Rightarrow> string \<Rightarrow> bool" where
  "file_exists fs filename = (case fs filename of None \<Rightarrow> False | Some st \<Rightarrow> file_regular st)"

definition get_last_modification_time :: "filesys \<Rightarrow> string \<Rightarrow> int" where
  "get_last_modification_time fs filename = (case fs filename of None \<Rightarrow> 0 | Some st \<Rightarrow> file_mtime st)"

definition ENV_TMP :: "string list" where
  "ENV_TMP = [''TMPDIR'', ''TEMP'', ''TMP'', ''TEMPDIR'']"

definition DEFAULT_TEMPORARY_DIRECTORY :: string where
  "DEFAULT_TEMPORARY_DIRECTORY = ''/tmp/''"

text \<open>
  \<open>Some None\<close> is NULL.  The byte in front of the terminator of an empty value
  is outside the value, so an empty variable is undefined.
\<close>

fun temporary_from :: "platform \<Rightarrow> os \<Rightarrow> string list \<Rightarrow> string option option" where
  "temporary_from p os [] =
     Some (if malloc p AtBuffer (length DEFAULT_TEMPORARY_DIRECTORY + 1)
           then Some DEFAULT_TEMPORARY_DIRECTORY else None)"
| "temporary_from p os (name # names) =
     (case os_getenv os name of
        None \<Rightarrow> temporary_from p os names
      | Some val \<Rightarrow>
          if val = [] then None
          else
            let has_trailing_slash = (last val = CHR ''/'');
                cap = length val + (if has_trailing_slash then 0 else 1) + 1
            in if \<not> malloc p AtBuffer cap then Some None
            else map_option Some
              (strcats cap [] ([val] @ (if \<not> has_trailing_slash then [''/''] else []))))"

definition get_temporary_directory :: "platform \<Rightarrow> os \<Rightarrow> string option option" where
  "get_temporary_directory p os = temporary_from p os ENV_TMP"

section \<open>Removing, copying and moving\<close>

definition remove_file :: "os \<Rightarrow> filesys \<Rightarrow> string \<Rightarrow> bool \<times> filesys" where
  "remove_file os fs filename =
     (if fs filename \<noteq> None \<and> os_unlink os filename then (True, fs(filename := None)) else (False, fs))"

text \<open>
  The loop over the chunks of the source, whose remaining bytes are \<open>data\<close>.  When
  \<open>fread\<close> returns 0, both streams are closed and then \<open>ferror\<close> is asked.
\<close>

function copy_loop :: "os \<Rightarrow> string \<Rightarrow> string \<Rightarrow> string \<Rightarrow> filesys \<Rightarrow> (bool \<times> filesys) option" where
  "copy_loop os source destination data fs =
     (let chunk = take FILERW_MAX_CHUNK_SIZE data; rsize = length chunk in
      if rsize = 0 then
        (case os_ferror_closed os source of
           None \<Rightarrow> None
         | Some failed \<Rightarrow> Some (\<not> failed, fs))
      else
        let (wsize, fs) = fwrite os destination chunk fs in
        if wsize \<noteq> rsize then Some (False, fs)
        else copy_loop os source destination (drop FILERW_MAX_CHUNK_SIZE data) fs)"
  by pat_completeness auto
termination
  by (relation "measure (\<lambda>(os, source, destination, data, fs). length data)")
    (auto simp: FILERW_MAX_CHUNK_SIZE_def)

declare copy_loop.simps [simp del]

definition copy_file :: "os \<Rightarrow> filesys \<Rightarrow> string \<Rightarrow> string \<Rightarrow> (bool \<times> filesys) option" where
  "copy_file os fs source destination =
     (case fopen_read os fs source of
        None \<Rightarrow> Some (False, fs)
      | Some sdata \<Rightarrow>
          (case fopen_write os fs destination of
             None \<Rightarrow> Some (False, fs)
           | Some fs \<Rightarrow>
               copy_loop os source destination (if destination = source then [] else sdata) fs))"

text \<open>\<open>rename\<close> replaces the destination; the result is the \<open>int\<close> of the code.\<close>

definition move_file :: "os \<Rightarrow> filesys \<Rightarrow> string \<Rightarrow> string \<Rightarrow> (int \<times> filesys) option" where
  "move_file os fs source destination =
     (case (if fs source = None then Rename_Error else os_rename os source destination) of
        Renamed \<Rightarrow> Some (1, (fs(source := None))(destination := fs source))
      | Rename_EXDEV \<Rightarrow> do {
          (copied, fs) \<leftarrow> copy_file os fs source destination;
          let fs = (if copied then snd (remove_file os fs source) else fs);
          Some ((if copied then 1 else 0), fs) }
      | Rename_Error \<Rightarrow> Some (- 1, fs))"

section \<open>SHA-256 of a file\<close>

definition br_sha256_SIZE :: nat where "br_sha256_SIZE = 32"

definition SHA256_DIGEST_SIZE :: nat where "SHA256_DIGEST_SIZE = 64"

text \<open>The loop over \<open>fread\<close> hands each chunk to BearSSL's context.\<close>

function hash_loop :: "br_sha256_context \<Rightarrow> string \<Rightarrow> br_sha256_context" where
  "hash_loop ctx data =
     (let chunk = take FILERW_MAX_CHUNK_SIZE data in
      if length chunk = 0 then ctx
      else hash_loop (br_sha256_update ctx chunk) (drop FILERW_MAX_CHUNK_SIZE data))"
  by pat_completeness auto
termination
  by (relation "measure (\<lambda>(ctx, data). length data)") (auto simp: FILERW_MAX_CHUNK_SIZE_def)

declare hash_loop.simps [simp del]

definition hex_byte :: "char \<Rightarrow> string" where
  "hex_byte ch = [to_hex (char_of (drop_bit 4 (and (code ch) 0xF0))), to_hex (char_of (and (code ch) 0x0F))]"

definition sha256_digest :: "os \<Rightarrow> filesys \<Rightarrow> string \<Rightarrow> unalixerr \<times> string" where
  "sha256_digest os fs filename =
     (case fopen_read os fs filename of
        None \<Rightarrow> (UNALIXERR_FILE_CANNOT_OPEN, [])
      | Some data \<Rightarrow>
          let ctx = hash_loop (br_sha256_init zero_sha256) data in
          if stream_error os filename then (UNALIXERR_FILE_CANNOT_READ, [])
          else (UNALIXERR_SUCCESS, concat (map hex_byte (br_sha256_out ctx))))"

section \<open>What the operations do\<close>

text \<open>Writing to a file without a limit appends.\<close>

definition appended :: "string \<Rightarrow> string \<Rightarrow> filesys \<Rightarrow> filesys" where
  "appended name bytes fs =
     (case fs name of None \<Rightarrow> fs | Some f \<Rightarrow> fs(name \<mapsto> f\<lparr>file_content := file_content f @ bytes\<rparr>))"

lemma appended_Nil [simp]: "appended name [] fs = fs"
  by (auto simp: appended_def fun_eq_iff split: option.split)

lemma appended_appended [simp]: "appended name b (appended name a fs) = appended name (a @ b) fs"
  by (auto simp: appended_def split: option.split)

lemma appended_other [simp]: "n \<noteq> name \<Longrightarrow> appended name bytes fs n = fs n"
  by (auto simp: appended_def split: option.split)

lemma appended_exists [simp]: "appended name bytes fs n = None \<longleftrightarrow> fs n = None"
  by (auto simp: appended_def split: option.split)

lemma fwrite_ample:
  "os_space os name = None \<Longrightarrow> fs name \<noteq> None \<Longrightarrow> fwrite os name bytes fs = (length bytes, appended name bytes fs)"
  by (auto simp: fwrite_def appended_def)

lemma copy_loop_ample:
  assumes "os_space os destination = None" "fs destination \<noteq> None" "os_ferror_closed os source = Some failed"
  shows "copy_loop os source destination data fs = Some (\<not> failed, appended destination data fs)"
  using assms
proof (induction os source destination data fs rule: copy_loop.induct)
  case (1 os source destination data fs)
  show ?case
  proof (cases "data = []")
    case True
    with 1(4) show ?thesis
      by (subst copy_loop.simps) simp
  next
    case False
    then have "length (take FILERW_MAX_CHUNK_SIZE data) \<noteq> 0"
      by (simp add: FILERW_MAX_CHUNK_SIZE_def)
    with 1 show ?thesis
      by (subst copy_loop.simps) (simp add: fwrite_ample Let_def)
  qed
qed

text \<open>A copy, and a move across devices, leave every other file as it was.\<close>

lemma copy_loop_other:
  "copy_loop os source destination data fs = Some (ok, fs') \<Longrightarrow> n \<noteq> destination \<Longrightarrow> fs' n = fs n"
proof (induction os source destination data fs rule: copy_loop.induct)
  case (1 os source destination data fs)
  have same: "snd (fwrite os destination bytes fs) n = fs n" for bytes
    using 1(3) by (auto simp: fwrite_def Let_def split: option.split)
  show ?case
  proof (cases "data = []")
    case True
    with 1(2) show ?thesis
      by (subst (asm) copy_loop.simps) (auto simp: Let_def split: option.splits)
  next
    case False
    then have False: "length (take FILERW_MAX_CHUNK_SIZE data) \<noteq> 0"
      by (simp add: FILERW_MAX_CHUNK_SIZE_def)
    obtain w fs1 where w: "fwrite os destination (take FILERW_MAX_CHUNK_SIZE data) fs = (w, fs1)"
      by (cases "fwrite os destination (take FILERW_MAX_CHUNK_SIZE data) fs")
    with same[of "take FILERW_MAX_CHUNK_SIZE data"] have "fs1 n = fs n"
      by simp
    with 1(2,3) 1(1)[OF refl refl False w[symmetric] refl] False w show ?thesis
      by (subst (asm) copy_loop.simps) (auto simp: Let_def split: if_splits)
  qed
qed

lemma hex_byte_digits: "hex_byte ch = [to_hex (char_of (code ch div 16)), to_hex (char_of (code ch mod 16))]"
proof -
  have low: "and n 0x0F = n mod 16" for n :: nat
    using take_bit_eq_mask[of 4 n] by (simp add: mask_eq_exp_minus_1 take_bit_eq_mod)
  have "code ch < (256::nat)"
    by (rule nat_of_char_less_256)
  then have "code ch div 16 < (16::nat)"
    by (intro less_mult_imp_div_less) simp
  moreover have "drop_bit 4 (and (code ch) 0xF0) = and (code ch div 16) (0x0F::nat)"
    by (simp add: drop_bit_and) (simp add: drop_bit_eq_div)
  ultimately show ?thesis
    by (simp add: hex_byte_def low)
qed

end
