(* ===== verification/Network.thy ===== *)
theory Network
  imports HTTP_Response Files
begin

text \<open>
  The network side: \<open>src/address.c\<close>, \<open>src/connection.c\<close>, \<open>src/callbacks.c\<close>, and
  from \<open>src/http.c\<close> \<open>http_request_send\<close>, \<open>http_response_read\<close> and
  \<open>http_context_free\<close>.  What the resolver, the kernel, BearSSL and the peer answer
  on one connection is a record of parameters, an \<open>exchange\<close>; a connection keeps
  the answers its reads have not consumed and a log of the calls that reached the
  kernel.
\<close>

section \<open>Addresses\<close>

text \<open>\<open>htons\<close>: the two bytes of a port in network order; the argument is cut to 16 bits.\<close>

definition htons :: "int \<Rightarrow> int \<times> int" where
  "htons port = (port mod 65536 div 256, port mod 256)"

datatype sockaddr =
    Sockaddr_none
  | Sockaddr_in "int \<times> int" string
  | Sockaddr_in6 "int \<times> int" string

definition AF_INET :: int where "AF_INET = 2"
definition AF_INET6 :: int where "AF_INET6 = 10"
definition sizeof_sockaddr_in :: nat where "sizeof_sockaddr_in = 16"
definition sizeof_sockaddr_in6 :: nat where "sizeof_sockaddr_in6 = 28"

record address =
  addr_af :: int
  addr_storage :: sockaddr
  addr_storage_size :: nat

definition zero_address :: address where
  "zero_address = \<lparr>addr_af = 0, addr_storage = Sockaddr_none, addr_storage_size = 0\<rparr>"

definition address_parse :: "platform \<Rightarrow> address \<Rightarrow> string \<Rightarrow> int \<Rightarrow> unalixerr \<times> address" where
  "address_parse p obj sa sa_port =
     (if inet_pton4 p sa then
        (UNALIXERR_SUCCESS, obj\<lparr>addr_storage := Sockaddr_in (htons sa_port) sa, addr_af := AF_INET,
           addr_storage_size := sizeof_sockaddr_in\<rparr>)
      else if inet_pton6 p sa then
        (UNALIXERR_SUCCESS, obj\<lparr>addr_storage := Sockaddr_in6 (htons sa_port) sa, addr_af := AF_INET6,
           addr_storage_size := sizeof_sockaddr_in6\<rparr>)
      else (UNALIXERR_DNS_CANNOT_PARSE_ADDRESS, obj))"

section \<open>Connections\<close>

text \<open>
  \<open>Bytes bs\<close>: bytes that arrive; \<open>Break e\<close>: a read that answers -1, \<open>e\<close> the last
  error of the TLS engine.  Behind the last arrival every read answers 0.
\<close>

datatype arrival = Bytes string | Break int

datatype event =
    Ev_socket int
  | Ev_connect sockaddr
  | Ev_send string
  | Ev_ssl_close
  | Ev_close int

record connection =
  conn_fd :: int
  conn_ssl_initialized :: bool
  conn_timeout :: int
  conn_incoming :: "arrival list"
  conn_log :: "event list"

record exchange =
  ex_gai :: "string \<Rightarrow> string \<Rightarrow> address option"
  ex_socket :: int
  ex_rcvtimeo_ok :: bool
  ex_sndtimeo_ok :: bool
  ex_connect_ok :: bool
  ex_send :: "string \<Rightarrow> int"
  ex_ssl_write :: int
  ex_incoming :: "arrival list"
  ex_stale :: string

definition log_event :: "event \<Rightarrow> connection \<Rightarrow> connection" where
  "log_event e obj = obj\<lparr>conn_log := conn_log obj @ [e]\<rparr>"

definition connection_free :: "connection \<Rightarrow> connection" where
  "connection_free obj =
     (let obj = (if conn_ssl_initialized obj then log_event Ev_ssl_close obj else obj)
      in log_event (Ev_close (conn_fd obj)) (obj\<lparr>conn_incoming := []\<rparr>))"

definition connection_set_timeout :: "exchange \<Rightarrow> connection \<Rightarrow> int \<Rightarrow> unalixerr" where
  "connection_set_timeout ex obj timeout =
     (if \<not> ex_rcvtimeo_ok ex then UNALIXERR_SOCKET_SETOPT_FAILURE
      else if \<not> ex_sndtimeo_ok ex then UNALIXERR_SOCKET_SETOPT_FAILURE
      else UNALIXERR_SUCCESS)"

section \<open>The callbacks of the TLS engine\<close>

text \<open>The answers of \<open>write\<close> or \<open>read\<close>, one after another; with none left it blocks.\<close>

datatype io_answer = Io_count int | Io_EINTR | Io_error

fun sock_write :: "io_answer list \<Rightarrow> (int \<times> io_answer list) option" where
  "sock_write [] = None"
| "sock_write (Io_EINTR # answers) = sock_write answers"
| "sock_write (Io_count wlen # answers) = Some (if wlen = 0 then - 1 else to_int wlen, answers)"
| "sock_write (Io_error # answers) = Some (- 1, answers)"

fun sock_read :: "io_answer list \<Rightarrow> (int \<times> io_answer list) option" where
  "sock_read [] = None"
| "sock_read (Io_EINTR # answers) = sock_read answers"
| "sock_read (Io_count rlen # answers) = Some (if rlen = 0 then - 1 else to_int rlen, answers)"
| "sock_read (Io_error # answers) = Some (- 1, answers)"

section \<open>Reading\<close>

datatype recv_result = Received string | Closed | Failed int

text \<open>One read of at most \<open>cap\<close> bytes.\<close>

fun recv :: "nat \<Rightarrow> arrival list \<Rightarrow> recv_result \<times> arrival list" where
  "recv cap [] = (Closed, [])"
| "recv cap (Break e # as) = (Failed e, as)"
| "recv cap (Bytes bs # as) =
     (if bs = [] then recv cap as
      else if length bs \<le> cap then (Received bs, as)
      else (Received (take cap bs), Bytes (drop cap bs) # as))"

fun arrival_size :: "arrival \<Rightarrow> nat" where
  "arrival_size (Bytes bs) = length bs + 1"
| "arrival_size (Break e) = 1"

lemma recv_decreases:
  "recv cap as = (Received bs, as') \<Longrightarrow> 0 < cap \<Longrightarrow> sum_list (map arrival_size as') < sum_list (map arrival_size as)"
  by (induction cap as rule: recv.induct) (auto split: if_splits)

definition BR_ERR_OK :: int where "BR_ERR_OK = 0"
definition BR_ERR_IO :: int where "BR_ERR_IO = 31"

section \<open>Contexts\<close>

record http_context =
  ctx_request :: http_request
  ctx_response :: http_response
  ctx_connection :: connection

definition http_context_free :: "http_context \<Rightarrow> http_context" where
  "http_context_free context =
     \<lparr>ctx_request = http_request_free (ctx_request context),
      ctx_response = http_response_free (ctx_response context),
      ctx_connection = connection_free (ctx_connection context)\<rparr>"

section \<open>http_request_send\<close>

text \<open>The port, and the address the resolver gives when the host is not a literal.\<close>

definition server_port :: "uri \<Rightarrow> (unalixerr + int) option" where
  "server_port uri =
     (if uri_port uri = 0 then
        (case uri_scheme uri of
           None \<Rightarrow> None
         | Some scheme \<Rightarrow>
             if scheme = HTTP_SCHEME then Some (Inr 80)
             else if scheme = HTTPS_SCHEME then Some (Inr 443)
             else Some (Inl UNALIXERR_URI_SCHEME_INVALID))
      else Some (Inr (uri_port uri)))"

definition server_address :: "platform \<Rightarrow> exchange \<Rightarrow> string \<Rightarrow> int \<Rightarrow> (unalixerr + address) option" where
  "server_address p ex sa sa_port =
     (case address_parse p zero_address sa sa_port of
        (rc, address) \<Rightarrow>
          if rc \<noteq> UNALIXERR_SUCCESS then
            (case ex_gai ex sa (snprintf (intlen sa_port + 1) (show_int sa_port)) of
               None \<Rightarrow> Some (Inl UNALIXERR_DNS_GAI_FAILURE)
             | Some res \<Rightarrow> Some (Inr res))
          else Some (Inr address))"

text \<open>
  The loop that receives the headers; \<open>headers\<close> holds the bytes so far, in front of
  the stale rest of the array.
\<close>

function receive_headers ::
  "bool \<Rightarrow> string \<Rightarrow> arrival list \<Rightarrow> string \<Rightarrow> (unalixerr \<times> arrival list + string \<times> arrival list) option" where
  "receive_headers is_https stale incoming headers =
     (case recv MAX_CHUNK_SIZE incoming of
        (Failed e, rest) \<Rightarrow>
          if is_https then
            if e \<noteq> BR_ERR_IO then Some (Inl (UNALIXERR_SSL_FAILURE, rest)) else Some (Inr (headers, rest))
          else Some (Inl (UNALIXERR_SOCKET_RECV_FAILURE, rest))
      | (Closed, rest) \<Rightarrow>
          if length headers = 0
          then Some (Inl (if is_https then UNALIXERR_SSL_FAILURE else UNALIXERR_SOCKET_RECV_FAILURE, rest))
          else Some (Inr (headers, rest))
      | (Received chunk, rest) \<Rightarrow>
          if length headers + length chunk > MAX_HEADERS_SIZE
          then Some (Inl (UNALIXERR_HTTP_HEADERS_TOO_BIG, rest))
          else
            let headers = headers @ chunk in
            (case find_crlfcrlf (headers @ drop (length headers) stale) (length headers) of
               None \<Rightarrow> None
             | Some found \<Rightarrow>
                 if found then Some (Inr (headers, rest))
                 else receive_headers is_https stale rest headers))"
  by pat_completeness auto
termination
  by (relation "measure (\<lambda>(h, s, incoming, b). sum_list (map arrival_size incoming))")
    (auto dest!: recv_decreases[OF sym] simp: MAX_CHUNK_SIZE_def)

declare receive_headers.simps [simp del]

definition on_connection :: "(connection \<Rightarrow> connection) \<Rightarrow> http_context \<Rightarrow> http_context" where
  "on_connection f context = context\<lparr>ctx_connection := f (ctx_connection context)\<rparr>"

text \<open>Socket, timeouts and \<open>connect\<close>.\<close>

definition open_connection ::
  "exchange \<Rightarrow> address \<Rightarrow> http_context \<Rightarrow> (unalixerr \<times> http_context + http_context) option" where
  "open_connection ex address context =
     (let context = on_connection (\<lambda>c. log_event (Ev_socket (ex_socket ex)) (c\<lparr>conn_fd := ex_socket ex\<rparr>)) context in
      if conn_fd (ctx_connection context) = - 1 then Some (Inl (UNALIXERR_SOCKET_FAILURE, context))
      else
        let rc = (if conn_timeout (ctx_connection context) > 0
                  then connection_set_timeout ex (ctx_connection context) (conn_timeout (ctx_connection context))
                  else UNALIXERR_SUCCESS)
        in if rc \<noteq> UNALIXERR_SUCCESS then Some (Inl (rc, context))
        else if \<not> ex_connect_ok ex then Some (Inl (UNALIXERR_SOCKET_CONNECT_FAILURE, context))
        else Some (Inr (on_connection (\<lambda>c. log_event (Ev_connect (addr_storage address))
               (c\<lparr>conn_incoming := ex_incoming ex\<rparr>)) context)))"

text \<open>The request is written; over TLS the engine is initialised once per context.\<close>

definition write_request ::
  "exchange \<Rightarrow> bool \<Rightarrow> string \<Rightarrow> http_context \<Rightarrow> (unalixerr \<times> http_context + http_context) option" where
  "write_request ex is_https buffer context =
     (let sent = on_connection (log_event (Ev_send buffer)) in
      if is_https then
        let context = on_connection (\<lambda>c. c\<lparr>conn_ssl_initialized := True\<rparr>) context in
        if ex_ssl_write ex \<noteq> 0 then Some (Inl (UNALIXERR_SSL_FAILURE, context)) else Some (Inr (sent context))
      else if ex_send ex buffer \<noteq> int (length buffer) then Some (Inl (UNALIXERR_SOCKET_SEND_FAILURE, context))
      else Some (Inr (sent context)))"

definition read_response ::
  "platform \<Rightarrow> exchange \<Rightarrow> bool \<Rightarrow> http_context \<Rightarrow> (unalixerr \<times> http_context) option" where
  "read_response p ex is_https context =
     (case receive_headers is_https (ex_stale ex) (conn_incoming (ctx_connection context)) [] of
        None \<Rightarrow> None
      | Some (Inl (rc, rest)) \<Rightarrow> Some (rc, on_connection (\<lambda>c. c\<lparr>conn_incoming := rest\<rparr>) context)
      | Some (Inr (headers, rest)) \<Rightarrow> do {
          (rc, response) \<leftarrow> parse_http_response p (ctx_response context) headers;
          Some (rc, on_connection (\<lambda>c. c\<lparr>conn_incoming := rest\<rparr>) context\<lparr>ctx_response := response\<rparr>) })"

text \<open>The request is printed, written and answered on a connection that is open.\<close>

definition exchange_messages ::
  "platform \<Rightarrow> exchange \<Rightarrow> http_context \<Rightarrow> (unalixerr \<times> http_context + unalixerr \<times> http_context) option" where
  "exchange_messages p ex context =
     (case http_request_stringify p (ctx_request context) of
        None \<Rightarrow> None
      | Some (rc, request, buffer) \<Rightarrow>
          let context = context\<lparr>ctx_request := request\<rparr> in
          if rc \<noteq> UNALIXERR_SUCCESS then Some (Inl (rc, context))
          else (case uri_scheme (rq_uri request) of
              None \<Rightarrow> None
            | Some scheme \<Rightarrow>
                let is_https = (scheme = HTTPS_SCHEME) in
                stage (write_request ex is_https (opt_str buffer) context) (\<lambda>context.
                  map_option Inr (read_response p ex is_https context))))"

definition http_request_send ::
  "platform \<Rightarrow> exchange \<Rightarrow> http_context \<Rightarrow> (unalixerr \<times> http_context) option" where
  "http_request_send p ex context =
     (let uri = rq_uri (ctx_request context) in body (
      stage (map_option (map_sum (\<lambda>rc. (rc, context)) id) (server_port uri)) (\<lambda>sa_port.
      stage (case uri_hostname uri of
          None \<Rightarrow> None
        | Some sa \<Rightarrow> map_option (map_sum (\<lambda>rc. (rc, context)) id) (server_address p ex sa sa_port)) (\<lambda>address.
      stage (open_connection ex address context) (\<lambda>context.
      exchange_messages p ex context)))))"

section \<open>http_response_read\<close>

text \<open>A chunk goes to the end of the body or of the file.\<close>

definition store_chunk ::
  "platform \<Rightarrow> os \<Rightarrow> string option \<Rightarrow> string \<Rightarrow> http_response \<times> filesys \<Rightarrow> unalixerr \<times> http_response \<times> filesys" where
  "store_chunk p os file chunk state =
     (let (response, fs) = state in
      case file of
        None \<Rightarrow>
          let sz = body_size (rs_body response) + length chunk in
          if \<not> malloc p AtBody sz then (UNALIXERR_MEMORY_ALLOCATE_FAILURE, response, fs)
          else (UNALIXERR_SUCCESS,
            response\<lparr>rs_body := \<lparr>body_size = sz,
              body_content = Some (take (body_size (rs_body response)) (opt_str (body_content (rs_body response))) @ chunk)\<rparr>\<rparr>, fs)
      | Some name \<Rightarrow>
          let (n, fs) = fwrite os name chunk fs in
          ((if n \<noteq> length chunk then UNALIXERR_FILE_CANNOT_WRITE else UNALIXERR_SUCCESS), response, fs))"

function read_loop ::
  "platform \<Rightarrow> os \<Rightarrow> bool \<Rightarrow> string option \<Rightarrow> arrival list \<Rightarrow> http_response \<times> filesys
     \<Rightarrow> unalixerr \<times> arrival list \<times> http_response \<times> filesys" where
  "read_loop p os is_https file incoming state =
     (case recv MAX_CHUNK_SIZE incoming of
        (Failed e, rest) \<Rightarrow>
          if is_https then
            if \<not> (e = BR_ERR_IO \<or> e = BR_ERR_OK) then (UNALIXERR_SSL_FAILURE, rest, state)
            else (UNALIXERR_SUCCESS, rest, state)
          else (UNALIXERR_SOCKET_RECV_FAILURE, rest, state)
      | (Closed, rest) \<Rightarrow> (UNALIXERR_SUCCESS, rest, state)
      | (Received chunk, rest) \<Rightarrow>
          (case store_chunk p os file chunk state of
             (rc, state) \<Rightarrow>
               if rc \<noteq> UNALIXERR_SUCCESS then (rc, rest, state)
               else read_loop p os is_https file rest state))"
  by pat_completeness auto
termination
  by (relation "measure (\<lambda>(p, os, h, f, incoming, s). sum_list (map arrival_size incoming))")
    (auto dest!: recv_decreases[OF sym] simp: MAX_CHUNK_SIZE_def)

declare read_loop.simps [simp del]

definition http_response_read ::
  "platform \<Rightarrow> os \<Rightarrow> http_context \<Rightarrow> string option \<Rightarrow> filesys \<Rightarrow> (unalixerr \<times> http_context \<times> filesys) option" where
  "http_response_read p os context file fs =
     (let response = ctx_response context;
          (n, fs) = (case file of
             Some name \<Rightarrow>
               if body_size (rs_body response) > 0
               then fwrite os name (opt_str (body_content (rs_body response))) fs
               else (body_size (rs_body response), fs)
           | None \<Rightarrow> (body_size (rs_body response), fs))
      in if n \<noteq> body_size (rs_body response) then Some (UNALIXERR_FILE_CANNOT_WRITE, context, fs)
      else (case uri_scheme (rq_uri (ctx_request context)) of
          None \<Rightarrow> None
        | Some scheme \<Rightarrow>
            (case read_loop p os (scheme = HTTPS_SCHEME) file (conn_incoming (ctx_connection context)) (response, fs) of
               (rc, rest, response, fs) \<Rightarrow>
                 Some (rc, on_connection (\<lambda>c. c\<lparr>conn_incoming := rest\<rparr>) context\<lparr>ctx_response := response\<rparr>, fs))))"

end
