(* ===== verification/Query.thy ===== *)
theory Query
  imports Accounting Utils
begin

text \<open>
  \<open>src/query.h\<close> and \<open>src/query.c\<close>: the parameter list of a query string with its
  length accounting, \<open>add_parameter\<close>, \<open>query_parse\<close>, \<open>query_stringify\<close> and
  \<open>query_free\<close>.
\<close>

section \<open>Data\<close>

definition AND_SIGN :: string where "AND_SIGN = ''&''"
definition EQUAL :: string where "EQUAL = ''=''"

lemmas query_consts = AND_SIGN_def EQUAL_def

record parameter =
  par_key :: "string option"
  par_value :: "string option"

definition zero_parameter :: parameter where
  "zero_parameter = \<lparr>par_key = None, par_value = None\<rparr>"

text \<open>The size of the structure on an LP64 platform: two pointers.\<close>

definition sizeof_Parameter :: nat where "sizeof_Parameter = 16"

record query =
  q_size :: nat
  q_position :: nat
  q_slength :: nat
  q_parameters :: "parameter list"

definition zero_query :: query where
  "zero_query = \<lparr>q_size = 0, q_position = 0, q_slength = 0, q_parameters = []\<rparr>"

section \<open>put_parameter and add_parameter\<close>

text \<open>The store \<open>obj->parameters[obj->position]\<close> has to lie in the array of \<open>size\<close> bytes.\<close>

definition put_parameter :: "platform \<Rightarrow> query \<Rightarrow> parameter \<Rightarrow> (unalixerr \<times> query) option" where
  "put_parameter p obj parameter =
     (let sz = q_size obj + sizeof_Parameter * 1 in
      if \<not> malloc p (AtItems (q_position obj)) sz then Some (UNALIXERR_MEMORY_ALLOCATE_FAILURE, obj)
      else if sz < sizeof_Parameter * (q_position obj + 1) then None
      else
        let obj = obj\<lparr>q_size := sz\<rparr>;
            obj = obj\<lparr>q_parameters := take (q_position obj) (q_parameters obj) @ [parameter]\<rparr>;
            obj = obj\<lparr>q_position := q_position obj + 1\<rparr>;
            obj = (if q_slength obj > 0 then obj\<lparr>q_slength := q_slength obj + length AND_SIGN\<rparr> else obj);
            obj = (case par_key parameter of None \<Rightarrow> obj
                   | Some k \<Rightarrow> obj\<lparr>q_slength := q_slength obj + length k\<rparr>);
            obj = obj\<lparr>q_slength := q_slength obj + length EQUAL\<rparr>;
            obj = (case par_value parameter of None \<Rightarrow> obj
                   | Some v \<Rightarrow> obj\<lparr>q_slength := q_slength obj + length v\<rparr>)
        in Some (UNALIXERR_SUCCESS, obj))"

definition add_parameter ::
  "platform \<Rightarrow> query \<Rightarrow> string \<Rightarrow> string \<Rightarrow> (unalixerr \<times> query) option" where
  "add_parameter p obj key val = body (
     stage (if length key > 0 then
              (case strdup p (AtKey (q_position obj)) key of
                 None \<Rightarrow> Some (Inl (UNALIXERR_MEMORY_ALLOCATE_FAILURE, obj))
               | Some k \<Rightarrow> Some (Inr (zero_parameter\<lparr>par_key := Some k\<rparr>)))
            else Some (Inr zero_parameter)) (\<lambda>parameter.
     stage (if length val > 0 then
              (case strdup p (AtValue (q_position obj)) val of
                 None \<Rightarrow> Some (Inl (UNALIXERR_MEMORY_ALLOCATE_FAILURE, obj))
               | Some v \<Rightarrow> Some (Inr (parameter\<lparr>par_value := Some v\<rparr>)))
            else Some (Inr parameter)) (\<lambda>parameter.
     map_option Inr (put_parameter p obj parameter))))"

section \<open>query_stringify\<close>

text \<open>The arguments of the \<open>strcat\<close> calls for one parameter.\<close>

definition parameter_parts :: "parameter \<Rightarrow> string list" where
  "parameter_parts parameter =
     (case par_key parameter of None \<Rightarrow> [] | Some k \<Rightarrow> [k]) @ [EQUAL] @
     (case par_value parameter of None \<Rightarrow> [] | Some v \<Rightarrow> [v])"

text \<open>\<open>dst\<close> is an array of \<open>cap\<close> bytes; \<open>memset\<close> writes the first.\<close>

definition query_stringify :: "nat \<Rightarrow> query \<Rightarrow> string option" where
  "query_stringify cap obj =
     (if cap < 1 then None
      else print_items cap AND_SIGN parameter_parts [] (take (q_position obj) (q_parameters obj)))"

section \<open>query_parse\<close>

text \<open>A component of a parameter: NULL when it is empty.\<close>

definition dup_nonempty :: "platform \<Rightarrow> site \<Rightarrow> string \<Rightarrow> nat \<Rightarrow> nat \<Rightarrow> 'r \<Rightarrow> ('r + string option) option" where
  "dup_nonempty p at s a n failure =
     (if n > 0 then
        (case dup_range p at s a n of
           None \<Rightarrow> None
         | Some None \<Rightarrow> Some (Inl failure)
         | Some (Some t) \<Rightarrow> Some (Inr (Some t)))
      else Some (Inr None))"

text \<open>One iteration of the loop: the parameter between \<open>param_start\<close> and \<open>param_end\<close>.\<close>

definition parse_parameter ::
  "platform \<Rightarrow> query \<Rightarrow> string \<Rightarrow> nat \<Rightarrow> nat \<Rightarrow> (unalixerr \<times> query) option" where
  "parse_parameter p obj query param_start param_end =
     (let failure = (UNALIXERR_MEMORY_ALLOCATE_FAILURE, obj);
          separator = (case strstr query param_start EQUAL of
              None \<Rightarrow> param_end
            | Some s \<Rightarrow> if s > param_end then param_end else s);
          key_size = size_diff separator param_start
      in body (
        stage (dup_nonempty p (AtKey (q_position obj)) query param_start key_size failure) (\<lambda>key.
        let separator = (if separator \<noteq> param_end then separator + 1 else separator);
            value_size = (if separator = param_end then 0 else size_diff param_end separator)
        in stage (dup_nonempty p (AtValue (q_position obj)) query separator value_size failure) (\<lambda>val.
        map_option Inr (put_parameter p obj \<lparr>par_key = key, par_value = val\<rparr>)))))"

text \<open>The \<open>while (1)\<close> loop; \<open>param_end\<close> is the next \<open>&\<close> or the end of the query.\<close>

function query_loop :: "platform \<Rightarrow> query \<Rightarrow> string \<Rightarrow> nat \<Rightarrow> (unalixerr \<times> query) option" where
  "query_loop p obj query param_start =
     (let query_end = length query;
          param_end = (case strstr query param_start AND_SIGN of None \<Rightarrow> query_end | Some e \<Rightarrow> e)
      in case parse_parameter p obj query param_start param_end of
           None \<Rightarrow> None
         | Some (e, obj) \<Rightarrow>
             if e \<noteq> UNALIXERR_SUCCESS then Some (e, obj)
             else if param_end = query_end then Some (UNALIXERR_SUCCESS, obj)
             else query_loop p obj query (param_end + 1))"
  by pat_completeness auto
termination
proof (relation "measure (\<lambda>(p, obj, query, param_start). length query - param_start)")
  fix p :: platform and obj obj' :: query and query :: string and param_start n x e
  assume n: "n = length query"
    and x: "x = (case strstr query param_start AND_SIGN of None \<Rightarrow> n | Some e \<Rightarrow> e)" "x \<noteq> n"
  from x obtain i where i: "strstr query param_start ''&'' = Some i" "x = i"
    by (auto simp: AND_SIGN_def split: option.splits)
  from strstr_SomeD(1)[OF i(1)] strstr_char_nth(1)[OF i(1)] i(2)
  show "((p, obj', query, x + 1), p, obj, query, param_start)
     \<in> measure (\<lambda>(p, obj, query, param_start). length query - param_start)"
    by auto
qed simp

declare query_loop.simps [simp del]

definition query_parse :: "platform \<Rightarrow> query \<Rightarrow> string \<Rightarrow> (unalixerr \<times> query) option" where
  "query_parse p obj query = query_loop p obj query 0"

definition query_free :: "query \<Rightarrow> query" where
  "query_free obj = obj\<lparr>q_size := 0, q_position := 0, q_parameters := []\<rparr>"

section \<open>The array and its accounting\<close>

definition query_inv :: "query \<Rightarrow> bool" where
  "query_inv obj \<longleftrightarrow> q_position obj = length (q_parameters obj) \<and>
     q_size obj = sizeof_Parameter * q_position obj"

lemma query_inv_zero: "query_inv zero_query"
  by (simp add: query_inv_def zero_query_def)

lemma put_parameter_eq:
  assumes "query_inv obj"
  shows "put_parameter p obj par = Some (
     if malloc p (AtItems (q_position obj)) (q_size obj + sizeof_Parameter)
     then (UNALIXERR_SUCCESS, obj\<lparr>q_size := q_size obj + sizeof_Parameter,
        q_position := q_position obj + 1,
        q_slength := (if q_slength obj > 0 then q_slength obj + length AND_SIGN else q_slength obj) +
           length (concat (parameter_parts par)),
        q_parameters := q_parameters obj @ [par]\<rparr>)
     else (UNALIXERR_MEMORY_ALLOCATE_FAILURE, obj))"
  using assms
  by (auto simp: put_parameter_def query_inv_def Let_def parameter_parts_def query_consts
      split: option.splits)

interpretation put: accounted_array put_parameter "\<lambda>par. par" q_parameters q_slength query_inv
  zero_query AND_SIGN parameter_parts
proof
  fix s t :: query and p x
  assume s: "query_inv s" and r: "put_parameter p s x = Some (UNALIXERR_SUCCESS, t)"
  have "t = s\<lparr>q_size := q_size s + sizeof_Parameter, q_position := q_position s + 1,
        q_slength := (if q_slength s > 0 then q_slength s + length AND_SIGN else q_slength s) +
           length (concat (parameter_parts x)),
        q_parameters := q_parameters s @ [x]\<rparr>"
    using r unfolding put_parameter_eq[OF s] by (auto split: if_splits)
  with s show "query_inv t \<and> q_parameters t = q_parameters s @ [x] \<and>
      q_slength t = (if q_slength s > 0 then q_slength s + length AND_SIGN else q_slength s) +
        length (concat (parameter_parts x))"
    by (simp add: query_inv_def)
next
  fix s :: query and p x
  assume s: "query_inv s" "ample p" "length (q_parameters s) < 2 ^ 58"
  then have "q_size s + sizeof_Parameter \<le> PTRDIFF_MAX"
    by (simp add: query_inv_def sizeof_Parameter_def PTRDIFF_MAX_def)
  then show "\<exists>t. put_parameter p s x = Some (UNALIXERR_SUCCESS, t)"
    using s by (simp add: put_parameter_eq)
qed (auto simp: put_parameter_eq parameter_parts_def EQUAL_def zero_query_def query_inv_zero[unfolded zero_query_def]
    split: if_splits)

text \<open>\<open>add_parameter\<close> makes NULL of an empty key or value.\<close>

definition mk_parameter :: "string \<times> string \<Rightarrow> parameter" where
  "mk_parameter kv = \<lparr>par_key = (if fst kv = [] then None else Some (fst kv)),
     par_value = (if snd kv = [] then None else Some (snd kv))\<rparr>"

definition kv_malloc :: "platform \<Rightarrow> nat \<Rightarrow> string \<Rightarrow> string \<Rightarrow> bool" where
  "kv_malloc p n key val \<longleftrightarrow>
     (key \<noteq> [] \<longrightarrow> malloc p (AtKey n) (length key + 1)) \<and>
     (val \<noteq> [] \<longrightarrow> malloc p (AtValue n) (length val + 1))"

lemma add_parameter_eq:
  "add_parameter p obj key val =
     (if kv_malloc p (q_position obj) key val then put_parameter p obj (mk_parameter (key, val))
      else Some (UNALIXERR_MEMORY_ALLOCATE_FAILURE, obj))"
  by (cases "put_parameter p obj (mk_parameter (key, val))")
    (auto simp: add_parameter_def kv_malloc_def strdup_def mk_parameter_def zero_parameter_def)

lemma mk_parameter_parts: "concat (parameter_parts (mk_parameter (k, v))) = k @ ''='' @ v"
  by (simp add: parameter_parts_def mk_parameter_def EQUAL_def)

interpretation add: accounted_array "\<lambda>p obj (key, val). add_parameter p obj key val" mk_parameter
  q_parameters q_slength query_inv zero_query AND_SIGN parameter_parts
proof
  fix s t :: query and p x
  assume s: "query_inv s" and r: "(case x of (key, val) \<Rightarrow> add_parameter p s key val) = Some (UNALIXERR_SUCCESS, t)"
  have "put_parameter p s (mk_parameter x) = Some (UNALIXERR_SUCCESS, t)"
    using r by (auto simp: add_parameter_eq split: prod.splits if_splits)
  from put.push_ok[OF s this] show "query_inv t \<and> q_parameters t = q_parameters s @ [mk_parameter x] \<and>
      q_slength t = (if q_slength s > 0 then q_slength s + length AND_SIGN else q_slength s) +
        length (concat (parameter_parts (mk_parameter x)))" .
next
  fix s :: query and p x
  assume s: "query_inv s" "ample p" "length (q_parameters s) < 2 ^ 58"
    and x: "length (concat (parameter_parts (mk_parameter x))) < PTRDIFF_MAX"
  obtain k v where [simp]: "x = (k, v)" by (cases x)
  have "kv_malloc p (q_position s) k v"
    using x s(2) by (simp add: kv_malloc_def mk_parameter_parts)
  then show "\<exists>t. (case x of (key, val) \<Rightarrow> add_parameter p s key val) = Some (UNALIXERR_SUCCESS, t)"
    using put.push_ample[OF s] x by (simp add: add_parameter_eq)
next
  fix s t :: query and p x e
  assume "query_inv s" "(case x of (key, val) \<Rightarrow> add_parameter p s key val) = Some (e, t)" "e \<noteq> UNALIXERR_SUCCESS"
  then show "t = s"
    using put.push_err[of s p _ e t] by (auto simp: add_parameter_eq split: if_splits prod.splits)
next
  fix s :: query and p x
  assume "query_inv s"
  then show "\<exists>r. (case x of (key, val) \<Rightarrow> add_parameter p s key val) = Some r"
    using put.push_defined[of s p] by (auto simp: add_parameter_eq split: prod.splits)
qed (rule put.parts_nonempty put.empty)+

section \<open>query_parse against a splitting specification\<close>

text \<open>A piece \<open>k=v\<close> of the query, cut at its first equals sign.\<close>

definition key_value :: "string \<Rightarrow> string \<times> string" where
  "key_value s = (takeWhile (\<lambda>c. c \<noteq> CHR ''='') s, drop 1 (dropWhile (\<lambda>c. c \<noteq> CHR ''='') s))"

definition query_pieces :: "string \<Rightarrow> (string \<times> string) list" where
  "query_pieces s = map key_value (split_on CHR ''&'' s)"

lemma key_value_sep: "CHR ''='' \<notin> set k \<Longrightarrow> key_value (k @ CHR ''='' # v) = (k, v)"
  by (induction k) (auto simp: key_value_def)

lemma key_value_none: "CHR ''='' \<notin> set k \<Longrightarrow> key_value k = (k, [])"
  by (induction k) (auto simp: key_value_def)

lemma dup_nonemptyI:
  assumes "s = xs @ ys @ zs" "a = length xs" "n = length ys"
  shows "dup_nonempty p at s a n r = Some (
     if ys = [] then Inr None
     else if malloc p at (length ys + 1) then Inr (Some ys) else Inl r)"
proof -
  have "slice s a n = ys" "a + n \<le> length s"
    using assms by (auto intro: sliceI)
  then show ?thesis
    using assms(3) by (simp add: dup_nonempty_def dup_range_in_bounds)
qed

lemma put_parameter_Inr [simp]:
  "body (map_option Inr (put_parameter p obj par)) = put_parameter p obj par"
  by (cases "put_parameter p obj par") simp_all

lemma parse_parameter_piece:
  assumes s: "s = xs @ piece @ zs" and amp: "CHR ''&'' \<notin> set piece"
    and zs: "zs = [] \<or> hd zs = CHR ''&''"
  shows "parse_parameter p obj s (length xs) (length xs + length piece) =
     (case key_value piece of (k, v) \<Rightarrow> add_parameter p obj k v)"
proof (cases "CHR ''='' \<in> set piece")
  case True
  then obtain k v where piece: "piece = k @ CHR ''='' # v" "CHR ''='' \<notin> set k"
    by (metis split_list_first)
  have sep: "strstr s (length xs) EQUAL = Some (length xs + length k)"
    using piece by (simp add: strstrI[OF s refl] EQUAL_def find_sub_char_app)
  have s1: "s = xs @ k @ (CHR ''='' # v @ zs)" and s2: "s = (xs @ k @ ''='') @ v @ zs"
    using s piece by simp_all
  have 1: "dup_nonempty p at s (length xs) (length k) r = Some (
     if k = [] then Inr None else if malloc p at (length k + 1) then Inr (Some k) else Inl r)"
    for at and r :: "unalixerr \<times> query"
    by (rule dup_nonemptyI[OF s1]) simp_all
  have 2: "dup_nonempty p at s (Suc (length xs + length k)) (length v) r = Some (
     if v = [] then Inr None else if malloc p at (length v + 1) then Inr (Some v) else Inl r)"
    for at and r :: "unalixerr \<times> query"
    by (rule dup_nonemptyI[OF s2]) simp_all
  have 3: "dup_nonempty p at s (Suc (length xs + length k)) 0 r = Some (Inr None)"
    for at and r :: "unalixerr \<times> query"
    by (simp add: dup_nonempty_def)
  have sizes: "size_diff (length xs + length piece) (Suc (length xs + length k)) = length v"
    using piece by simp
  show ?thesis
    using piece 2 3
    by (simp add: parse_parameter_def sep Let_def 1 key_value_sep add_parameter_eq kv_malloc_def mk_parameter_def)
next
  case False
  have sep: "(case strstr s (length xs) EQUAL of None \<Rightarrow> length xs + length piece
      | Some i \<Rightarrow> if length xs + length piece < i then length xs + length piece else i) = length xs + length piece"
  proof -
    have "strstr s (length xs) EQUAL = map_option (\<lambda>i. length xs + (length piece + i)) (find_sub EQUAL zs)"
      using False by (simp add: strstrI[OF s refl] EQUAL_def find_sub_char_skip option.map_comp comp_def)
    moreover have "find_sub EQUAL zs \<noteq> Some 0"
      using zs by (cases zs) (auto simp: EQUAL_def)
    ultimately show ?thesis
      by (auto split: option.splits)
  qed
  have 1: "dup_nonempty p at s (length xs) (length piece) r = Some (
     if piece = [] then Inr None else if malloc p at (length piece + 1) then Inr (Some piece) else Inl r)"
    for at and r :: "unalixerr \<times> query"
    by (rule dup_nonemptyI[OF s]) simp_all
  show ?thesis
    using False
    by (simp add: parse_parameter_def sep Let_def 1 key_value_none add_parameter_eq kv_malloc_def
        mk_parameter_def dup_nonempty_def[of _ _ _ _ 0])
qed

lemma query_loop_pieces:
  assumes "s = xs @ ys"
  shows "query_loop p obj s (length xs) =
     push_all (\<lambda>q (k, v). add_parameter p q k v) obj (query_pieces ys)"
  using assms
proof (induction "length ys" arbitrary: xs ys obj rule: less_induct)
  case less
  have "dropWhile (\<lambda>c. c \<noteq> CHR ''&'') ys = [] \<or> hd (dropWhile (\<lambda>c. c \<noteq> CHR ''&'') ys) = CHR ''&''"
    using hd_dropWhile[of "\<lambda>c. c \<noteq> CHR ''&''" ys] by blast
  moreover have "CHR ''&'' \<notin> set (takeWhile (\<lambda>c. c \<noteq> CHR ''&'') ys)"
    by (auto dest: set_takeWhileD)
  ultimately obtain piece zs where
    ys: "ys = piece @ zs" "CHR ''&'' \<notin> set piece" "zs = [] \<or> hd zs = CHR ''&''"
    using takeWhile_dropWhile_id[of "\<lambda>c. c \<noteq> CHR ''&''" ys] by metis
  have s: "s = xs @ piece @ zs"
    using less.prems ys(1) by simp
  obtain k v where kv: "key_value piece = (k, v)"
    by (cases "key_value piece")
  have piece: "parse_parameter p obj s (length xs) (length xs + length piece) = add_parameter p obj k v"
    using parse_parameter_piece[OF s ys(2,3), of p obj] by (simp add: kv)
  show ?case
  proof (cases zs)
    case Nil
    have "strstr s (length xs) AND_SIGN = None"
      using ys(2) Nil by (simp add: strstrI[OF less.prems refl] ys(1) AND_SIGN_def find_sub_char_None)
    moreover have "query_pieces ys = [(k, v)]"
      using ys Nil by (simp add: query_pieces_def kv)
    moreover have "length s = length xs + length piece"
      using s Nil by simp
    ultimately show ?thesis
      using piece by (subst query_loop.simps) (cases "add_parameter p obj k v", auto)
  next
    case (Cons a rest)
    then have zs: "zs = CHR ''&'' # rest"
      using ys(3) by simp
    have sep: "strstr s (length xs) AND_SIGN = Some (length xs + length piece)"
      using ys(2) zs by (simp add: strstrI[OF s refl] AND_SIGN_def find_sub_char_app)
    have pieces: "query_pieces ys = (k, v) # query_pieces rest"
      using ys zs by (simp add: query_pieces_def split_on_sep kv)
    have "s = (xs @ piece @ ''&'') @ rest"
      using s zs by simp
    from less.hyps[OF _ this] have IH: "query_loop p q s (Suc (length xs + length piece)) =
        push_all (\<lambda>q (k, v). add_parameter p q k v) q (query_pieces rest)" for q
      using ys(1) zs by simp
    moreover have "length s \<noteq> length xs + length piece"
      using s zs by simp
    ultimately show ?thesis
      using piece by (subst query_loop.simps) (cases "add_parameter p obj k v", auto simp: sep pieces)
  qed
qed

lemma query_parse_pieces:
  "query_parse p obj s = push_all (\<lambda>q (k, v). add_parameter p q k v) obj (query_pieces s)"
  unfolding query_parse_def using query_loop_pieces[of s "[]" s] by simp

text \<open>What every operation keeps of a query: its sizes, and the length it prints to.\<close>

definition query_ok :: "query \<Rightarrow> bool" where
  "query_ok q \<longleftrightarrow> query_inv q \<and> q_slength q = length (join ''&'' (rendered parameter_parts (q_parameters q)))"

lemma query_ok_accounted: "query_ok q \<longleftrightarrow> put.accounted q" "query_ok q \<longleftrightarrow> add.accounted q"
  unfolding query_ok_def put.accounted_def add.accounted_def by (simp_all add: AND_SIGN_def)

lemma query_free_ok: "query_inv (query_free q)" "q_parameters (query_free q) = []"
  by (simp_all add: query_free_def query_inv_def)

section \<open>Round trip\<close>

text \<open>Pairs that can be told apart in a query string.\<close>

definition pair_ok :: "string \<times> string \<Rightarrow> bool" where
  "pair_ok kv \<longleftrightarrow> CHR ''&'' \<notin> set (fst kv) \<and> CHR ''='' \<notin> set (fst kv) \<and> CHR ''&'' \<notin> set (snd kv)"

definition pair_str :: "string \<times> string \<Rightarrow> string" where
  "pair_str kv = fst kv @ ''='' @ snd kv"

lemma query_pieces_join:
  "xs \<noteq> [] \<Longrightarrow> \<forall>kv \<in> set xs. pair_ok kv \<Longrightarrow> query_pieces (join ''&'' (map pair_str xs)) = xs"
proof (induction xs)
  case (Cons kv xs)
  obtain k v where kv: "kv = (k, v)" "CHR ''&'' \<notin> set (k @ ''='' @ v)" "CHR ''='' \<notin> set k"
    using Cons.prems(2) by (cases kv) (auto simp: pair_ok_def)
  show ?case
  proof (cases xs)
    case Nil
    then show ?thesis
      using kv by (simp add: query_pieces_def pair_str_def key_value_sep)
  next
    case (Cons y ys)
    then have "query_pieces (join ''&'' (map pair_str xs)) = xs"
      using Cons.IH Cons.prems(2) by simp
    moreover have "join ''&'' (map pair_str (kv # xs)) = (k @ ''='' @ v) @ CHR ''&'' # join ''&'' (map pair_str xs)"
      using Cons kv by (simp add: pair_str_def)
    ultimately show ?thesis
      using split_on_sep[OF kv(2)] kv(1,3) by (simp only: query_pieces_def) (simp add: key_value_sep)
  qed
qed simp

lemma rendered_pairs: "rendered parameter_parts (map mk_parameter xs) = map pair_str xs"
  by (auto simp: mk_parameter_parts pair_str_def)

lemma query_take [simp]: "query_inv q \<Longrightarrow> take (q_position q) (q_parameters q) = q_parameters q"
  by (simp add: query_inv_def)

lemma query_stringify_items:
  assumes "put.accounted q" "q_slength q + 1 \<le> cap"
  shows "query_stringify cap q = Some (join ''&'' (rendered parameter_parts (q_parameters q)))"
proof -
  have "query_inv q"
    using assms(1) by (simp add: put.accounted_def)
  then show ?thesis
    using put.print_accounted[OF assms] assms(2) by (simp add: query_stringify_def AND_SIGN_def)
qed

lemma query_built:
  assumes "ample p" "length xs < 2 ^ 58" "\<forall>kv \<in> set xs. length (pair_str kv) < PTRDIFF_MAX"
  obtains q where "push_all (\<lambda>q (k, v). add_parameter p q k v) zero_query xs = Some (UNALIXERR_SUCCESS, q)"
    "put.accounted q" "q_parameters q = map mk_parameter xs"
proof -
  have "\<forall>x \<in> set xs. length (concat (parameter_parts (mk_parameter x))) < PTRDIFF_MAX"
    using assms(3) by (auto simp: mk_parameter_parts pair_str_def)
  from add.push_all_ample[OF add.accounted_empty assms(1) _ this] assms(2) add.empty(2)
  show thesis
    using that by (auto simp: put.accounted_def add.accounted_def)
qed

end
