(* ===== verification/Regex.thy ===== *)
theory Regex
  imports CString Errors
begin

text \<open>
  \<open>src/regex.c\<close> over the PCRE2 library, which is a parameter: a compiled pattern
  is a value of type \<open>'c\<close>, and the record gives what the code uses of the library.
\<close>

section \<open>The library\<close>

text \<open>
  \<open>pcre2_compile\<close> (None is NULL), \<open>pcre2_match\<close> (None when it returns a number
  that is not positive, else the pairs of the output vector, one for the match
  and one for each group of the pattern) and \<open>pcre2_substitute\<close> with
  \<open>PCRE2_SUBSTITUTE_GLOBAL\<close> and an empty replacement (None is an error).
\<close>

record 'c pcre2 =
  pcre2_compile :: "string \<Rightarrow> 'c option"
  pcre2_match :: "'c \<Rightarrow> string \<Rightarrow> (nat \<times> nat) list option"
  pcre2_substitute :: "'c \<Rightarrow> string \<Rightarrow> string option"

text \<open>
  Documented behaviour the proofs rely on: the output vector starts with the
  match and lies in the subject, and removing matches never makes a text longer.
\<close>

definition pcre2_ok :: "'c pcre2 \<Rightarrow> bool" where
  "pcre2_ok rx \<longleftrightarrow>
     (\<forall>c s ov. pcre2_match rx c s = Some ov \<longrightarrow> ov \<noteq> []) \<and>
     (\<forall>c s t. pcre2_substitute rx c s = Some t \<longrightarrow> subseq t s)"

section \<open>The operations\<close>

definition regex_compile :: "'c pcre2 \<Rightarrow> string \<Rightarrow> unalixerr \<times> 'c option" where
  "regex_compile rx src =
     (case pcre2_compile rx src of
        None \<Rightarrow> (UNALIXERR_REGEX_COMPILE_PATTERN_FAILURE, None)
      | Some re \<Rightarrow> (UNALIXERR_SUCCESS, Some re))"

definition regex_match :: "'c pcre2 \<Rightarrow> 'c \<Rightarrow> string \<Rightarrow> bool" where
  "regex_match rx pattern subject = (pcre2_match rx pattern subject \<noteq> None)"

text \<open>
  \<open>pcre2_substitute\<close> into a buffer of \<open>n\<close> bytes: the bytes and the new value of
  \<open>output_length\<close>, which is \<open>PCRE2_UNSET\<close> after an error, and a text that does not
  fit with its terminator is an error.
\<close>

definition PCRE2_UNSET :: nat where "PCRE2_UNSET = 2 ^ 64 - 1"

definition substitute_into :: "'c pcre2 \<Rightarrow> 'c \<Rightarrow> string \<Rightarrow> nat \<Rightarrow> string \<times> nat" where
  "substitute_into rx pattern subject n =
     (case pcre2_substitute rx pattern subject of
        None \<Rightarrow> ([], PCRE2_UNSET)
      | Some t \<Rightarrow> if length t + 1 \<le> n then (t, length t) else ([], PCRE2_UNSET))"

text \<open>
  \<open>regex_strip\<close> where the subject is the destination, as in every call: the new
  destination, NULL when nothing is left.  \<open>strncpy\<close> of \<open>output_length + 1\<close> bytes
  copies nothing when that wraps to 0.  An array of length 0 is undefined.
\<close>

definition regex_strip :: "'c pcre2 \<Rightarrow> 'c \<Rightarrow> string \<Rightarrow> string option option" where
  "regex_strip rx pattern destination =
     (if regex_match rx pattern destination then
        if length destination = 0 then None
        else
          let (output, output_length) = substitute_into rx pattern destination (length destination) in
          if output_length < 1 then Some None
          else if (output_length + 1) mod 2 ^ 64 = 0 then Some (Some destination)
          else Some (Some (c_str output))
      else Some (Some destination))"

section \<open>What regex_strip computes\<close>

text \<open>
  On a text that is not empty and shorter than the address space: the text
  without the matches, provided at least one character goes.
\<close>

definition strip_spec :: "'c pcre2 \<Rightarrow> 'c \<Rightarrow> string \<Rightarrow> string" where
  "strip_spec rx pattern s =
     (if regex_match rx pattern s then
        (case pcre2_substitute rx pattern s of
           None \<Rightarrow> s
         | Some t \<Rightarrow> if length t < length s then t else s)
      else s)"

definition nonempty :: "string \<Rightarrow> string option" where
  "nonempty s = (if s = [] then None else Some s)"

lemma strip_spec_subseq: "pcre2_ok rx \<Longrightarrow> subseq (strip_spec rx pattern s) s"
  by (auto simp: strip_spec_def pcre2_ok_def split: option.splits)

lemma length_strip_spec: "length (strip_spec rx pattern s) \<le> length s"
  by (auto simp: strip_spec_def split: option.splits)

lemma regex_strip_spec:
  assumes "pcre2_ok rx" "s \<noteq> []" "nul \<notin> set s" "length s < PTRDIFF_MAX"
  shows "regex_strip rx pattern s = Some (nonempty (strip_spec rx pattern s))"
proof (cases "regex_match rx pattern s")
  case False
  then show ?thesis
    using assms(2) by (simp add: regex_strip_def strip_spec_def nonempty_def)
next
  case True
  have unset: "(PCRE2_UNSET + 1) mod 2 ^ 64 = 0" "\<not> PCRE2_UNSET < 1"
    by (simp_all add: PCRE2_UNSET_def)
  show ?thesis
  proof (cases "pcre2_substitute rx pattern s")
    case None
    then show ?thesis
      using True assms(2) unset by (simp add: regex_strip_def strip_spec_def nonempty_def substitute_into_def)
  next
    case (Some t)
    show ?thesis
    proof (cases "length t < length s")
      case False
      then show ?thesis
        using True Some assms(2) unset
        by (simp add: regex_strip_def strip_spec_def nonempty_def substitute_into_def)
    next
      case shorter: True
      have "subseq t s"
        using assms(1) Some by (simp add: pcre2_ok_def)
      then have "nul \<notin> set t"
        using assms(3) by (metis subseq_order.trans subseq_singleton_left)
      moreover have "(length t + 1) mod 2 ^ 64 \<noteq> 0"
        using shorter assms(4) by (simp add: PTRDIFF_MAX_def)
      ultimately show ?thesis
        using True Some shorter assms(2)
        by (simp add: regex_strip_def strip_spec_def nonempty_def substitute_into_def)
    qed
  qed
qed

end
