(* ===== verification/CleanUrl.thy ===== *)
theory CleanUrl
  imports URI Query Regex
begin

text \<open>
  \<open>src/clean_url.c\<close>: \<open>prepend_scheme_if_needed\<close> and \<open>unalix_clean_url\<close>, with the
  rulesets of \<open>src/ruleset.h\<close>.  A redirection makes the function call itself on
  the captured URL; the first argument of the model bounds the number of
  activation frames, and it has no result when they run out.
\<close>

section \<open>Rulesets and options\<close>

record 'c ruleset =
  url_pattern :: 'c
  rules :: "'c list"
  raw_rules :: "'c list"
  referral_marketing :: "'c list"
  exceptions :: "'c list"
  redirections :: "'c list"

record clean_flags =
  ignore_referral_marketing :: bool
  ignore_rules :: bool
  ignore_exceptions :: bool
  ignore_raw_rules :: bool
  ignore_redirections :: bool
  strip_empty :: bool
  strip_duplicates :: bool

section \<open>prepend_scheme_if_needed\<close>

text \<open>\<open>src\<close> is in an array of \<open>cap\<close> bytes.\<close>

definition prepend_scheme_if_needed :: "platform \<Rightarrow> nat \<Rightarrow> string \<Rightarrow> string option" where
  "prepend_scheme_if_needed p cap src = do {
     (rc, _) \<leftarrow> uri_parse p zero_uri src;
     if rc = UNALIXERR_URI_SCHEME_MISSING then
       let prefix_length = length HTTP_SCHEME + length SCHEME_SEPARATOR in
       if prefix_length + length src + 1 \<le> cap then Some (HTTP_SCHEME @ SCHEME_SEPARATOR @ src) else None
     else Some src }"

section \<open>The rules of one ruleset\<close>

fun exception_matched :: "'c pcre2 \<Rightarrow> 'c list \<Rightarrow> string \<Rightarrow> bool" where
  "exception_matched rx [] subject = False"
| "exception_matched rx (c # cs) subject =
     (if regex_match rx c subject then True else exception_matched rx cs subject)"

text \<open>The output vector of the first redirection that matches.\<close>

fun first_redirection :: "'c pcre2 \<Rightarrow> 'c list \<Rightarrow> string \<Rightarrow> (nat \<times> nat) list option" where
  "first_redirection rx [] subject = None"
| "first_redirection rx (c # cs) subject =
     (case pcre2_match rx c subject of
        Some ovector \<Rightarrow> Some ovector
      | None \<Rightarrow> first_redirection rx cs subject)"

text \<open>
  The URL of the recursive call: group 1, decoded, with a scheme.  \<open>ovector[2]\<close>
  is in bounds only when the pattern has a group.
\<close>

definition redirection_url :: "platform \<Rightarrow> string \<Rightarrow> (nat \<times> nat) list \<Rightarrow> string option" where
  "redirection_url p subject ovector =
     (if length ovector < 2 then None
      else
        let (a, b) = ovector ! 1;
            len = size_diff b a
        in do {
          url \<leftarrow> memcpy_range subject a len;
          let cap = (len + 1) + length HTTPS_SCHEME + length SCHEME_SEPARATOR;
          let safe_unquoted_url = rfc3986_unquote_safe url;
          if length safe_unquoted_url + 1 \<le> cap
          then prepend_scheme_if_needed p cap (c_str safe_unquoted_url)
          else None })"

fun strip_all :: "'c pcre2 \<Rightarrow> 'c list \<Rightarrow> string \<Rightarrow> string option option" where
  "strip_all rx [] s = Some (Some s)"
| "strip_all rx (c # cs) s =
     (case regex_strip rx c s of
        None \<Rightarrow> None
      | Some None \<Rightarrow> Some None
      | Some (Some s) \<Rightarrow> strip_all rx cs s)"

text \<open>\<open>if (v != NULL && !ignore) { for (...) regex_strip(...) }\<close>\<close>

definition strip_field :: "'c pcre2 \<Rightarrow> bool \<Rightarrow> 'c list \<Rightarrow> string option \<Rightarrow> string option option" where
  "strip_field rx ignored cs v =
     (case v of None \<Rightarrow> Some None | Some s \<Rightarrow> if \<not> ignored then strip_all rx cs s else Some v)"

definition strip_uri :: "'c pcre2 \<Rightarrow> clean_flags \<Rightarrow> 'c ruleset \<Rightarrow> uri \<Rightarrow> uri option" where
  "strip_uri rx fl ruleset uri = do {
     query \<leftarrow> strip_field rx (ignore_rules fl) (rules ruleset) (uri_query uri);
     query \<leftarrow> strip_field rx (ignore_referral_marketing fl) (referral_marketing ruleset) query;
     fragment \<leftarrow> strip_field rx (ignore_rules fl) (rules ruleset) (uri_fragment uri);
     fragment \<leftarrow> strip_field rx (ignore_referral_marketing fl) (referral_marketing ruleset) fragment;
     path \<leftarrow> strip_field rx (ignore_raw_rules fl) (raw_rules ruleset) (uri_path uri);
     Some (uri\<lparr>uri_query := query, uri_fragment := fragment, uri_path := path\<rparr>) }"

text \<open>
  The loop over the rulesets: \<open>Inl next\<close> when it leaves the function with
  \<open>return unalix_clean_url(next, ...)\<close>, else the stripped URI.
\<close>

fun clean_rulesets ::
  "platform \<Rightarrow> 'c pcre2 \<Rightarrow> clean_flags \<Rightarrow> string \<Rightarrow> 'c ruleset list \<Rightarrow> uri \<Rightarrow> (string + uri) option" where
  "clean_rulesets p rx fl subject [] uri = Some (Inr uri)"
| "clean_rulesets p rx fl subject (ruleset # rest) uri =
     (if \<not> regex_match rx (url_pattern ruleset) subject then clean_rulesets p rx fl subject rest uri
      else if \<not> ignore_exceptions fl \<and> exception_matched rx (exceptions ruleset) subject
      then clean_rulesets p rx fl subject rest uri
      else
        (case (if \<not> ignore_redirections fl
               then first_redirection rx (redirections ruleset) subject else None) of
           Some ovector \<Rightarrow> map_option Inl (redirection_url (in_call 1 p) subject ovector)
         | None \<Rightarrow> do {
             uri \<leftarrow> strip_uri rx fl ruleset uri;
             clean_rulesets p rx fl subject rest uri }))"

section \<open>The query\<close>

definition same_key :: "parameter \<Rightarrow> parameter \<Rightarrow> bool" where
  "same_key parameter other =
     ((par_key parameter = None \<and> par_key other = None) \<or>
      (par_key parameter \<noteq> None \<and> par_key other \<noteq> None \<and> par_key parameter = par_key other))"

text \<open>
  The loop that writes the kept parameters back; \<open>seen\<close> is the array
  \<open>parameters\<close>, of \<open>slots\<close> elements.
\<close>

fun rebuild_query ::
  "nat \<Rightarrow> nat \<Rightarrow> clean_flags \<Rightarrow> parameter list \<Rightarrow> string \<Rightarrow> parameter list \<Rightarrow> string option" where
  "rebuild_query cap slots fl seen dst [] = Some dst"
| "rebuild_query cap slots fl seen dst (parameter # rest) =
     (if strip_empty fl \<and> (par_key parameter = None \<or> par_value parameter = None)
      then rebuild_query cap slots fl seen dst rest
      else if strip_duplicates fl \<and> list_ex (same_key parameter) seen
      then rebuild_query cap slots fl seen dst rest
      else if strip_duplicates fl \<and> \<not> length seen < slots then None
      else do {
        dst \<leftarrow> strcats cap dst ((if dst \<noteq> [] then [AND_SIGN] else []) @ parameter_parts parameter);
        rebuild_query cap slots fl (if strip_duplicates fl then seen @ [parameter] else seen) dst rest })"

definition clean_query ::
  "platform \<Rightarrow> clean_flags \<Rightarrow> string \<Rightarrow> (unalixerr + string option) option" where
  "clean_query p fl q =
     (case query_parse p zero_query q of
        None \<Rightarrow> None
      | Some (rc, query) \<Rightarrow>
          if rc \<noteq> UNALIXERR_SUCCESS then Some (Inl rc)
          else if strip_duplicates fl \<and> \<not> malloc p AtParameters (q_size query)
          then Some (Inl UNALIXERR_MEMORY_ALLOCATE_FAILURE)
          else if \<not> malloc p AtRewrite (length q * 3 + 1)
          then Some (Inl UNALIXERR_MEMORY_ALLOCATE_FAILURE)
          else do {
            s \<leftarrow> rebuild_query (length q * 3 + 1) (q_size query div sizeof_Parameter) fl [] []
                   (take (q_position query) (q_parameters query));
            Some (Inr (if s = [] then None else Some s)) })"

section \<open>unalix_clean_url\<close>

text \<open>
  One activation: \<open>Inl (rc, target)\<close> when it returns, with what it stored in
  \<open>*target_url\<close> if it did; \<open>Inr next\<close> when it calls itself.
\<close>

definition clean_frame ::
  "platform \<Rightarrow> 'c pcre2 \<Rightarrow> 'c ruleset list \<Rightarrow> clean_flags \<Rightarrow> string option \<Rightarrow> bool
     \<Rightarrow> (unalixerr \<times> string option + string) option" where
  "clean_frame p rx rulesets fl source_url has_target =
     (case source_url of
        None \<Rightarrow> Some (Inl (UNALIXERR_ARG_INVALID, None))
      | Some source_url \<Rightarrow>
          if source_url = [] \<or> \<not> has_target then Some (Inl (UNALIXERR_ARG_INVALID, None))
          else if length rulesets < 1 then Some (Inl (UNALIXERR_RULESETS_EMPTY, None))
          else do {
            (rc, uri) \<leftarrow> uri_parse p zero_uri source_url;
            if rc \<noteq> UNALIXERR_SUCCESS then Some (Inl (rc, None))
            else do {
              r \<leftarrow> clean_rulesets p rx fl source_url rulesets uri;
              (case r of
                 Inl next \<Rightarrow> Some (Inr next)
               | Inr uri \<Rightarrow> do {
                   r \<leftarrow> (case uri_query uri of
                           None \<Rightarrow> Some (Inr None)
                         | Some q \<Rightarrow> clean_query p fl q);
                   (case r of
                      Inl rc \<Rightarrow> Some (Inl (rc, None))
                    | Inr query \<Rightarrow> do {
                        target \<leftarrow> uri_stringify p (uri\<lparr>uri_query := query\<rparr>);
                        Some (Inl (UNALIXERR_SUCCESS, Some target)) }) }) } })"

fun unalix_clean_url ::
  "nat \<Rightarrow> platform \<Rightarrow> 'c pcre2 \<Rightarrow> 'c ruleset list \<Rightarrow> clean_flags \<Rightarrow> string option \<Rightarrow> bool
     \<Rightarrow> (unalixerr \<times> string option) option" where
  "unalix_clean_url 0 p rx rulesets fl source_url has_target = None"
| "unalix_clean_url (Suc frames) p rx rulesets fl source_url has_target =
     (case clean_frame p rx rulesets fl source_url has_target of
        None \<Rightarrow> None
      | Some (Inl r) \<Rightarrow> Some r
      | Some (Inr next) \<Rightarrow>
          unalix_clean_url frames (in_call 0 p) rx rulesets fl (Some next) has_target)"

end
