(* ===== verification/JSON.thy ===== *)
theory JSON
  imports Prelude
begin

text \<open>
  The trees of Jansson: a datatype with the types of the JSON values, an object a
  list of members in the order Jansson iterates over them.  The value of a real
  number is its text.
\<close>

datatype json =
    JNull
  | JBool bool
  | JInteger int
  | JReal string
  | JString string
  | JArray "json list"
  | JObject "(string \<times> json) list"

definition json_object_get :: "json \<Rightarrow> string \<Rightarrow> json option" where
  "json_object_get t key = (case t of JObject ms \<Rightarrow> map_of ms key | _ \<Rightarrow> None)"

definition json_is_object :: "json \<Rightarrow> bool" where
  "json_is_object t = (case t of JObject ms \<Rightarrow> True | _ \<Rightarrow> False)"

definition json_is_array :: "json \<Rightarrow> bool" where
  "json_is_array t = (case t of JArray ts \<Rightarrow> True | _ \<Rightarrow> False)"

definition json_items :: "json \<Rightarrow> json list" where
  "json_items t = (case t of JArray ts \<Rightarrow> ts | _ \<Rightarrow> [])"

definition json_members :: "json \<Rightarrow> (string \<times> json) list" where
  "json_members t = (case t of JObject ms \<Rightarrow> ms | _ \<Rightarrow> [])"

text \<open>
  \<open>object_set\<close>: the value of a key that is there is replaced in its place,
  another pair comes last in the order of iteration.  \<open>Hashtable_Proofs\<close> shows that the
  hash tables of the code do this.
\<close>

fun object_set :: "(string \<times> 'v) list \<Rightarrow> string \<Rightarrow> 'v \<Rightarrow> (string \<times> 'v) list" where
  "object_set [] key val = [(key, val)]"
| "object_set ((k, v) # pairs) key val =
     (if k = key then (k, val) # pairs else (k, v) # object_set pairs key val)"

lemma map_of_object_set: "map_of (object_set pairs key val) = (map_of pairs)(key \<mapsto> val)"
  by (induction pairs key val rule: object_set.induct) auto

lemma object_set_new: "key \<notin> fst ` set pairs \<Longrightarrow> object_set pairs key val = pairs @ [(key, val)]"
  by (induction pairs key val rule: object_set.induct) auto

lemma object_set_keys: "map fst (object_set pairs key val) =
   (if key \<in> fst ` set pairs then map fst pairs else map fst pairs @ [key])"
  by (induction pairs key val rule: object_set.induct) auto

end
