(* ===== verification/UTF8.thy ===== *)
theory UTF8
  imports Prelude
begin

unbundle bit_operations_syntax

text \<open>
  UTF-8 in Jansson, \<open>submodules/jansson/src/utf.c\<close>: the encoder and the checks, and
  the proof that the checks accept exactly the encodings of Unicode scalar values.
  An \<open>int32_t\<close> code point is an int.
\<close>

section \<open>The encoder and the checks\<close>

text \<open>None is the result -1; otherwise the bytes that are written.\<close>

definition utf8_encode :: "int \<Rightarrow> string option" where
  "utf8_encode codepoint =
     (if codepoint < 0 then None
      else if codepoint < 0x80 then Some (map (\<lambda>b. char_of (nat b)) [codepoint])
      else if codepoint < 0x800 then Some (map (\<lambda>b. char_of (nat b))
        [0xC0 + drop_bit 6 (codepoint AND 0x7C0),
         0x80 + (codepoint AND 0x03F)])
      else if codepoint < 0x10000 then Some (map (\<lambda>b. char_of (nat b))
        [0xE0 + drop_bit 12 (codepoint AND 0xF000),
         0x80 + drop_bit 6 (codepoint AND 0x0FC0),
         0x80 + (codepoint AND 0x003F)])
      else if codepoint \<le> 0x10FFFF then Some (map (\<lambda>b. char_of (nat b))
        [0xF0 + drop_bit 18 (codepoint AND 0x1C0000),
         0x80 + drop_bit 12 (codepoint AND 0x03F000),
         0x80 + drop_bit 6 (codepoint AND 0x000FC0),
         0x80 + (codepoint AND 0x00003F)])
      else None)"

text \<open>The number of bytes of the sequence that begins with a byte, 0 when none does.\<close>

definition utf8_check_first :: "char \<Rightarrow> nat" where
  "utf8_check_first byte =
     (let u = code byte in
      if u < 0x80 then 1
      else if 0x80 \<le> u \<and> u \<le> 0xBF then 0
      else if u = 0xC0 \<or> u = 0xC1 then 0
      else if 0xC2 \<le> u \<and> u \<le> 0xDF then 2
      else if 0xE0 \<le> u \<and> u \<le> 0xEF then 3
      else if 0xF0 \<le> u \<and> u \<le> 0xF4 then 4
      else 0)"

fun continuation :: "int \<Rightarrow> string \<Rightarrow> int option" where
  "continuation value [] = Some value"
| "continuation value (byte # bytes) =
     (let u = int (code byte) in
      if u < 0x80 \<or> u > 0xBF then None
      else continuation (push_bit 6 value + (u AND 0x3F)) bytes)"

text \<open>The argument is the \<open>size\<close> bytes of the buffer; None is the result 0.\<close>

definition utf8_check_full :: "string \<Rightarrow> int option" where
  "utf8_check_full buffer =
     (case buffer of
        [] \<Rightarrow> None
      | byte # bytes \<Rightarrow>
          let size = length buffer; u = int (code byte) in
          if size \<noteq> 2 \<and> size \<noteq> 3 \<and> size \<noteq> 4 then None
          else (case continuation (if size = 2 then u AND 0x1F else if size = 3 then u AND 0xF else u AND 0x7) bytes of
              None \<Rightarrow> None
            | Some value \<Rightarrow>
                if value > 0x10FFFF then None
                else if 0xD800 \<le> value \<and> value \<le> 0xDFFF then None
                else if size = 2 \<and> value < 0x80 \<or> size = 3 \<and> value < 0x800 \<or> size = 4 \<and> value < 0x10000 then None
                else Some value))"

function utf8_check_string :: "string \<Rightarrow> bool" where
  "utf8_check_string [] = True"
| "utf8_check_string (c # s) =
     (let count = utf8_check_first c in
      if count = 0 then False
      else if count > 1 then
        if count > length (c # s) then False
        else if utf8_check_full (take count (c # s)) = None then False
        else utf8_check_string (drop count (c # s))
      else utf8_check_string s)"
  by pat_completeness auto
termination
  by (relation "measure length") auto

declare utf8_check_string.simps [simp del]

section \<open>Unicode\<close>

text \<open>The scalar values, and their encoding by the table of the Unicode standard.\<close>

definition scalar :: "nat \<Rightarrow> bool" where
  "scalar n \<longleftrightarrow> n < 0xD800 \<or> 0xE000 \<le> n \<and> n \<le> 0x10FFFF"

definition trail :: "nat \<Rightarrow> char" where
  "trail n = char_of (0x80 + n mod 64)"

definition utf8 :: "nat \<Rightarrow> string" where
  "utf8 n =
     (if n < 0x80 then [char_of n]
      else if n < 0x800 then [char_of (0xC0 + n div 64), trail n]
      else if n < 0x10000 then [char_of (0xE0 + n div 4096), trail (n div 64), trail n]
      else [char_of (0xF0 + n div 262144), trail (n div 4096), trail (n div 64), trail n])"

lemma code_trail [simp]: "code (trail n) = 128 + n mod 64"
proof -
  have "128 + n mod 64 < (256 :: nat)"
    using mod_less_divisor[of 64 n] by linarith
  then show ?thesis
    by (simp add: trail_def)
qed

lemma and_shifted_mask: "drop_bit k (n AND push_bit k (mask j)) = take_bit j (drop_bit k n :: int)"
  by (rule bit_eqI) (auto simp: bit_simps)

lemma mask_field:
  assumes "m = push_bit k (mask j)" "a = 2 ^ k" "b = 2 ^ j"
  shows "drop_bit k (int n AND m) = int (n div a mod b)"
  unfolding assms and_shifted_mask by (simp add: drop_bit_eq_div take_bit_eq_mod zdiv_int zmod_int)

lemma low_field: "m = mask j \<Longrightarrow> b = 2 ^ j \<Longrightarrow> int n AND m = int (n mod b)"
  using mask_field[of m 0 j 1 b n] by simp

lemmas mask_numeral = mask_eq_exp_minus_1 push_bit_eq_mult

lemma field:
  "drop_bit 6 (int n AND 0x7C0) = int (n div 64 mod 32)"
  "drop_bit 12 (int n AND 0xF000) = int (n div 4096 mod 16)"
  "drop_bit 6 (int n AND 0x0FC0) = int (n div 64 mod 64)"
  "drop_bit 18 (int n AND 0x1C0000) = int (n div 262144 mod 8)"
  "drop_bit 12 (int n AND 0x03F000) = int (n div 4096 mod 64)"
  by (rule mask_field[where j = 5] mask_field[where j = 4] mask_field[where j = 6] mask_field[where j = 3],
      simp add: mask_numeral, simp, simp; fail)+

lemma low_fields:
  "int n AND 0x3F = int (n mod 64)" "int n AND 0x1F = int (n mod 32)" "int n AND 0xF = int (n mod 16)"
  "int n AND 0x7 = int (n mod 8)"
  by (rule low_field[where j = 6] low_field[where j = 5] low_field[where j = 4] low_field[where j = 3],
      simp add: mask_numeral, simp; fail)+

lemma utf8_encode_scalar: "n \<le> 0x10FFFF \<Longrightarrow> utf8_encode (int n) = Some (utf8 n)"
proof -
  assume n: "n \<le> 0x10FFFF"
  have b: "nat (k + int m) = nat k + m" if "0 \<le> k" for k m
    using that by simp
  have "n < 0x800 \<Longrightarrow> n div 64 mod 32 = n div 64" "n < 0x10000 \<Longrightarrow> n div 4096 mod 16 = n div 4096"
    "n div 262144 mod 8 = n div 262144"
    using n by (auto intro!: mod_less div_less_iff_less_mult[THEN iffD2])
  then show ?thesis
    using n unfolding utf8_encode_def utf8_def trail_def field low_fields by (auto simp: b)
qed

text \<open>A code point from its upper part and six bits.\<close>

definition join6 :: "nat \<Rightarrow> nat \<Rightarrow> nat" where
  "join6 m r = 64 * m + r"

lemma join6_div [simp]:
  assumes "r < 64"
  shows "join6 m r div 64 = m" "join6 m r mod 64 = r" "join6 m r div 4096 = m div 64" "join6 m r div 262144 = m div 4096"
proof -
  show 64: "join6 m r div 64 = m" "join6 m r mod 64 = r"
    using assms by (simp_all add: join6_def)
  show "join6 m r div 4096 = m div 64" "join6 m r div 262144 = m div 4096"
    using 64(1) div_mult2_eq[of "join6 m r" 64 64] div_mult2_eq[of "join6 m r" 64 4096] by simp_all
qed

lemma join6_split: obtains m r where "n = join6 m r" "r < 64"
proof
  show "n = join6 (n div 64) (n mod 64)" "n mod 64 < 64"
    by (simp_all add: join6_def)
qed

text \<open>A continuation byte and its six bits.\<close>

definition six :: "char \<Rightarrow> nat \<Rightarrow> bool" where
  "six b r \<longleftrightarrow> code b = 0x80 + r \<and> r < 64"

lemma six_char: "six b r \<Longrightarrow> b = char_of (0x80 + r)"
  by (metis char_of_char six_def)

lemma six_trail: "r < 64 \<Longrightarrow> six (char_of (0x80 + r)) r"
  by (simp add: six_def)

lemma six_trail_of: "six (trail n) (n mod 64)"
  by (simp add: six_def)

lemma continuation_six: "six b r \<Longrightarrow> continuation (int m) (b # bs) = continuation (int (join6 m r)) bs"
proof -
  assume b: "six b r"
  have "(0x80 + r) mod 64 = r"
    using b by (simp add: six_def mod_add_left_eq[symmetric])
  then have "int (code b) AND 0x3F = int r"
    using b low_fields(1)[of "code b"] by (simp add: six_def)
  moreover have "push_bit 6 (int m) + int r = int (join6 m r)"
    by (simp add: join6_def push_bit_eq_mult)
  moreover have "\<not> (int (code b) < 0x80 \<or> int (code b) > 0xBF)"
    using b by (auto simp: six_def)
  ultimately show ?thesis
    by (simp only: continuation.simps Let_def if_False)
qed

lemma continuation_Some: "continuation v bs = Some r \<Longrightarrow> b \<in> set bs \<Longrightarrow> \<exists>s. six b s"
proof (induction v bs rule: continuation.induct)
  case (2 v c bs)
  then have "0x80 \<le> code c" "code c \<le> (0xBF :: nat)"
    by (auto simp: Let_def split: if_splits)
  then have "six c (code c - 0x80)"
    by (simp add: six_def)
  with 2 show ?case
    by (auto simp: Let_def split: if_splits)
qed simp

section \<open>What the checks accept\<close>

text \<open>A code point as the fields of its bytes.\<close>

lemma utf8_pieces:
  "y < 64 \<Longrightarrow> 0x80 \<le> join6 x y \<Longrightarrow> x < 32 \<Longrightarrow> utf8 (join6 x y) = [char_of (0xC0 + x), char_of (0x80 + y)]"
  "z < 64 \<Longrightarrow> y < 64 \<Longrightarrow> x < 16 \<Longrightarrow> 0x800 \<le> join6 (join6 x y) z \<Longrightarrow>
     utf8 (join6 (join6 x y) z) = [char_of (0xE0 + x), char_of (0x80 + y), char_of (0x80 + z)]"
  "w < 64 \<Longrightarrow> z < 64 \<Longrightarrow> y < 64 \<Longrightarrow> 0x10000 \<le> join6 (join6 (join6 x y) z) w \<Longrightarrow>
     utf8 (join6 (join6 (join6 x y) z) w) = [char_of (0xF0 + x), char_of (0x80 + y), char_of (0x80 + z), char_of (0x80 + w)]"
proof -
  assume "y < 64" "0x80 \<le> join6 x y" "x < 32"
  moreover from this have "join6 x y < 0x800"
    by (simp add: join6_def)
  ultimately show "utf8 (join6 x y) = [char_of (0xC0 + x), char_of (0x80 + y)]"
    by (simp add: utf8_def trail_def)
next
  assume "z < 64" "y < 64" "x < 16" "0x800 \<le> join6 (join6 x y) z"
  moreover from this have "join6 (join6 x y) z < 0x10000"
    by (simp add: join6_def)
  ultimately show "utf8 (join6 (join6 x y) z) = [char_of (0xE0 + x), char_of (0x80 + y), char_of (0x80 + z)]"
    by (simp add: utf8_def trail_def)
qed (simp add: utf8_def trail_def)

lemma utf8_cases:
  assumes "scalar n"
  obtains (one) "n < 0x80" "utf8 n = [char_of n]"
  | (two) x y where "n = join6 x y" "0x80 \<le> n" "2 \<le> x" "x < 32" "y < 64"
  | (three) x y z where "n = join6 (join6 x y) z" "0x800 \<le> n" "x < 16" "y < 64" "z < 64"
  | (four) x y z w where "n = join6 (join6 (join6 x y) z) w" "0x10000 \<le> n" "x < 5" "y < 64" "z < 64" "w < 64"
proof -
  obtain k1 r1 where 1: "n = join6 k1 r1" "r1 < 64" by (rule join6_split)
  obtain k2 r2 where 2: "k1 = join6 k2 r2" "r2 < 64" by (rule join6_split)
  obtain k3 r3 where 3: "k2 = join6 k3 r3" "r3 < 64" by (rule join6_split)
  consider "n < 0x80" | "0x80 \<le> n" "n < 0x800" | "0x800 \<le> n" "n < 0x10000" | "0x10000 \<le> n"
    by linarith
  then show thesis
  proof cases
    case c: 1
    then show ?thesis by (intro one) (simp_all add: utf8_def)
  next
    case c: 2
    then show ?thesis using 1 by (intro two[of k1 r1]) (auto simp: join6_def)
  next
    case c: 3
    then show ?thesis using 1 2 by (intro three[of k2 r2 r1]) (auto simp: join6_def)
  next
    case c: 4
    then show ?thesis using 1 2 3 assms by (intro four[of k3 r3 r2 r1]) (auto simp: scalar_def join6_def)
  qed
qed

text \<open>The checks on explicit bytes.\<close>

lemma lead_bits:
  "code a = 0xC0 + x \<Longrightarrow> x < 32 \<Longrightarrow> int (code a) AND 0x1F = int x"
  "code a = 0xE0 + x \<Longrightarrow> x < 16 \<Longrightarrow> int (code a) AND 0xF = int x"
  "code a = 0xF0 + x \<Longrightarrow> x < 8 \<Longrightarrow> int (code a) AND 0x7 = int x"
  by (simp_all only: low_fields) (simp_all add: mod_add_left_eq[symmetric])

definition full_value :: "nat \<Rightarrow> nat \<Rightarrow> int option" where
  "full_value least n = (if scalar n \<and> least \<le> n then Some (int n) else None)"

lemma check_full_bytes:
  "int (code a) AND 0x1F = int x \<Longrightarrow> six b y \<Longrightarrow> utf8_check_full [a, b] = full_value 0x80 (join6 x y)"
  "int (code a) AND 0xF = int x \<Longrightarrow> six b y \<Longrightarrow> six c z \<Longrightarrow>
     utf8_check_full [a, b, c] = full_value 0x800 (join6 (join6 x y) z)"
  "int (code a) AND 0x7 = int x \<Longrightarrow> six b y \<Longrightarrow> six c z \<Longrightarrow> six d w \<Longrightarrow>
     utf8_check_full [a, b, c, d] = full_value 0x10000 (join6 (join6 (join6 x y) z) w)"
  by (auto simp: utf8_check_full_def Let_def continuation_six full_value_def scalar_def simp del: continuation.simps(2))

lemma check_first_utf8: "scalar n \<Longrightarrow> utf8_check_first (hd (utf8 n)) = length (utf8 n)"
  by (erule utf8_cases) (simp_all add: utf8_check_first_def Let_def utf8_pieces)

lemma check_full_utf8:
  assumes "scalar n" "0x80 \<le> n"
  shows "utf8_check_full (utf8 n) = Some (int n)"
  using assms(1)
proof (cases rule: utf8_cases)
  case (two x y)
  then show ?thesis
    using assms by (simp add: utf8_pieces check_full_bytes(1)[OF lead_bits(1) six_trail] full_value_def)
next
  case (three x y z)
  then show ?thesis
    using assms by (simp add: utf8_pieces check_full_bytes(2)[OF lead_bits(2) six_trail six_trail] full_value_def)
next
  case (four x y z w)
  then show ?thesis
    using assms by (simp add: utf8_pieces check_full_bytes(3)[OF lead_bits(3) six_trail six_trail six_trail] full_value_def)
qed (use assms in auto)

lemma check_full_Some:
  assumes "utf8_check_full bs = Some v" "length bs = utf8_check_first (hd bs)"
  obtains n where "v = int n" "scalar n" "0x80 \<le> n" "bs = utf8 n"
proof -
  obtain a bs' where bs: "bs = a # bs'" and len: "length bs' = 1 \<or> length bs' = 2 \<or> length bs' = 3"
    and "\<exists>v r. continuation v bs' = Some r"
    using assms(1) by (auto simp: utf8_check_full_def Let_def split: list.splits if_splits option.splits)
  then have cont: "\<exists>s. six b s" if "b \<in> set bs'" for b
    using continuation_Some that by blast
  have lead: "\<exists>x. code a = k + x \<and> x < m" if "k \<le> code a" "code a < k + m" for k m :: nat
    using that by (intro exI[of _ "code a - k"]) auto
  have chr: "a = char_of n" if "code a = n" for n :: nat
    using that by (metis char_of_char)
  consider b where "bs' = [b]" | b c where "bs' = [b, c]" | b c d where "bs' = [b, c, d]"
    using len by (auto simp: length_Suc_conv numeral_eq_Suc)
  then show thesis
  proof cases
    case (1 b)
    obtain y where y: "six b y"
      using cont[of b] 1 by auto
    obtain x where x: "code a = 0xC0 + x" "x < 32"
      using lead[of "0xC0" 32] assms(2) bs 1 by (auto simp: utf8_check_first_def Let_def split: if_splits)
    have "full_value 0x80 (join6 x y) = Some v"
      using assms(1) bs 1 check_full_bytes(1)[OF lead_bits(1)[OF x] y] by simp
    then show thesis
      using bs 1 x y six_char[OF y] chr[OF x(1)] utf8_pieces(1)[of y x]
      by (intro that[of "join6 x y"]) (auto simp: full_value_def six_def split: if_splits)
  next
    case (2 b c)
    obtain y z where y: "six b y" and z: "six c z"
      using cont[of b] cont[of c] 2 by auto
    obtain x where x: "code a = 0xE0 + x" "x < 16"
      using lead[of "0xE0" 16] assms(2) bs 2 by (auto simp: utf8_check_first_def Let_def split: if_splits)
    have "full_value 0x800 (join6 (join6 x y) z) = Some v"
      using assms(1) bs 2 check_full_bytes(2)[OF lead_bits(2)[OF x] y z] by simp
    then show thesis
      using bs 2 x y z six_char[OF y] six_char[OF z] chr[OF x(1)] utf8_pieces(2)[of z y x]
      by (intro that[of "join6 (join6 x y) z"]) (auto simp: full_value_def six_def split: if_splits)
  next
    case (3 b c d)
    obtain y z w where y: "six b y" and z: "six c z" and w: "six d w"
      using cont[of b] cont[of c] cont[of d] 3 by auto
    obtain x where x: "code a = 0xF0 + x" "x < 8"
      using lead[of "0xF0" 8] assms(2) bs 3 by (auto simp: utf8_check_first_def Let_def split: if_splits)
    have "full_value 0x10000 (join6 (join6 (join6 x y) z) w) = Some v"
      using assms(1) bs 3 check_full_bytes(3)[OF lead_bits(3)[OF x] y z w] by simp
    then show thesis
      using bs 3 x y z w six_char[OF y] six_char[OF z] six_char[OF w] chr[OF x(1)] utf8_pieces(3)[of w z y x]
      by (intro that[of "join6 (join6 (join6 x y) z) w"]) (auto simp: full_value_def six_def split: if_splits)
  qed
qed

lemma length_utf8: "0 < length (utf8 n)" "length (utf8 n) \<le> 4" "0x80 \<le> n \<Longrightarrow> 2 \<le> length (utf8 n)"
  by (auto simp: utf8_def)

lemma check_string_utf8: "scalar n \<Longrightarrow> utf8_check_string (utf8 n @ s) = utf8_check_string s"
proof (cases "n < 0x80")
  case True
  then show ?thesis
    by (simp add: utf8_def utf8_check_string.simps(2) utf8_check_first_def)
next
  case False
  assume n: "scalar n"
  obtain c t where ct: "utf8 n = c # t"
    using length_utf8(1)[of n] by (cases "utf8 n") auto
  have "utf8_check_first c = Suc (length t)" "utf8_check_full (c # t) = Some (int n)" "1 \<le> length t"
    using check_first_utf8[OF n] check_full_utf8[OF n] length_utf8(3)[of n] ct False by auto
  then show ?thesis
    by (simp add: ct utf8_check_string.simps(2) Let_def)
qed

text \<open>A text is the encodings of a list of scalar values.\<close>

definition utf8_text :: "string \<Rightarrow> bool" where
  "utf8_text s \<longleftrightarrow> (\<exists>ns. list_all scalar ns \<and> s = concat (map utf8 ns))"

lemma utf8_check_string_eq: "utf8_check_string s \<longleftrightarrow> (\<exists>ns. list_all scalar ns \<and> s = concat (map utf8 ns))"
proof
  show "utf8_check_string s \<Longrightarrow> \<exists>ns. list_all scalar ns \<and> s = concat (map utf8 ns)"
  proof (induction s rule: utf8_check_string.induct)
    case 1
    show ?case by (intro exI[of _ "[]"]) simp
  next
    case (2 c s)
    let ?k = "utf8_check_first c"
    have k: "?k \<noteq> 0" "?k > 1 \<Longrightarrow> ?k \<le> length (c # s) \<and> utf8_check_full (take ?k (c # s)) \<noteq> None \<and> utf8_check_string (drop ?k (c # s))"
      "\<not> ?k > 1 \<Longrightarrow> utf8_check_string s"
      using "2.prems" by (auto simp: utf8_check_string.simps(2) Let_def split: if_splits)
    show ?case
    proof (cases "?k > 1")
      case True
      obtain ns where ns: "list_all scalar ns" "drop ?k (c # s) = concat (map utf8 ns)"
        using "2.IH"(1)[OF refl k(1) True] k(2)[OF True] by auto
      obtain v where v: "utf8_check_full (take ?k (c # s)) = Some v"
        using k(2)[OF True] by auto
      have "length (take ?k (c # s)) = utf8_check_first (hd (take ?k (c # s)))"
        using k(2)[OF True] True by (cases ?k) auto
      from check_full_Some[OF v this] obtain n where "scalar n" "take ?k (c # s) = utf8 n" .
      then have "list_all scalar (n # ns)" "c # s = concat (map utf8 (n # ns))"
        using ns append_take_drop_id[of ?k "c # s"] by simp_all
      then show ?thesis by blast
    next
      case False
      then obtain ns where ns: "list_all scalar ns" "s = concat (map utf8 ns)"
        using "2.IH"(2)[OF refl k(1) False] k(3)[OF False] by auto
      have "code c < (0x80 :: nat)"
        using k(1) False by (auto simp: utf8_check_first_def Let_def split: if_splits)
      then have "list_all scalar (code c # ns)" "c # s = concat (map utf8 (code c # ns))"
        using ns by (simp_all add: scalar_def utf8_def)
      then show ?thesis by blast
    qed
  qed
next
  assume "\<exists>ns. list_all scalar ns \<and> s = concat (map utf8 ns)"
  then obtain ns where "list_all scalar ns" "s = concat (map utf8 ns)" by blast
  then show "utf8_check_string s"
    by (induction ns arbitrary: s) (auto simp: check_string_utf8 utf8_check_string.simps(1))
qed

lemma check_string_append: "utf8_check_string s \<Longrightarrow> utf8_check_string (s @ t) = utf8_check_string t"
proof -
  assume "utf8_check_string s"
  then obtain ns where "list_all scalar ns" "s = concat (map utf8 ns)"
    unfolding utf8_check_string_eq by blast
  then show ?thesis
    by (induction ns arbitrary: s) (auto simp: check_string_utf8)
qed

end
