(* ===== verification/JSON_Load.thy ===== *)
theory JSON_Load
  imports JSON UTF8 CString
begin

text \<open>
  The JSON decoder of Jansson, \<open>submodules/jansson/src/load.c\<close>, with the string
  buffer of \<open>strbuffer.c\<close> and \<open>jsonp_strtod\<close> of \<open>strconv.c\<close>.  The positions and
  messages of errors, which libunalix does not ask for, are left out, and the
  allocator answers every request.  A function whose assertion fails, or that would
  read or write outside a buffer, is None; so is the parser without fuel.
  \<open>strtod\<close> is a parameter that says whether a text is in the range of a double.
\<close>

section \<open>The stream\<close>

text \<open>
  What \<open>stream_get\<close> returns: a byte, \<open>STREAM_STATE_EOF\<close> or \<open>STREAM_STATE_ERROR\<close>.
  The bytes of a character that is valid UTF-8 are never the codes -1 or -2 of the
  other two.
\<close>

datatype got = Byte char | End | Bad

datatype stream_state = STREAM_STATE_OK | STREAM_STATE_EOF | STREAM_STATE_ERROR

text \<open>\<open>st_data\<close> is what the get function has not returned yet; the buffer keeps its terminator.\<close>

record stream =
  st_data :: string
  st_buffer :: string
  st_pos :: nat
  st_state :: stream_state

definition stream_init :: "string \<Rightarrow> stream" where
  "stream_init data = \<lparr>st_data = data, st_buffer = [nul], st_pos = 0, st_state = STREAM_STATE_OK\<rparr>"

text \<open>The next bytes; behind the end the get function returns EOF, which is the byte 0xFF.\<close>

definition next_bytes :: "nat \<Rightarrow> string \<Rightarrow> string" where
  "next_bytes n data = take n (data @ replicate n (CHR 0xFF))"

definition stream_byte :: "stream \<Rightarrow> got \<times> stream" where
  "stream_byte st = (Byte (st_buffer st ! st_pos st), st\<lparr>st_pos := st_pos st + 1\<rparr>)"

definition stream_get :: "stream \<Rightarrow> (got \<times> stream) option" where
  "stream_get st =
     (if st_state st = STREAM_STATE_EOF then Some (End, st)
      else if st_state st = STREAM_STATE_ERROR then Some (Bad, st)
      else if length (st_buffer st) \<le> st_pos st then None
      else if st_buffer st ! st_pos st \<noteq> nul then Some (stream_byte st)
      else (case st_data st of
          [] \<Rightarrow> Some (End, st\<lparr>st_state := STREAM_STATE_EOF\<rparr>)
        | c # data \<Rightarrow>
            if 0x80 \<le> code c then
              let count = utf8_check_first c;
                  buffer = c # next_bytes (count - 1) data;
                  st' = st\<lparr>st_data := drop (count - 1) data, st_buffer := buffer @ [nul], st_pos := 0\<rparr>
              in if count = 0 then Some (Bad, st\<lparr>st_data := data, st_buffer := [c, nul], st_pos := 0, st_state := STREAM_STATE_ERROR\<rparr>)
              else if count < 2 then None
              else if utf8_check_full buffer = None then Some (Bad, st'\<lparr>st_state := STREAM_STATE_ERROR\<rparr>)
              else Some (stream_byte st')
            else Some (stream_byte (st\<lparr>st_data := data, st_buffer := [c, nul], st_pos := 0\<rparr>))))"

definition stream_unget :: "stream \<Rightarrow> got \<Rightarrow> stream option" where
  "stream_unget st c =
     (case c of
        Byte b \<Rightarrow>
          if st_pos st = 0 then None
          else if length (st_buffer st) \<le> st_pos st - 1 \<or> st_buffer st ! (st_pos st - 1) \<noteq> b then None
          else Some (st\<lparr>st_pos := st_pos st - 1\<rparr>)
      | _ \<Rightarrow> Some st)"

section \<open>The lexical analyzer\<close>

datatype token =
    TOKEN_INVALID | TOKEN_EOF
  | TOKEN_STRING string | TOKEN_INTEGER int | TOKEN_REAL string
  | TOKEN_TRUE | TOKEN_FALSE | TOKEN_NULL
  | TOKEN_CHAR char

record lex =
  lex_stream :: stream
  lex_saved_text :: string
  lex_depth :: nat
  lex_token :: token

record json_flags =
  JSON_REJECT_DUPLICATES :: bool
  JSON_DISABLE_EOF_CHECK :: bool
  JSON_DECODE_ANY :: bool
  JSON_DECODE_INT_AS_REAL :: bool
  JSON_ALLOW_NUL :: bool

text \<open>The flags 0.\<close>

definition no_flags :: json_flags where
  "no_flags = \<lparr>JSON_REJECT_DUPLICATES = False, JSON_DISABLE_EOF_CHECK = False, JSON_DECODE_ANY = False,
     JSON_DECODE_INT_AS_REAL = False, JSON_ALLOW_NUL = False\<rparr>"

definition l_isxdigit :: "char \<Rightarrow> bool" where
  "l_isxdigit c \<longleftrightarrow> isdigit c \<or> 65 \<le> code c \<and> code c \<le> (70 :: nat) \<or> 97 \<le> code c \<and> code c \<le> (102 :: nat)"

text \<open>A test of the code of a byte; -1 and -2 are in none of the classes.\<close>

definition is_byte :: "(char \<Rightarrow> bool) \<Rightarrow> got \<Rightarrow> bool" where
  "is_byte P c = (case c of Byte b \<Rightarrow> P b | _ \<Rightarrow> False)"

definition lex_get :: "lex \<Rightarrow> (got \<times> lex) option" where
  "lex_get l = do {
     (c, st) \<leftarrow> stream_get (lex_stream l);
     Some (c, l\<lparr>lex_stream := st\<rparr>) }"

definition lex_save :: "got \<Rightarrow> lex \<Rightarrow> lex" where
  "lex_save c l = (case c of Byte b \<Rightarrow> l\<lparr>lex_saved_text := lex_saved_text l @ [b]\<rparr> | _ \<Rightarrow> l)"

definition lex_get_save :: "lex \<Rightarrow> (got \<times> lex) option" where
  "lex_get_save l = do {
     (c, l) \<leftarrow> lex_get l;
     Some (c, lex_save c l) }"

definition lex_unget :: "lex \<Rightarrow> got \<Rightarrow> lex option" where
  "lex_unget l c = do {
     st \<leftarrow> stream_unget (lex_stream l) c;
     Some (l\<lparr>lex_stream := st\<rparr>) }"

definition lex_unget_unsave :: "lex \<Rightarrow> got \<Rightarrow> lex option" where
  "lex_unget_unsave l c =
     (case c of
        Byte b \<Rightarrow> do {
          l \<leftarrow> lex_unget l c;
          let d = (if lex_saved_text l = [] then nul else last (lex_saved_text l));
          if b = d then Some (l\<lparr>lex_saved_text := butlast (lex_saved_text l)\<rparr>) else None }
      | _ \<Rightarrow> Some l)"

definition lex_save_cached :: "lex \<Rightarrow> lex" where
  "lex_save_cached l =
     (let st = lex_stream l; cached = takeWhile (\<lambda>c. c \<noteq> nul) (drop (st_pos st) (st_buffer st)) in
      l\<lparr>lex_saved_text := lex_saved_text l @ cached, lex_stream := st\<lparr>st_pos := st_pos st + length cached\<rparr>\<rparr>)"

text \<open>
  The loops end because the bytes that are left become fewer: \<open>stream_left\<close> counts those
  of the data twice and those of the buffer once.
\<close>

definition stream_left :: "stream \<Rightarrow> nat" where
  "stream_left st = (if st_state st = STREAM_STATE_ERROR then 0
     else 2 * length (st_data st) + (length (st_buffer st) - st_pos st))"

abbreviation bytes_left :: "lex \<Rightarrow> nat" where
  "bytes_left l \<equiv> stream_left (lex_stream l)"

definition progress :: "nat \<Rightarrow> got \<Rightarrow> lex \<Rightarrow> bool" where
  "progress n c l \<longleftrightarrow> (case c of Byte b \<Rightarrow> bytes_left l < n | _ \<Rightarrow> bytes_left l \<le> n)"

lemma length_next_bytes [simp]: "length (next_bytes n data) = n"
  by (simp add: next_bytes_def)

lemma full_available:
  assumes "utf8_check_full (b # next_bytes n data) \<noteq> None"
  shows "n \<le> length data"
proof (rule ccontr)
  assume "\<not> n \<le> length data"
  then have "CHR 0xFF \<in> set (next_bytes n data)"
    by (simp add: next_bytes_def)
  moreover have "\<exists>v r. continuation v (next_bytes n data) = Some r"
    using assms by (auto simp: utf8_check_full_def Let_def split: if_splits option.splits)
  ultimately have "\<exists>r. six (CHR 0xFF) r"
    using continuation_Some by blast
  then show False
    by (auto simp: six_def)
qed

lemma stream_get_progress:
  assumes "stream_get st = Some (c, st')"
  shows "(case c of Byte b \<Rightarrow> stream_left st' < stream_left st | _ \<Rightarrow> stream_left st' \<le> stream_left st)"
proof (cases "st_state st = STREAM_STATE_OK \<and> st_buffer st ! st_pos st = nul \<and> st_data st \<noteq> []")
  case True
  then have "st_pos st < length (st_buffer st)"
    using assms by (auto simp: stream_get_def split: if_splits)
  moreover obtain b data where "st_data st = b # data"
    using True by (cases "st_data st") auto
  ultimately show ?thesis
    using assms True full_available[of b "utf8_check_first b - 1" data]
    by (auto simp: stream_get_def stream_byte_def Let_def stream_left_def split: if_splits)
next
  case False
  then show ?thesis
    using assms by (cases "st_state st") (auto simp: stream_get_def stream_byte_def Let_def stream_left_def split: if_splits list.splits)
qed

lemma lex_save_stream [simp]: "lex_stream (lex_save c l) = lex_stream l"
  by (simp add: lex_save_def split: got.split)

lemma lex_get_progress: "lex_get l = Some (c, l') \<Longrightarrow> progress (bytes_left l) c l'"
  using stream_get_progress by (fastforce simp: lex_get_def bind_eq_Some_conv progress_def split: got.splits)

lemma lex_get_save_progress: "lex_get_save l = Some (c, l') \<Longrightarrow> progress (bytes_left l) c l'"
  by (auto simp: lex_get_save_def bind_eq_Some_conv progress_def split: got.splits dest!: lex_get_progress)

text \<open>A byte and what is left behind it, as one measure.\<close>

definition ahead :: "got \<times> lex \<Rightarrow> nat" where
  "ahead s = 2 * bytes_left (snd s) + (case fst s of Byte b \<Rightarrow> 1 | _ \<Rightarrow> 0)"

lemma ahead_progress: "progress n c l \<Longrightarrow> ahead (c, l) < 2 * n + 1"
  by (auto simp: progress_def ahead_def split: got.splits)

lemma ahead_get_save: "lex_get_save l = Some (c, l') \<Longrightarrow> ahead (c, l') < ahead (Byte b, l)"
  using ahead_progress[OF lex_get_save_progress] by (simp add: ahead_def)

section \<open>Tokens\<close>

text \<open>\<open>do c = lex_get_save(lex) while (P(c))\<close>.\<close>

function get_save_while :: "(char \<Rightarrow> bool) \<Rightarrow> lex \<Rightarrow> (got \<times> lex) option" where
  "get_save_while P l = do {
     (c, l) \<leftarrow> lex_get_save l;
     if is_byte P c then get_save_while P l else Some (c, l) }"
  by pat_completeness auto
termination
  by (relation "measure (\<lambda>(P, l). bytes_left l)")
    (auto simp: is_byte_def progress_def split: got.splits dest!: lex_get_save_progress)

definition is_space :: "char \<Rightarrow> bool" where
  "is_space c \<longleftrightarrow> c = CHR '' '' \<or> c = CHR 0x09 \<or> c = CHR 0x0A \<or> c = CHR 0x0D"

function get_nonspace :: "lex \<Rightarrow> (got \<times> lex) option" where
  "get_nonspace l = do {
     (c, l) \<leftarrow> lex_get l;
     if is_byte is_space c then get_nonspace l else Some (c, l) }"
  by pat_completeness auto
termination
  by (relation "measure bytes_left") (auto simp: is_byte_def progress_def split: got.splits dest!: lex_get_progress)

declare get_save_while.simps [simp del] get_nonspace.simps [simp del]

text \<open>The four digits of an escape; the flag says that all of them were digits.\<close>

primrec scan_hex :: "nat \<Rightarrow> got \<Rightarrow> lex \<Rightarrow> (bool \<times> got \<times> lex) option" where
  "scan_hex 0 c l = Some (True, c, l)"
| "scan_hex (Suc n) c l =
     (if \<not> is_byte l_isxdigit c then Some (False, c, l)
      else do {
        (c, l) \<leftarrow> lex_get_save l;
        scan_hex n c l })"

lemma scan_hex_ahead: "scan_hex n c l = Some (ok, c', l') \<Longrightarrow> ahead (c', l') \<le> ahead (c, l)"
proof (induction n arbitrary: c l)
  case (Suc n)
  show ?case
  proof (cases "is_byte l_isxdigit c")
    case True
    then obtain b where b: "c = Byte b"
      by (cases c) (auto simp: is_byte_def)
    obtain c1 l1 where 1: "lex_get_save l = Some (c1, l1)" "scan_hex n c1 l1 = Some (ok, c', l')"
      using Suc.prems True by (auto simp: bind_eq_Some_conv)
    then show ?thesis
      using Suc.IH[OF 1(2)] ahead_get_save[OF 1(1), of b] b by simp
  qed (use Suc.prems in auto)
qed simp

definition is_escape :: "char \<Rightarrow> bool" where
  "is_escape c \<longleftrightarrow> c \<in> {CHR 0x22, CHR 0x5C, CHR ''/'', CHR ''b'', CHR ''f'', CHR ''n'', CHR ''r'', CHR ''t''}"

text \<open>The first pass over a string; the flag is False where the code goes to \<open>out\<close>.\<close>

function scan_string :: "got \<Rightarrow> lex \<Rightarrow> (bool \<times> lex) option" where
  "scan_string c l =
     (case c of
        Bad \<Rightarrow> Some (False, l)
      | End \<Rightarrow> Some (False, l)
      | Byte b \<Rightarrow>
          if b = CHR 0x22 then Some (True, l)
          else if code b \<le> 0x1F then do {
            l \<leftarrow> lex_unget_unsave l c;
            Some (False, l) }
          else if b = CHR 0x5C then do {
            (c, l) \<leftarrow> lex_get_save l;
            if c = Byte (CHR ''u'') then do {
              (c, l) \<leftarrow> lex_get_save l;
              (ok, c, l) \<leftarrow> scan_hex 4 c l;
              if ok then scan_string c l else Some (False, l) }
            else if is_byte is_escape c then do {
              (c, l) \<leftarrow> lex_get_save l;
              scan_string c l }
            else Some (False, l) }
          else do {
            (c, l) \<leftarrow> lex_get_save l;
            scan_string c l })"
  by pat_completeness auto
termination
proof (relation "measure ahead")
  show "((c2, l2), c, l) \<in> measure ahead"
    if "c = Byte b" "lex_get_save l = Some p" "(c1, l1) = p" "c1 = Byte (CHR ''u'')" "lex_get_save l1 = Some q" "(c', l') = q"
      "scan_hex 4 c' l' = Some r" "(ok, r') = r" "(c2, l2) = r'" for c2 l2 c l b p c1 l1 q c' l' r ok r'
    using that ahead_get_save[of l c1 l1 b] ahead_get_save[of l1 c' l' "CHR ''u''"] scan_hex_ahead[of 4 c' l' ok c2 l2] by simp
  show "((c2, l2), c, l) \<in> measure ahead"
    if "c = Byte b" "lex_get_save l = Some p" "(c1, l1) = p" "is_byte is_escape c1" "lex_get_save l1 = Some q" "(c2, l2) = q"
    for c2 l2 c l b p c1 l1 q
    using that ahead_get_save[of l c1 l1 b] ahead_get_save[of l1 c2 l2 "case c1 of Byte b \<Rightarrow> b"] by (cases c1) (auto simp: is_byte_def)
  show "((c2, l2), c, l) \<in> measure ahead"
    if "c = Byte b" "lex_get_save l = Some p" "(c2, l2) = p" for c2 l2 c l b p
    using that ahead_get_save[of l c2 l2 b] by simp
qed simp

declare scan_string.simps [simp del]

text \<open>
  \<open>decode_unicode_escape\<close> on the text behind the letter u, which ends with the
  terminator of the buffer.
\<close>

primrec hex_value :: "int \<Rightarrow> string \<Rightarrow> int" where
  "hex_value value [] = value"
| "hex_value value (c # cs) =
     (if isdigit c then hex_value (value * 16 + (int (code c) - 48)) cs
      else if islower c then hex_value (value * 16 + (int (code c) - 97 + 10)) cs
      else if isupper c then hex_value (value * 16 + (int (code c) - 65 + 10)) cs
      else - 1)"

definition decode_unicode_escape :: "string \<Rightarrow> int" where
  "decode_unicode_escape str = hex_value 0 (take 4 (str @ [nul]))"

text \<open>
  The second pass, from the text of the token behind its first quote: the bytes that
  are written, or \<open>Some None\<close> where the code goes to \<open>out\<close>.  None is a read behind
  the end or a failed assertion.
\<close>

definition utf8_put :: "int \<Rightarrow> string option option \<Rightarrow> string option option" where
  "utf8_put value text =
     (case utf8_encode value of
        None \<Rightarrow> None
      | Some bytes \<Rightarrow> map_option (map_option ((@) bytes)) text)"

definition escape_byte :: "char \<Rightarrow> char option" where
  "escape_byte c =
     (if c = CHR 0x22 \<or> c = CHR 0x5C \<or> c = CHR ''/'' then Some c
      else if c = CHR ''b'' then Some (CHR 0x08)
      else if c = CHR ''f'' then Some (CHR 0x0C)
      else if c = CHR ''n'' then Some (CHR 0x0A)
      else if c = CHR ''r'' then Some (CHR 0x0D)
      else if c = CHR ''t'' then Some (CHR 0x09)
      else None)"

function unescape :: "string \<Rightarrow> string option option" where
  "unescape [] = None"
| "unescape (c # p) =
     (if c = CHR 0x22 then Some (Some [])
      else if c = CHR 0x5C then
        (case p of
           [] \<Rightarrow> None
         | e # q \<Rightarrow>
             if e = CHR ''u'' then
               let value = decode_unicode_escape q; q = drop 4 q in
               if value < 0 then Some None
               else if 0xD800 \<le> value \<and> value \<le> 0xDBFF then
                 if take 2 q = [CHR 0x5C, CHR ''u''] then
                   let value2 = decode_unicode_escape (drop 2 q); q = drop 6 q in
                   if value2 < 0 then Some None
                   else if 0xDC00 \<le> value2 \<and> value2 \<le> 0xDFFF
                   then utf8_put (push_bit 10 (value - 0xD800) + (value2 - 0xDC00) + 0x10000) (unescape q)
                   else Some None
                 else Some None
               else if 0xDC00 \<le> value \<and> value \<le> 0xDFFF then Some None
               else utf8_put value (unescape q)
             else (case escape_byte e of
                 None \<Rightarrow> None
               | Some b \<Rightarrow> map_option (map_option ((#) b)) (unescape q)))
      else map_option (map_option ((#) c)) (unescape p))"
  by pat_completeness auto
termination
  by (relation "measure length") auto

declare unescape.simps(2) [simp del]

definition lex_scan_string :: "lex \<Rightarrow> lex option" where
  "lex_scan_string l = do {
     (c, l) \<leftarrow> lex_get_save (l\<lparr>lex_token := TOKEN_INVALID\<rparr>);
     (ok, l) \<leftarrow> scan_string c l;
     if \<not> ok then Some l
     else do {
       t \<leftarrow> unescape (drop 1 (lex_saved_text l));
       case t of
         None \<Rightarrow> Some l
       | Some text \<Rightarrow>
           if length text > length (lex_saved_text l) then None
           else Some (l\<lparr>lex_token := TOKEN_STRING text\<rparr>) } }"

text \<open>\<open>strtoll\<close>: the value, which is an error outside the range, and the text behind the number.\<close>

definition strtoll :: "string \<Rightarrow> int \<times> string" where
  "strtoll s =
     (if s \<noteq> [] \<and> hd s = CHR ''-'' then (- digits_val 0 (takeWhile isdigit (tl s)), dropWhile isdigit (tl s))
      else (digits_val 0 (takeWhile isdigit s), dropWhile isdigit s))"

definition lex_scan_integer :: "lex \<Rightarrow> lex option" where
  "lex_scan_integer l =
     (case strtoll (lex_saved_text l) of
        (intval, rest) \<Rightarrow>
          if intval < - (2 ^ 63) \<or> intval > 2 ^ 63 - 1 then Some l
          else if rest \<noteq> [] then None
          else Some (l\<lparr>lex_token := TOKEN_INTEGER intval\<rparr>))"

text \<open>\<open>if (P(c)) c = lex_get_save(lex)\<close>.\<close>

definition get_save_if :: "(char \<Rightarrow> bool) \<Rightarrow> got \<Rightarrow> lex \<Rightarrow> (got \<times> lex) option" where
  "get_save_if P c l = (if is_byte P c then lex_get_save l else Some (c, l))"

text \<open>The digits of the parts of a number; the flag is False where the code goes to \<open>out\<close>.\<close>

definition get_save_digits :: "got \<Rightarrow> lex \<Rightarrow> (bool \<times> got \<times> lex) option" where
  "get_save_digits c l =
     (if \<not> is_byte isdigit c then Some (False, c, l)
      else do {
        (c, l) \<leftarrow> get_save_while isdigit l;
        Some (True, c, l) })"

definition scan_int_digits :: "got \<Rightarrow> lex \<Rightarrow> (bool \<times> got \<times> lex) option" where
  "scan_int_digits c l =
     (if c = Byte (CHR ''0'') then do {
        (c, l) \<leftarrow> lex_get_save l;
        Some (\<not> is_byte isdigit c, c, l) }
      else get_save_digits c l)"

definition scan_exponent_part :: "got \<Rightarrow> lex \<Rightarrow> (bool \<times> got \<times> lex) option" where
  "scan_exponent_part c l =
     (if is_byte (\<lambda>b. b = CHR ''E'' \<or> b = CHR ''e'') c then do {
        (c, l) \<leftarrow> lex_get_save l;
        (c, l) \<leftarrow> get_save_if (\<lambda>b. b = CHR ''+'' \<or> b = CHR ''-'') c l;
        get_save_digits c l }
      else Some (True, c, l))"

definition lex_scan_exponent :: "(string \<Rightarrow> bool) \<Rightarrow> got \<Rightarrow> lex \<Rightarrow> lex option" where
  "lex_scan_exponent fin c l = do {
     (ok, c, l) \<leftarrow> scan_exponent_part c l;
     l \<leftarrow> lex_unget_unsave l c;
     Some (if ok \<and> fin (lex_saved_text l) then l\<lparr>lex_token := TOKEN_REAL (lex_saved_text l)\<rparr> else l) }"

definition lex_scan_real :: "(string \<Rightarrow> bool) \<Rightarrow> got \<Rightarrow> lex \<Rightarrow> lex option" where
  "lex_scan_real fin c l =
     (if c = Byte (CHR ''.'') then do {
        (c, l) \<leftarrow> lex_get l;
        if \<not> is_byte isdigit c then lex_unget l c
        else do {
          (c, l) \<leftarrow> get_save_while isdigit (lex_save c l);
          lex_scan_exponent fin c l } }
      else lex_scan_exponent fin c l)"

definition lex_scan_number :: "json_flags \<Rightarrow> (string \<Rightarrow> bool) \<Rightarrow> got \<Rightarrow> lex \<Rightarrow> lex option" where
  "lex_scan_number fl fin c l = do {
     (c, l) \<leftarrow> get_save_if (\<lambda>b. b = CHR ''-'') c (l\<lparr>lex_token := TOKEN_INVALID\<rparr>);
     (ok, c, l) \<leftarrow> scan_int_digits c l;
     if \<not> ok then lex_unget_unsave l c
     else if \<not> JSON_DECODE_INT_AS_REAL fl \<and> \<not> is_byte (\<lambda>b. b = CHR ''.'' \<or> b = CHR ''E'' \<or> b = CHR ''e'') c then do {
       l \<leftarrow> lex_unget_unsave l c;
       lex_scan_integer l }
     else lex_scan_real fin c l }"

definition is_punctuation :: "char \<Rightarrow> bool" where
  "is_punctuation c \<longleftrightarrow> c \<in> {CHR ''{'', CHR ''}'', CHR ''['', CHR '']'', CHR '':'', CHR '',''}"

definition word_token :: "string \<Rightarrow> token" where
  "word_token s = (if s = ''true'' then TOKEN_TRUE else if s = ''false'' then TOKEN_FALSE
     else if s = ''null'' then TOKEN_NULL else TOKEN_INVALID)"

definition lex_scan :: "json_flags \<Rightarrow> (string \<Rightarrow> bool) \<Rightarrow> lex \<Rightarrow> lex option" where
  "lex_scan fl fin l = do {
     (c, l) \<leftarrow> get_nonspace (l\<lparr>lex_saved_text := []\<rparr>);
     (case c of
        End \<Rightarrow> Some (l\<lparr>lex_token := TOKEN_EOF\<rparr>)
      | Bad \<Rightarrow> Some (l\<lparr>lex_token := TOKEN_INVALID\<rparr>)
      | Byte b \<Rightarrow>
          let l = lex_save c l in
          if is_punctuation b then Some (l\<lparr>lex_token := TOKEN_CHAR b\<rparr>)
          else if b = CHR 0x22 then lex_scan_string l
          else if isdigit b \<or> b = CHR ''-'' then lex_scan_number fl fin c l
          else if isalpha b then do {
            (c, l) \<leftarrow> get_save_while isalpha l;
            l \<leftarrow> lex_unget_unsave l c;
            Some (l\<lparr>lex_token := word_token (lex_saved_text l)\<rparr>) }
          else Some ((lex_save_cached l)\<lparr>lex_token := TOKEN_INVALID\<rparr>)) }"

section \<open>The parser\<close>

definition JSON_PARSER_MAX_DEPTH :: nat where "JSON_PARSER_MAX_DEPTH = 2048"

definition lex_steal_string :: "lex \<Rightarrow> string option" where
  "lex_steal_string l = (case lex_token l of TOKEN_STRING val \<Rightarrow> Some val | _ \<Rightarrow> None)"

text \<open>The cases of \<open>parse_value\<close> that are not an object or an array.\<close>

definition parse_scalar :: "json_flags \<Rightarrow> token \<Rightarrow> json option" where
  "parse_scalar fl token =
     (case token of
        TOKEN_STRING text \<Rightarrow> if \<not> JSON_ALLOW_NUL fl \<and> nul \<in> set text then None else Some (JString text)
      | TOKEN_INTEGER n \<Rightarrow> Some (JInteger n)
      | TOKEN_REAL text \<Rightarrow> Some (JReal text)
      | TOKEN_TRUE \<Rightarrow> Some (JBool True)
      | TOKEN_FALSE \<Rightarrow> Some (JBool False)
      | TOKEN_NULL \<Rightarrow> Some JNull
      | TOKEN_CHAR c \<Rightarrow> None
      | TOKEN_INVALID \<Rightarrow> None
      | TOKEN_EOF \<Rightarrow> None)"

text \<open>
  The functions call each other; every call has one unit of fuel less.  The inner
  None is the result NULL, and \<open>unless_null\<close> goes on when there is none.
\<close>

definition unless_null :: "(json option \<times> lex) option \<Rightarrow> (json \<Rightarrow> lex \<Rightarrow> (json option \<times> lex) option) \<Rightarrow> (json option \<times> lex) option" where
  "unless_null m f = (case m of
     Some (Some t, l) \<Rightarrow> f t l
   | r \<Rightarrow> r)"

lemma unless_null_cong [fundef_cong]:
  "m = m' \<Longrightarrow> (\<And>t l. m' = Some (Some t, l) \<Longrightarrow> f t l = f' t l) \<Longrightarrow> unless_null m f = unless_null m' f'"
  by (auto simp: unless_null_def split: option.split)

function (sequential) parse_value :: "nat \<Rightarrow> json_flags \<Rightarrow> (string \<Rightarrow> bool) \<Rightarrow> lex \<Rightarrow> (json option \<times> lex) option"
and parse_object :: "nat \<Rightarrow> json_flags \<Rightarrow> (string \<Rightarrow> bool) \<Rightarrow> lex \<Rightarrow> (json option \<times> lex) option"
and parse_members :: "nat \<Rightarrow> json_flags \<Rightarrow> (string \<Rightarrow> bool) \<Rightarrow> (string \<times> json) list \<Rightarrow> lex \<Rightarrow> (json option \<times> lex) option"
and parse_array :: "nat \<Rightarrow> json_flags \<Rightarrow> (string \<Rightarrow> bool) \<Rightarrow> lex \<Rightarrow> (json option \<times> lex) option"
and parse_items :: "nat \<Rightarrow> json_flags \<Rightarrow> (string \<Rightarrow> bool) \<Rightarrow> json list \<Rightarrow> lex \<Rightarrow> (json option \<times> lex) option"
where
  "parse_value 0 fl fin l = None"
| "parse_value (Suc fuel) fl fin l =
     (if lex_depth l + 1 > JSON_PARSER_MAX_DEPTH then Some (None, l\<lparr>lex_depth := lex_depth l + 1\<rparr>)
      else unless_null
        (if lex_token l = TOKEN_CHAR (CHR ''{'') then parse_object fuel fl fin (l\<lparr>lex_depth := lex_depth l + 1\<rparr>)
         else if lex_token l = TOKEN_CHAR (CHR ''['') then parse_array fuel fl fin (l\<lparr>lex_depth := lex_depth l + 1\<rparr>)
         else Some (parse_scalar fl (lex_token l), l\<lparr>lex_depth := lex_depth l + 1\<rparr>))
        (\<lambda>json l. Some (Some json, l\<lparr>lex_depth := lex_depth l - 1\<rparr>)))"
| "parse_object 0 fl fin l = None"
| "parse_object (Suc fuel) fl fin l = do {
     l \<leftarrow> lex_scan fl fin l;
     if lex_token l = TOKEN_CHAR (CHR ''}'') then Some (Some (JObject []), l)
     else parse_members fuel fl fin [] l }"
| "parse_members 0 fl fin object l = None"
| "parse_members (Suc fuel) fl fin object l =
     (case lex_steal_string l of
        None \<Rightarrow> Some (None, l)
      | Some key \<Rightarrow>
          if nul \<in> set key then Some (None, l)
          else if JSON_REJECT_DUPLICATES fl \<and> map_of object key \<noteq> None then Some (None, l)
          else do {
            l \<leftarrow> lex_scan fl fin l;
            if lex_token l \<noteq> TOKEN_CHAR (CHR '':'') then Some (None, l)
            else do {
              l \<leftarrow> lex_scan fl fin l;
              unless_null (parse_value fuel fl fin l) (\<lambda>json l. do {
                l \<leftarrow> lex_scan fl fin l;
                if lex_token l = TOKEN_CHAR (CHR '','') then do {
                  l \<leftarrow> lex_scan fl fin l;
                  parse_members fuel fl fin (object_set object key json) l }
                else if lex_token l \<noteq> TOKEN_CHAR (CHR ''}'') then Some (None, l)
                else Some (Some (JObject (object_set object key json)), l) }) } })"
| "parse_array 0 fl fin l = None"
| "parse_array (Suc fuel) fl fin l = do {
     l \<leftarrow> lex_scan fl fin l;
     if lex_token l = TOKEN_CHAR (CHR '']'') then Some (Some (JArray []), l)
     else parse_items fuel fl fin [] l }"
| "parse_items 0 fl fin array l = None"
| "parse_items (Suc fuel) fl fin array l =
     (if lex_token l = TOKEN_EOF then Some (None, l)
      else unless_null (parse_value fuel fl fin l) (\<lambda>elem l. do {
        l \<leftarrow> lex_scan fl fin l;
        if lex_token l = TOKEN_CHAR (CHR '','') then do {
          l \<leftarrow> lex_scan fl fin l;
          parse_items fuel fl fin (array @ [elem]) l }
        else if lex_token l \<noteq> TOKEN_CHAR (CHR '']'') then Some (None, l)
        else Some (Some (JArray (array @ [elem])), l) }))"
  by pat_completeness auto
termination
  by (relation "measure (\<lambda>x. case x of
      Inl (Inl (n, _)) \<Rightarrow> n | Inl (Inr (n, _)) \<Rightarrow> n
    | Inr (Inl (n, _)) \<Rightarrow> n | Inr (Inr (Inl (n, _))) \<Rightarrow> n | Inr (Inr (Inr (n, _))) \<Rightarrow> n)") auto

definition parse_json :: "nat \<Rightarrow> json_flags \<Rightarrow> (string \<Rightarrow> bool) \<Rightarrow> lex \<Rightarrow> json option option" where
  "parse_json fuel fl fin l = do {
     l \<leftarrow> lex_scan fl fin (l\<lparr>lex_depth := 0\<rparr>);
     if \<not> JSON_DECODE_ANY fl \<and> lex_token l \<noteq> TOKEN_CHAR (CHR ''['') \<and> lex_token l \<noteq> TOKEN_CHAR (CHR ''{'') then Some None
     else do {
       (result, l) \<leftarrow> parse_value fuel fl fin l;
       if result = None then Some None
       else if \<not> JSON_DISABLE_EOF_CHECK fl then do {
         l \<leftarrow> lex_scan fl fin l;
         Some (if lex_token l \<noteq> TOKEN_EOF then None else result) }
       else Some result } }"

definition lex_init :: "string \<Rightarrow> lex" where
  "lex_init data = \<lparr>lex_stream = stream_init data, lex_saved_text = [], lex_depth = 0, lex_token = TOKEN_INVALID\<rparr>"

text \<open>The get function returns the bytes of \<open>data\<close>, and the fuel is enough for them.\<close>

definition json_load :: "json_flags \<Rightarrow> (string \<Rightarrow> bool) \<Rightarrow> string \<Rightarrow> json option option" where
  "json_load fl fin data = parse_json (4 * length data + 4) fl fin (lex_init data)"

text \<open>The get functions of \<open>json_loads\<close>, which stops at a terminator, and of \<open>json_loadf\<close>.\<close>

definition json_loads :: "json_flags \<Rightarrow> (string \<Rightarrow> bool) \<Rightarrow> string \<Rightarrow> json option option" where
  "json_loads fl fin str = json_load fl fin (c_str str)"

definition json_loadf :: "json_flags \<Rightarrow> (string \<Rightarrow> bool) \<Rightarrow> string \<Rightarrow> json option option" where
  "json_loadf fl fin data = json_load fl fin data"

end
