(* ===== verification/Rulesets.thy ===== *)
theory Rulesets
  imports CleanUrl Files JSON_Load
begin

text \<open>
  The ruleset loader of \<open>src/ruleset.c\<close>: \<open>load_ruleset\<close> on a parsed JSON tree,
  \<open>load_file\<close>, \<open>unalix_load_file\<close>, \<open>unalix_load_string\<close>, \<open>unalix_unload_rulesets\<close>.
  The tree comes from the decoder of Jansson in \<open>JSON_Load\<close>.
\<close>

section \<open>Constants and state\<close>

definition URL_PATTERN :: string where "URL_PATTERN = ''urlPattern''"
definition COMPLETE_PROVIDER :: string where "COMPLETE_PROVIDER = ''completeProvider''"
definition RULES :: string where "RULES = ''rules''"
definition RAW_RULES :: string where "RAW_RULES = ''rawRules''"
definition REFERRAL_MARKETING :: string where "REFERRAL_MARKETING = ''referralMarketing''"
definition EXCEPTIONS :: string where "EXCEPTIONS = ''exceptions''"
definition REDIRECTIONS :: string where "REDIRECTIONS = ''redirections''"
definition PROVIDERS :: string where "PROVIDERS = ''providers''"

definition ARRAY_KEYS :: "string list" where
  "ARRAY_KEYS = [RULES, RAW_RULES, REFERRAL_MARKETING, EXCEPTIONS, REDIRECTIONS]"

definition PREFIX_PROVIDER_IGNORE :: string where "PREFIX_PROVIDER_IGNORE = ''ClearURLsTest''"
definition PREFIX_EXTENDED_PATTERN :: string where
  "PREFIX_EXTENDED_PATTERN = ''(?:^|&|'' @ [CHR 0x5C] @ ''?)''"
definition SUFFIX_EXTENDED_PATTERN :: string where "SUFFIX_EXTENDED_PATTERN = ''(?:=[^&]*)?''"

lemmas json_key_defs = RULES_def RAW_RULES_def REFERRAL_MARKETING_def EXCEPTIONS_def REDIRECTIONS_def

text \<open>\<open>struct Rulesets\<close>; the size is in bytes.\<close>

record 'c rulesets =
  rss_offset :: nat
  rss_size :: nat
  rss_items :: "'c ruleset list"

definition zero_rulesets :: "'c rulesets" where
  "zero_rulesets = \<lparr>rss_offset = 0, rss_size = 0, rss_items = []\<rparr>"

definition get_rulesets :: "'c rulesets \<Rightarrow> 'c ruleset list" where
  "get_rulesets obj = take (rss_offset obj) (rss_items obj)"

definition sizeof_Ruleset :: nat where "sizeof_Ruleset = 88"
definition sizeof_pointer :: nat where "sizeof_pointer = 8"

section \<open>One provider\<close>

text \<open>
  The loop over the strings of one array.  \<open>extended_src\<close> is an array of exactly
  the size of the three parts and a terminator.
\<close>

definition compile_rule :: "'c pcre2 \<Rightarrow> bool \<Rightarrow> json \<Rightarrow> (unalixerr + 'c) option" where
  "compile_rule rx should_modify_pattern array_item =
     (case array_item of
        JString src \<Rightarrow> do {
          src \<leftarrow> (if should_modify_pattern
                  then strcats (length PREFIX_EXTENDED_PATTERN + length src + length SUFFIX_EXTENDED_PATTERN + 1)
                         [] [PREFIX_EXTENDED_PATTERN, src, SUFFIX_EXTENDED_PATTERN]
                  else Some src);
          (case regex_compile rx src of
             (rc, Some dst) \<Rightarrow> if rc \<noteq> UNALIXERR_SUCCESS then Some (Inl rc) else Some (Inr dst)
           | (rc, None) \<Rightarrow> Some (Inl rc)) }
      | _ \<Rightarrow> Some (Inl UNALIXERR_JSON_NON_MATCHING_TYPE))"

fun compile_rules :: "'c pcre2 \<Rightarrow> bool \<Rightarrow> json list \<Rightarrow> (unalixerr + 'c list) option" where
  "compile_rules rx modify [] = Some (Inr [])"
| "compile_rules rx modify (item # items) =
     stage (compile_rule rx modify item) (\<lambda>c.
     stage (compile_rules rx modify items) (\<lambda>cs. Some (Inr (c # cs))))"

text \<open>\<open>Inr None\<close>: the key is absent, null or an empty array, and is skipped.\<close>

definition load_rules ::
  "platform \<Rightarrow> 'c pcre2 \<Rightarrow> nat \<Rightarrow> nat \<Rightarrow> json \<Rightarrow> string \<Rightarrow> (unalixerr + 'c list option) option" where
  "load_rules p rx i j provider name =
     (case json_object_get provider name of
        None \<Rightarrow> Some (Inr None)
      | Some obj \<Rightarrow>
          if obj = JNull then Some (Inr None)
          else if \<not> json_is_array obj then Some (Inl UNALIXERR_JSON_NON_MATCHING_TYPE)
          else
            let array_size = length (json_items obj);
                should_modify_pattern = (name = RULES \<or> name = REFERRAL_MARKETING)
            in if array_size < 1 then Some (Inr None)
            else if \<not> malloc p (AtRules i j) (sizeof_pointer * array_size)
            then Some (Inl UNALIXERR_MEMORY_ALLOCATE_FAILURE)
            else stage (compile_rules rx should_modify_pattern (json_items obj))
                   (\<lambda>cs. Some (Inr (Some cs))))"

definition store_rules :: "string \<Rightarrow> 'c list \<Rightarrow> 'c ruleset \<Rightarrow> 'c ruleset" where
  "store_rules name cs r =
     (if name = RULES then r\<lparr>rules := cs\<rparr>
      else if name = RAW_RULES then r\<lparr>raw_rules := cs\<rparr>
      else if name = REFERRAL_MARKETING then r\<lparr>referral_marketing := cs\<rparr>
      else if name = EXCEPTIONS then r\<lparr>exceptions := cs\<rparr>
      else if name = REDIRECTIONS then r\<lparr>redirections := cs\<rparr>
      else r)"

fun load_arrays ::
  "platform \<Rightarrow> 'c pcre2 \<Rightarrow> nat \<Rightarrow> nat \<Rightarrow> json \<Rightarrow> string list \<Rightarrow> 'c ruleset \<Rightarrow> (unalixerr + 'c ruleset) option" where
  "load_arrays p rx i j provider [] r = Some (Inr r)"
| "load_arrays p rx i j provider (name # names) r =
     stage (load_rules p rx i j provider name) (\<lambda>found.
       load_arrays p rx i (Suc j) provider names
         (case found of None \<Rightarrow> r | Some cs \<Rightarrow> store_rules name cs r))"

text \<open>The URL pattern and the arrays of a provider.\<close>

definition load_fields ::
  "platform \<Rightarrow> 'c pcre2 \<Rightarrow> nat \<Rightarrow> json \<Rightarrow> (unalixerr + 'c ruleset) option" where
  "load_fields p rx i val =
     (case json_object_get val URL_PATTERN of
        None \<Rightarrow> Some (Inl UNALIXERR_JSON_MISSING_REQUIRED_KEY)
      | Some (JString src) \<Rightarrow>
          (case regex_compile rx src of
             (rc, Some dst) \<Rightarrow>
               if rc \<noteq> UNALIXERR_SUCCESS then Some (Inl rc)
               else load_arrays p rx i 0 val ARRAY_KEYS
                 \<lparr>url_pattern = dst, rules = [], raw_rules = [], referral_marketing = [],
                  exceptions = [], redirections = []\<rparr>
           | (rc, None) \<Rightarrow> Some (Inl rc))
      | Some _ \<Rightarrow> Some (Inl UNALIXERR_JSON_NON_MATCHING_TYPE))"

text \<open>
  \<open>memcmp(key, PREFIX_PROVIDER_IGNORE, 13)\<close> is defined only where 13 bytes can be read:
  the key, its terminator and what the platform leaves behind the object.
\<close>

definition readable_key :: "platform \<Rightarrow> string \<Rightarrow> bool" where
  "readable_key p key \<longleftrightarrow> length PREFIX_PROVIDER_IGNORE \<le> length key + 1 + slack p"

text \<open>The body of the loop up to the append: \<open>Inr None\<close> is \<open>continue\<close>.\<close>

definition load_provider ::
  "platform \<Rightarrow> 'c pcre2 \<Rightarrow> nat \<Rightarrow> string \<times> json \<Rightarrow> (unalixerr + 'c ruleset option) option" where
  "load_provider p rx i provider =
     (let (key, val) = provider in
      if \<not> readable_key p key then None
      else if prefix PREFIX_PROVIDER_IGNORE key then Some (Inr None)
      else if \<not> json_is_object val then Some (Inl UNALIXERR_JSON_NON_MATCHING_TYPE)
      else stage
        (case json_object_get val COMPLETE_PROVIDER of
           None \<Rightarrow> Some (Inr False)
         | Some JNull \<Rightarrow> Some (Inr False)
         | Some (JBool complete_provider) \<Rightarrow> Some (Inr complete_provider)
         | Some _ \<Rightarrow> Some (Inl UNALIXERR_JSON_NON_MATCHING_TYPE)) (\<lambda>complete_provider.
      if complete_provider then Some (Inr None)
      else stage (load_fields p rx i val) (\<lambda>r. Some (Inr (Some r)))))"

section \<open>load_ruleset\<close>

definition append_ruleset ::
  "platform \<Rightarrow> 'c rulesets \<Rightarrow> 'c ruleset \<Rightarrow> (unalixerr \<times> 'c rulesets) option" where
  "append_ruleset p obj r =
     (let sz = rss_size obj + sizeof_Ruleset * 1 in
      if \<not> malloc p (AtRuleset (rss_offset obj)) sz then Some (UNALIXERR_MEMORY_ALLOCATE_FAILURE, obj)
      else if sz < sizeof_Ruleset * (rss_offset obj + 1) then None
      else Some (UNALIXERR_SUCCESS,
        \<lparr>rss_offset = rss_offset obj + 1, rss_size = sz,
         rss_items = take (rss_offset obj) (rss_items obj) @ [r]\<rparr>))"

fun load_providers ::
  "platform \<Rightarrow> 'c pcre2 \<Rightarrow> nat \<Rightarrow> (string \<times> json) list \<Rightarrow> 'c rulesets \<Rightarrow> (unalixerr \<times> 'c rulesets) option" where
  "load_providers p rx i [] obj = Some (UNALIXERR_SUCCESS, obj)"
| "load_providers p rx i (provider # rest) obj =
     (case load_provider p rx i provider of
        None \<Rightarrow> None
      | Some (Inl rc) \<Rightarrow> Some (rc, obj)
      | Some (Inr None) \<Rightarrow> load_providers p rx (Suc i) rest obj
      | Some (Inr (Some r)) \<Rightarrow> do {
          (rc, obj) \<leftarrow> append_ruleset p obj r;
          if rc \<noteq> UNALIXERR_SUCCESS then Some (rc, obj)
          else load_providers p rx (Suc i) rest obj })"

definition load_ruleset ::
  "platform \<Rightarrow> 'c pcre2 \<Rightarrow> json \<Rightarrow> 'c rulesets \<Rightarrow> (unalixerr \<times> 'c rulesets) option" where
  "load_ruleset p rx tree obj =
     (case json_object_get tree PROVIDERS of
        None \<Rightarrow> Some (UNALIXERR_JSON_MISSING_REQUIRED_KEY, obj)
      | Some providers \<Rightarrow>
          if \<not> json_is_object providers then Some (UNALIXERR_JSON_NON_MATCHING_TYPE, obj)
          else load_providers p rx 0 (json_members providers) obj)"

definition rulesets_free :: "'c rulesets \<Rightarrow> 'c rulesets" where
  "rulesets_free obj = obj\<lparr>rss_offset := 0, rss_size := 0, rss_items := []\<rparr>"

section \<open>Entry points\<close>

text \<open>
  \<open>json_load_file\<close> is Jansson's: its get function is \<open>fgetc\<close>, for which a read error is
  the end of the file, so what was read before it is decoded.  The inner None is NULL.
\<close>

definition json_load_file :: "json_flags \<Rightarrow> (string \<Rightarrow> bool) \<Rightarrow> os \<Rightarrow> filesys \<Rightarrow> string \<Rightarrow> json option option" where
  "json_load_file fl fin os fs filename =
     (case fopen_read os fs filename of
        None \<Rightarrow> Some None
      | Some data \<Rightarrow> json_loadf fl fin data)"

definition load_file ::
  "platform \<Rightarrow> 'c pcre2 \<Rightarrow> (string \<Rightarrow> bool) \<Rightarrow> os \<Rightarrow> filesys \<Rightarrow> string \<Rightarrow> 'c rulesets
     \<Rightarrow> (unalixerr \<times> 'c rulesets) option" where
  "load_file p rx fin os fs filename dst = do {
     tree \<leftarrow> json_load_file no_flags fin os fs filename;
     (case tree of
        None \<Rightarrow> Some (UNALIXERR_JSON_CANNOT_PARSE, dst)
      | Some tree \<Rightarrow> load_ruleset p rx tree dst) }"

definition unalix_load_file ::
  "platform \<Rightarrow> 'c pcre2 \<Rightarrow> (string \<Rightarrow> bool) \<Rightarrow> os \<Rightarrow> filesys \<Rightarrow> string option \<Rightarrow> 'c rulesets
     \<Rightarrow> (unalixerr \<times> 'c rulesets) option" where
  "unalix_load_file p rx fin os fs filename rulesets =
     (case filename of
        None \<Rightarrow> Some (UNALIXERR_ARG_INVALID, rulesets)
      | Some filename \<Rightarrow>
          if filename = [] then Some (UNALIXERR_ARG_INVALID, rulesets)
          else load_file p rx fin os fs filename rulesets)"

definition unalix_load_string ::
  "platform \<Rightarrow> 'c pcre2 \<Rightarrow> (string \<Rightarrow> bool) \<Rightarrow> string option \<Rightarrow> 'c rulesets \<Rightarrow> (unalixerr \<times> 'c rulesets) option" where
  "unalix_load_string p rx fin str rulesets =
     (case str of
        None \<Rightarrow> Some (UNALIXERR_ARG_INVALID, rulesets)
      | Some str \<Rightarrow>
          if str = [] then Some (UNALIXERR_ARG_INVALID, rulesets)
          else do {
            tree \<leftarrow> json_loads no_flags fin str;
            (case tree of
               None \<Rightarrow> Some (UNALIXERR_JSON_CANNOT_PARSE, rulesets)
             | Some tree \<Rightarrow> load_ruleset p rx tree rulesets) })"

definition unalix_unload_rulesets :: "'c rulesets \<Rightarrow> 'c rulesets" where
  "unalix_unload_rulesets rulesets = rulesets_free rulesets"

end
