(* ===== verification/Update.thy ===== *)
theory Update
  imports Network Rulesets
begin

text \<open>
  The operations that go to the network: \<open>src/unshort_url.c\<close>, the update side of
  \<open>src/ruleset.c\<close> and the wrappers of \<open>src/unalix_jni.c\<close>.  The k-th request of a
  call talks over the k-th exchange.  The calendar functions of the C library
  depend on the time zone and are parameters.
\<close>

section \<open>Requests on a context\<close>

definition HTTP_DATE_SIZE :: nat where "HTTP_DATE_SIZE = 29"
definition HTTP_DEFAULT_USER_AGENT :: string where
  "HTTP_DEFAULT_USER_AGENT = ''libunalix/0.1 (+https://github.com/AmanoTeam/libunalix)''"
definition HTTP_DEFAULT_MAX_REDIRECTS :: nat where "HTTP_DEFAULT_MAX_REDIRECTS = 20"
definition HTTP_DEFAULT_TIMEOUT :: int where "HTTP_DEFAULT_TIMEOUT = 8"
definition HTTP_HEADER_ACCEPT :: string where "HTTP_HEADER_ACCEPT = ''Accept''"
definition HTTP_HEADER_USER_AGENT :: string where "HTTP_HEADER_USER_AGENT = ''User-Agent''"
definition HTTP_HEADER_LAST_MODIFIED :: string where "HTTP_HEADER_LAST_MODIFIED = ''Last-Modified''"
definition HTTP_HEADER_IF_MODIFIED_SINCE :: string where "HTTP_HEADER_IF_MODIFIED_SINCE = ''If-Modified-Since''"
definition NOT_MODIFIED :: int where "NOT_MODIFIED = 304"

text \<open>\<open>code = f(...); if (code != UNALIXERR_SUCCESS) { return code; }\<close>\<close>

definition attempt :: "(unalixerr \<times> 'a) option \<Rightarrow> (unalixerr \<times> 'a + 'a) option" where
  "attempt m = map_option (\<lambda>(rc, a). if rc \<noteq> UNALIXERR_SUCCESS then Inl (rc, a) else Inr a) m"

definition on_request ::
  "(http_request \<Rightarrow> (unalixerr \<times> http_request) option) \<Rightarrow> http_context \<Rightarrow> (unalixerr \<times> http_context) option" where
  "on_request f context =
     map_option (\<lambda>(rc, request). (rc, context\<lparr>ctx_request := request\<rparr>)) (f (ctx_request context))"

definition add_header :: "platform \<Rightarrow> string \<Rightarrow> string \<Rightarrow> http_context \<Rightarrow> (unalixerr \<times> http_context) option" where
  "add_header p key val = on_request (\<lambda>request. http_request_add_header p request key val)"

definition set_url :: "platform \<Rightarrow> string \<Rightarrow> http_context \<Rightarrow> (unalixerr \<times> http_context) option" where
  "set_url p url = on_request (\<lambda>request. http_request_set_url p request url)"

text \<open>\<open>struct HTTPContext context = { ... }\<close>: every member not named is zero, the descriptor too.\<close>

definition new_context :: "http_method \<Rightarrow> int \<Rightarrow> http_context" where
  "new_context verb timeout =
     \<lparr>ctx_request = zero_request\<lparr>rq_version := HTTP10, rq_method := verb\<rparr>,
      ctx_response = zero_response,
      ctx_connection = \<lparr>conn_fd = 0, conn_ssl_initialized = False, conn_timeout = timeout,
        conn_incoming = [], conn_log = []\<rparr>\<rparr>"

section \<open>unalix_unshort_url\<close>

text \<open>One request for a cleaned URL and the URL it redirects to; the context is freed on every path.\<close>

definition unshort_request ::
  "platform \<Rightarrow> exchange \<Rightarrow> string option \<Rightarrow> int \<Rightarrow> string \<Rightarrow> (unalixerr \<times> string option \<times> event list) option" where
  "unshort_request p ex user_agent timeout url =
     (let context = new_context GET (if timeout > 0 then timeout else HTTP_DEFAULT_TIMEOUT);
          ua = (case user_agent of None \<Rightarrow> HTTP_DEFAULT_USER_AGENT
                | Some s \<Rightarrow> if s = [] then HTTP_DEFAULT_USER_AGENT else s);
          freed = (\<lambda>context. conn_log (ctx_connection (http_context_free context)))
      in map_option (\<lambda>(rc, location, context). (rc, location, freed context)) (body (
        stage (map_option (map_sum (\<lambda>(rc, c). (rc, None, c)) id) (
          stage (attempt (add_header p HTTP_HEADER_ACCEPT ''*/*'' context)) (\<lambda>context.
          stage (attempt (add_header p HTTP_HEADER_USER_AGENT ua context)) (\<lambda>context.
          stage (attempt (set_url p url context)) (\<lambda>context.
          attempt (http_request_send p ex context))))))
        (\<lambda>context.
          map_option (\<lambda>(rc, location). Inr (rc, location, context))
            (http_get_redirect p (ctx_request context) (ctx_response context))))))"

function unshort_loop ::
  "nat \<Rightarrow> platform \<Rightarrow> 'c pcre2 \<Rightarrow> 'c ruleset list \<Rightarrow> (nat \<Rightarrow> exchange) \<Rightarrow> clean_flags \<Rightarrow> string option \<Rightarrow> int
     \<Rightarrow> nat \<Rightarrow> string \<Rightarrow> string option \<Rightarrow> event list \<Rightarrow> (unalixerr \<times> string option \<times> event list) option" where
  "unshort_loop frames p rx rs exs fl user_agent timeout total_redirects location target log =
     (case unalix_clean_url frames (in_call total_redirects p) rx rs fl (Some location) True of
        None \<Rightarrow> None
      | Some (rc, url) \<Rightarrow>
          if rc \<noteq> UNALIXERR_SUCCESS then Some (rc, target, log)
          else (case url of
              None \<Rightarrow> None
            | Some url \<Rightarrow>
                (case unshort_request (in_call total_redirects p) (exs total_redirects) user_agent timeout url of
                   None \<Rightarrow> None
                 | Some (rc, location, events) \<Rightarrow>
                     if rc \<noteq> UNALIXERR_SUCCESS then Some (rc, Some url, log @ events)
                     else (case location of
                         None \<Rightarrow> Some (UNALIXERR_SUCCESS, Some url, log @ events)
                       | Some location \<Rightarrow>
                           if Suc total_redirects > HTTP_DEFAULT_MAX_REDIRECTS
                           then Some (UNALIXERR_HTTP_TOO_MANY_REDIRECTS, Some url, log @ events)
                           else unshort_loop frames p rx rs exs fl user_agent timeout (Suc total_redirects)
                                  location (Some url) (log @ events)))))"
  by pat_completeness auto
termination
  by (relation "measure (\<lambda>(frames, p, rx, rs, exs, fl, user_agent, timeout, total, location, target, log).
    HTTP_DEFAULT_MAX_REDIRECTS - total)") auto

declare unshort_loop.simps [simp del]

text \<open>\<open>target\<close> is what \<open>*target_url\<close> holds before; None when \<open>target_url\<close> is NULL.\<close>

definition unalix_unshort_url ::
  "nat \<Rightarrow> platform \<Rightarrow> 'c pcre2 \<Rightarrow> 'c ruleset list \<Rightarrow> (nat \<Rightarrow> exchange) \<Rightarrow> clean_flags \<Rightarrow> string option \<Rightarrow> int
     \<Rightarrow> string option \<Rightarrow> string option option \<Rightarrow> (unalixerr \<times> string option \<times> event list) option" where
  "unalix_unshort_url frames p rx rs exs fl user_agent timeout source_url target_url =
     (case (source_url, target_url) of
        (Some source_url, Some target) \<Rightarrow>
          if source_url = [] then Some (UNALIXERR_ARG_INVALID, target, [])
          else unshort_loop frames p rx rs exs fl user_agent timeout 0 source_url target []
      | (_, target) \<Rightarrow> Some (UNALIXERR_ARG_INVALID, Option.bind target id, []))"

section \<open>Checking for an update\<close>

text \<open>
  \<open>mktime\<close> answers the time and normalises its argument in place; \<open>strftime\<close> and
  \<open>strptime\<close> are taken at the format of HTTP dates.
\<close>

record 't calendar =
  tm_gmtime :: "int \<Rightarrow> 't option"
  tm_mktime :: "'t \<Rightarrow> int \<times> 't"
  tm_strftime :: "'t \<Rightarrow> string"
  tm_strptime :: "string \<Rightarrow> 't option"

text \<open>The date of the local file, and the text the request asks with.\<close>

definition local_date :: "'t calendar \<Rightarrow> filesys \<Rightarrow> string \<Rightarrow> unalixerr + int \<times> string" where
  "local_date cal fs filename =
     (if \<not> file_exists fs filename then Inl UNALIXERR_OS_STAT_FAILURE
      else
        let local_last_modified = get_last_modification_time fs filename in
        if local_last_modified = 0 then Inl UNALIXERR_OS_STAT_FAILURE
        else (case tm_gmtime cal local_last_modified of
            None \<Rightarrow> Inl UNALIXERR_OS_GMTIME_FAILURE
          | Some time \<Rightarrow>
              let (last_modified, time) = tm_mktime cal time in
              if last_modified = - 1 then Inl UNALIXERR_OS_MKTIME_FAILURE
              else
                let if_modified_since = tm_strftime cal time;
                    size = (if length if_modified_since \<le> HTTP_DATE_SIZE then length if_modified_since else 0)
                in if size \<noteq> HTTP_DATE_SIZE then Inl UNALIXERR_OS_STRFTIME_FAILURE
                else Inr (last_modified, if_modified_since)))"

text \<open>What the answer says.\<close>

definition compare_dates :: "'t calendar \<Rightarrow> int \<Rightarrow> http_response \<Rightarrow> unalixerr option" where
  "compare_dates cal last_modified response =
     (let status = status_code (http_response_get_status response) in
      if status = NOT_MODIFIED then Some UNALIXERR_RULESETS_NOT_MODIFIED
      else if status \<noteq> STATUS_OK then Some UNALIXERR_HTTP_BAD_STATUS_CODE
      else (case http_response_get_header response HTTP_HEADER_LAST_MODIFIED of
          None \<Rightarrow> None
        | Some None \<Rightarrow> Some UNALIXERR_RULESETS_UPDATE_AVAILABLE
        | Some (Some header) \<Rightarrow> do {
            val \<leftarrow> hdr_value header;
            Some (case tm_strptime cal val of
                None \<Rightarrow> UNALIXERR_OS_STRPTIME_FAILURE
              | Some time \<Rightarrow>
                  let remote_last_modified = fst (tm_mktime cal time) in
                  if remote_last_modified = - 1 then UNALIXERR_OS_MKTIME_FAILURE
                  else if remote_last_modified \<le> last_modified then UNALIXERR_RULESETS_NOT_MODIFIED
                  else UNALIXERR_RULESETS_UPDATE_AVAILABLE) }))"

definition check_ruleset_update ::
  "platform \<Rightarrow> 't calendar \<Rightarrow> exchange \<Rightarrow> filesys \<Rightarrow> string \<Rightarrow> string \<Rightarrow> http_context
     \<Rightarrow> (unalixerr \<times> http_context) option" where
  "check_ruleset_update p cal ex fs filename url context =
     (case local_date cal fs filename of
        Inl rc \<Rightarrow> Some (rc, context)
      | Inr (last_modified, if_modified_since) \<Rightarrow> body (
          stage (attempt (set_url p url context)) (\<lambda>context.
          stage (attempt (add_header p HTTP_HEADER_USER_AGENT HTTP_DEFAULT_USER_AGENT context)) (\<lambda>context.
          stage (attempt (add_header p HTTP_HEADER_ACCEPT ''application/json'' context)) (\<lambda>context.
          stage (attempt (add_header p HTTP_HEADER_IF_MODIFIED_SINCE if_modified_since context)) (\<lambda>context.
          stage (attempt (http_request_send p ex context)) (\<lambda>context.
            map_option (\<lambda>rc. Inr (rc, context)) (compare_dates cal last_modified (ctx_response context)))))))))"

text \<open>\<open>filename == NULL || *filename == '\0'\<close>\<close>

definition blank :: "string option \<Rightarrow> bool" where
  "blank s \<longleftrightarrow> s = None \<or> s = Some []"

definition unalix_ruleset_check_update ::
  "platform \<Rightarrow> 't calendar \<Rightarrow> exchange \<Rightarrow> filesys \<Rightarrow> string option \<Rightarrow> string option
     \<Rightarrow> (unalixerr \<times> event list) option" where
  "unalix_ruleset_check_update p cal ex fs filename url =
     (if blank filename \<or> blank url then Some (UNALIXERR_ARG_INVALID, [])
      else map_option (\<lambda>(rc, context). (rc, conn_log (ctx_connection (http_context_free context))))
        (check_ruleset_update p cal ex fs (the filename) (the url) (new_context HEAD HTTP_DEFAULT_TIMEOUT)))"

section \<open>Updating the ruleset\<close>

text \<open>
  What an update works with: the platform, the operating system, PCRE2, the range of
  \<open>strtod\<close> and the exchanges of its two requests.
\<close>

record 'c services =
  sv_platform :: platform
  sv_os :: os
  sv_regex :: "'c pcre2"
  sv_strtod :: "string \<Rightarrow> bool"
  sv_exchange :: "nat \<Rightarrow> exchange"

text \<open>
  The state is the context and the files.  A GET for one resource: the code of the
  first call that fails, or of a status other than 200.
\<close>

definition fetch ::
  "platform \<Rightarrow> exchange \<Rightarrow> string \<Rightarrow> string \<Rightarrow> http_context \<Rightarrow> (unalixerr \<times> http_context + http_context) option" where
  "fetch p ex url accept context =
     stage (attempt (set_url p url context)) (\<lambda>context.
     stage (attempt (add_header p HTTP_HEADER_USER_AGENT HTTP_DEFAULT_USER_AGENT context)) (\<lambda>context.
     stage (attempt (add_header p HTTP_HEADER_ACCEPT accept context)) (\<lambda>context.
     stage (attempt (http_request_send p ex context)) (\<lambda>context.
       if status_code (http_response_get_status (ctx_response context)) \<noteq> STATUS_OK
       then Some (Inl (UNALIXERR_HTTP_BAD_STATUS_CODE, context)) else Some (Inr context)))))"

definition RULESET_TEMPORARY_FILE :: string where "RULESET_TEMPORARY_FILE = ''ruleset.json''"

definition ruleset_file :: "platform \<Rightarrow> os \<Rightarrow> string option \<Rightarrow> string option" where
  "ruleset_file p os temporary_directory = do {
     directory \<leftarrow> (case temporary_directory of
        Some d \<Rightarrow> Some d
      | None \<Rightarrow> Option.bind (get_temporary_directory p os) id);
     strcats (length directory + length RULESET_TEMPORARY_FILE + 1) [] [directory, RULESET_TEMPORARY_FILE] }"

definition remove_in :: "os \<Rightarrow> filesys \<Rightarrow> string \<Rightarrow> filesys" where
  "remove_in os fs filename = snd (remove_file os fs filename)"

text \<open>The body of the response goes to the temporary file; then the context is freed.\<close>

definition download ::
  "'c services \<Rightarrow> string \<Rightarrow> http_context \<times> filesys \<Rightarrow> (unalixerr \<times> http_context \<times> filesys + http_context \<times> filesys) option" where
  "download sv file state =
     (let (context, fs) = state in
      case fopen_write (sv_os sv) fs file of
        None \<Rightarrow> Some (Inl (UNALIXERR_FILE_CANNOT_OPEN, context, fs))
      | Some fs \<Rightarrow>
          (case http_response_read (sv_platform sv) (sv_os sv) context (Some file) fs of
             None \<Rightarrow> None
           | Some (rc, context, fs) \<Rightarrow>
               let context = http_context_free context in
               if rc \<noteq> UNALIXERR_SUCCESS then Some (Inl (rc, context, remove_in (sv_os sv) fs file))
               else Some (Inr (context, fs))))"

text \<open>The loop that makes the digits A to F small.\<close>

definition lower_hex :: "char \<Rightarrow> char" where
  "lower_hex ch = (if schar ch \<ge> 65 \<and> schar ch \<le> 70 then char_of (code ch + 32) else ch)"

text \<open>The published hash is read into memory and compared with the hash of the file.\<close>

definition compare_hash ::
  "'c services \<Rightarrow> string \<Rightarrow> filesys \<Rightarrow> http_context \<Rightarrow> (unalixerr \<times> http_context \<times> filesys + http_context \<times> filesys) option" where
  "compare_hash sv file fs context =
     (case http_response_read (in_call 1 (sv_platform sv)) (sv_os sv) context None fs of
        None \<Rightarrow> None
      | Some (rc, context, fs) \<Rightarrow>
          if rc \<noteq> UNALIXERR_SUCCESS then Some (Inl (rc, context, remove_in (sv_os sv) fs file))
          else
            let bdy = http_response_get_body (ctx_response context) in
            if body_size bdy < br_sha256_SIZE * 2 then Some (Inl (UNALIXERR_RULESETS_MISMATCH_HASH, context, fs))
            else (case memcpy_range (opt_str (body_content bdy)) 0 (br_sha256_SIZE * 2) of
                None \<Rightarrow> None
              | Some rsha256 \<Rightarrow>
                  let context = http_context_free context;
                      rsha256 = map lower_hex rsha256;
                      (rc, lsha256) = sha256_digest (sv_os sv) fs file
                  in if rc \<noteq> UNALIXERR_SUCCESS then Some (Inl (rc, context, remove_in (sv_os sv) fs file))
                  else if take SHA256_DIGEST_SIZE lsha256 \<noteq> take SHA256_DIGEST_SIZE rsha256
                  then Some (Inl (UNALIXERR_RULESETS_MISMATCH_HASH, context, remove_in (sv_os sv) fs file))
                  else Some (Inr (context, fs))))"

definition check_hash ::
  "'c services \<Rightarrow> string \<Rightarrow> string \<Rightarrow> http_context \<times> filesys \<Rightarrow> (unalixerr \<times> http_context \<times> filesys + http_context \<times> filesys) option" where
  "check_hash sv file url state =
     (let (context, fs) = state in
      stage (map_option (map_sum (\<lambda>(rc, c). (rc, c, fs)) id)
        (fetch (in_call 1 (sv_platform sv)) (sv_exchange sv 1) url ''text/plain'' context))
        (compare_hash sv file fs))"

text \<open>The file is loaded once to see that it can be, and moved.\<close>

definition install ::
  "'c services \<Rightarrow> string \<Rightarrow> string \<Rightarrow> http_context \<times> filesys \<Rightarrow> (unalixerr \<times> http_context \<times> filesys) option" where
  "install sv file filename state =
     (let (context, fs) = state; os = sv_os sv in
      case load_file (sv_platform sv) (sv_regex sv) (sv_strtod sv) os fs file zero_rulesets of
        None \<Rightarrow> None
      | Some (rc, loaded) \<Rightarrow>
          if rc \<noteq> UNALIXERR_SUCCESS then Some (rc, context, remove_in os fs file)
          else do {
            (moved, fs) \<leftarrow> move_file os fs file filename;
            if moved = 0 then Some (UNALIXERR_FILE_CANNOT_MOVE, context, fs)
            else Some (UNALIXERR_SUCCESS, context, fs) })"

definition ruleset_update ::
  "'c services \<Rightarrow> string \<Rightarrow> string \<Rightarrow> string option \<Rightarrow> string option \<Rightarrow> http_context \<times> filesys
     \<Rightarrow> (unalixerr \<times> http_context \<times> filesys) option" where
  "ruleset_update sv filename url sha256_url temporary_directory state =
     (let (context, fs) = state in body (
      stage (map_option (map_sum (\<lambda>(rc, c). (rc, c, fs)) id)
        (fetch (sv_platform sv) (sv_exchange sv 0) url ''application/json'' context)) (\<lambda>context.
      case ruleset_file (sv_platform sv) (sv_os sv) temporary_directory of
        None \<Rightarrow> None
      | Some file \<Rightarrow>
          stage (download sv file (context, fs)) (\<lambda>state.
          stage (case sha256_url of None \<Rightarrow> Some (Inr state) | Some hash_url \<Rightarrow> check_hash sv file hash_url state) (\<lambda>state.
            map_option Inr (install sv file filename state))))))"

definition unalix_ruleset_update ::
  "'c services \<Rightarrow> string option \<Rightarrow> string option \<Rightarrow> string option \<Rightarrow> string option \<Rightarrow> filesys
     \<Rightarrow> (unalixerr \<times> event list \<times> filesys) option" where
  "unalix_ruleset_update sv filename url sha256_url temporary_directory fs =
     (if blank filename \<or> blank url \<or> blank temporary_directory then Some (UNALIXERR_ARG_INVALID, [], fs)
      else map_option (\<lambda>(rc, context, fs). (rc, conn_log (ctx_connection (http_context_free context)), fs))
        (ruleset_update sv (the filename) (the url) sha256_url temporary_directory
           (new_context GET HTTP_DEFAULT_TIMEOUT, fs)))"

end
