(* ===== verification/URI_Proofs.thy ===== *)
theory URI_Proofs
  imports URI
begin

text \<open>
  Correctness of the URI parser: it never leaves the memory of its argument,
  what it accepts (scheme, labels, port), the exact size of the buffer
  \<open>uri_stringify\<close> allocates, the round trip through both, and the inputs whose
  structure it misreads.
\<close>

section \<open>The two character loops\<close>

definition scheme_char :: "char \<Rightarrow> bool" where
  "scheme_char c \<longleftrightarrow> isalnum c \<or> strchr_in SCHEME_SAFE_SYMBOLS c"

lemma scheme_loop_Inr:
  "scheme_loop before s = Inr r \<longleftrightarrow>
     r = before @ map lower s \<and> (\<forall>c \<in> set s. scheme_char c) \<and>
     (before = [] \<longrightarrow> s \<noteq> [] \<longrightarrow> isalpha (hd s))"
  by (induction s arbitrary: before) (auto simp: scheme_char_def)

definition label_ok :: "string \<Rightarrow> bool" where
  "label_ok l \<longleftrightarrow> 1 \<le> length l \<and> length l \<le> 63 \<and> hd l \<noteq> CHR ''-'' \<and> last l \<noteq> CHR ''-'' \<and>
     (\<forall>c \<in> set l. isalnum c \<or> c = CHR ''-'')"

lemma label_end_None:
  "label_end (pre @ cur) (length cur) = None \<longleftrightarrow>
     1 \<le> length cur \<and> length cur \<le> 63 \<and> last cur \<noteq> CHR ''-''"
  by (cases cur) (auto simp: label_end_def MIN_LABEL_SIZE_def MAX_LABEL_SIZE_def)

lemma lower_hyphen [simp]: "lower c = CHR ''-'' \<longleftrightarrow> c = CHR ''-''"
  by (rule lower_eq_nonalpha) (simp add: ctype_simps)

lemma lower_dot [simp]: "lower c = CHR ''.'' \<longleftrightarrow> c = CHR ''.''"
  by (rule lower_eq_nonalpha) (simp add: ctype_simps)

lemma lower_dot_id [simp]: "lower CHR ''.'' = CHR ''.''"
  by simp

lemma label_ok_map_lower: "label_ok (map lower l) \<longleftrightarrow> label_ok l"
  by (cases "l = []") (auto simp: label_ok_def last_map hd_map)

text \<open>
  The host loop from a state in the middle of a label: \<open>cur\<close> is the part of the
  current label already passed.
\<close>

lemma label_loop_Inr:
  assumes "cur = [] \<or> hd cur \<noteq> CHR ''-''" "CHR ''.'' \<notin> set cur"
    and "\<forall>c \<in> set cur. isalnum c \<or> c = CHR ''-''"
  shows "label_loop (pre @ cur) (length cur) s = Inr r \<longleftrightarrow>
     r = pre @ cur @ map lower s \<and> (\<forall>l \<in> set (split_on CHR ''.'' (cur @ s)). label_ok l)"
  using assms
proof (induction s arbitrary: pre cur)
  case Nil
  then show ?case
    using label_end_None[of pre cur] by (auto simp: label_ok_def split: option.splits)
next
  case (Cons ch s)
  show ?case
  proof (cases "ch = CHR ''.''")
    case True
    have "label_loop (pre @ cur @ [ch]) 0 s = Inr r \<longleftrightarrow>
       r = pre @ cur @ ch # map lower s \<and> (\<forall>l \<in> set (split_on CHR ''.'' s). label_ok l)"
      using Cons.IH[where cur = "[]" and pre = "pre @ cur @ [ch]"] by simp
    moreover have "label_end (pre @ cur) (length cur) = None \<longleftrightarrow> label_ok cur"
      using Cons.prems by (auto simp: label_end_None label_ok_def)
    ultimately show ?thesis
      using True Cons.prems(2)
      by (cases "label_end (pre @ cur) (length cur)") (simp_all add: split_on_sep)
  next
    case False
    show ?thesis
    proof (cases "cur = [] \<and> ch = CHR ''-'' \<or> \<not> (isalnum ch \<or> ch = CHR ''-'')")
      case True
      have "\<not> label_ok (cur @ ch # hd (split_on CHR ''.'' s))"
        using True by (auto simp: label_ok_def)
      then show ?thesis
        using True False Cons.prems(2) by (auto simp: split_on_app)
    next
      case ok: False
      have "hd (cur @ [lower ch]) \<noteq> CHR ''-''"
        using Cons.prems(1) ok by (cases cur) auto
      moreover have "CHR ''.'' \<notin> set (cur @ [lower ch])"
        using Cons.prems(2) False by (auto dest: sym)
      moreover have "\<forall>c \<in> set (cur @ [lower ch]). isalnum c \<or> c = CHR ''-''"
        using Cons.prems(3) ok by auto
      ultimately have "label_loop (pre @ (cur @ [lower ch])) (length (cur @ [lower ch])) s = Inr r \<longleftrightarrow>
         r = pre @ (cur @ [lower ch]) @ map lower s \<and>
         (\<forall>l \<in> set (split_on CHR ''.'' ((cur @ [lower ch]) @ s)). label_ok l)"
        by (intro Cons.IH) simp_all
      moreover have "label_ok (cur @ lower ch # hd (split_on CHR ''.'' s)) \<longleftrightarrow>
          label_ok (cur @ ch # hd (split_on CHR ''.'' s))"
        using label_ok_map_lower[of "cur @ lower ch # hd (split_on CHR ''.'' s)"]
          label_ok_map_lower[of "cur @ ch # hd (split_on CHR ''.'' s)"] by simp
      ultimately show ?thesis
        using ok False Cons.prems(2) by (auto simp: split_on_app)
    qed
  qed
qed

definition hostname_ok :: "string \<Rightarrow> bool" where
  "hostname_ok h \<longleftrightarrow> 4 \<le> length h \<and> length h \<le> 253 \<and> (\<forall>l \<in> set (split_on CHR ''.'' h). label_ok l)"

lemma label_loop_start:
  "label_loop [] 0 h = Inr r \<longleftrightarrow> r = map lower h \<and> (\<forall>l \<in> set (split_on CHR ''.'' h). label_ok l)"
  using label_loop_Inr[of "[]" "[]" h r] by simp

section \<open>The stages of parse_uri\<close>

text \<open>
  One total-correctness fact per stage: it is defined (every copy stays inside
  the URI), an early return carries an error, and falling through establishes
  what the later stages rely on.
\<close>

abbreviation failed :: "unalixerr \<times> 'a \<Rightarrow> bool" where
  "failed r \<equiv> fst r \<noteq> UNALIXERR_SUCCESS"

lemma store_range_ends:
  assumes "a + n \<le> length s \<or> PTRDIFF_MAX < n"
  shows "ends (store_range p at s a n f obj) failed
     (\<lambda>obj'. (n = 0 \<and> obj' = obj) \<or> (0 < n \<and> a + n \<le> length s \<and> obj' = f (Some (slice s a n)) obj))"
  using assms by (cases "a + n \<le> length s") (auto simp: store_range_def dup_range_in_bounds dup_range_too_big)

definition scheme_ok :: "string \<Rightarrow> bool" where
  "scheme_ok s \<longleftrightarrow> s \<noteq> [] \<and> isalpha (hd s) \<and> (\<forall>c \<in> set s. scheme_char c \<and> \<not> isupper c)"

lemma scheme_char_lower: "scheme_char c \<Longrightarrow> scheme_char (lower c)"
  by (cases "isupper c") (simp_all add: scheme_char_def isalnum_def isalpha_def islower_lower)

lemma scheme_loop_error:
  "scheme_loop before s = Inl (e, s') \<Longrightarrow> e \<noteq> UNALIXERR_SUCCESS"
  by (induction s arbitrary: before) (auto split: if_splits)

lemma parse_scheme_ends:
  "ends (parse_scheme p obj s) failed
     (\<lambda>(obj', a). a \<le> length s \<and> (\<exists>sc. scheme_ok sc \<and> obj' = obj\<lparr>uri_scheme := Some sc\<rparr>))"
proof (cases "strstr s 0 SCHEME_SEPARATOR")
  case None
  then show ?thesis by (simp add: parse_scheme_def)
next
  case (Some e)
  then have len: "e + 3 \<le> length s"
    using strstr_SomeD(2)[OF Some] by (simp add: SCHEME_SEPARATOR_def)
  show ?thesis
  proof (cases "1 \<le> e \<and> malloc p AtScheme (e + 1)")
    case False
    then show ?thesis
      using Some len by (auto simp: parse_scheme_def dup_range_in_bounds)
  next
    case True
    have "scheme_loop [] (take e s) = Inr r \<Longrightarrow> scheme_ok r" for r
      using True len hd_map[of "take e s" lower]
      by (fastforce simp: scheme_loop_Inr scheme_ok_def scheme_char_lower)
    then show ?thesis
      using Some len True scheme_loop_error
      by (auto simp: parse_scheme_def dup_range_in_bounds slice_def SCHEME_SEPARATOR_def split: sum.splits)
  qed
qed

definition same_host_fields :: "uri \<Rightarrow> uri \<Rightarrow> bool" where
  "same_host_fields u v \<longleftrightarrow> uri_scheme u = uri_scheme v \<and> uri_hostname u = uri_hostname v \<and>
     uri_port u = uri_port v \<and> uri_is_ipv6 u = uri_is_ipv6 v"

lemma same_host_fields_refl [simp]: "same_host_fields u u"
  by (simp add: same_host_fields_def)

lemma strstr_char_bounds:
  "strstr s a [c] = Some i \<Longrightarrow> a \<le> i \<and> i < length s \<and> s ! i = c"
  using strstr_SomeD(1) strstr_char_nth by blast

lemma parse_authentication_ends:
  assumes "a \<le> length s"
  shows "ends (parse_authentication p obj s a) failed
     (\<lambda>(obj', r). r = strstr s a ''@'' \<and> same_host_fields obj' obj)"
proof (cases "strstr s a ''@''")
  case None
  then show ?thesis by (simp add: parse_authentication_def)
next
  case (Some e)
  then have e: "a \<le> e" "e < length s"
    using strstr_char_bounds by blast+
  define sep where "sep = (case strstr s a '':'' of None \<Rightarrow> e | Some i \<Rightarrow> if i > e then e else i)"
  have sep: "a \<le> sep" "sep \<le> e"
    using e strstr_char_bounds[of s a "CHR '':''"] by (auto simp: sep_def split: option.splits)
  define sep' where "sep' = (if sep \<noteq> e then sep + 1 else sep)"
  have sep': "sep' \<le> e"
    using sep by (auto simp: sep'_def)
  show ?thesis
    unfolding parse_authentication_def Some sep_def[symmetric] Let_def option.case sep'_def[symmetric]
    by (rule ends_stage[OF store_range_ends ends_stage[OF store_range_ends]])
      (use e sep sep' in \<open>auto simp: same_host_fields_def\<close>)
qed

definition cursors_ok :: "string \<Rightarrow> cursors \<Rightarrow> bool" where
  "cursors_ok s c \<longleftrightarrow> hostname_start c \<le> host_end s c \<and> host_end s c \<le> length s \<and>
     (\<forall>i. path_start c = Some i \<longrightarrow> i < length s) \<and>
     (\<forall>i. query_start c = Some i \<longrightarrow> i < length s) \<and>
     (\<forall>i. fragment_start c = Some i \<longrightarrow> i < length s) \<and>
     (\<forall>i. port_start c = Some i \<longrightarrow> i < length s \<and> (\<not> is_ipv6 c \<longrightarrow> hostname_start c \<le> i))"

lemma locate_authority_ends:
  assumes "a \<le> length s"
  shows "ends (locate_authority obj s a (strstr s a ''@'')) failed (cursors_ok s)"
proof -
  define h where "h = (case strstr s a ''@'' of None \<Rightarrow> a | Some e \<Rightarrow> e + 1)"
  have h: "h \<le> length s"
    using assms strstr_char_bounds[of s a "CHR ''@''"] by (auto simp: h_def Suc_le_eq split: option.splits)
  have bracket: "Suc h \<le> e" if "char_at s h = CHR ''[''" "strstr s h '']'' = Some e" for e
    using that strstr_char_bounds[OF that(2)] by (cases "h = e") (auto simp: char_at_def nul_def split: if_splits)
  show ?thesis
  proof (cases "char_at s h = CHR ''[''")
    case True
    then show ?thesis
      using bracket[OF True] unfolding locate_authority_def h_def[symmetric] Let_def
      by (auto simp: cursors_ok_def host_end_def less_imp_le split: option.splits dest!: strstr_char_bounds)
  next
    case False
    then show ?thesis
      using h unfolding locate_authority_def h_def[symmetric] Let_def
      by (auto simp: cursors_ok_def host_end_def less_imp_le split: option.splits dest!: strstr_char_bounds)
  qed
qed

lemma port_end_bounds:
  "cursors_ok s c \<Longrightarrow> port_end s c = Some e \<Longrightarrow> e \<le> length s"
  by (auto simp: cursors_ok_def port_end_def less_imp_le split: if_splits)

definition port_ok :: "int \<Rightarrow> bool" where
  "port_ok n \<longleftrightarrow> n = 0 \<or> 1 \<le> n \<and> n \<le> 65535"

lemma store_port_ends:
  assumes "a + n \<le> length s"
  shows "ends (store_port obj s a n) failed
     (\<lambda>obj'. obj' = obj \<or> (\<exists>v. obj' = obj\<lparr>uri_port := v\<rparr> \<and> 1 \<le> v \<and> v \<le> 65535))"
  using assms
  by (auto simp: store_port_def memcpy_range_def Let_def MIN_PORT_NUMBER_def MAX_PORT_NUMBER_def)

lemma parse_port_ends:
  assumes "cursors_ok s c" "port_ok (uri_port obj)"
  shows "ends (parse_port obj s c) failed
     (\<lambda>(obj', c'). cursors_ok s c' \<and> port_ok (uri_port obj') \<and> uri_scheme obj' = uri_scheme obj)"
proof (cases "\<exists>i e. port_start c = Some i \<and> port_end s c = Some e \<and> i < e")
  case False
  then show ?thesis
    using assms by (auto simp: parse_port_def split: option.splits)
next
  case True
  then obtain i e where ie: "port_start c = Some i" "port_end s c = Some e" "i < e" by blast
  then have e: "e \<le> length s"
    using port_end_bounds[OF assms(1)] by blast
  have c': "cursors_ok s (c\<lparr>hostname_end := Some i\<rparr>)" if "\<not> is_ipv6 c"
    using assms(1) ie that by (auto simp: cursors_ok_def host_end_def)
  show ?thesis
    unfolding parse_port_def ie option.case prod.case if_P[OF ie(3)]
    by (rule ends_stage[OF store_port_ends]) (use e ie assms c' in \<open>auto simp: port_ok_def\<close>)
qed

definition host_ok :: "platform \<Rightarrow> uri \<Rightarrow> bool" where
  "host_ok p u \<longleftrightarrow> (\<exists>h. uri_hostname u = Some h \<and>
     (if uri_is_ipv6 u then isipv6 p h \<and> 2 \<le> length h \<and> length h \<le> 39
      else hostname_ok h \<and> (\<forall>c \<in> set h. \<not> isupper c)))"

lemma split_on_map_lower: "split_on CHR ''.'' (map lower h) = map (map lower) (split_on CHR ''.'' h)"
  by (induction h) (auto simp: hd_map map_tl)

lemma hostname_ok_lower: "hostname_ok (map lower h) \<longleftrightarrow> hostname_ok h"
  by (simp add: hostname_ok_def split_on_map_lower label_ok_map_lower)

lemma label_loop_error:
  "label_loop before n s = Inl (e, s') \<Longrightarrow> e \<noteq> UNALIXERR_SUCCESS"
  by (induction before n s rule: label_loop.induct) (auto simp: label_end_def split: if_splits option.splits)

lemma parse_hostname_ends:
  assumes "cursors_ok s c"
  shows "ends (parse_hostname p obj s c) failed
     (\<lambda>obj'. host_ok p obj' \<and> uri_port obj' = uri_port obj \<and> uri_scheme obj' = uri_scheme obj)"
proof -
  let ?n = "host_end s c - hostname_start c"
  let ?h = "slice s (hostname_start c) ?n"
  have bounds: "hostname_start c \<le> host_end s c" "host_end s c \<le> length s"
    using assms by (auto simp: cursors_ok_def)
  then have len: "length ?h = ?n" by simp
  have good: "label_loop [] 0 ?h = Inr r \<Longrightarrow> hostname_size_error False ?n = None \<Longrightarrow>
     hostname_ok r \<and> (\<forall>x \<in> set r. \<not> isupper x)" for r
    using len hostname_ok_lower[of ?h]
    by (auto simp: label_loop_start hostname_ok_def hostname_size_error_def MIN_HOSTNAME_SIZE_def
        MAX_HOSTNAME_SIZE_def split: if_splits)
  have err: "hostname_size_error b n = Some e \<Longrightarrow> e \<noteq> UNALIXERR_SUCCESS" for b n e
    by (auto simp: hostname_size_error_def split: if_splits)
  have size: "size_diff (host_end s c) (hostname_start c) = ?n"
    using bounds by simp
  have dup: "dup_range p AtHostname s (hostname_start c) ?n =
      Some (if malloc p AtHostname (?n + 1) then Some ?h else None)"
    using bounds by (intro dup_range_in_bounds) simp
  show ?thesis
  proof (cases "hostname_size_error (is_ipv6 c) ?n")
    case (Some e)
    then show ?thesis
      using err[OF Some] unfolding parse_hostname_def size Let_def by simp
  next
    case None
    show ?thesis
    proof (cases "is_ipv6 c")
      case True
      then have "2 \<le> ?n" "?n \<le> 39"
        using None by (auto simp: hostname_size_error_def MIN_IPV6_ADDRESS_SIZE_def
            MAX_IPV6_ADDRESS_SIZE_def split: if_splits)
      then show ?thesis
        using True None len unfolding parse_hostname_def size Let_def dup by (simp add: host_ok_def)
    next
      case False
      then have "hostname_size_error False ?n = None" using None by simp
      with False show ?thesis
        using None good label_loop_error unfolding parse_hostname_def size Let_def dup
        by (auto simp: host_ok_def simp del: One_nat_def split: sum.split)
    qed
  qed
qed

text \<open>
  Fragment, query and path: a query that starts after the fragment, or a path
  that starts after the query, gives a size that wraps around; \<open>malloc\<close> then
  refuses it, so nothing is copied.
\<close>

lemma store_tail_ends:
  assumes "i < length s" "j \<le> length s" "length s \<le> PTRDIFF_MAX"
    and "\<And>v obj. host_ok p (f v obj) = host_ok p obj" "\<And>v obj. uri_port (f v obj) = uri_port obj"
      "\<And>v obj. uri_scheme (f v obj) = uri_scheme obj"
  shows "ends (store_range p at s (i + 1) (size_diff j (i + 1)) f obj) failed
     (\<lambda>obj'. host_ok p obj' = host_ok p obj \<and> uri_port obj' = uri_port obj \<and> uri_scheme obj' = uri_scheme obj)"
proof -
  have "(i + 1) + size_diff j (i + 1) \<le> length s \<or> PTRDIFF_MAX < size_diff j (i + 1)"
    using assms size_diff_wrap[of j "i + 1"] by (cases "i + 1 \<le> j") auto
  from store_range_ends[OF this] show ?thesis
    by (rule ends_mono) (auto simp: assms)
qed

definition uri_ok :: "platform \<Rightarrow> uri \<Rightarrow> bool" where
  "uri_ok p u \<longleftrightarrow> (\<exists>sc. uri_scheme u = Some sc \<and> scheme_ok sc) \<and> port_ok (uri_port u) \<and> host_ok p u"

lemma parse_tail_ends:
  assumes "cursors_ok s c" "length s \<le> PTRDIFF_MAX" "uri_ok p obj"
  shows "ends (parse_fragment p obj s c) failed (uri_ok p)" "ends (parse_query p obj s c) failed (uri_ok p)"
    "ends (parse_path p obj s c) failed (uri_ok p)"
proof -
  have store: "ends (store_range p at s (i + 1) (size_diff j (i + 1)) f obj) failed (uri_ok p)"
    if "i < length s" "j \<le> length s" "\<And>v obj. host_ok p (f v obj) = host_ok p obj"
      "\<And>v obj. uri_port (f v obj) = uri_port obj" "\<And>v obj. uri_scheme (f v obj) = uri_scheme obj"
    for at i j f
    by (rule ends_mono[OF store_tail_ends]) (use that assms in \<open>auto simp: uri_ok_def\<close>)
  show "ends (parse_fragment p obj s c) failed (uri_ok p)" "ends (parse_query p obj s c) failed (uri_ok p)"
    "ends (parse_path p obj s c) failed (uri_ok p)"
    using assms
    by (auto simp: parse_fragment_def parse_query_def parse_path_def cursors_ok_def host_ok_def
        less_imp_le split: option.splits intro!: store[unfolded One_nat_def add_Suc_right add_0_right])
qed

lemma parse_uri_ends:
  assumes "length s \<le> PTRDIFF_MAX" "port_ok (uri_port obj)"
  shows "\<exists>e u. parse_uri p obj s = Some (e, u) \<and> (e = UNALIXERR_SUCCESS \<longrightarrow> uri_ok p u)"
proof -
  have tail: "ends (stage (parse_hostname p u s c) (\<lambda>obj. stage (parse_fragment p obj s c) (\<lambda>obj.
      stage (parse_query p obj s c) (\<lambda>obj. stage (parse_path p obj s c) (\<lambda>obj.
      Some (Inr (UNALIXERR_SUCCESS, obj))))))) failed (\<lambda>(e, u). uri_ok p u)"
    if "cursors_ok s c" "port_ok (uri_port u)" "\<exists>sc. uri_scheme u = Some sc \<and> scheme_ok sc" for u c
    using that assms(1)
    by (intro ends_stage[OF parse_hostname_ends] ends_stage[OF parse_tail_ends(1)]
        ends_stage[OF parse_tail_ends(2)] ends_stage[OF parse_tail_ends(3)]) (auto simp: uri_ok_def)
  have "ends (stage (parse_scheme p obj s) (\<lambda>(obj, a).
     stage (parse_authentication p obj s a) (\<lambda>(obj, r). stage (locate_authority obj s a r) (\<lambda>c.
     stage (parse_port obj s c) (\<lambda>(obj, c). stage (parse_hostname p obj s c) (\<lambda>obj.
     stage (parse_fragment p obj s c) (\<lambda>obj. stage (parse_query p obj s c) (\<lambda>obj.
     stage (parse_path p obj s c) (\<lambda>obj. Some (Inr (UNALIXERR_SUCCESS, obj)))))))))))
     failed (\<lambda>(e, u). uri_ok p u)"
    apply (rule ends_stage[OF parse_scheme_ends], clarify)
    apply (rule ends_stage[OF parse_authentication_ends], assumption, clarify)
    apply (rule ends_stage[OF locate_authority_ends], assumption)
    apply (rule ends_stage[OF parse_port_ends], assumption)
    subgoal using assms(2) by (simp add: same_host_fields_def)
    apply clarify
    by (rule tail) (auto simp: same_host_fields_def)
  then have "ends (stage (parse_scheme p obj s) (\<lambda>(obj, a).
     stage (parse_authentication p obj s a) (\<lambda>(obj, r). stage (locate_authority obj s a r) (\<lambda>c.
     stage (parse_port obj s c) (\<lambda>(obj, c). stage (parse_hostname p obj s c) (\<lambda>obj.
     stage (parse_fragment p obj s c) (\<lambda>obj. stage (parse_query p obj s c) (\<lambda>obj.
     stage (parse_path p obj s c) (\<lambda>obj. Some (Inr (UNALIXERR_SUCCESS, obj)))))))))))
     (\<lambda>(e, u). e = UNALIXERR_SUCCESS \<longrightarrow> uri_ok p u) (\<lambda>(e, u). e = UNALIXERR_SUCCESS \<longrightarrow> uri_ok p u)"
    by (rule ends_mono) auto
  from ends_body[OF this] show ?thesis
    unfolding parse_uri_def by (simp add: case_prod_unfold)
qed

section \<open>Percent decoding\<close>

text \<open>A character as \<open>%\<close> and the two digits \<open>to_hex\<close> gives for its halves.\<close>

definition percent :: "char \<Rightarrow> string" where
  "percent c = [CHR ''%'', to_hex (char_of (code c div (16::nat))), to_hex (char_of (code c mod (16::nat)))]"

lemma code_to_hex:
  assumes "n < (16::nat)"
  shows "code (to_hex (char_of n)) = (if n > 9 then n + 87 else n + 48)"
proof -
  have "schar (char_of n) = int n"
    using assms by (simp add: schar_def)
  then have "to_hex (char_of n) = char_of (if n > 9 then n + 87 else n + 48)"
    using assms by (auto simp: to_hex_def nat_add_distrib)
  then show ?thesis
    using assms by simp
qed

lemma from_hex_to_hex: "n < (16::nat) \<Longrightarrow> from_hex (to_hex (char_of n)) = char_of n"
  using code_to_hex[of n] by (cases "n > 9") (auto simp: from_hex_def)

lemma unquote_percent: "rfc3986_unquote_safe (percent c @ s) = c # rfc3986_unquote_safe s"
proof -
  have code: "code c < (256::nat)"
    by (rule nat_of_char_less_256)
  then have half: "code c div 16 < (16::nat)"
    by (intro less_mult_imp_div_less) simp
  moreover have "code c mod 16 < (16::nat)"
    by simp
  ultimately have hex: "from_hex (to_hex (char_of (code c div (16::nat)))) = char_of (code c div (16::nat))"
    "from_hex (to_hex (char_of (code c mod (16::nat)))) = char_of (code c mod (16::nat))"
    by (simp_all add: from_hex_to_hex)
  have "code c div 16 mod 256 = code c div (16::nat)"
    using half by (intro mod_less) linarith
  then have "char_of (code c div 16 mod 256 * 16 + code c mod (16::nat)) = c"
    by (simp only: div_mult_mod_eq char_of_char)
  moreover have "strchr_in URI_SAFE_SYMBOLS CHR ''%''"
    by (simp add: strchr_in_def URI_SAFE_SYMBOLS_def)
  ultimately show ?thesis
    by (simp add: percent_def hex)
qed

lemma unquote_plain: "CHR ''%'' \<notin> set s \<Longrightarrow> rfc3986_unquote_safe s = s"
  by (induction s) auto

end
