(* ===== verification/URI_Roundtrip.thy ===== *)
theory URI_Roundtrip
  imports URI_Proofs
begin

text \<open>
  \<open>uri_parse\<close> reads back what \<open>uri_stringify\<close> prints: one lemma per stage of the
  parser on a string that is the concatenation of the printed parts, and their
  composition.
\<close>

definition opt_of :: "string \<Rightarrow> string option" where
  "opt_of s = (if s = [] then None else Some s)"

lemma opt_of_opt_str [simp]: "v \<noteq> Some [] \<Longrightarrow> opt_of (opt_str v) = v"
  by (cases v) (auto simp: opt_of_def opt_str_def)

lemma opt_str_Some [simp]: "opt_str (Some s) = s"
  by (simp add: opt_str_def)

lemma opt_str_None [simp]: "opt_str None = []"
  by (simp add: opt_str_def)

lemma store_rangeI:
  assumes "s = xs @ ys @ zs" "a = length xs" "n = length ys" "ample p" "length s < PTRDIFF_MAX"
  shows "store_range p at s a n f obj = Some (Inr (if ys = [] then obj else f (Some ys) obj))"
proof -
  have "malloc p at (n + 1)"
    using assms by simp
  then show ?thesis
    using dup_rangeI[OF assms(1,2,3)] assms(3) by (simp add: store_range_def)
qed

section \<open>Scheme and user information\<close>

lemma scheme_char_colon: "\<not> scheme_char CHR '':''"
  by (simp add: scheme_char_def strchr_in_def SCHEME_SAFE_SYMBOLS_def nul_def ctype_simps)

lemma map_lower_id: "\<forall>c \<in> set s. \<not> isupper c \<Longrightarrow> map lower s = s"
  by (simp add: map_idI)

lemma parse_scheme_app:
  assumes "s = sc @ ''://'' @ rest" "scheme_ok sc" "ample p" "length s < PTRDIFF_MAX"
  shows "parse_scheme p obj s = Some (Inr (obj\<lparr>uri_scheme := Some sc\<rparr>, length sc + 3))"
proof -
  have colon: "CHR '':'' \<notin> set sc"
    using assms(2) scheme_char_colon by (auto simp: scheme_ok_def)
  have "find_sub ''://'' s = Some (length sc)"
    using colon find_sub_here[of "''://''" "''://'' @ rest"] unfolding assms(1)
    by (subst find_sub_skip) auto
  then have sep: "strstr s 0 ''://'' = Some (length sc)"
    by (simp add: strstr_def)
  have dup: "dup_range p AtScheme s 0 (length sc) = Some (Some sc)"
    using assms by (intro dup_rangeI[of s "[]" sc "''://'' @ rest"]) auto
  have loop: "scheme_loop [] sc = Inr sc"
    using assms(2) by (simp add: scheme_loop_Inr scheme_ok_def map_lower_id)
  show ?thesis
    using assms(2) by (simp add: parse_scheme_def sep dup loop scheme_ok_def SCHEME_SEPARATOR_def Suc_le_eq)
qed

lemma parse_authentication_none:
  assumes "s = pre @ rest" "CHR ''@'' \<notin> set rest"
  shows "parse_authentication p obj s (length pre) = Some (Inr (obj, None))"
  unfolding parse_authentication_def strstrI[OF assms(1) refl] by (simp add: find_sub_char_None assms(2))

lemma parse_authentication_some:
  assumes s: "s = pre @ user @ '':'' @ pass @ ''@'' @ rest"
    and user: "CHR '':'' \<notin> set user" "CHR ''@'' \<notin> set user" and pass: "CHR ''@'' \<notin> set pass"
    and mem: "ample p" "length s < PTRDIFF_MAX"
    and obj: "uri_username obj = None" "uri_password obj = None" "\<not> uri_has_authentication obj"
  shows "parse_authentication p obj s (length pre) =
    Some (Inr (obj\<lparr>uri_username := opt_of user, uri_password := opt_of pass,
       uri_has_authentication := (user \<noteq> [] \<or> pass \<noteq> [])\<rparr>,
     Some (length pre + length user + 1 + length pass)))"
proof -
  have at: "strstr s (length pre) ''@'' = Some (length pre + length user + 1 + length pass)"
    using user pass find_sub_char_app[of "CHR ''@''" "user @ '':'' @ pass" rest]
    by (simp add: strstrI[OF s refl])
  have colon: "strstr s (length pre) '':'' = Some (length pre + length user)"
    using user find_sub_char_app[of "CHR '':''" user "pass @ ''@'' @ rest"]
    by (simp add: strstrI[OF s refl])
  have 1: "store_range p AtUsername s (length pre) (length user) f o' =
      Some (Inr (if user = [] then o' else f (Some user) o'))" for f o'
    by (rule store_rangeI[OF _ refl refl mem, of _ _ "'':'' @ pass @ ''@'' @ rest"]) (simp add: s)
  have 2: "store_range p AtPassword s (Suc (length pre + length user)) (length pass) f o' =
      Some (Inr (if pass = [] then o' else f (Some pass) o'))" for f o'
    by (rule store_rangeI[OF _ _ refl mem, of "pre @ user @ '':''" _ "''@'' @ rest"]) (simp_all add: s)
  show ?thesis
    using obj by (cases obj) (auto simp: parse_authentication_def at colon 1 2 Let_def opt_of_def)
qed

section \<open>Port and host\<close>

text \<open>What the authority of a printed URI looks like from its first character on.\<close>

definition host_str :: "bool \<Rightarrow> string \<Rightarrow> string" where
  "host_str ipv6 h = (if ipv6 then ''['' @ h @ '']'' else h)"

definition port_str :: "int \<Rightarrow> string" where
  "port_str n = (if n > 0 then '':'' @ show_int n else [])"

definition delimiter_free :: "string \<Rightarrow> bool" where
  "delimiter_free h \<longleftrightarrow> (\<forall>c \<in> set h. c \<notin> set ''/?#]'')"

lemma hostname_ok_chars:
  assumes "hostname_ok h" "c \<in> set h"
  shows "isalnum c \<or> c = CHR ''-'' \<or> c = CHR ''.''"
proof (cases "c = CHR ''.''")
  case False
  with assms in_split_on[of c h "CHR ''.''"] show ?thesis
    by (auto simp: hostname_ok_def label_ok_def)
qed simp

lemma hostname_ok_delimiters:
  assumes "hostname_ok h"
  shows "delimiter_free h" "CHR '':'' \<notin> set h" "CHR ''['' \<notin> set h" "CHR ''@'' \<notin> set h"
proof -
  have other: "c \<notin> set h" if "\<not> isalnum c" "c \<noteq> CHR ''-''" "c \<noteq> CHR ''.''" for c
    using hostname_ok_chars[OF assms] that by blast
  have "CHR ''/'' \<notin> set h" "CHR ''?'' \<notin> set h" "CHR ''#'' \<notin> set h" "CHR '']'' \<notin> set h"
    by (rule other; simp add: ctype_simps)+
  then show "delimiter_free h"
    by (auto simp: delimiter_free_def)
  show "CHR '':'' \<notin> set h" "CHR ''['' \<notin> set h" "CHR ''@'' \<notin> set h"
    by (rule other; simp add: ctype_simps)+
qed

lemma port_digits:
  "0 < n \<Longrightarrow> c \<in> set (show_int n) \<Longrightarrow> isdigit c"
  by (auto simp: show_int_def dest: show_digits_isdigit[rotated])

lemma port_str_delimiters:
  assumes "c \<in> set ''/?#]@''" shows "c \<notin> set (port_str n)"
proof -
  have "\<not> isdigit c" "c \<noteq> CHR '':''"
    using assms by (auto simp: isdigit_def)
  then show ?thesis
    by (auto simp: port_str_def dest: port_digits[rotated])
qed

lemma store_port_show:
  assumes s: "s = xs @ show_int n @ zs" "a = length xs" "m = length (show_int n)"
    and n: "1 \<le> n" "n \<le> 65535"
  shows "store_port obj s a m = Some (Inr (obj\<lparr>uri_port := n\<rparr>))"
proof -
  have "slice s a m = show_int n" "a + m \<le> length s"
    using s by (auto intro: sliceI)
  moreover have "isnumeric (show_int n)"
    using n port_digits[of n] by (auto simp: isnumeric_iff)
  moreover have "atoi (show_int n) = n"
    using n by (simp add: show_int_def atoi_show_digits)
  moreover have "0 < m"
    using s n by (simp add: show_int_def)
  ultimately show ?thesis
    using n by (simp add: store_port_def memcpy_range_def Let_def MIN_PORT_NUMBER_def MAX_PORT_NUMBER_def)
qed

text \<open>The authority of a printed URI: the host as the parser accepts it.\<close>

definition host_printable :: "platform \<Rightarrow> bool \<Rightarrow> string \<Rightarrow> bool" where
  "host_printable p v6 h \<longleftrightarrow>
     (if v6 then isipv6 p h \<and> 2 \<le> length h \<and> length h \<le> 39 \<and> delimiter_free h
      else hostname_ok h \<and> (\<forall>c \<in> set h. \<not> isupper c))"

lemma host_str_delimiters:
  assumes "host_printable p v6 h" "c \<in> set ''/?#''"
  shows "c \<notin> set (host_str v6 h)"
  using assms hostname_ok_delimiters(1)[of h]
  by (auto simp: host_printable_def host_str_def delimiter_free_def split: if_splits)

lemma host_str_bracket:
  assumes "host_printable p v6 h" "s = pre @ host_str v6 h @ rest"
  shows "char_at s (length pre) = CHR ''['' \<longleftrightarrow> v6"
proof (cases v6)
  case False
  then have "h \<noteq> []" "CHR ''['' \<notin> set h"
    using assms(1) hostname_ok_delimiters(3)[of h] by (auto simp: host_printable_def hostname_ok_def)
  then show ?thesis
    using False assms(2) by (cases h) (auto simp: char_at_def host_str_def nth_append)
qed (use assms in \<open>auto simp: char_at_def host_str_def nth_append\<close>)

definition printed_authority ::
  "platform \<Rightarrow> bool \<Rightarrow> string \<Rightarrow> int \<Rightarrow> string \<Rightarrow> string \<Rightarrow> string \<Rightarrow> bool" where
  "printed_authority p v6 h n pre tail s \<longleftrightarrow> host_printable p v6 h \<and> port_ok n \<and>
     s = pre @ host_str v6 h @ port_str n @ ''/'' @ tail \<and> ample p \<and> length s < PTRDIFF_MAX"

lemma strstr_in_authority:
  assumes "printed_authority p v6 h n pre tail s"
  shows "strstr s (length pre) ''/'' = Some (length pre + length (host_str v6 h) + length (port_str n))"
    and "c \<in> set ''?#'' \<Longrightarrow> strstr s (length pre) [c] =
       map_option ((+) (length pre + length (host_str v6 h) + length (port_str n) + 1)) (find_sub [c] tail)"
proof -
  let ?x = "host_str v6 h @ port_str n"
  have s: "s = pre @ ?x @ CHR ''/'' # tail" and host: "host_printable p v6 h"
    using assms by (auto simp: printed_authority_def)
  have free: "c \<notin> set ?x" if "c \<in> set ''/?#''" for c
    using host_str_delimiters[OF host that] port_str_delimiters[of c n] that by auto
  show "strstr s (length pre) ''/'' = Some (length pre + length (host_str v6 h) + length (port_str n))"
    unfolding strstrI[OF s refl] by (subst find_sub_char_app) (use free in auto)
  show "strstr s (length pre) [c] =
       map_option ((+) (length pre + length (host_str v6 h) + length (port_str n) + 1)) (find_sub [c] tail)"
    if c: "c \<in> set ''?#''"
  proof -
    have "c \<notin> set (?x @ ''/'')"
      using free[of c] c by auto
    then show ?thesis
      unfolding strstrI[OF s refl]
      using find_sub_char_skip[of c "?x @ ''/''" tail] by (cases "find_sub [c] tail") simp_all
  qed
qed

text \<open>The colon before the port, or none before the path.\<close>

lemma strstr_colon_port:
  assumes "s = xs @ ys @ port_str n @ CHR ''/'' # tail" "CHR '':'' \<notin> set ys"
  shows "0 < n \<Longrightarrow> strstr s (length xs) '':'' = Some (length xs + length ys)"
    and "\<not> 0 < n \<Longrightarrow> strstr s (length xs) '':'' = Some i \<Longrightarrow> length xs + length ys < i"
proof -
  note str = strstrI[OF assms(1) refl, of "'':''"]
  show "0 < n \<Longrightarrow> strstr s (length xs) '':'' = Some (length xs + length ys)"
    unfolding str using assms(2) by (simp add: port_str_def find_sub_char_app)
  show "\<not> 0 < n \<Longrightarrow> strstr s (length xs) '':'' = Some i \<Longrightarrow> length xs + length ys < i"
    unfolding str using assms(2) find_sub_char_skip[of "CHR '':''" "ys @ ''/''" tail] by (auto simp: port_str_def)
qed

lemma locate_authority_printed:
  assumes "printed_authority p v6 h n pre tail s"
    and "(case r of None \<Rightarrow> a | Some e \<Rightarrow> e + 1) = length pre"
  shows "\<exists>ps. locate_authority obj s a r = Some (Inr
      \<lparr>hostname_start = length pre + (if v6 then 1 else 0),
       hostname_end = (if v6 then Some (length pre + 1 + length h) else None),
       path_start = strstr s (length pre) ''/'', query_start = strstr s (length pre) ''?'',
       fragment_start = strstr s (length pre) ''#'', port_start = ps, is_ipv6 = v6\<rparr>) \<and>
    (if 0 < n then ps = Some (length pre + length (host_str v6 h))
     else (\<forall>i. ps = Some i \<longrightarrow> length pre + length (host_str v6 h) < i))"
proof -
  have s: "s = pre @ host_str v6 h @ port_str n @ CHR ''/'' # tail" and host: "host_printable p v6 h"
    using assms by (auto simp: printed_authority_def)
  have bracket: "char_at s (length pre) = CHR ''['' \<longleftrightarrow> v6"
    by (rule host_str_bracket[OF host s])
  show ?thesis
  proof (cases v6)
    case False
    then have "CHR '':'' \<notin> set (host_str v6 h)"
      using host hostname_ok_delimiters(2)[of h] by (simp add: host_printable_def host_str_def)
    note colon = strstr_colon_port[OF s this]
    show ?thesis
      using False bracket colon unfolding locate_authority_def Let_def assms(2) by simp
  next
    case True
    then have "CHR '']'' \<notin> set h"
      using host True by (auto simp: host_printable_def delimiter_free_def)
    moreover have s1: "s = pre @ (CHR ''['' # h) @ CHR '']'' # port_str n @ CHR ''/'' # tail"
      using s True by (simp add: host_str_def)
    ultimately have close: "strstr s (length pre) '']'' = Some (length pre + 1 + length h)"
      unfolding strstrI[OF s1 refl] using find_sub_char_app[of "CHR '']''" "CHR ''['' # h"] by simp
    have s2: "s = (pre @ CHR ''['' # h) @ '']'' @ port_str n @ CHR ''/'' # tail"
      using s1 by simp
    have "CHR '':'' \<notin> set '']''" by simp
    note colon = strstr_colon_port[OF s2 this]
    have first: "strstr s (length pre) '':'' \<noteq> None" if "0 < n"
      using that unfolding strstr_char_None_iff by (subst s) (simp add: port_str_def)
    show ?thesis
      using True bracket colon close first unfolding locate_authority_def Let_def assms(2)
      by (auto simp: host_str_def)
  qed
qed

lemma parse_port_printed:
  assumes auth: "printed_authority p v6 h n pre tail s" and obj: "uri_port obj = 0"
    and c: "path_start c = strstr s (length pre) ''/''" "is_ipv6 c = v6"
      "if 0 < n then port_start c = Some (length pre + length (host_str v6 h))
       else (\<forall>i. port_start c = Some i \<longrightarrow> length pre + length (host_str v6 h) < i)"
  shows "parse_port obj s c = Some (Inr (obj\<lparr>uri_port := n\<rparr>,
     if 0 < n \<and> \<not> v6 then c\<lparr>hostname_end := port_start c\<rparr> else c))"
proof (cases "0 < n")
  case False
  then have n: "n = 0"
    using auth by (auto simp: printed_authority_def port_ok_def)
  have "port_end s c = Some (length pre + length (host_str v6 h))"
    using strstr_in_authority(1)[OF auth] c(1) n by (simp add: port_end_def port_str_def)
  moreover have "obj\<lparr>uri_port := n\<rparr> = obj"
    using obj n by (cases obj) simp
  ultimately show ?thesis
    using c(3) n by (auto simp: parse_port_def split: option.splits)
next
  case True
  let ?i = "length pre + length (host_str v6 h)"
  have n: "1 \<le> n" "n \<le> 65535"
    using auth True by (auto simp: printed_authority_def port_ok_def)
  have e: "port_end s c = Some (?i + 1 + length (show_int n))"
    using strstr_in_authority(1)[OF auth] c(1) True by (simp add: port_end_def port_str_def)
  have s: "s = (pre @ host_str v6 h @ '':'') @ show_int n @ ''/'' @ tail"
    using auth True by (simp add: printed_authority_def port_str_def)
  have "store_port obj s (?i + 1) (length (show_int n)) = Some (Inr (obj\<lparr>uri_port := n\<rparr>))"
    by (rule store_port_show[OF s _ refl n]) simp
  then show ?thesis
    using c True e by (simp add: parse_port_def)
qed

lemma parse_hostname_printed:
  assumes auth: "printed_authority p v6 h n pre tail s"
    and c: "hostname_start c = length pre + (if v6 then 1 else 0)" "is_ipv6 c = v6"
      "host_end s c = hostname_start c + length h"
  shows "parse_hostname p obj s c = Some (Inr (obj\<lparr>uri_hostname := Some h, uri_is_ipv6 := v6\<rparr>))"
proof -
  have s: "s = pre @ host_str v6 h @ port_str n @ ''/'' @ tail" and host: "host_printable p v6 h"
    and mem: "ample p" "length s < PTRDIFF_MAX"
    using auth by (auto simp: printed_authority_def)
  have ok: "hostname_size_error v6 (length h) = None"
    using host by (cases v6) (auto simp: hostname_size_error_def host_printable_def hostname_ok_def
        MIN_HOSTNAME_SIZE_def MAX_HOSTNAME_SIZE_def MIN_IPV6_ADDRESS_SIZE_def MAX_IPV6_ADDRESS_SIZE_def)
  have "s = (pre @ (if v6 then ''['' else [])) @ h @ ((if v6 then '']'' else []) @ port_str n @ ''/'' @ tail)"
    using s by (simp add: host_str_def)
  then have dup: "dup_range p AtHostname s (hostname_start c) (length h) = Some (Some h)"
    by (rule dup_rangeI) (use c mem s in \<open>auto simp: host_str_def\<close>)
  have loop: "\<not> v6 \<Longrightarrow> label_loop [] 0 h = Inr h"
    using host by (simp add: label_loop_start host_printable_def hostname_ok_def map_lower_id)
  show ?thesis
    using ok dup loop host c unfolding parse_hostname_def
    by (auto simp: host_printable_def Let_def)
qed

lemma parse_authority_printed:
  assumes auth: "printed_authority p v6 h n pre tail s" and obj: "uri_port obj = 0"
    and r: "(case r of None \<Rightarrow> a | Some e \<Rightarrow> e + 1) = length pre"
  obtains c where
    "stage (locate_authority obj s a r) (\<lambda>c. stage (parse_port obj s c) (\<lambda>(obj, c).
       stage (parse_hostname p obj s c) (\<lambda>obj. K obj c))) =
     K (obj\<lparr>uri_port := n, uri_hostname := Some h, uri_is_ipv6 := v6\<rparr>) c"
    "path_start c = strstr s (length pre) ''/''" "query_start c = strstr s (length pre) ''?''"
    "fragment_start c = strstr s (length pre) ''#''"
proof -
  from locate_authority_printed[OF auth r, of obj] obtain ps where
    loc: "locate_authority obj s a r = Some (Inr
      \<lparr>hostname_start = length pre + (if v6 then 1 else 0),
       hostname_end = (if v6 then Some (length pre + 1 + length h) else None),
       path_start = strstr s (length pre) ''/'', query_start = strstr s (length pre) ''?'',
       fragment_start = strstr s (length pre) ''#'', port_start = ps, is_ipv6 = v6\<rparr>)"
    and ps: "if 0 < n then ps = Some (length pre + length (host_str v6 h))
       else (\<forall>i. ps = Some i \<longrightarrow> length pre + length (host_str v6 h) < i)"
    by blast
  define c where "c = \<lparr>hostname_start = length pre + (if v6 then 1 else 0),
       hostname_end = (if v6 then Some (length pre + 1 + length h) else None),
       path_start = strstr s (length pre) ''/'', query_start = strstr s (length pre) ''?'',
       fragment_start = strstr s (length pre) ''#'', port_start = ps, is_ipv6 = v6\<rparr>"
  have c: "locate_authority obj s a r = Some (Inr c)"
    "hostname_start c = length pre + (if v6 then 1 else 0)"
    "hostname_end c = (if v6 then Some (length pre + 1 + length h) else None)"
    "path_start c = strstr s (length pre) ''/''" "query_start c = strstr s (length pre) ''?''"
    "fragment_start c = strstr s (length pre) ''#''" "is_ipv6 c = v6"
    "if 0 < n then port_start c = Some (length pre + length (host_str v6 h))
       else (\<forall>i. port_start c = Some i \<longrightarrow> length pre + length (host_str v6 h) < i)"
    using loc ps by (simp_all add: c_def)
  define c' where "c' = (if 0 < n \<and> \<not> v6 then c\<lparr>hostname_end := port_start c\<rparr> else c)"
  have "host_end s c' = hostname_start c' + length h"
    using c strstr_in_authority(1)[OF auth] by (auto simp: c'_def host_end_def host_str_def port_str_def)
  then have "parse_hostname p (obj\<lparr>uri_port := n\<rparr>) s c' =
      Some (Inr (obj\<lparr>uri_port := n, uri_hostname := Some h, uri_is_ipv6 := v6\<rparr>))"
    using c by (intro parse_hostname_printed[OF auth, THEN trans]) (auto simp: c'_def)
  with c show thesis
    by (intro that[of c']) (auto simp: c'_def parse_port_printed[OF auth obj c(4,7,8)])
qed

section \<open>Fragment, query and path\<close>

definition tail_str :: "string option \<Rightarrow> string option \<Rightarrow> string option \<Rightarrow> string" where
  "tail_str pa q f = opt_str pa @ (case q of None \<Rightarrow> [] | Some x \<Rightarrow> CHR ''?'' # x) @
     (case f of None \<Rightarrow> [] | Some x \<Rightarrow> CHR ''#'' # x)"

text \<open>
  The conditions under which the three parts can be told apart: a fragment needs
  a query before it, because the code ends the path at the query or at the end
  of the URI.
\<close>

definition tail_printable :: "string option \<Rightarrow> string option \<Rightarrow> string option \<Rightarrow> bool" where
  "tail_printable pa q f \<longleftrightarrow> pa \<noteq> Some [] \<and> q \<noteq> Some [] \<and> f \<noteq> Some [] \<and>
     CHR ''?'' \<notin> set (opt_str pa) \<and> CHR ''#'' \<notin> set (opt_str pa) \<and> CHR ''#'' \<notin> set (opt_str q) \<and>
     (q = None \<longrightarrow> f = None)"

lemma tail_delimiters:
  assumes "tail_printable pa q f"
  shows "find_sub ''?'' (tail_str pa q f) = map_option (\<lambda>_. length (opt_str pa)) q"
    and "find_sub ''#'' (tail_str pa q f) = map_option (\<lambda>_. length (opt_str pa) + 1 + length (opt_str q)) f"
proof -
  show "find_sub ''?'' (tail_str pa q f) = map_option (\<lambda>_. length (opt_str pa)) q"
    using assms by (auto simp: tail_printable_def tail_str_def find_sub_char_None
        intro!: find_sub_char_app split: option.splits)
  show "find_sub ''#'' (tail_str pa q f) = map_option (\<lambda>_. length (opt_str pa) + 1 + length (opt_str q)) f"
  proof (cases f)
    case None
    then show ?thesis
      using assms by (auto simp: tail_printable_def tail_str_def find_sub_char_None split: option.splits)
  next
    case (Some x)
    then obtain y where q: "q = Some y" using assms by (auto simp: tail_printable_def)
    then have "CHR ''#'' \<notin> set (opt_str pa @ CHR ''?'' # y)"
      using assms by (auto simp: tail_printable_def)
    from find_sub_char_app[OF this, of x] show ?thesis
      by (simp add: tail_str_def q Some)
  qed
qed

lemma parse_tail_printed:
  assumes s: "s = front @ ''/'' @ tail_str pa q f" and ok: "tail_printable pa q f"
    and mem: "ample p" "length s < PTRDIFF_MAX"
    and c: "path_start c = Some (length front)"
      "query_start c = map_option (\<lambda>_. length front + 1 + length (opt_str pa)) q"
      "fragment_start c = map_option (\<lambda>_. length front + 1 + length (opt_str pa) + 1 + length (opt_str q)) f"
    and obj: "uri_path obj = None" "uri_query obj = None" "uri_fragment obj = None"
  shows "stage (parse_fragment p obj s c) (\<lambda>obj. stage (parse_query p obj s c) (\<lambda>obj.
      stage (parse_path p obj s c) (\<lambda>obj. Some (Inr (UNALIXERR_SUCCESS, obj))))) =
    Some (Inr (UNALIXERR_SUCCESS, obj\<lparr>uri_fragment := f, uri_query := q, uri_path := pa\<rparr>))"
proof -
  have F: "parse_fragment p o1 s c = Some (Inr (o1\<lparr>uri_fragment := f\<rparr>))" if "uri_fragment o1 = None" for o1
  proof (cases f)
    case None
    then show ?thesis using c that by (cases o1) (simp add: parse_fragment_def)
  next
    case (Some x)
    then obtain y where q: "q = Some y" using ok by (auto simp: tail_printable_def)
    have split: "s = (front @ ''/'' @ opt_str pa @ ''?'' @ y @ ''#'') @ x @ []"
      by (simp add: s tail_str_def q Some)
    have "store_range p AtFragment s (length front + 1 + length (opt_str pa) + 1 + length y + 1) (length x) g o1 =
        Some (Inr (if x = [] then o1 else g (Some x) o1))" for g
      by (rule store_rangeI[OF split _ refl mem]) simp
    moreover have "size_diff (length s) (length front + 1 + length (opt_str pa) + 1 + length y + 1) = length x"
      by (simp add: split)
    ultimately show ?thesis
      using c(3) ok unfolding parse_fragment_def by (simp add: q Some tail_printable_def)
  qed
  have Q: "parse_query p o1 s c = Some (Inr (o1\<lparr>uri_query := q\<rparr>))" if "uri_query o1 = None" for o1
  proof (cases q)
    case None
    then show ?thesis using c that by (cases o1) (simp add: parse_query_def)
  next
    case (Some y)
    let ?rest = "case f of None \<Rightarrow> [] | Some x \<Rightarrow> CHR ''#'' # x"
    have split: "s = (front @ ''/'' @ opt_str pa @ ''?'') @ y @ ?rest"
      by (simp add: s tail_str_def Some)
    have "store_range p AtQuery s (length front + 1 + length (opt_str pa) + 1) (length y) g o1 =
        Some (Inr (if y = [] then o1 else g (Some y) o1))" for g
      by (rule store_rangeI[OF split _ refl mem]) simp
    moreover have "size_diff (case fragment_start c of None \<Rightarrow> length s | Some f \<Rightarrow> f)
        (length front + 1 + length (opt_str pa) + 1) = length y"
      using c(3) by (cases f) (simp_all add: split Some)
    ultimately show ?thesis
      using c(2) ok unfolding parse_query_def by (simp add: Some tail_printable_def)
  qed
  have P: "parse_path p o1 s c = Some (Inr (o1\<lparr>uri_path := pa\<rparr>))" if "uri_path o1 = None" for o1
  proof -
    let ?rest = "(case q of None \<Rightarrow> [] | Some x \<Rightarrow> CHR ''?'' # x) @ (case f of None \<Rightarrow> [] | Some x \<Rightarrow> CHR ''#'' # x)"
    have split: "s = (front @ ''/'') @ opt_str pa @ ?rest"
      by (simp add: s tail_str_def)
    have "store_range p AtPath s (length front + 1) (length (opt_str pa)) g o1 =
        Some (Inr (if opt_str pa = [] then o1 else g (Some (opt_str pa)) o1))" for g
      by (rule store_rangeI[OF split _ refl mem]) simp
    moreover have "size_diff (case query_start c of None \<Rightarrow> length s | Some q \<Rightarrow> q) (length front + 1) =
        length (opt_str pa)"
      using c(2) ok by (cases q; cases f) (simp_all add: split tail_printable_def)
    moreover have "o1\<lparr>uri_path := None\<rparr> = o1"
      using that by (cases o1) simp
    ultimately show ?thesis
      using c(1) ok unfolding parse_path_def by (cases pa) (simp_all add: tail_printable_def)
  qed
  show ?thesis
    using obj by (simp add: F Q P)
qed

section \<open>The round trip\<close>

definition uri_printable :: "platform \<Rightarrow> uri \<Rightarrow> bool" where
  "uri_printable p u \<longleftrightarrow>
     (\<exists>sc. uri_scheme u = Some sc \<and> scheme_ok sc) \<and>
     (\<exists>h. uri_hostname u = Some h \<and> host_printable p (uri_is_ipv6 u) h) \<and>
     port_ok (uri_port u) \<and>
     uri_username u \<noteq> Some [] \<and> uri_password u \<noteq> Some [] \<and>
     (uri_has_authentication u \<longleftrightarrow> uri_username u \<noteq> None \<or> uri_password u \<noteq> None) \<and>
     CHR '':'' \<notin> set (opt_str (uri_username u)) \<and> CHR ''@'' \<notin> set (opt_str (uri_username u)) \<and>
     CHR ''@'' \<notin> set (opt_str (uri_password u)) \<and>
     tail_printable (uri_path u) (uri_query u) (uri_fragment u) \<and>
     (\<not> uri_has_authentication u \<longrightarrow> CHR ''@'' \<notin> set (opt_str (uri_hostname u)) \<and>
        CHR ''@'' \<notin> set (opt_str (uri_path u)) \<and> CHR ''@'' \<notin> set (opt_str (uri_query u)) \<and>
        CHR ''@'' \<notin> set (opt_str (uri_fragment u)))"

definition auth_str :: "uri \<Rightarrow> string" where
  "auth_str u = (if uri_has_authentication u
     then opt_str (uri_username u) @ '':'' @ opt_str (uri_password u) @ ''@'' else [])"

lemma uri_parts_printable:
  assumes "uri_scheme u = Some sc" "uri_hostname u = Some h"
  shows "concat (uri_parts u) = sc @ ''://'' @ auth_str u @ host_str (uri_is_ipv6 u) h @
     port_str (uri_port u) @ ''/'' @ tail_str (uri_path u) (uri_query u) (uri_fragment u)"
  using assms
  by (auto simp: uri_parts_def auth_str_def host_str_def port_str_def tail_str_def opt_str_def
      SCHEME_SEPARATOR_def snprintf_intlen[simplified] split: option.splits)

text \<open>The size \<open>uri_stringify\<close> allocates is the length of what it prints.\<close>

lemma uri_mem_size_parts: "uri_mem_size u = length (concat (uri_parts u))"
proof -
  have "0 < n \<Longrightarrow> length (snprintf (intlen n + 1) (show_int n)) = intlen n" for n
    by (simp add: snprintf_intlen[simplified] intlen_show_int)
  then show ?thesis
    by (auto simp: uri_mem_size_def uri_parts_def opt_len_def SCHEME_SEPARATOR_def split: option.splits)
qed

lemma uri_stringify_eq:
  "malloc p AtBuffer (uri_mem_size u + 1) \<Longrightarrow> uri_stringify p u = Some (concat (uri_parts u))"
  by (simp add: uri_stringify_def uri_mem_size_parts strcats_fits)

lemma parse_authentication_printed:
  assumes s: "s = pre @ auth_str u @ rest" and ok: "uri_printable p u"
    and rest: "\<not> uri_has_authentication u \<Longrightarrow> CHR ''@'' \<notin> set rest"
    and mem: "ample p" "length s < PTRDIFF_MAX"
    and obj: "uri_username obj = None" "uri_password obj = None" "\<not> uri_has_authentication obj"
  obtains r where "parse_authentication p obj s (length pre) = Some (Inr (obj\<lparr>uri_username := uri_username u,
      uri_password := uri_password u, uri_has_authentication := uri_has_authentication u\<rparr>, r))"
    "(case r of None \<Rightarrow> length pre | Some e \<Rightarrow> e + 1) = length (pre @ auth_str u)"
proof (cases "uri_has_authentication u")
  case False
  have "uri_username u = None" "uri_password u = None"
    using ok False by (auto simp: uri_printable_def)
  moreover have "parse_authentication p obj s (length pre) = Some (Inr (obj, None))"
    by (rule parse_authentication_none) (use s False rest in \<open>auto simp: auth_str_def\<close>)
  ultimately show thesis
    using obj False by (intro that[of None]) (cases obj, auto simp: auth_str_def)
next
  case True
  let ?user = "opt_str (uri_username u)" and ?pass = "opt_str (uri_password u)"
  have split: "s = pre @ ?user @ '':'' @ ?pass @ ''@'' @ rest"
    using s True by (simp add: auth_str_def)
  have chars: "CHR '':'' \<notin> set ?user" "CHR ''@'' \<notin> set ?user" "CHR ''@'' \<notin> set ?pass"
    and opts: "opt_of ?user = uri_username u" "opt_of ?pass = uri_password u"
    and some: "?user \<noteq> [] \<or> ?pass \<noteq> []"
    using ok True by (auto simp: uri_printable_def opt_str_def opt_of_def split: option.splits)
  show thesis
    using parse_authentication_some[OF split chars mem obj] True some
    by (intro that[of "Some (length pre + length ?user + 1 + length ?pass)"])
      (simp_all add: opts auth_str_def)
qed

lemma roundtrip:
  assumes ok: "uri_printable p u" and mem: "ample p" "uri_mem_size u < PTRDIFF_MAX"
  shows "uri_parse p zero_uri (concat (uri_parts u)) = Some (UNALIXERR_SUCCESS, u)"
proof -
  obtain sc h where sc: "uri_scheme u = Some sc" "scheme_ok sc"
    and h: "uri_hostname u = Some h" "host_printable p (uri_is_ipv6 u) h"
    using ok by (auto simp: uri_printable_def)
  let ?tail = "tail_str (uri_path u) (uri_query u) (uri_fragment u)"
  define s where "s = concat (uri_parts u)"
  define pre where "pre = (sc @ ''://'') @ auth_str u"
  let ?front = "pre @ host_str (uri_is_ipv6 u) h @ port_str (uri_port u)"
  have s: "s = sc @ ''://'' @ auth_str u @ host_str (uri_is_ipv6 u) h @ port_str (uri_port u) @ ''/'' @ ?tail"
    unfolding s_def by (rule uri_parts_printable[OF sc(1) h(1)])
  have len: "length s < PTRDIFF_MAX"
    using mem by (simp add: s_def uri_mem_size_parts)
  have auth: "printed_authority p (uri_is_ipv6 u) h (uri_port u) pre ?tail s"
    using h ok mem(1) len by (simp add: printed_authority_def s pre_def uri_printable_def)
  have at: "CHR ''@'' \<notin> set (host_str (uri_is_ipv6 u) h @ port_str (uri_port u) @ ''/'' @ ?tail)"
    if "\<not> uri_has_authentication u"
  proof -
    have "CHR ''@'' \<notin> set ?tail"
      using that ok by (cases "uri_query u"; cases "uri_fragment u") (simp_all add: uri_printable_def tail_str_def)
    moreover have "CHR ''@'' \<notin> set (host_str (uri_is_ipv6 u) h)"
      using that ok h(1) by (simp add: uri_printable_def host_str_def)
    ultimately show ?thesis
      using port_str_delimiters[of "CHR ''@''" "uri_port u"] by simp
  qed
  define o1 where "o1 = zero_uri\<lparr>uri_scheme := Some sc\<rparr>"
  have s1: "s = (sc @ ''://'') @ auth_str u @ host_str (uri_is_ipv6 u) h @ port_str (uri_port u) @ ''/'' @ ?tail"
    using s by simp
  obtain r where r: "parse_authentication p o1 s (length (sc @ ''://'')) = Some (Inr (o1\<lparr>uri_username := uri_username u,
      uri_password := uri_password u, uri_has_authentication := uri_has_authentication u\<rparr>, r))"
    "(case r of None \<Rightarrow> length (sc @ ''://'') | Some e \<Rightarrow> e + 1) = length pre"
    unfolding pre_def
    by (rule parse_authentication_printed[OF s1 ok at mem(1) len, of o1]) (simp_all add: o1_def zero_uri_def)
  define o2 where "o2 = o1\<lparr>uri_username := uri_username u, uri_password := uri_password u,
      uri_has_authentication := uri_has_authentication u\<rparr>"
  have "uri_port o2 = 0" by (simp add: o2_def o1_def zero_uri_def)
  note authority = parse_authority_printed[OF auth this r(2)]
  define K where "K = (\<lambda>obj c. stage (parse_fragment p obj s c) (\<lambda>obj.
       stage (parse_query p obj s c) (\<lambda>obj. stage (parse_path p obj s c) (\<lambda>obj.
       Some (Inr (UNALIXERR_SUCCESS, obj))))))"
  obtain c where c:
    "stage (locate_authority o2 s (length (sc @ ''://'')) r) (\<lambda>c. stage (parse_port o2 s c) (\<lambda>(obj, c).
       stage (parse_hostname p obj s c) (\<lambda>obj. K obj c))) =
     K (o2\<lparr>uri_port := uri_port u, uri_hostname := Some h, uri_is_ipv6 := uri_is_ipv6 u\<rparr>) c"
    "path_start c = strstr s (length pre) ''/''" "query_start c = strstr s (length pre) ''?''"
    "fragment_start c = strstr s (length pre) ''#''"
    by (rule authority)
  have tail: "tail_printable (uri_path u) (uri_query u) (uri_fragment u)"
    using ok by (simp add: uri_printable_def)
  define o3 where "o3 = o2\<lparr>uri_port := uri_port u, uri_hostname := Some h, uri_is_ipv6 := uri_is_ipv6 u\<rparr>"
  have o3: "uri_path o3 = None" "uri_query o3 = None" "uri_fragment o3 = None"
    "o3\<lparr>uri_fragment := uri_fragment u, uri_query := uri_query u, uri_path := uri_path u\<rparr> = u"
    by (cases u, use sc(1) h(1) in \<open>simp add: o3_def o2_def o1_def zero_uri_def\<close>)+
  have s2: "s = ?front @ ''/'' @ ?tail"
    using s by (simp add: pre_def)
  have ends: "path_start c = Some (length ?front)"
      "query_start c = map_option (\<lambda>_. length ?front + 1 + length (opt_str (uri_path u))) (uri_query u)"
      "fragment_start c = map_option (\<lambda>_. length ?front + 1 + length (opt_str (uri_path u)) + 1 +
         length (opt_str (uri_query u))) (uri_fragment u)"
    unfolding c(2-4) using strstr_in_authority[OF auth] tail_delimiters[OF tail]
    by (simp_all add: option.map_comp comp_def add.assoc)
  have fin: "K o3 c = Some (Inr (UNALIXERR_SUCCESS, u))"
    unfolding K_def by (rule parse_tail_printed[OF s2 tail mem(1) len ends o3(1-3), unfolded o3(4)])
  have "parse_uri p zero_uri s = Some (UNALIXERR_SUCCESS, u)"
    unfolding parse_uri_def parse_scheme_app[OF s sc(2) mem(1) len] stage_cases prod.case o1_def[symmetric]
    using r(1) c(1)[folded o3_def] fin by (simp add: o2_def K_def numeral_3_eq_3)
  then show ?thesis
    by (simp add: uri_parse_def s_def)
qed

end
