(* ===== verification/HTTP_Proofs.thy ===== *)
theory HTTP_Proofs
  imports HTTP_Response URI_Roundtrip Utils_Proofs
begin

text \<open>
  Correctness of \<open>src/http.c\<close>: the accounting of header lists (an instance of the
  interface of growable arrays), the bytes of a request and the buffers they are
  written to, the round trip of a response, and the URLs of redirects.
\<close>

section \<open>Header lists\<close>

definition headers_inv :: "http_headers \<Rightarrow> bool" where
  "headers_inv obj \<longleftrightarrow> hs_offset obj = length (hs_items obj) \<and>
     hs_size obj = sizeof_HTTPHeader * hs_offset obj"

definition mk_header :: "string \<times> string \<Rightarrow> http_header" where
  "mk_header kv = \<lparr>hdr_key = Some (fst kv), hdr_value = Some (snd kv)\<rparr>"

definition header_malloc :: "platform \<Rightarrow> http_headers \<Rightarrow> string \<Rightarrow> string \<Rightarrow> bool" where
  "header_malloc p obj key val \<longleftrightarrow>
     malloc p (AtKey (hs_offset obj)) (length key + 1) \<and>
     malloc p (AtValue (hs_offset obj)) (length val + 1) \<and>
     malloc p (AtItems (hs_offset obj)) (hs_size obj + sizeof_HTTPHeader)"

lemma http_headers_add_eq:
  assumes "headers_inv obj"
  shows "http_headers_add p obj key val = Some (
     if header_malloc p obj key val
     then (UNALIXERR_SUCCESS, obj\<lparr>hs_size := hs_size obj + sizeof_HTTPHeader,
        hs_items := hs_items obj @ [mk_header (key, val)], hs_offset := hs_offset obj + 1,
        hs_slength := (if hs_slength obj > 0 then hs_slength obj + length CRLF else hs_slength obj) +
          length (concat (header_parts (mk_header (key, val))))\<rparr>)
     else (UNALIXERR_MEMORY_ALLOCATE_FAILURE, obj))"
  using assms
  by (auto simp: http_headers_add_def headers_inv_def Let_def strdup_def header_malloc_def mk_header_def
      header_parts_def COLON_def SPACE_def)

lemma mk_header_parts: "concat (header_parts (mk_header kv)) = fst kv @ '': '' @ snd kv"
  by (simp add: header_parts_def mk_header_def COLON_def SPACE_def)

lemma headers_inv_zero: "headers_inv zero_headers"
  by (simp add: headers_inv_def zero_headers_def)

interpretation hdr: accounted_array "\<lambda>p obj (key, val). http_headers_add p obj key val" mk_header
  hs_items hs_slength headers_inv zero_headers CRLF header_parts
proof
  fix s t :: http_headers and p x
  assume s: "headers_inv s"
    and r: "(case x of (key, val) \<Rightarrow> http_headers_add p s key val) = Some (UNALIXERR_SUCCESS, t)"
  obtain k v where [simp]: "x = (k, v)" by (cases x)
  have "t = s\<lparr>hs_size := hs_size s + sizeof_HTTPHeader,
        hs_items := hs_items s @ [mk_header (k, v)], hs_offset := hs_offset s + 1,
        hs_slength := (if hs_slength s > 0 then hs_slength s + length CRLF else hs_slength s) +
          length (concat (header_parts (mk_header (k, v))))\<rparr>"
    using r by (auto simp: http_headers_add_eq[OF s] split: if_splits)
  with s show "headers_inv t \<and> hs_items t = hs_items s @ [mk_header x] \<and>
      hs_slength t = (if hs_slength s > 0 then hs_slength s + length CRLF else hs_slength s) +
        length (concat (header_parts (mk_header x)))"
    by (simp add: headers_inv_def)
next
  fix s :: http_headers and p x
  assume s: "headers_inv s" "ample p" "length (hs_items s) < 2 ^ 58"
    and x: "length (concat (header_parts (mk_header x))) < PTRDIFF_MAX"
  have "hs_size s + sizeof_HTTPHeader \<le> PTRDIFF_MAX"
    using s(1,3) by (simp add: headers_inv_def sizeof_HTTPHeader_def PTRDIFF_MAX_def)
  then have "header_malloc p s (fst x) (snd x)"
    using s(2) x by (simp add: header_malloc_def mk_header_parts)
  then show "\<exists>t. (case x of (key, val) \<Rightarrow> http_headers_add p s key val) = Some (UNALIXERR_SUCCESS, t)"
    using s(1) by (cases x) (simp add: http_headers_add_eq)
next
  fix s t :: http_headers and p x e
  assume "headers_inv s" "(case x of (key, val) \<Rightarrow> http_headers_add p s key val) = Some (e, t)" "e \<noteq> UNALIXERR_SUCCESS"
  then show "t = s"
    by (cases x) (auto simp: http_headers_add_eq split: if_splits)
next
  fix s :: http_headers and p x
  assume "headers_inv s"
  then show "\<exists>r. (case x of (key, val) \<Rightarrow> http_headers_add p s key val) = Some r"
    by (cases x) (simp add: http_headers_add_eq)
qed (auto simp: header_parts_def COLON_def headers_inv_zero zero_headers_def
    headers_inv_zero[unfolded zero_headers_def])

lemma headers_find_none:
  "\<forall>h \<in> set hs. hdr_key h \<noteq> None \<Longrightarrow> headers_find hs key \<noteq> None"
  by (induction hs) auto

lemma headers_find_eq:
  "\<forall>h \<in> set hs. hdr_key h \<noteq> None \<Longrightarrow>
     headers_find hs key = Some (find (\<lambda>h. hdr_key h = Some key) hs)"
  by (induction hs) auto

section \<open>The bytes of a request\<close>

text \<open>A request without the \<open>Content-Length\<close> step.\<close>

definition location_text :: "uri \<Rightarrow> string" where
  "location_text u = ''/'' @ opt_str (uri_path u) @ (case uri_query u of None \<Rightarrow> [] | Some q \<Rightarrow> CHR ''?'' # q)"

lemma resource_location_eq: "resource_location u = Some (location_text u)"
  unfolding resource_location_def location_text_def
  by (subst strcats_fits) (auto simp: opt_len_def opt_str_def SLASH_def QUESTION_MARK_def split: option.splits)

definition request_text :: "http_method \<Rightarrow> http_version \<Rightarrow> string \<Rightarrow> string \<Rightarrow> string" where
  "request_text m v location headers =
     http_method_stringify m @ '' '' @ location @ '' HTTP/'' @ http_version_stringify v @ CRLF @ headers @ CRLFCRLF"

definition body_ok :: "http_body \<Rightarrow> bool" where
  "body_ok b \<longleftrightarrow> (body_size b > 0 \<longrightarrow> (\<exists>c. body_content b = Some c \<and> length c = body_size b))"

definition body_text :: "http_body \<Rightarrow> string" where
  "body_text b = (if body_size b > 0 then opt_str (body_content b) else [])"

lemma request_buffer_eq:
  fixes p :: platform and obj :: http_request
  defines "msg \<equiv> \<lambda>location headers. request_text (rq_method obj) (rq_version obj) location headers"
  assumes "body_ok (rq_body obj)"
    and "malloc p AtBuffer (length (msg location headers) + body_size (rq_body obj))"
  shows "request_buffer p obj location headers =
     (if body_size (rq_body obj) > 0 \<or> slack p > 0
      then Some (UNALIXERR_SUCCESS, Some (msg location headers @ body_text (rq_body obj)))
      else None)"
proof -
  let ?ss = "[http_method_stringify (rq_method obj), SPACE, location, SPACE, PROTOCOL_NAME, SLASH,
      http_version_stringify (rq_version obj), CRLF, headers, CRLFCRLF]"
  let ?n = "length (http_method_stringify (rq_method obj)) + length SPACE + length location + length SPACE +
      length PROTOCOL_NAME + length SLASH + length (http_version_stringify (rq_version obj)) + length CRLF +
      length headers + length CRLFCRLF + body_size (rq_body obj)"
  have bytes: "concat ?ss = msg location headers"
    by (simp add: msg_def request_text_def http_consts)
  have n: "?n = length (msg location headers) + body_size (rq_body obj)"
    by (simp add: msg_def request_text_def http_consts)
  show ?thesis
  proof (cases "body_size (rq_body obj) > 0 \<or> slack p > 0")
    case True
    then have "strcats (?n + slack p) [] ?ss = Some (msg location headers)"
      by (subst strcats_fits) (use n bytes in auto)
    then show ?thesis
      using True assms(2,3) n unfolding request_buffer_def Let_def
      by (auto simp: body_ok_def body_text_def)
  next
    case False
    then have "strcats (?n + slack p) [] ?ss = None"
      by (intro strcats_overflows) (use n bytes in \<open>auto simp: http_consts\<close>)
    then show ?thesis
      using False assms(3) n unfolding request_buffer_def Let_def by auto
  qed
qed

lemma headers_print:
  assumes "hdr.roomy hs" "hs_slength hs + 1 \<le> cap"
  shows "http_headers_stringify cap hs [] = Some (join CRLF (rendered header_parts (hs_items hs)))"
proof -
  have "take (hs_offset hs) (hs_items hs) = hs_items hs"
    using assms(1) by (simp add: hdr.roomy_def headers_inv_def)
  then show ?thesis
    using hdr.roomy_print[OF assms(1,2)] by (simp add: http_headers_stringify_def)
qed

lemma http_request_stringify_eq:
  assumes "hdr.roomy (rq_headers obj)" "body_size (rq_body obj) = 0"
    and "malloc p AtBuffer (length (request_text (rq_method obj) (rq_version obj) (location_text (rq_uri obj))
      (join CRLF (rendered header_parts (hs_items (rq_headers obj))))))"
  shows "http_request_stringify p obj =
     (if slack p > 0 then Some (UNALIXERR_SUCCESS, obj, Some (request_text (rq_method obj) (rq_version obj)
        (location_text (rq_uri obj)) (join CRLF (rendered header_parts (hs_items (rq_headers obj))))))
      else None)"
  using assms(3) assms(2)
  by (simp add: http_request_stringify_def add_content_length_def resource_location_eq
      headers_print[OF assms(1)] request_buffer_eq body_ok_def body_text_def del: length_concat)

section \<open>The Host header\<close>

definition default_port :: "uri \<Rightarrow> bool" where
  "default_port u \<longleftrightarrow> uri_port u \<le> 0 \<or>
     \<not> ((uri_scheme u = Some HTTP_SCHEME \<and> uri_port u \<noteq> HTTP_PORT) \<or>
        (uri_scheme u = Some HTTPS_SCHEME \<and> uri_port u \<noteq> HTTPS_PORT))"

definition host_text :: "uri \<Rightarrow> string" where
  "host_text u = opt_str (uri_hostname u) @ (if default_port u then [] else '':'' @ show_int (uri_port u))"

lemma set_host_header_eq:
  assumes "uri_hostname u \<noteq> None" "uri_scheme u \<noteq> None"
  shows "set_host_header p hs u =
     (if default_port u \<or> slack p > 0 then http_headers_add p hs ''Host'' (host_text u) else None)"
proof -
  obtain h sc where h: "uri_hostname u = Some h" "uri_scheme u = Some sc"
    using assms by auto
  have digits: "0 < uri_port u \<Longrightarrow> snprintf (intlen (uri_port u) + 1) (show_int (uri_port u)) = show_int (uri_port u)"
    "0 < uri_port u \<Longrightarrow> length (show_int (uri_port u)) = intlen (uri_port u)"
    by (simp_all add: snprintf_intlen[simplified] intlen_show_int)
  let ?cap = "length h + length COLON + (if 0 < uri_port u then intlen (uri_port u) else 0) + slack p"
  have host: "strcat ?cap [] h = Some h"
    by (simp add: strcat_def COLON_def)
  show ?thesis
  proof (cases "default_port u")
    case True
    then show ?thesis
      using h host unfolding set_host_header_def Let_def
      by (auto simp: default_port_def host_text_def)
  next
    case False
    then have port: "0 < uri_port u" "(sc = HTTP_SCHEME \<and> uri_port u \<noteq> HTTP_PORT) \<or> (sc = HTTPS_SCHEME \<and> uri_port u \<noteq> HTTPS_PORT)"
      using h by (auto simp: default_port_def)
    have "strcats ?cap h [COLON, show_int (uri_port u)] =
        (if slack p > 0 then Some (h @ '':'' @ show_int (uri_port u)) else None)"
    proof (cases "slack p > 0")
      case True
      then show ?thesis
        using port(1) digits(2) by (subst strcats_fits) (auto simp: COLON_def)
    next
      case False
      then have "strcats ?cap h [COLON, show_int (uri_port u)] = None"
        using port(1) digits(2) by (intro strcats_overflows) (auto simp: COLON_def)
      with False show ?thesis by simp
    qed
    then show ?thesis
      using h host port False digits(1)[OF port(1)] unfolding set_host_header_def Let_def
      by (cases "slack p > 0") (simp_all add: host_text_def del: strcats.simps)
  qed
qed

end
