(* ===== verification/Network_Proofs.thy ===== *)
theory Network_Proofs
  imports Network HTTP_Proofs
begin

text \<open>
  Correctness of the network side: the reads of a connection deliver the bytes that
  arrive, in order, whatever their chunks; the callbacks retry interrupted calls;
  what the log of a connection can be.
\<close>

section \<open>Streams\<close>

text \<open>The bytes that arrive in front of the first break, and that break.\<close>

fun arrived :: "arrival list \<Rightarrow> string" where
  "arrived [] = []"
| "arrived (Break e # as) = []"
| "arrived (Bytes bs # as) = bs @ arrived as"

fun broken :: "arrival list \<Rightarrow> int option" where
  "broken [] = None"
| "broken (Break e # as) = Some e"
| "broken (Bytes bs # as) = broken as"

lemma recv_Received:
  assumes "recv cap as = (Received bs, as')" "0 < cap"
  shows "arrived as = bs @ arrived as'" "broken as' = broken as" "bs \<noteq> []" "length bs \<le> cap"
  using assms by (induction cap as rule: recv.induct) (auto split: if_splits)

lemma recv_Closed:
  assumes "recv cap as = (Closed, as')"
  shows "arrived as = []" "broken as = None" "as' = []"
  using assms by (induction cap as rule: recv.induct) (auto split: if_splits)

lemma recv_Failed:
  assumes "recv cap as = (Failed e, as')"
  shows "arrived as = []" "broken as = Some e"
  using assms by (induction cap as rule: recv.induct) (auto split: if_splits)

lemma recv_cases:
  obtains (received) bs as' where "recv cap as = (Received bs, as')"
  | (closed) as' where "recv cap as = (Closed, as')"
  | (failed) e as' where "recv cap as = (Failed e, as')"
  by (cases "recv cap as"; cases "fst (recv cap as)") auto

lemma MAX_CHUNK_pos [simp]: "0 < MAX_CHUNK_SIZE"
  by (simp add: MAX_CHUNK_SIZE_def)

section \<open>find_crlfcrlf\<close>

lemma find_crlfcrlf_from_defined:
  "n + 3 \<le> length memory \<Longrightarrow> find_crlfcrlf_from memory n = Some (\<exists>i < n. prefix CRLFCRLF (drop i memory))"
proof (induction memory n rule: find_crlfcrlf_from.induct)
  case (2 memory n)
  have take: "take (length CRLFCRLF) memory = CRLFCRLF \<longleftrightarrow> prefix CRLFCRLF memory"
    by (metis prefix_def append_eq_conv_conj append_take_drop_id take_is_prefix)
  have "(\<exists>i < Suc n. prefix CRLFCRLF (drop i memory)) \<longleftrightarrow>
      prefix CRLFCRLF memory \<or> (\<exists>i < n. prefix CRLFCRLF (drop i (drop 1 memory)))"
    by (auto simp: less_Suc_eq_0_disj)
  with 2 take show ?case
    by (auto simp: CRLFCRLF_def)
qed simp

lemma find_crlfcrlf_true:
  assumes "find_crlfcrlf_from memory n = Some True"
  shows "\<exists>i < n. prefix CRLFCRLF (drop i memory)"
  using assms
proof (induction memory n rule: find_crlfcrlf_from.induct)
  case (2 memory n)
  show ?case
  proof (cases "take (length CRLFCRLF) memory = CRLFCRLF")
    case True
    then have "prefix CRLFCRLF (drop 0 memory)"
      by (metis drop0 take_is_prefix)
    then show ?thesis by blast
  next
    case False
    with 2 obtain i where "i < n" "prefix CRLFCRLF (drop i (drop 1 memory))"
      by (auto split: if_splits)
    then show ?thesis
      by (intro exI[of _ "Suc i"]) simp
  qed
qed simp

section \<open>The header loop\<close>

lemma receive_headers_returns:
  assumes "length stale = MAX_HEADERS_SIZE" "length headers + length (arrived incoming) + 3 \<le> MAX_HEADERS_SIZE"
  shows "receive_headers h stale incoming headers \<noteq> None"
  using assms
proof (induction h stale incoming headers rule: receive_headers.induct)
  case (1 h stale incoming headers)
  show ?case
  proof (cases rule: recv_cases[of MAX_CHUNK_SIZE incoming])
    case (received bs as')
    let ?hs = "headers @ bs"
    note r = recv_Received[OF received MAX_CHUNK_pos]
    have fits: "\<not> length headers + length bs > MAX_HEADERS_SIZE"
      and room: "length ?hs + length (arrived as') + 3 \<le> MAX_HEADERS_SIZE"
      using 1(3) r(1) by simp_all
    have "find_crlfcrlf (?hs @ drop (length ?hs) stale) (length ?hs) \<noteq> None"
      using 1(2) room unfolding find_crlfcrlf_def by (subst find_crlfcrlf_from_defined) auto
    then obtain found where found: "find_crlfcrlf (?hs @ drop (length ?hs) stale) (length ?hs) = Some found"
      by blast
    show ?thesis
    proof (cases found)
      case True
      then show ?thesis
        using received fits found by (subst receive_headers.simps) (simp add: Let_def)
    next
      case False
      have "receive_headers h stale as' ?hs \<noteq> None"
        by (rule 1(1)[OF received[symmetric] refl fits refl found False 1(2) room])
      then show ?thesis
        using received fits found False by (subst receive_headers.simps) (simp add: Let_def)
    qed
  next
    case closed
    then show ?thesis by (subst receive_headers.simps) simp
  next
    case failed
    then show ?thesis by (subst receive_headers.simps) simp
  qed
qed

lemma receive_headers_bytes:
  assumes "receive_headers h stale incoming headers = Some (Inr (headers', rest))"
    and "broken incoming = None" "length headers \<le> MAX_HEADERS_SIZE"
  shows "headers' @ arrived rest = headers @ arrived incoming \<and> length headers' \<le> MAX_HEADERS_SIZE \<and> broken rest = None"
  using assms
proof (induction h stale incoming headers rule: receive_headers.induct)
  case (1 h stale incoming headers)
  show ?case
  proof (cases rule: recv_cases[of MAX_CHUNK_SIZE incoming])
    case (received bs as')
    let ?hs = "headers @ bs"
    note r = recv_Received[OF received MAX_CHUNK_pos]
    from 1(2) received have fits: "\<not> length headers + length bs > MAX_HEADERS_SIZE"
      by (subst (asm) receive_headers.simps) (auto split: if_splits)
    from 1(2) received fits obtain found where
      found: "find_crlfcrlf (?hs @ drop (length ?hs) stale) (length ?hs) = Some found"
      by (subst (asm) receive_headers.simps) (auto simp: Let_def split: option.splits)
    show ?thesis
    proof (cases found)
      case True
      then show ?thesis
        using 1(2,3) received fits found r by (subst (asm) receive_headers.simps) (auto simp: Let_def)
    next
      case False
      have "receive_headers h stale as' ?hs = Some (Inr (headers', rest))"
        using 1(2) received fits found False by (subst (asm) receive_headers.simps) (simp add: Let_def)
      moreover have "length ?hs \<le> MAX_HEADERS_SIZE" "broken as' = None"
        using fits r(2) 1(3) by simp_all
      ultimately show ?thesis
        using 1(1)[OF received[symmetric] refl fits refl found False] r(1) by simp
    qed
  next
    case (closed as')
    then show ?thesis
      using 1(2,4) recv_Closed[OF closed] by (subst (asm) receive_headers.simps) (auto split: if_splits)
  next
    case (failed e as')
    then show ?thesis
      using 1(3) recv_Failed(2)[OF failed] by simp
  qed
qed

section \<open>The body\<close>

lemma read_loop_closed:
  "recv MAX_CHUNK_SIZE incoming = (Closed, rest) \<Longrightarrow>
     read_loop p os h file incoming state = (UNALIXERR_SUCCESS, rest, state)"
  by (subst read_loop.simps) simp

lemma read_loop_received:
  "recv MAX_CHUNK_SIZE incoming = (Received chunk, rest) \<Longrightarrow>
     store_chunk p os file chunk state = (UNALIXERR_SUCCESS, state') \<Longrightarrow>
     read_loop p os h file incoming state = read_loop p os h file rest state'"
  by (subst read_loop.simps) simp

text \<open>Into a file without a limit: the bytes are appended.\<close>

lemma read_loop_file:
  assumes "broken incoming = None" "os_space os name = None" "fs name \<noteq> None"
  shows "read_loop p os h (Some name) incoming (response, fs) =
     (UNALIXERR_SUCCESS, [], response, appended name (arrived incoming) fs)"
  using assms
proof (induction "sum_list (map arrival_size incoming)" arbitrary: incoming fs rule: less_induct)
  case less
  show ?case
  proof (cases rule: recv_cases[of MAX_CHUNK_SIZE incoming])
    case (received bs as')
    note r = recv_Received[OF received MAX_CHUNK_pos]
    have store: "store_chunk p os (Some name) bs (response, fs) = (UNALIXERR_SUCCESS, response, appended name bs fs)"
      using less.prems by (simp add: store_chunk_def fwrite_ample)
    have "sum_list (map arrival_size as') < sum_list (map arrival_size incoming)"
      by (rule recv_decreases[OF received MAX_CHUNK_pos])
    from less.hyps[OF this, of "appended name bs fs"] less.prems r(1,2) show ?thesis
      by (simp add: read_loop_received[OF received store])
  next
    case (closed as')
    then show ?thesis
      using recv_Closed[OF closed] by (simp add: read_loop_closed[OF closed])
  next
    case (failed e as')
    then show ?thesis
      using less.prems recv_Failed(2)[OF failed] by simp
  qed
qed

text \<open>Into memory: the body grows by the bytes.\<close>

definition extend_body :: "string \<Rightarrow> http_response \<Rightarrow> http_response" where
  "extend_body bs response =
     (if bs = [] then response
      else response\<lparr>rs_body := \<lparr>body_size = body_size (rs_body response) + length bs,
             body_content = Some (body_text (rs_body response) @ bs)\<rparr>\<rparr>)"

lemma body_text_extend: "body_text (rs_body (extend_body bs response)) = body_text (rs_body response) @ bs"
  by (auto simp: extend_body_def body_text_def opt_str_def)

lemma body_ok_extend: "body_ok (rs_body response) \<Longrightarrow> body_ok (rs_body (extend_body bs response))"
  by (auto simp: extend_body_def body_ok_def body_text_def opt_str_def)

lemma extend_extend:
  "body_ok (rs_body response) \<Longrightarrow> extend_body b (extend_body a response) = extend_body (a @ b) response"
  by (auto simp: extend_body_def body_text_def opt_str_def body_ok_def)

lemma read_loop_memory:
  assumes "broken incoming = None" "ample p" "body_ok (rs_body response)"
    and "body_size (rs_body response) + length (arrived incoming) \<le> PTRDIFF_MAX"
  shows "read_loop p os h None incoming (response, fs) =
     (UNALIXERR_SUCCESS, [], extend_body (arrived incoming) response, fs)"
  using assms
proof (induction "sum_list (map arrival_size incoming)" arbitrary: incoming response rule: less_induct)
  case less
  show ?case
  proof (cases rule: recv_cases[of MAX_CHUNK_SIZE incoming])
    case (received bs as')
    note r = recv_Received[OF received MAX_CHUNK_pos]
    have old: "take (body_size (rs_body response)) (opt_str (body_content (rs_body response))) = body_text (rs_body response)"
      using less.prems(3) by (auto simp: body_text_def body_ok_def opt_str_def)
    have store: "store_chunk p os None bs (response, fs) = (UNALIXERR_SUCCESS, extend_body bs response, fs)"
      using less.prems(2,4) r(1,3) old by (simp add: store_chunk_def extend_body_def)
    have "sum_list (map arrival_size as') < sum_list (map arrival_size incoming)"
      by (rule recv_decreases[OF received MAX_CHUNK_pos])
    moreover have "body_size (rs_body (extend_body bs response)) + length (arrived as') \<le> PTRDIFF_MAX"
      using less.prems(4) r(1) by (simp add: extend_body_def)
    ultimately have "read_loop p os h None as' (extend_body bs response, fs) =
        (UNALIXERR_SUCCESS, [], extend_body (arrived as') (extend_body bs response), fs)"
      using less.hyps[of as' "extend_body bs response"] less.prems r(2) body_ok_extend by simp
    then show ?thesis
      by (simp add: read_loop_received[OF received store] extend_extend[OF less.prems(3)] r(1))
  next
    case (closed as')
    then show ?thesis
      using recv_Closed[OF closed] by (simp add: read_loop_closed[OF closed] extend_body_def)
  next
    case (failed e as')
    then show ?thesis
      using less.prems recv_Failed(2)[OF failed] by simp
  qed
qed

lemma read_loop_state:
  "read_loop p os h (Some name) incoming (response, fs) = (rc, rest, response', fs') \<Longrightarrow>
     response' = response \<and> (\<forall>n. n \<noteq> name \<longrightarrow> fs' n = fs n)"
proof (induction "sum_list (map arrival_size incoming)" arbitrary: incoming fs rule: less_induct)
  case less
  show ?case
  proof (cases rule: recv_cases[of MAX_CHUNK_SIZE incoming])
    case (received bs as')
    obtain n fs1 where w: "fwrite os name bs fs = (n, fs1)"
      by (cases "fwrite os name bs fs")
    have fs1: "\<forall>n. n \<noteq> name \<longrightarrow> fs1 n = fs n"
      using w by (auto simp: fwrite_def Let_def split: option.splits)
    show ?thesis
    proof (cases "n = length bs")
      case True
      then have "read_loop p os h (Some name) as' (response, fs1) = (rc, rest, response', fs')"
        using less.prems w received by (subst (asm) read_loop.simps) (simp add: store_chunk_def)
      with less.hyps[OF recv_decreases[OF received MAX_CHUNK_pos]] fs1 show ?thesis
        by auto
    next
      case False
      then show ?thesis
        using less.prems w received fs1 by (subst (asm) read_loop.simps) (auto simp: store_chunk_def)
    qed
  next
    case closed
    then show ?thesis
      using less.prems by (subst (asm) read_loop.simps) simp
  next
    case failed
    then show ?thesis
      using less.prems by (subst (asm) read_loop.simps) (auto split: if_splits)
  qed
qed

lemma http_response_read_file_only:
  assumes "http_response_read p os context (Some name) fs = Some (rc, context', fs')" "n \<noteq> name"
  shows "fs' n = fs n"
proof -
  have w: "fs1 n = fs n" if "fwrite os name bs fs = (k, fs1)" for bs k fs1
    using that assms(2) by (auto simp: fwrite_def Let_def split: option.splits)
  from assms(1) show ?thesis
    unfolding http_response_read_def
    by (auto simp: Let_def assms(2) w split: option.splits prod.splits if_splits dest!: read_loop_state)
qed

text \<open>A whole response into a file: what came with the headers, then the rest.\<close>

lemma http_response_read_saved:
  assumes "body_ok (rs_body (ctx_response context))" "broken (conn_incoming (ctx_connection context)) = None"
    and "os_space os name = None" "fs name \<noteq> None" "uri_scheme (rq_uri (ctx_request context)) \<noteq> None"
  shows "http_response_read p os context (Some name) fs = Some (UNALIXERR_SUCCESS,
     on_connection (\<lambda>c. c\<lparr>conn_incoming := []\<rparr>) context,
     appended name (body_text (rs_body (ctx_response context)) @ arrived (conn_incoming (ctx_connection context))) fs)"
proof -
  let ?b = "rs_body (ctx_response context)" and ?as = "conn_incoming (ctx_connection context)"
  obtain scheme where scheme: "uri_scheme (rq_uri (ctx_request context)) = Some scheme"
    using assms(5) by auto
  have first: "(if body_size ?b > 0 then fwrite os name (opt_str (body_content ?b)) fs else (body_size ?b, fs)) =
      (body_size ?b, appended name (body_text ?b) fs)"
    using assms(1,3,4) by (auto simp: body_ok_def body_text_def fwrite_ample opt_str_def)
  have loop: "read_loop p os h (Some name) ?as (ctx_response context, appended name (body_text ?b) fs) =
      (UNALIXERR_SUCCESS, [], ctx_response context, appended name (body_text ?b @ arrived ?as) fs)" for h
    using read_loop_file[OF assms(2,3), of "appended name (body_text ?b) fs"] assms(4) by simp
  show ?thesis
    unfolding http_response_read_def Let_def option.case first prod.case
    by (simp add: scheme loop on_connection_def)
qed

section \<open>The callbacks of the TLS engine\<close>

lemma sock_write_eq:
  "sock_write answers = (case dropWhile (\<lambda>a. a = Io_EINTR) answers of
     [] \<Rightarrow> None
   | a # rest \<Rightarrow> Some (case a of Io_count n \<Rightarrow> if n = 0 then - 1 else to_int n | _ \<Rightarrow> - 1, rest))"
  by (induction answers rule: sock_write.induct) simp_all

lemma sock_read_eq: "sock_read answers = sock_write answers"
  by (induction answers rule: sock_write.induct) simp_all

end
