(* ===== verification/Unshort_Proofs.thy ===== *)
theory Unshort_Proofs
  imports Update Network_Proofs
begin

text \<open>
  The calls a request makes on its socket, and the bound on redirects.
\<close>

lemma leaves_attempt:
  "(\<And>rc a. m = Some (rc, a) \<Longrightarrow> rc \<noteq> UNALIXERR_SUCCESS \<Longrightarrow> E (rc, a)) \<Longrightarrow>
     (\<And>a. m = Some (UNALIXERR_SUCCESS, a) \<Longrightarrow> P a) \<Longrightarrow> leaves (attempt m) E P"
  by (auto simp: leaves_def attempt_def split: if_splits)

section \<open>The socket of a request\<close>

text \<open>A connection whose log is \<open>l\<close> and the events of one request, whose descriptor it is.\<close>

definition request_log :: "exchange \<Rightarrow> event list \<Rightarrow> connection \<Rightarrow> connection \<Rightarrow> bool" where
  "request_log ex evs c c' \<longleftrightarrow>
     conn_log c' = conn_log c @ evs \<and>
     (\<exists>a b. prefix evs [Ev_socket (ex_socket ex), Ev_connect a, Ev_send b]) \<and>
     conn_fd c' = (if evs = [] then conn_fd c else ex_socket ex) \<and>
     (conn_ssl_initialized c' \<longrightarrow> conn_ssl_initialized c \<or> 2 \<le> length evs)"

lemma request_log_refl: "request_log ex [] c c"
  by (simp add: request_log_def)

lemma on_request_connection:
  "on_request f context = Some (rc, context') \<Longrightarrow> ctx_connection context' = ctx_connection context"
  by (auto simp: on_request_def)

lemma add_header_connection:
  "add_header p k v context = Some (rc, context') \<Longrightarrow> ctx_connection context' = ctx_connection context"
  by (simp add: add_header_def on_request_connection)

lemma set_url_connection:
  "set_url p url context = Some (rc, context') \<Longrightarrow> ctx_connection context' = ctx_connection context"
  by (simp add: set_url_def on_request_connection)

lemma open_connection_log:
  "open_connection ex a context = Some (Inl (rc, context')) \<Longrightarrow>
     conn_log (ctx_connection context') = conn_log (ctx_connection context) @ [Ev_socket (ex_socket ex)] \<and>
     conn_fd (ctx_connection context') = ex_socket ex \<and> rc \<noteq> UNALIXERR_SUCCESS \<and>
     conn_ssl_initialized (ctx_connection context') = conn_ssl_initialized (ctx_connection context)"
  "open_connection ex a context = Some (Inr context') \<Longrightarrow>
     conn_log (ctx_connection context') = conn_log (ctx_connection context) @ [Ev_socket (ex_socket ex), Ev_connect (addr_storage a)] \<and>
     conn_fd (ctx_connection context') = ex_socket ex \<and> ctx_request context' = ctx_request context \<and>
     conn_ssl_initialized (ctx_connection context') = conn_ssl_initialized (ctx_connection context)"
  by (auto simp: open_connection_def Let_def on_connection_def log_event_def connection_set_timeout_def split: if_splits)

lemma write_request_log:
  "write_request ex h buffer context = Some (Inl (rc, context')) \<Longrightarrow>
     conn_log (ctx_connection context') = conn_log (ctx_connection context) \<and>
     conn_fd (ctx_connection context') = conn_fd (ctx_connection context)"
  "write_request ex h buffer context = Some (Inr context') \<Longrightarrow>
     conn_log (ctx_connection context') = conn_log (ctx_connection context) @ [Ev_send buffer] \<and>
     conn_fd (ctx_connection context') = conn_fd (ctx_connection context)"
  by (auto simp: write_request_def Let_def on_connection_def log_event_def split: if_splits)

lemma read_response_log:
  "read_response p ex h context = Some (rc, context') \<Longrightarrow>
     conn_log (ctx_connection context') = conn_log (ctx_connection context) \<and>
     conn_fd (ctx_connection context') = conn_fd (ctx_connection context) \<and>
     conn_ssl_initialized (ctx_connection context') = conn_ssl_initialized (ctx_connection context)"
  by (auto simp: read_response_def on_connection_def bind_eq_Some_conv split: option.splits sum.splits prod.splits)

definition extended_log :: "connection \<Rightarrow> event list \<Rightarrow> int \<Rightarrow> http_context \<Rightarrow> bool" where
  "extended_log c evs fd context \<longleftrightarrow>
     conn_log (ctx_connection context) = conn_log c @ evs \<and> conn_fd (ctx_connection context) = fd \<and>
     (conn_ssl_initialized (ctx_connection context) \<longrightarrow> conn_ssl_initialized c \<or> 2 \<le> length evs)"

lemma exchange_messages_log:
  assumes "extended_log c evs fd context" "2 \<le> length evs"
  shows "leaves (exchange_messages p ex context)
     (\<lambda>(rc, context'). \<exists>b. extended_log c evs fd context' \<or> extended_log c (evs @ [Ev_send b]) fd context')
     (\<lambda>(rc, context'). \<exists>b. extended_log c evs fd context' \<or> extended_log c (evs @ [Ev_send b]) fd context')"
proof (cases "http_request_stringify p (ctx_request context)")
  case (Some r)
  obtain rc request buffer where [simp]: "r = (rc, request, buffer)"
    by (cases r)
  let ?ctx = "context\<lparr>ctx_request := request\<rparr>"
  have same: "extended_log c evs fd ?ctx"
    using assms(1) by (simp add: extended_log_def)
  have wr: "leaves (write_request ex h b ?ctx) (\<lambda>(rc, context'). extended_log c evs fd context')
     (\<lambda>context'. extended_log c (evs @ [Ev_send b]) fd context')" for h b
    using same assms(2) by (auto simp: extended_log_def intro!: leavesI dest!: write_request_log)
  have run: "leaves (stage (write_request ex h b ?ctx) (\<lambda>context. map_option Inr (read_response p ex h context)))
     (\<lambda>(rc, context'). \<exists>b. extended_log c evs fd context' \<or> extended_log c (evs @ [Ev_send b]) fd context')
     (\<lambda>(rc, context'). \<exists>b. extended_log c evs fd context' \<or> extended_log c (evs @ [Ev_send b]) fd context')" for h b
  proof (rule leaves_stage)
    show "leaves (write_request ex h b ?ctx)
        (\<lambda>(rc, context'). \<exists>b. extended_log c evs fd context' \<or> extended_log c (evs @ [Ev_send b]) fd context')
        (\<lambda>context'. extended_log c (evs @ [Ev_send b]) fd context')"
      by (rule leaves_mono[OF wr]) auto
  qed (auto simp: extended_log_def intro!: leaves_map_Inr dest!: read_response_log)
  show ?thesis
  proof (cases "rc = UNALIXERR_SUCCESS")
    case True
    then show ?thesis
      using Some run by (cases "uri_scheme (rq_uri request)") (simp_all add: exchange_messages_def Let_def)
  next
    case False
    then show ?thesis
      using Some same by (simp add: exchange_messages_def)
  qed
qed (simp add: exchange_messages_def)

definition requested :: "exchange \<Rightarrow> connection \<Rightarrow> http_context \<Rightarrow> bool" where
  "requested ex c context \<longleftrightarrow> (\<exists>evs. request_log ex evs c (ctx_connection context))"

lemma requested_refl: "requested ex (ctx_connection context) context"
  using request_log_refl by (auto simp: requested_def)

lemma extended_log_requested:
  "extended_log c [Ev_socket (ex_socket ex)] (ex_socket ex) context \<Longrightarrow> requested ex c context"
  "extended_log c [Ev_socket (ex_socket ex), Ev_connect a] (ex_socket ex) context \<Longrightarrow> requested ex c context"
  "extended_log c [Ev_socket (ex_socket ex), Ev_connect a, Ev_send b] (ex_socket ex) context \<Longrightarrow> requested ex c context"
  unfolding requested_def extended_log_def request_log_def
  by (rule exI, intro conjI, erule conjunct1, auto)+

lemma exchange_messages_requested:
  assumes "extended_log c [Ev_socket (ex_socket ex), Ev_connect a] (ex_socket ex) context"
  shows "leaves (exchange_messages p ex context) (\<lambda>(rc, context). requested ex c context) (\<lambda>(rc, context). requested ex c context)"
  by (rule leaves_mono[OF exchange_messages_log[OF assms]]) (auto dest: extended_log_requested)

lemma open_connection_requested:
  fixes ctx :: http_context
  defines "c \<equiv> ctx_connection ctx"
  shows "leaves (open_connection ex a ctx) (\<lambda>(rc, context). requested ex c context)
     (\<lambda>context. extended_log c [Ev_socket (ex_socket ex), Ev_connect (addr_storage a)] (ex_socket ex) context)"
  unfolding c_def
  by (rule leavesI) (auto simp: extended_log_def dest!: open_connection_log intro: extended_log_requested(1))

lemma http_request_send_log:
  assumes "http_request_send p ex context = Some (rc, context')"
  shows "requested ex (ctx_connection context) context'"
proof -
  let ?E = "\<lambda>(rc :: unalixerr, context'). requested ex (ctx_connection context) context'"
  have lookup: "leaves (map_option (map_sum (\<lambda>rc. (rc, context)) id) m) ?E (\<lambda>_. True)" for m :: "(unalixerr + 'a) option"
    by (intro leaves_map_Inl leavesI) (simp_all add: requested_refl)
  have host: "leaves (case uri_hostname u of None \<Rightarrow> None
      | Some sa \<Rightarrow> map_option (map_sum (\<lambda>rc. (rc, context)) id) (server_address p ex sa sa_port)) ?E (\<lambda>_. True)" for u sa_port
    using lookup by (cases "uri_hostname u") (simp_all only: option.case leaves_simps)
  have "?E (rc, context')"
    by (rule leaves_body[OF _ assms[unfolded http_request_send_def Let_def]])
      (intro leaves_stage[OF lookup] leaves_stage[OF host] leaves_stage[OF open_connection_requested] exchange_messages_requested)
  then show ?thesis by simp
qed

section \<open>Freeing a context\<close>

definition close_events :: "connection \<Rightarrow> event list" where
  "close_events c = (if conn_ssl_initialized c then [Ev_ssl_close] else []) @ [Ev_close (conn_fd c)]"

lemma http_context_free_log:
  "conn_log (ctx_connection (http_context_free context)) =
     conn_log (ctx_connection context) @ close_events (ctx_connection context)"
  by (simp add: http_context_free_def connection_free_def close_events_def log_event_def Let_def)

section \<open>Unshortening\<close>

fun is_socket :: "event \<Rightarrow> bool" where
  "is_socket (Ev_socket fd) = True"
| "is_socket e = False"

abbreviation sockets :: "event list \<Rightarrow> nat" where
  "sockets evs \<equiv> length (filter is_socket evs)"

text \<open>
  The calls of one request of a new context: a beginning of socket, connect and
  send, and one close of its descriptor, which is 0 when there was no socket.
\<close>

definition one_request :: "exchange \<Rightarrow> event list \<Rightarrow> bool" where
  "one_request ex events \<longleftrightarrow> (\<exists>evs ssl a b.
     events = evs @ ssl @ [Ev_close (if evs = [] then 0 else ex_socket ex)] \<and>
     prefix evs [Ev_socket (ex_socket ex), Ev_connect a, Ev_send b] \<and> (ssl = [] \<or> ssl = [Ev_ssl_close] \<and> 2 \<le> length evs))"

lemma one_request_free:
  assumes "request_log ex evs c (ctx_connection context)" "conn_log c = []" "conn_fd c = 0" "\<not> conn_ssl_initialized c"
  shows "one_request ex (conn_log (ctx_connection (http_context_free context)))"
  using assms unfolding one_request_def http_context_free_log request_log_def close_events_def
  by (intro exI[of _ evs] exI[of _ "if conn_ssl_initialized (ctx_connection context) then [Ev_ssl_close] else []"]) auto

lemma prefix_sockets: "prefix evs evs' \<Longrightarrow> sockets evs \<le> sockets evs'"
  by (auto simp: prefix_def)

lemma one_request_sockets: "one_request ex events \<Longrightarrow> sockets events \<le> 1"
proof -
  assume "one_request ex events"
  then obtain evs ssl a b where e: "events = evs @ ssl @ [Ev_close (if evs = [] then 0 else ex_socket ex)]"
    "prefix evs [Ev_socket (ex_socket ex), Ev_connect a, Ev_send b]" "ssl = [] \<or> ssl = [Ev_ssl_close] \<and> 2 \<le> length evs"
    unfolding one_request_def by blast
  have "filter is_socket ssl = []"
    using e(3) by auto
  then show ?thesis
    using prefix_sockets[OF e(2)] by (simp add: e(1))
qed

lemma unshort_request_log:
  assumes "unshort_request p ex user_agent timeout url = Some (rc, location, events)"
  shows "one_request ex events"
proof -
  let ?ctx = "new_context GET (if timeout > 0 then timeout else HTTP_DEFAULT_TIMEOUT)"
  let ?c = "ctx_connection ?ctx"
  let ?P = "\<lambda>context. \<exists>evs. request_log ex evs ?c (ctx_connection context)"
  have start: "?P ctx" if "ctx_connection ctx = ?c" for ctx
    using that request_log_refl by metis
  have fresh: "conn_log ?c = []" "conn_fd ?c = 0" "\<not> conn_ssl_initialized ?c"
    by (simp_all add: new_context_def)
  have send: "leaves (attempt (http_request_send p ex ctx)) (\<lambda>(rc, c). ?P c) ?P"
    if "ctx_connection ctx = ?c" for ctx
    by (rule leaves_attempt) (use that in \<open>auto dest!: http_request_send_log[unfolded requested_def]\<close>)
  let ?ua = "case user_agent of None \<Rightarrow> HTTP_DEFAULT_USER_AGENT | Some s \<Rightarrow> if s = [] then HTTP_DEFAULT_USER_AGENT else s"
  let ?same = "\<lambda>context. ctx_connection context = ?c"
  let ?req = "stage (attempt (add_header p HTTP_HEADER_ACCEPT ''*/*'' ?ctx)) (\<lambda>context.
          stage (attempt (add_header p HTTP_HEADER_USER_AGENT ?ua context)) (\<lambda>context.
          stage (attempt (set_url p url context)) (\<lambda>context.
          attempt (http_request_send p ex context))))"
  have step: "leaves (attempt m) (\<lambda>(rc, c). ?P c) ?same"
    if "\<And>rc c. m = Some (rc, c) \<Longrightarrow> ?same c" for m
    by (rule leaves_attempt) (use that in \<open>auto intro!: exI[of _ "[]"] request_log_refl\<close>)
  have req: "leaves ?req (\<lambda>(rc, c). ?P c) ?P"
    by (intro leaves_stage[where Q = ?same] step send)
      (auto dest: add_header_connection set_url_connection)
  obtain ctx where "body (stage (map_option (map_sum (\<lambda>(rc, c). (rc, None, c)) id) ?req)
        (\<lambda>context. map_option (\<lambda>(rc, location). Inr (rc, location, context))
            (http_get_redirect p (ctx_request context) (ctx_response context)))) = Some (rc, location, ctx)"
    and events: "events = conn_log (ctx_connection (http_context_free ctx))"
    using assms by (auto simp: unshort_request_def Let_def)
  moreover have "leaves (stage (map_option (map_sum (\<lambda>(rc, c). (rc, None, c)) id) ?req)
        (\<lambda>context. map_option (\<lambda>(rc, location). Inr (rc, location, context))
            (http_get_redirect p (ctx_request context) (ctx_response context))))
      (\<lambda>(rc, l, c). ?P c) (\<lambda>(rc, l, c). ?P c)"
  proof (rule leaves_stage)
    show "leaves (map_option (map_sum (\<lambda>(rc, c). (rc, None, c)) id) ?req) (\<lambda>(rc, l, c). ?P c) ?P"
      by (rule leaves_map_Inl, rule leaves_mono[OF req]) (simp_all only: case_prod_beta fst_conv snd_conv)
  qed (auto intro!: leavesI)
  ultimately have "?P ctx"
    using leaves_body by fastforce
  then show ?thesis
    using one_request_free[OF _ fresh] events by blast
qed

text \<open>
  What a request preserves holds at the end of the loop; \<open>P k log\<close> is about the log
  after k requests, of which there are at most 21.
\<close>

lemma unshort_loop_invariant:
  assumes "unshort_loop frames p rx rs exs fl user_agent timeout k location target log = Some (rc, t, log')"
    and "k \<le> HTTP_DEFAULT_MAX_REDIRECTS" "P k log"
    and "\<And>k log u rc l events. P k log \<Longrightarrow>
      unshort_request (in_call k p) (exs k) user_agent timeout u = Some (rc, l, events) \<Longrightarrow> P (Suc k) (log @ events)"
  shows "\<exists>n \<le> HTTP_DEFAULT_MAX_REDIRECTS + 1. P n log'"
  using assms(1-3)
proof (induction "HTTP_DEFAULT_MAX_REDIRECTS - k" arbitrary: k location target log rule: less_induct)
  case less
  let ?clean = "unalix_clean_url frames (in_call k p) rx rs fl (Some location) True"
  from less.prems(1) obtain c where c: "?clean = Some c"
    by (subst (asm) unshort_loop.simps) (auto split: option.splits)
  obtain rc1 url where [simp]: "c = (rc1, url)" by (cases c)
  show ?case
  proof (cases "rc1 = UNALIXERR_SUCCESS")
    case False
    then have "log' = log"
      using less.prems(1) c by (subst (asm) unshort_loop.simps) auto
    then show ?thesis
      using less.prems(2,3) le_SucI by (auto intro!: exI[of _ k])
  next
    case True
    with less.prems(1) c obtain u where u: "url = Some u"
      by (subst (asm) unshort_loop.simps) (auto split: option.splits)
    let ?req = "unshort_request (in_call k p) (exs k) user_agent timeout u"
    from less.prems(1) c True u obtain rc2 loc events where r: "?req = Some (rc2, loc, events)"
      by (subst (asm) unshort_loop.simps) (auto split: option.splits)
    have one: "P (Suc k) (log @ events)"
      by (rule assms(4)[OF less.prems(3) r])
    show ?thesis
    proof (cases "rc2 = UNALIXERR_SUCCESS \<and> loc \<noteq> None \<and> Suc k \<le> HTTP_DEFAULT_MAX_REDIRECTS")
      case False
      then have "log' = log @ events"
        using less.prems(1) c True u r by (subst (asm) unshort_loop.simps) (auto split: option.splits if_splits)
      then show ?thesis
        using one less.prems(2) by auto
    next
      case True2: True
      then obtain l where l: "loc = Some l" by auto
      have next': "unshort_loop frames p rx rs exs fl user_agent timeout (Suc k) l (Some u) (log @ events) = Some (rc, t, log')"
        using less.prems(1) c True u r True2 l by (subst (asm) unshort_loop.simps) simp
      show ?thesis
        by (rule less.hyps[OF _ next' _ one]) (use True2 in auto)
    qed
  qed
qed

lemma unshort_loop_sockets:
  assumes "unshort_loop frames p rx rs exs fl user_agent timeout 0 location target [] = Some (rc, t, events)"
  shows "sockets events \<le> HTTP_DEFAULT_MAX_REDIRECTS + 1"
proof -
  have "\<exists>n \<le> HTTP_DEFAULT_MAX_REDIRECTS + 1. sockets events \<le> n"
    by (rule unshort_loop_invariant[OF assms])
      (use one_request_sockets[OF unshort_request_log] in \<open>fastforce+\<close>)
  then show ?thesis by auto
qed

section \<open>The protocol of a socket\<close>

text \<open>
  The phases of a connection and the calls that lead from one to another.  The
  descriptor of a context that has opened nothing is 0.
\<close>

datatype phase = Idle | Opened int | Connected int | Sent int | Ended int

fun descriptor :: "phase \<Rightarrow> int" where
  "descriptor Idle = 0"
| "descriptor (Opened fd) = fd"
| "descriptor (Connected fd) = fd"
| "descriptor (Sent fd) = fd"
| "descriptor (Ended fd) = fd"

inductive call :: "phase \<Rightarrow> event \<Rightarrow> phase \<Rightarrow> bool" where
  socket: "call Idle (Ev_socket fd) (Opened fd)"
| connect: "call (Opened fd) (Ev_connect a) (Connected fd)"
| send: "call (Connected fd) (Ev_send b) (Sent fd)"
| end_connected: "call (Connected fd) Ev_ssl_close (Ended fd)"
| end_sent: "call (Sent fd) Ev_ssl_close (Ended fd)"
| close: "call s (Ev_close (descriptor s)) Idle"

inductive calls :: "phase \<Rightarrow> event list \<Rightarrow> phase \<Rightarrow> bool" where
  none: "calls s [] s"
| first: "call s e t \<Longrightarrow> calls t es u \<Longrightarrow> calls s (e # es) u"

inductive_simps calls_simps [simp]: "calls s [] u" "calls s (e # es) u"
inductive_simps call_simps [simp]: "call s (Ev_socket fd) t" "call s (Ev_connect a) t" "call s (Ev_send b) t"
  "call s Ev_ssl_close t" "call s (Ev_close fd) t"
inductive_cases callE: "call s e t"

lemma calls_append: "calls s es t \<Longrightarrow> calls t es' u \<Longrightarrow> calls s (es @ es') u"
  by (induction rule: calls.induct) (auto intro: calls.first)

text \<open>From \<open>Idle\<close> to \<open>Idle\<close> every socket is closed, and before the next one is opened.\<close>

fun closes :: "event \<Rightarrow> bool" where
  "closes (Ev_close fd) = True"
| "closes e = False"

definition is_open :: "phase \<Rightarrow> nat" where
  "is_open s = (if s = Idle then 0 else 1)"

lemma call_counts: "call s e t \<Longrightarrow> is_open s + length (filter is_socket [e]) \<le> is_open t + length (filter closes [e])"
  by (erule callE) (auto simp: is_open_def)

lemma calls_closed: "calls s es t \<Longrightarrow> is_open s + sockets es \<le> is_open t + length (filter closes es)"
proof (induction rule: calls.induct)
  case (first s e t es u)
  then show ?case
    using call_counts[OF first(1)] by (auto split: if_splits)
qed simp

lemma one_request_calls:
  assumes "one_request ex events"
  shows "calls Idle events Idle"
proof -
  obtain evs ssl a b where e: "events = evs @ ssl @ [Ev_close (if evs = [] then 0 else ex_socket ex)]"
    "prefix evs [Ev_socket (ex_socket ex), Ev_connect a, Ev_send b]" "ssl = [] \<or> ssl = [Ev_ssl_close] \<and> 2 \<le> length evs"
    using assms unfolding one_request_def by blast
  consider "evs = []" | "evs = [Ev_socket (ex_socket ex)]" | "evs = [Ev_socket (ex_socket ex), Ev_connect a]"
    | "evs = [Ev_socket (ex_socket ex), Ev_connect a, Ev_send b]"
    using e(2) by (auto simp: prefix_Cons)
  then show ?thesis
    by cases (use e(1,3) in auto)
qed

text \<open>So the calls of the whole function are those of one socket after another.\<close>

lemma unshort_loop_calls:
  assumes "unshort_loop frames p rx rs exs fl user_agent timeout 0 location target [] = Some (rc, t, events)"
  shows "calls Idle events Idle"
proof -
  have "\<exists>n \<le> HTTP_DEFAULT_MAX_REDIRECTS + 1. calls Idle events Idle"
    by (rule unshort_loop_invariant[OF assms])
      (auto intro: calls_append one_request_calls[OF unshort_request_log])
  then show ?thesis by auto
qed

end
