(* ===== verification/Rulesets_Proofs.thy ===== *)
theory Rulesets_Proofs
  imports Rulesets
begin

text \<open>
  Correctness of the ruleset loader: it is defined on every JSON tree, only ever
  appends to the rulesets, keeps their size in step, and with memory loads what an
  abstract reading of the tree says, up to the first provider that is malformed.
\<close>

section \<open>What a tree means\<close>

definition extended :: "string \<Rightarrow> string" where
  "extended src = PREFIX_EXTENDED_PATTERN @ src @ SUFFIX_EXTENDED_PATTERN"

definition pattern_of :: "'c pcre2 \<Rightarrow> (string \<Rightarrow> string) \<Rightarrow> json \<Rightarrow> unalixerr + 'c" where
  "pattern_of rx ext t =
     (case t of
        JString src \<Rightarrow> (case pcre2_compile rx (ext src) of
            None \<Rightarrow> Inl UNALIXERR_REGEX_COMPILE_PATTERN_FAILURE | Some c \<Rightarrow> Inr c)
      | _ \<Rightarrow> Inl UNALIXERR_JSON_NON_MATCHING_TYPE)"

text \<open>The first error of a list, or all the values.\<close>

fun sequence :: "('e + 'a) list \<Rightarrow> 'e + 'a list" where
  "sequence [] = Inr []"
| "sequence (Inl e # xs) = Inl e"
| "sequence (Inr x # xs) = map_sum id ((#) x) (sequence xs)"

definition patterns_of :: "'c pcre2 \<Rightarrow> json \<Rightarrow> string \<Rightarrow> unalixerr + 'c list" where
  "patterns_of rx val name =
     (case json_object_get val name of
        None \<Rightarrow> Inr []
      | Some JNull \<Rightarrow> Inr []
      | Some (JArray ts) \<Rightarrow>
          sequence (map (pattern_of rx (if name \<in> {RULES, REFERRAL_MARKETING} then extended else id)) ts)
      | Some _ \<Rightarrow> Inl UNALIXERR_JSON_NON_MATCHING_TYPE)"

definition arrays_of :: "'c pcre2 \<Rightarrow> json \<Rightarrow> 'c \<Rightarrow> unalixerr + 'c ruleset" where
  "arrays_of rx val c =
     map_sum id (\<lambda>css. \<lparr>url_pattern = c, rules = css ! 0, raw_rules = css ! 1, referral_marketing = css ! 2,
         exceptions = css ! 3, redirections = css ! 4\<rparr>)
       (sequence (map (patterns_of rx val) ARRAY_KEYS))"

definition fields_of :: "'c pcre2 \<Rightarrow> json \<Rightarrow> unalixerr + 'c ruleset" where
  "fields_of rx val =
     (case json_object_get val URL_PATTERN of
        None \<Rightarrow> Inl UNALIXERR_JSON_MISSING_REQUIRED_KEY
      | Some u \<Rightarrow> (case pattern_of rx id u of Inl e \<Rightarrow> Inl e | Inr c \<Rightarrow> arrays_of rx val c))"

text \<open>The ruleset of a provider, None for one that is skipped.\<close>

definition provider_of :: "'c pcre2 \<Rightarrow> string \<times> json \<Rightarrow> unalixerr + 'c ruleset option" where
  "provider_of rx kv =
     (if prefix PREFIX_PROVIDER_IGNORE (fst kv) then Inr None
      else if \<not> json_is_object (snd kv) then Inl UNALIXERR_JSON_NON_MATCHING_TYPE
      else case json_object_get (snd kv) COMPLETE_PROVIDER of
        None \<Rightarrow> map_sum id Some (fields_of rx (snd kv))
      | Some t \<Rightarrow>
          if t = JBool True then Inr None
          else if t = JNull \<or> t = JBool False then map_sum id Some (fields_of rx (snd kv))
          else Inl UNALIXERR_JSON_NON_MATCHING_TYPE)"

text \<open>The code a run over the providers ends with, and the rulesets loaded until then.\<close>

fun providers_of :: "'c pcre2 \<Rightarrow> (string \<times> json) list \<Rightarrow> unalixerr \<times> 'c ruleset list" where
  "providers_of rx [] = (UNALIXERR_SUCCESS, [])"
| "providers_of rx (kv # kvs) =
     (case provider_of rx kv of
        Inl e \<Rightarrow> (e, [])
      | Inr None \<Rightarrow> providers_of rx kvs
      | Inr (Some r) \<Rightarrow> map_prod id ((#) r) (providers_of rx kvs))"

definition rulesets_of :: "'c pcre2 \<Rightarrow> json \<Rightarrow> unalixerr \<times> 'c ruleset list" where
  "rulesets_of rx tree =
     (case json_object_get tree PROVIDERS of
        None \<Rightarrow> (UNALIXERR_JSON_MISSING_REQUIRED_KEY, [])
      | Some (JObject kvs) \<Rightarrow> providers_of rx kvs
      | Some _ \<Rightarrow> (UNALIXERR_JSON_NON_MATCHING_TYPE, []))"

section \<open>The loader computes it\<close>

lemma compile_rule_eq:
  "compile_rule rx modify t = Some (pattern_of rx (if modify then extended else id) t)"
proof (cases t)
  case (JString src)
  have "strcats (length PREFIX_EXTENDED_PATTERN + length src + length SUFFIX_EXTENDED_PATTERN + 1)
      [] [PREFIX_EXTENDED_PATTERN, src, SUFFIX_EXTENDED_PATTERN] = Some (extended src)"
    by (subst strcats_fits) (simp_all add: extended_def)
  with JString show ?thesis
    by (auto simp: compile_rule_def pattern_of_def regex_compile_def split: option.split)
qed (auto simp: compile_rule_def pattern_of_def)

lemma compile_rules_eq:
  "compile_rules rx modify ts = Some (sequence (map (pattern_of rx (if modify then extended else id)) ts))"
proof (induction ts)
  case (Cons t ts)
  then show ?case
    by (cases "pattern_of rx (if modify then extended else id) t";
        cases "sequence (map (pattern_of rx (if modify then extended else id)) ts)")
      (simp_all add: compile_rule_eq)
qed simp

definition rules_memory :: "platform \<Rightarrow> nat \<Rightarrow> nat \<Rightarrow> json \<Rightarrow> string \<Rightarrow> bool" where
  "rules_memory p i j val name \<longleftrightarrow>
     (\<forall>ts. json_object_get val name = Some (JArray ts) \<longrightarrow> malloc p (AtRules i j) (sizeof_pointer * length ts))"

lemma load_rules_eq:
  assumes "rules_memory p i j val name"
  shows "load_rules p rx i j val name = Some (map_sum id (\<lambda>cs. if cs = [] then None else Some cs) (patterns_of rx val name))"
proof (cases "json_object_get val name")
  case (Some t)
  show ?thesis
  proof (cases t)
    case (JArray ts)
    have "sequence (map f ts) = Inr cs \<Longrightarrow> length cs = length ts" for f :: "json \<Rightarrow> unalixerr + 'a" and cs
    proof (induction ts arbitrary: cs)
      case (Cons t ts)
      then show ?case
        by (cases "f t"; cases "sequence (map f ts)") auto
    qed simp
    then have "sequence (map f ts) = Inr [] \<Longrightarrow> ts = []" for f :: "json \<Rightarrow> unalixerr + 'a"
      by force
    then show ?thesis
      using Some JArray assms
      by (cases "ts = []"; cases "sequence (map (pattern_of rx (if name = RULES \<or> name = REFERRAL_MARKETING then extended else id)) ts)")
        (auto simp: load_rules_def patterns_of_def json_is_array_def json_items_def rules_memory_def compile_rules_eq
          sizeof_pointer_def)
  qed (use Some in \<open>auto simp: load_rules_def patterns_of_def json_is_array_def\<close>)
qed (auto simp: load_rules_def patterns_of_def)

definition empty_ruleset :: "'c \<Rightarrow> 'c ruleset" where
  "empty_ruleset c = \<lparr>url_pattern = c, rules = [], raw_rules = [], referral_marketing = [],
     exceptions = [], redirections = []\<rparr>"

lemma load_arrays_Cons:
  assumes "rules_memory p i j val name"
  shows "load_arrays p rx i j val (name # names) r =
     (case patterns_of rx val name of
        Inl e \<Rightarrow> Some (Inl e)
      | Inr cs \<Rightarrow> load_arrays p rx i (Suc j) val names (if cs = [] then r else store_rules name cs r))"
  by (simp add: load_rules_eq[OF assms] split: sum.split)

definition provider_memory :: "platform \<Rightarrow> nat \<Rightarrow> json \<Rightarrow> bool" where
  "provider_memory p i val \<longleftrightarrow> (\<forall>j < 5. rules_memory p i j val (ARRAY_KEYS ! j))"

lemma load_arrays_eq:
  assumes "provider_memory p i val"
  shows "load_arrays p rx i 0 val ARRAY_KEYS (empty_ruleset c) = Some (arrays_of rx val c)"
proof -
  have mem: "rules_memory p i 0 val RULES" "rules_memory p i (Suc 0) val RAW_RULES"
    "rules_memory p i (Suc (Suc 0)) val REFERRAL_MARKETING" "rules_memory p i (Suc (Suc (Suc 0))) val EXCEPTIONS"
    "rules_memory p i (Suc (Suc (Suc (Suc 0)))) val REDIRECTIONS"
    using assms by (auto simp: provider_memory_def ARRAY_KEYS_def dest: spec[of _ 0] spec[of _ 1] spec[of _ 2] spec[of _ 3] spec[of _ 4]
        simp: numeral_eq_Suc)
  have store [simp]: "store_rules RULES cs r = r\<lparr>rules := cs\<rparr>" "store_rules RAW_RULES cs r = r\<lparr>raw_rules := cs\<rparr>"
    "store_rules REFERRAL_MARKETING cs r = r\<lparr>referral_marketing := cs\<rparr>" "store_rules EXCEPTIONS cs r = r\<lparr>exceptions := cs\<rparr>"
    "store_rules REDIRECTIONS cs r = r\<lparr>redirections := cs\<rparr>" for cs and r :: "'a ruleset"
    by (simp_all add: store_rules_def json_key_defs)
  note steps = load_arrays_Cons[OF mem(1)] load_arrays_Cons[OF mem(2)] load_arrays_Cons[OF mem(3)]
    load_arrays_Cons[OF mem(4)] load_arrays_Cons[OF mem(5)]
  show ?thesis
    unfolding ARRAY_KEYS_def arrays_of_def empty_ruleset_def
    by (cases "patterns_of rx val RULES"; cases "patterns_of rx val RAW_RULES";
        cases "patterns_of rx val REFERRAL_MARKETING"; cases "patterns_of rx val EXCEPTIONS";
        cases "patterns_of rx val REDIRECTIONS")
      (simp_all add: steps del: load_arrays.simps(2))
qed

lemma regex_compile_cases:
  "regex_compile rx src = (case pcre2_compile rx src of
     None \<Rightarrow> (UNALIXERR_REGEX_COMPILE_PATTERN_FAILURE, None) | Some c \<Rightarrow> (UNALIXERR_SUCCESS, Some c))"
  by (simp add: regex_compile_def)

lemma load_fields_eq:
  assumes "provider_memory p i val"
  shows "load_fields p rx i val = Some (fields_of rx val)"
proof (cases "json_object_get val URL_PATTERN")
  case (Some t)
  then show ?thesis
    by (cases t) (auto simp: load_fields_def fields_of_def pattern_of_def regex_compile_cases
        load_arrays_eq[OF assms, unfolded empty_ruleset_def] split: option.split)
qed (simp add: load_fields_def fields_of_def)

lemma load_provider_eq:
  assumes "provider_memory p i (snd kv)"
  shows "load_provider p rx i kv = (if readable_key p (fst kv) then Some (provider_of rx kv) else None)"
proof -
  obtain key val where [simp]: "kv = (key, val)"
    by (cases kv)
  have fields: "load_fields p rx i val = Some (fields_of rx val)"
    using assms by (simp add: load_fields_eq)
  have body: "stage (load_fields p rx i val) (\<lambda>r. Some (Inr (Some r))) = Some (map_sum id Some (fields_of rx val))"
    by (cases "fields_of rx val") (simp_all add: fields)
  show ?thesis
  proof (cases "json_object_get val COMPLETE_PROVIDER")
    case None
    then show ?thesis
      by (simp add: load_provider_def provider_of_def body)
  next
    case (Some t)
    then show ?thesis
      by (cases t) (auto simp: load_provider_def provider_of_def body)
  qed
qed

lemma append_ruleset_ample:
  assumes "rss_offset obj = length (rss_items obj)" "rss_size obj = sizeof_Ruleset * rss_offset obj"
    and "malloc p (AtRuleset (rss_offset obj)) (sizeof_Ruleset * (rss_offset obj + 1))"
  shows "append_ruleset p obj r = Some (UNALIXERR_SUCCESS,
     \<lparr>rss_offset = rss_offset obj + 1, rss_size = sizeof_Ruleset * (rss_offset obj + 1), rss_items = rss_items obj @ [r]\<rparr>)"
  using assms by (simp add: append_ruleset_def Let_def algebra_simps)

section \<open>State invariant\<close>

definition rulesets_inv :: "'c rulesets \<Rightarrow> bool" where
  "rulesets_inv obj \<longleftrightarrow> rss_offset obj = length (rss_items obj) \<and> rss_size obj = sizeof_Ruleset * rss_offset obj"

definition rulesets_with :: "'c ruleset list \<Rightarrow> 'c rulesets" where
  "rulesets_with rs = \<lparr>rss_offset = length rs, rss_size = sizeof_Ruleset * length rs, rss_items = rs\<rparr>"

lemma rulesets_inv_with: "rulesets_inv obj \<longleftrightarrow> obj = rulesets_with (rss_items obj)"
  by (cases obj) (auto simp: rulesets_inv_def rulesets_with_def)

lemma rulesets_inv_zero: "rulesets_inv zero_rulesets"
  by (simp add: rulesets_inv_def zero_rulesets_def)

lemma rulesets_inv_rulesets_with [simp]: "rulesets_inv (rulesets_with rs)"
  by (simp add: rulesets_inv_def rulesets_with_def)

lemma get_rulesets_with [simp]: "get_rulesets (rulesets_with rs) = rs"
  by (simp add: get_rulesets_def rulesets_with_def)

lemma append_ruleset_inv:
  assumes "rulesets_inv obj"
  shows "\<exists>rc obj'. append_ruleset p obj r = Some (rc, obj') \<and> rulesets_inv obj' \<and>
     (if rc = UNALIXERR_SUCCESS then rss_items obj' = rss_items obj @ [r] else obj' = obj)"
  using assms by (auto simp: append_ruleset_def rulesets_inv_def Let_def)

lemma stage_defined: "m \<noteq> None \<Longrightarrow> (\<And>a. m = Some (Inr a) \<Longrightarrow> f a \<noteq> None) \<Longrightarrow> stage m f \<noteq> None"
  by (auto simp: stage_def split: sum.split)

lemma load_rules_defined: "load_rules p rx i j val name \<noteq> None"
proof -
  have "stage (compile_rules rx m ts) (\<lambda>cs. Some (Inr (Some cs))) \<noteq> None" for m ts
    by (simp only: compile_rules_eq) (simp add: stage_def split: sum.split)
  then show ?thesis
    by (simp add: load_rules_def Let_def split: option.split)
qed

lemma load_arrays_defined: "load_arrays p rx i j val names r \<noteq> None"
proof (induction names arbitrary: j r)
  case (Cons name names)
  show ?case
    unfolding load_arrays.simps by (rule stage_defined) (simp_all only: load_rules_defined not_False_eq_True Cons)
qed simp

lemma load_fields_defined: "load_fields p rx i val \<noteq> None"
proof (cases "json_object_get val URL_PATTERN")
  case (Some t)
  then show ?thesis
    by (cases t) (auto simp: load_fields_def regex_compile_cases load_arrays_defined[simplified] split: option.split)
qed (simp add: load_fields_def)

lemma load_provider_defined: "load_provider p rx i kv = None \<longleftrightarrow> \<not> readable_key p (fst kv)"
proof -
  obtain key val where [simp]: "kv = (key, val)"
    by (cases kv)
  have body: "stage (load_fields p rx i val) (\<lambda>r. Some (Inr (Some r))) \<noteq> None"
    by (rule stage_defined) (simp_all only: load_fields_defined not_False_eq_True option.distinct)
  show ?thesis
  proof (cases "json_object_get val COMPLETE_PROVIDER")
    case None
    with body show ?thesis
      by (simp add: load_provider_def)
  next
    case (Some t)
    with body show ?thesis
      by (cases t) (auto simp: load_provider_def)
  qed
qed

text \<open>
  Loading only appends, whatever fails, and it is defined unless a provider is
  compared whose name is too short for \<open>memcmp\<close>.
\<close>

definition only_appended :: "'c rulesets \<Rightarrow> bool \<Rightarrow> (unalixerr \<times> 'c rulesets) option \<Rightarrow> bool" where
  "only_appended obj short result \<longleftrightarrow>
     (case result of
        None \<Rightarrow> short
      | Some (rc, obj') \<Rightarrow> rulesets_inv obj' \<and> prefix (rss_items obj) (rss_items obj'))"

lemma load_providers_appends:
  assumes "rulesets_inv obj"
  shows "only_appended obj (\<exists>kv \<in> set kvs. \<not> readable_key p (fst kv)) (load_providers p rx i kvs obj)"
  using assms
proof (induction kvs arbitrary: i obj)
  case (Cons kv kvs)
  consider (undefined) "load_provider p rx i kv = None" | (err) e where "load_provider p rx i kv = Some (Inl e)"
    | (skip) "load_provider p rx i kv = Some (Inr None)" | (add) r where "load_provider p rx i kv = Some (Inr (Some r))"
    by (cases "load_provider p rx i kv"; cases "the (load_provider p rx i kv)";
        cases "projr (the (load_provider p rx i kv))") auto
  then show ?case
  proof cases
    case undefined
    then show ?thesis
      using load_provider_defined[of p rx i kv] by (simp add: only_appended_def)
  next
    case skip
    then show ?thesis
      using Cons.IH[OF Cons.prems, of "Suc i"] by (auto simp: only_appended_def split: option.splits)
  next
    case add
    obtain rc obj1 where 1: "append_ruleset p obj r = Some (rc, obj1)" "rulesets_inv obj1"
      "if rc = UNALIXERR_SUCCESS then rss_items obj1 = rss_items obj @ [r] else obj1 = obj"
      using append_ruleset_inv[OF Cons.prems] by blast
    show ?thesis
    proof (cases "rc = UNALIXERR_SUCCESS")
      case True
      then show ?thesis
        using add 1 Cons.IH[OF 1(2), of "Suc i"]
        by (auto simp: only_appended_def split: option.splits intro: append_prefixD)
    qed (use add 1 in \<open>auto simp: only_appended_def\<close>)
  qed (use Cons in \<open>auto simp: only_appended_def\<close>)
qed (simp add: only_appended_def)

section \<open>Loading with memory\<close>

text \<open>Sizes below the limits of \<open>malloc\<close>, which no text a program can hold exceeds.\<close>

definition arrays_small :: "json \<Rightarrow> bool" where
  "arrays_small val \<longleftrightarrow> (\<forall>name ts. json_object_get val name = Some (JArray ts) \<longrightarrow> length ts < 2 ^ 59)"

definition tree_small :: "json \<Rightarrow> nat \<Rightarrow> bool" where
  "tree_small tree n \<longleftrightarrow>
     (\<forall>kvs. json_object_get tree PROVIDERS = Some (JObject kvs) \<longrightarrow>
        n + length kvs < 2 ^ 56 \<and> (\<forall>kv \<in> set kvs. arrays_small (snd kv)))"

lemma provider_memory_ample: "ample p \<Longrightarrow> arrays_small val \<Longrightarrow> provider_memory p i val"
  by (force simp: provider_memory_def rules_memory_def arrays_small_def sizeof_pointer_def PTRDIFF_MAX_def)

text \<open>The names \<open>memcmp\<close> reads, up to the first provider that is malformed, are long enough.\<close>

fun names_readable :: "platform \<Rightarrow> 'c pcre2 \<Rightarrow> (string \<times> json) list \<Rightarrow> bool" where
  "names_readable p rx [] \<longleftrightarrow> True"
| "names_readable p rx (kv # kvs) \<longleftrightarrow> readable_key p (fst kv) \<and>
     (case provider_of rx kv of Inl e \<Rightarrow> True | Inr r \<Rightarrow> names_readable p rx kvs)"

definition tree_readable :: "platform \<Rightarrow> 'c pcre2 \<Rightarrow> json \<Rightarrow> bool" where
  "tree_readable p rx tree \<longleftrightarrow> (case json_object_get tree PROVIDERS of
     Some (JObject kvs) \<Rightarrow> names_readable p rx kvs | _ \<Rightarrow> True)"

lemma names_readable_long: "\<forall>kv \<in> set kvs. 12 \<le> length (fst kv) \<Longrightarrow> names_readable p rx kvs"
  by (induction kvs) (auto simp: readable_key_def PREFIX_PROVIDER_IGNORE_def split: sum.split)

lemma load_providers_eq:
  assumes "ample p" "rulesets_inv obj" "length (rss_items obj) + length kvs < 2 ^ 56"
    and "\<forall>kv \<in> set kvs. arrays_small (snd kv)"
  shows "load_providers p rx i kvs obj =
     (if names_readable p rx kvs
      then Some (fst (providers_of rx kvs), rulesets_with (rss_items obj @ snd (providers_of rx kvs))) else None)"
  using assms(2-4)
proof (induction kvs arbitrary: i obj)
  case Nil
  then have "rulesets_with (rss_items obj) = obj"
    using rulesets_inv_with by metis
  then show ?case by simp
next
  case (Cons kv kvs)
  have kv: "load_provider p rx i kv = (if readable_key p (fst kv) then Some (provider_of rx kv) else None)"
    using Cons.prems(3) by (intro load_provider_eq provider_memory_ample[OF assms(1)]) simp
  have obj: "rulesets_with (rss_items obj) = obj"
    using Cons.prems(1) rulesets_inv_with by metis
  consider (err) e where "provider_of rx kv = Inl e" | (skip) "provider_of rx kv = Inr None"
    | (add) r where "provider_of rx kv = Inr (Some r)"
    by (cases "provider_of rx kv"; cases "projr (provider_of rx kv)") auto
  then show ?case
  proof cases
    case add
    have "append_ruleset p obj r = Some (UNALIXERR_SUCCESS, rulesets_with (rss_items obj @ [r]))"
      using Cons.prems(1,2) assms(1)
      by (subst append_ruleset_ample) (auto simp: rulesets_inv_def rulesets_with_def sizeof_Ruleset_def PTRDIFF_MAX_def)
    moreover have "load_providers p rx (Suc i) kvs (rulesets_with (rss_items obj @ [r])) =
        (if names_readable p rx kvs
         then Some (fst (providers_of rx kvs), rulesets_with ((rss_items obj @ [r]) @ snd (providers_of rx kvs))) else None)"
      using Cons.IH[of "rulesets_with (rss_items obj @ [r])" "Suc i"] Cons.prems(2,3)
      by (simp add: rulesets_with_def rulesets_inv_def)
    ultimately show ?thesis
      using kv add by simp
  qed (use kv Cons obj in auto)
qed

lemma load_ruleset_eq:
  assumes "ample p" "rulesets_inv obj" "tree_small tree (length (rss_items obj))"
  shows "load_ruleset p rx tree obj =
     (if tree_readable p rx tree
      then Some (fst (rulesets_of rx tree), rulesets_with (rss_items obj @ snd (rulesets_of rx tree))) else None)"
proof -
  have obj: "rulesets_with (rss_items obj) = obj"
    using assms(2) rulesets_inv_with by metis
  show ?thesis
  proof (cases "json_object_get tree PROVIDERS")
    case (Some t)
    with assms show ?thesis
      by (cases t) (auto simp: load_ruleset_def rulesets_of_def obj json_is_object_def json_members_def tree_small_def
          load_providers_eq tree_readable_def)
  qed (simp add: load_ruleset_def rulesets_of_def obj tree_readable_def)
qed

text \<open>A tree with a provider whose name \<open>memcmp\<close> reads too far.\<close>

definition short_name :: "platform \<Rightarrow> json \<Rightarrow> bool" where
  "short_name p tree \<longleftrightarrow>
     (\<exists>kvs. json_object_get tree PROVIDERS = Some (JObject kvs) \<and> (\<exists>kv \<in> set kvs. length (fst kv) + slack p < 12))"

lemma not_readable_key: "\<not> readable_key p key \<longleftrightarrow> length key + slack p < 12"
  by (auto simp: readable_key_def PREFIX_PROVIDER_IGNORE_def)

lemma load_ruleset_appends:
  assumes "rulesets_inv obj"
  shows "only_appended obj (short_name p tree) (load_ruleset p rx tree obj)"
proof (cases "json_object_get tree PROVIDERS")
  case (Some t)
  then show ?thesis
    using load_providers_appends[OF assms, of "json_members t" p rx 0] assms
    by (cases t) (auto simp: load_ruleset_def only_appended_def json_is_object_def json_members_def short_name_def
        not_readable_key split: option.splits)
qed (simp add: load_ruleset_def only_appended_def assms)

section \<open>What a loaded ruleset holds\<close>

lemma sequence_Inr: "sequence xs = Inr ys \<longleftrightarrow> xs = map Inr ys"
proof (induction xs arbitrary: ys rule: sequence.induct)
  case (3 x xs)
  then show ?case
    by (cases "sequence xs") (auto simp: Cons_eq_map_conv)
qed auto

lemma map_eq_map_Inr: "map f xs = map Inr ys \<Longrightarrow> x \<in> set xs \<Longrightarrow> \<exists>y \<in> set ys. f x = Inr y"
  by (metis in_set_conv_nth length_map nth_map)

lemma arrays_of_Inr:
  assumes "arrays_of rx val c = Inr r"
  shows "url_pattern r = c" "patterns_of rx val RULES = Inr (rules r)" "patterns_of rx val RAW_RULES = Inr (raw_rules r)"
    "patterns_of rx val REFERRAL_MARKETING = Inr (referral_marketing r)"
    "patterns_of rx val EXCEPTIONS = Inr (exceptions r)" "patterns_of rx val REDIRECTIONS = Inr (redirections r)"
proof -
  obtain css where css: "sequence (map (patterns_of rx val) ARRAY_KEYS) = Inr css"
    "r = \<lparr>url_pattern = c, rules = css ! 0, raw_rules = css ! 1, referral_marketing = css ! 2,
         exceptions = css ! 3, redirections = css ! 4\<rparr>"
    using assms by (cases "sequence (map (patterns_of rx val) ARRAY_KEYS)") (auto simp: arrays_of_def)
  have "map (patterns_of rx val) ARRAY_KEYS = map Inr css"
    using css(1) sequence_Inr by blast
  then show "url_pattern r = c" "patterns_of rx val RULES = Inr (rules r)" "patterns_of rx val RAW_RULES = Inr (raw_rules r)"
    "patterns_of rx val REFERRAL_MARKETING = Inr (referral_marketing r)"
    "patterns_of rx val EXCEPTIONS = Inr (exceptions r)" "patterns_of rx val REDIRECTIONS = Inr (redirections r)"
    by (auto simp: ARRAY_KEYS_def Cons_eq_map_conv css(2))
qed

definition compiled :: "'c pcre2 \<Rightarrow> (string \<Rightarrow> string) \<Rightarrow> json \<Rightarrow> 'c option" where
  "compiled rx ext t = (case t of JString src \<Rightarrow> pcre2_compile rx (ext src) | _ \<Rightarrow> None)"

definition rules_named :: "string \<Rightarrow> 'c ruleset \<Rightarrow> 'c list" where
  "rules_named name r =
     (if name = RULES then rules r else if name = RAW_RULES then raw_rules r
      else if name = REFERRAL_MARKETING then referral_marketing r
      else if name = EXCEPTIONS then exceptions r else redirections r)"

lemma pattern_of_Inr: "pattern_of rx ext t = Inr c \<longleftrightarrow> compiled rx ext t = Some c"
  by (cases t) (auto simp: pattern_of_def compiled_def split: option.split)

lemma patterns_of_compiled:
  assumes "patterns_of rx val name = Inr cs" "json_object_get val name = Some (JArray ts)"
  shows "map Some cs = map (compiled rx (if name \<in> {RULES, REFERRAL_MARKETING} then extended else id)) ts"
proof -
  let ?f = "if name \<in> {RULES, REFERRAL_MARKETING} then extended else id"
  have "sequence (map (pattern_of rx ?f) ts) = Inr cs"
    using assms by (simp add: patterns_of_def)
  then have eq: "map (pattern_of rx ?f) ts = map Inr cs"
    using sequence_Inr by blast
  show ?thesis
  proof (rule nth_equalityI)
    show "length (map Some cs) = length (map (compiled rx ?f) ts)"
      using arg_cong[OF eq, of length] by simp
    fix i assume "i < length (map Some cs)"
    then have i: "i < length cs" "i < length ts"
      using arg_cong[OF eq, of length] by simp_all
    have "map (pattern_of rx ?f) ts ! i = map Inr cs ! i"
      by (simp only: eq)
    then have "pattern_of rx ?f (ts ! i) = Inr (cs ! i)"
      using i by simp
    then have "compiled rx ?f (ts ! i) = Some (cs ! i)"
      by (simp only: pattern_of_Inr)
    then show "map Some cs ! i = map (compiled rx ?f) ts ! i"
      using i by (simp only: nth_map)
  qed
qed

lemma fields_of_named:
  assumes "fields_of rx val = Inr r" "name \<in> set ARRAY_KEYS"
  shows "patterns_of rx val name = Inr (rules_named name r)"
proof -
  obtain c where "arrays_of rx val c = Inr r"
    using assms(1) by (auto simp: fields_of_def split: option.splits sum.splits)
  from arrays_of_Inr[OF this] assms(2) show ?thesis
    by (auto simp: ARRAY_KEYS_def rules_named_def json_key_defs)
qed

lemma provider_of_Some:
  assumes "provider_of rx (key, val) = Inr (Some r)"
  shows "fields_of rx val = Inr r \<and> \<not> prefix PREFIX_PROVIDER_IGNORE key \<and> json_object_get val COMPLETE_PROVIDER \<noteq> Some (JBool True)"
proof -
  have "map_sum id Some x = Inr (Some r) \<longleftrightarrow> x = Inr r" for x :: "unalixerr + 'a ruleset"
    by (cases x) auto
  then show ?thesis
    using assms by (auto simp: provider_of_def split: if_splits option.splits)
qed

lemma load_provider_patterns:
  assumes "ample p" "arrays_small val" "load_provider p rx i (key, val) = Some (Inr (Some r))"
    and "name \<in> set ARRAY_KEYS" "json_object_get val name = Some (JArray ts)"
  shows "map Some (rules_named name r) = map (compiled rx (if name \<in> {RULES, REFERRAL_MARKETING} then extended else id)) ts"
proof -
  have "provider_of rx (key, val) = Inr (Some r)"
    using load_provider_eq[of p i "(key, val)" rx] provider_memory_ample[OF assms(1,2), of i] assms(3)
    by (simp split: if_splits)
  from provider_of_Some[OF this] have "fields_of rx val = Inr r" by blast
  from patterns_of_compiled[OF fields_of_named[OF this assms(4)] assms(5)] show ?thesis .
qed

section \<open>Unloading\<close>

lemma unload_empty: "rulesets_inv (unalix_unload_rulesets obj)" "get_rulesets (unalix_unload_rulesets obj) = []"
  "unalix_unload_rulesets obj = rulesets_with []"
  by (simp_all add: unalix_unload_rulesets_def rulesets_free_def rulesets_inv_def get_rulesets_def rulesets_with_def)

lemma clean_without_rulesets:
  "clean_frame p rx [] fl (Some url) True =
     Some (Inl (if url = [] then UNALIXERR_ARG_INVALID else UNALIXERR_RULESETS_EMPTY, None))"
  by (simp add: clean_frame_def)

end
