(* ===== verification/SHA256_Proofs.thy ===== *)
theory SHA256_Proofs
  imports SHA256
begin

text \<open>
  SHA-256 as the standard (FIPS 180-4) defines it, on a whole text, and the proof
  that BearSSL's context computes it however the text is cut into pieces.
\<close>

section \<open>The functions of the standard\<close>

definition Ch :: "32 word \<Rightarrow> 32 word \<Rightarrow> 32 word \<Rightarrow> 32 word" where
  "Ch x y z = (x AND y) XOR (NOT x AND z)"

definition Maj :: "32 word \<Rightarrow> 32 word \<Rightarrow> 32 word \<Rightarrow> 32 word" where
  "Maj x y z = (x AND y) XOR (x AND z) XOR (y AND z)"

definition Sigma0 :: "32 word \<Rightarrow> 32 word" where
  "Sigma0 x = word_rotr 2 x XOR word_rotr 13 x XOR word_rotr 22 x"

definition Sigma1 :: "32 word \<Rightarrow> 32 word" where
  "Sigma1 x = word_rotr 6 x XOR word_rotr 11 x XOR word_rotr 25 x"

definition sigma0 :: "32 word \<Rightarrow> 32 word" where
  "sigma0 x = word_rotr 7 x XOR word_rotr 18 x XOR drop_bit 3 x"

definition sigma1 :: "32 word \<Rightarrow> 32 word" where
  "sigma1 x = word_rotr 17 x XOR word_rotr 19 x XOR drop_bit 10 x"

lemma CH_Ch: "CH x y z = Ch x y z"
  by (rule bit_word_eqI) (auto simp: CH_def Ch_def bit_simps)

lemma MAJ_Maj: "MAJ x y z = Maj x y z"
  by (rule bit_word_eqI) (auto simp: MAJ_def Maj_def bit_simps)

lemma ROTR_word_rotr: "n < 32 \<Longrightarrow> ROTR x n = word_rotr n x"
proof (rule bit_word_eqI)
  fix k :: nat
  assume n: "n < 32" and "k < LENGTH(32)"
  then have k: "k < 32" by simp
  have left: "bit (ROTR x n) k \<longleftrightarrow> 32 - n \<le> k \<and> bit x (k - (32 - n)) \<or> bit x (n + k)"
    using k by (simp add: ROTR_def bit_or_iff bit_push_bit_iff bit_drop_bit_eq)
  have right: "bit (word_rotr n x) k \<longleftrightarrow> bit x ((k + n) mod 32)"
    using k by (simp add: bit_word_rotr_iff)
  show "bit (ROTR x n) k = bit (word_rotr n x) k"
  proof (cases "k + n < 32")
    case True
    then have "\<not> 32 - n \<le> k" by simp
    then show ?thesis
      using True unfolding left right by (simp only: mod_less simp_thms add.commute)
  next
    case False
    then have "\<not> bit x (n + k)"
      using bit_imp_le_length[of x "n + k"] by auto
    moreover have "(k + n) mod 32 = k - (32 - n)"
      using False n k by (simp add: le_mod_geq)
    ultimately show ?thesis
      using False unfolding left right by (simp add: le_diff_conv)
  qed
qed

lemma macros_standard:
  "BSG2_0 x = Sigma0 x" "BSG2_1 x = Sigma1 x" "SSG2_0 x = sigma0 x" "SSG2_1 x = sigma1 x"
  by (simp_all add: BSG2_0_def BSG2_1_def SSG2_0_def SSG2_1_def Sigma0_def Sigma1_def sigma0_def sigma1_def ROTR_word_rotr)

section \<open>The compression of a block\<close>

text \<open>The message schedule by its recursion, and one round with the values moving along.\<close>

fun schedule :: "32 word list \<Rightarrow> nat \<Rightarrow> 32 word" where
  "schedule M t =
     (if t < 16 then M ! t
      else sigma1 (schedule M (t - 2)) + schedule M (t - 7) + sigma0 (schedule M (t - 15)) + schedule M (t - 16))"

declare schedule.simps [simp del]

fun round_step :: "(nat \<Rightarrow> 32 word) \<Rightarrow> nat \<Rightarrow> working \<Rightarrow> working" where
  "round_step W t (a, b, c, d, e, f, g, h) =
     (let T1 = h + Sigma1 e + Ch e f g + K256 ! t + W t;
          T2 = Sigma0 a + Maj a b c
      in (T1 + T2, a, b, c, d + T1, e, f, g))"

fun working_of :: "32 word list \<Rightarrow> working" where
  "working_of [a, b, c, d, e, f, g, h] = (a, b, c, d, e, f, g, h)"
| "working_of _ = (0, 0, 0, 0, 0, 0, 0, 0)"

fun add_working :: "32 word list \<Rightarrow> working \<Rightarrow> 32 word list" where
  "add_working H (a, b, c, d, e, f, g, h) = map2 (+) H [a, b, c, d, e, f, g, h]"

definition compress :: "32 word list \<Rightarrow> string \<Rightarrow> 32 word list" where
  "compress H block = add_working H (fold (round_step (schedule (br_range_dec32be 16 block))) [0..<64] (working_of H))"

lemma length_added [simp]: "length H = 8 \<Longrightarrow> length (add_working H v) = 8"
  by (cases "(H, v)" rule: add_working.cases) simp

lemma length_compress [simp]: "length H = 8 \<Longrightarrow> length (compress H block) = 8"
  by (simp add: compress_def)

lemma length_range_dec [simp]: "length (br_range_dec32be n buf) = n"
  by (induction n arbitrary: buf) simp_all

lemma schedule_low: "t < 16 \<Longrightarrow> schedule M t = M ! t"
  by (subst schedule.simps) simp

lemma sha2_schedule_eq: "sha2_schedule buf = map (schedule (br_range_dec32be 16 buf)) [0..<64]"
proof -
  let ?M = "br_range_dec32be 16 buf"
  have "fold (\<lambda>i w. w @ [schedule_entry w i]) [16..<n] ?M = map (schedule ?M) [0..<n]" if "16 \<le> n" for n
    using that
  proof (induction rule: dec_induct)
    case base
    show ?case
      by (rule nth_equalityI) (simp_all add: schedule_low del: upt_rec_numeral)
  next
    case (step n)
    have "schedule_entry (map (schedule ?M) [0..<n]) n = schedule ?M n"
      using step.hyps(1) by (subst schedule.simps) (simp add: schedule_entry_def macros_standard)
    then show ?case
      using step by simp
  qed
  then show ?thesis
    by (simp add: sha2_schedule_def del: upt_rec_numeral)
qed

text \<open>Eight steps with rotating names are eight rounds.\<close>

lemma SHA2_STEP_eq:
  "j < 64 \<Longrightarrow> SHA2_STEP (map W [0..<64]) A B C D E F G H j =
     (D + (H + Sigma1 E + Ch E F G + K256 ! j + W j),
      H + Sigma1 E + Ch E F G + K256 ! j + W j + (Sigma0 A + Maj A B C))"
  by (simp add: SHA2_STEP_def Let_def CH_Ch MAJ_Maj macros_standard)

lemma sha2_steps_eq:
  assumes "i + 8 \<le> 64"
  shows "sha2_steps (map W [0..<64]) i v = fold (round_step W) [i..<i + 8] v"
proof -
  have upt: "[i..<i + 8] = [i + 0, i + 1, i + 2, i + 3, i + 4, i + 5, i + 6, i + 7]"
    by (rule nth_equalityI) (auto simp: less_Suc_eq numeral_eq_Suc)
  have le: "i + 0 < 64" "i + 1 < 64" "i + 2 < 64" "i + 3 < 64" "i + 4 < 64" "i + 5 < 64" "i + 6 < 64" "i + 7 < 64"
    using assms by simp_all
  obtain a b c d e f g h where v: "v = (a, b, c, d, e, f, g, h)"
    by (cases "(W, i, v)" rule: round_step.cases) blast
  show ?thesis
    unfolding upt sha2_steps_def v
    by (simp only: Let_def prod.case SHA2_STEP_eq[OF le(1)] SHA2_STEP_eq[OF le(2)] SHA2_STEP_eq[OF le(3)] SHA2_STEP_eq[OF le(4)]
        SHA2_STEP_eq[OF le(5)] SHA2_STEP_eq[OF le(6)] SHA2_STEP_eq[OF le(7)] SHA2_STEP_eq[OF le(8)]
        fold_simps round_step.simps)
qed

lemma round_compress:
  assumes "length val = 8"
  shows "br_sha2small_round buf val = compress val buf"
proof -
  let ?W = "schedule (br_range_dec32be 16 buf)"
  obtain a b c d e f g h where val: "val = [a, b, c, d, e, f, g, h]"
    using assms by (auto simp: length_Suc_conv numeral_eq_Suc)
  let ?r = "round_step ?W"
  have upto: "[0..<k + 8] = [0..<k] @ [k..<k + 8]" for k :: nat
    by (rule upt_add_eq_append) simp
  have "fold ?r [0..<64] v = fold ?r ([0..<0 + 8] @ [8..<8 + 8] @ [16..<16 + 8] @ [24..<24 + 8] @ [32..<32 + 8] @ [40..<40 + 8] @ [48..<48 + 8] @ [56..<56 + 8]) v" for v
    using upto[of 56] upto[of 48] upto[of 40] upto[of 32] upto[of 24] upto[of 16] upto[of 8] by (simp del: upt_rec_numeral)
  then have "fold (sha2_steps (sha2_schedule buf)) [0, 8, 16, 24, 32, 40, 48, 56] v = fold ?r [0..<64] v" for v
    by (simp add: sha2_schedule_eq sha2_steps_eq del: upt_rec_numeral)
  then show ?thesis
    by (simp add: br_sha2small_round_def compress_def val Let_def split: prod.split del: upt_rec_numeral)
qed

section \<open>Blocks and padding\<close>

fun blocks :: "string \<Rightarrow> string list" where
  "blocks s = (if length s < 64 then [] else take 64 s # blocks (drop 64 s))"

declare blocks.simps [simp del]

lemma blocks_short: "length s < 64 \<Longrightarrow> blocks s = []"
  by (subst blocks.simps) simp

lemma blocks_Cons: "length b = 64 \<Longrightarrow> blocks (b @ s) = b # blocks s"
  by (subst blocks.simps) simp

lemma blocks_append: "64 dvd length s \<Longrightarrow> blocks (s @ t) = blocks s @ blocks t"
proof (induction s rule: blocks.induct)
  case (1 s)
  show ?case
  proof (cases "length s < 64")
    case True
    with 1(2) have "s = []"
      by (auto dest: dvd_imp_le)
    then show ?thesis by (simp add: blocks_short)
  next
    case False
    then have "blocks (drop 64 s @ t) = blocks (drop 64 s) @ blocks t"
      using 1 by (intro 1(1)) (auto intro: dvd_diff_nat)
    moreover have "blocks (s @ t) = take 64 s # blocks (drop 64 s @ t)"
      using False by (subst blocks.simps) simp
    moreover have "blocks s = take 64 s # blocks (drop 64 s)"
      using False by (subst blocks.simps) simp
    ultimately show ?thesis by simp
  qed
qed

text \<open>The state behind the whole blocks of a text.\<close>

definition chain :: "32 word list \<Rightarrow> string \<Rightarrow> 32 word list" where
  "chain H s = fold (\<lambda>b H. compress H b) (blocks s) H"

lemma chain_append: "64 dvd length s \<Longrightarrow> chain H (s @ t) = chain (chain H s) t"
  by (simp add: chain_def blocks_append)

lemma chain_short: "length s < 64 \<Longrightarrow> chain H s = H"
  by (simp add: chain_def blocks_short)

lemma chain_block: "length b = 64 \<Longrightarrow> chain H b = compress H b"
  using blocks_Cons[of b "[]"] by (simp add: chain_def blocks_short)

lemma length_chain [simp]: "length H = 8 \<Longrightarrow> length (chain H s) = 8"
proof -
  have "length H = 8 \<Longrightarrow> length (fold (\<lambda>b H. compress H b) bs H) = 8" for bs H
    by (induction bs arbitrary: H) simp_all
  then show "length H = 8 \<Longrightarrow> length (chain H s) = 8"
    by (simp add: chain_def)
qed

text \<open>A text is padded with the bit 1, zeros up to 56 bytes of a block, and its length in bits.\<close>

definition padded :: "string \<Rightarrow> string" where
  "padded s = s @ [CHR 0x80] @ replicate ((119 - length s mod 64) mod 64) nul @ br_enc64be (of_nat (8 * length s))"

definition SHA256 :: "string \<Rightarrow> string" where
  "SHA256 s = concat (map br_enc32be (chain br_sha256_IV (padded s)))"

lemma length_enc32 [simp]: "length (br_enc32be x) = 4"
  by (simp add: br_enc32be_def)

lemma length_enc64 [simp]: "length (br_enc64be x) = 8"
  by (simp add: br_enc64be_def)

lemma length_IV [simp]: "length br_sha256_IV = 8"
  by (simp add: br_sha256_IV_def)

lemma length_SHA256 [simp]: "length (SHA256 s) = 32"
proof -
  have "length (concat (map br_enc32be v)) = 4 * length v" for v
    by (induction v) simp_all
  then show ?thesis
    by (simp add: SHA256_def)
qed

lemma zeros_low: "r < 56 \<Longrightarrow> (119 - r) mod 64 = (55 - r :: nat)"
  using le_mod_geq[of 64 "119 - r"] by simp

lemma zeros_high: "56 \<le> r \<Longrightarrow> (119 - r) mod 64 = (119 - r :: nat)"
  by simp

lemma padded_blocks: "64 dvd length (padded s)"
proof -
  have "(r + (119 - r) mod 64 + 9) mod 64 = 0" if "r < 64" for r :: nat
  proof (cases "r < 56")
    case True
    then have "r + (119 - r) mod 64 + 9 = 64"
      by (simp add: zeros_low)
    then show ?thesis by simp
  next
    case False
    then have "r + (119 - r) mod 64 + 9 = 128"
      using that by (simp add: zeros_high)
    then show ?thesis by simp
  qed
  from this[of "length s mod 64"] have "(length s + ((119 - length s mod 64) mod 64 + 9)) mod 64 = 0"
    by (simp only: mod_less_divisor zero_less_numeral add.assoc mod_add_left_eq)
  moreover have "length (padded s) = length s + ((119 - length s mod 64) mod 64 + 9)"
    by (simp add: padded_def)
  ultimately show ?thesis
    by (simp only: dvd_eq_mod_eq_0)
qed

section \<open>The context\<close>

text \<open>What the context keeps of the text \<open>s\<close>: the state of its blocks and, in the buffer, the rest.\<close>

definition filled :: "nat \<Rightarrow> br_sha256_context \<Rightarrow> string \<Rightarrow> bool" where
  "filled ptr cc s \<longleftrightarrow>
     ptr < 64 \<and> length (sha_buf cc) = 64 \<and>
     (\<exists>whole. 64 dvd length whole \<and> s = whole @ take ptr (sha_buf cc) \<and> sha_val cc = chain br_sha256_IV whole)"

definition absorbed :: "br_sha256_context \<Rightarrow> string \<Rightarrow> bool" where
  "absorbed cc s \<longleftrightarrow> filled (length s mod 64) cc s \<and> sha_count cc = of_nat (length s)"

lemma filled_ptr: "filled ptr cc s \<Longrightarrow> ptr = length s mod 64"
  by (auto simp: filled_def mod_add_eq[symmetric] elim!: dvdE)

lemma count_ptr: "unat (of_nat n AND (63 :: 64 word)) = n mod 64"
proof -
  have "(63 :: 64 word) = mask 6"
    by (simp add: mask_eq_exp_minus_1)
  then have "of_nat n AND (63 :: 64 word) = take_bit 6 (of_nat n)"
    by (simp only: take_bit_eq_mask)
  then show ?thesis
    by (simp add: unat_mod_distrib unat_of_nat take_bit_eq_mod mod_mod_cancel)
qed

lemma update_step_filled:
  assumes "filled ptr cc s" "buf \<noteq> []"
  obtains ptr' n cc' where "update_step (ptr, buf, cc) = (ptr', drop n buf, cc')" "0 < n" "n \<le> length buf"
    "filled ptr' cc' (s @ take n buf)" "sha_count cc' = sha_count cc"
proof -
  define n where "n = min (64 - ptr) (length buf)"
  define b where "b = take ptr (sha_buf cc) @ take n buf @ drop (ptr + n) (sha_buf cc)"
  obtain whole where ptr: "ptr < 64" and lb: "length (sha_buf cc) = 64"
    and whole: "64 dvd length whole" "s = whole @ take ptr (sha_buf cc)" "sha_val cc = chain br_sha256_IV whole"
    using assms(1) unfolding filled_def by blast
  have n: "0 < n" "n \<le> length buf" "ptr + n \<le> 64"
    using ptr assms(2) by (auto simp: n_def min_def)
  have len: "length b = 64" and tk: "take (ptr + n) b = take ptr (sha_buf cc) @ take n buf"
    using n ptr lb by (auto simp: b_def)
  have clen: "(if 64 - ptr > length buf then length buf else 64 - ptr) = n"
    by (simp add: n_def min_def)
  let ?cc = "cc\<lparr>sha_buf := b\<rparr>"
  show thesis
  proof (cases "ptr + n = 64")
    case True
    let ?cc' = "?cc\<lparr>sha_val := br_sha2small_round b (sha_val cc)\<rparr>"
    have st: "update_step (ptr, buf, cc) = (0, drop n buf, ?cc')"
      using True clen by (simp add: update_step_def b_def)
    have fl: "filled 0 ?cc' (s @ take n buf)"
      unfolding filled_def
    proof (intro conjI exI[of _ "whole @ b"])
      show "64 dvd length (whole @ b)"
        using whole(1) len by simp
      show "s @ take n buf = (whole @ b) @ take 0 (sha_buf ?cc')"
        using tk True len whole(2) by simp
      show "sha_val ?cc' = chain br_sha256_IV (whole @ b)"
        using whole(1,3) len by (simp add: chain_append chain_block round_compress)
    qed (simp_all add: len)
    show thesis
      by (rule that[OF st n(1,2) fl]) simp
  next
    case False
    have st: "update_step (ptr, buf, cc) = (ptr + n, drop n buf, ?cc)"
      using False by (simp add: update_step_def clen b_def[symmetric])
    have fl: "filled (ptr + n) ?cc (s @ take n buf)"
      unfolding filled_def using False n len tk whole by auto
    show thesis
      by (rule that[OF st n(1,2) fl]) simp
  qed
qed

lemma update_absorbed:
  assumes "absorbed cc s"
  shows "absorbed (br_sha256_update cc data) (s @ data)"
proof -
  let ?c = "cc\<lparr>sha_count := sha_count cc + of_nat (length data)\<rparr>"
  let ?go = "\<lambda>(ptr :: nat, buf :: string, cc :: br_sha256_context). length buf > 0"
  let ?P = "\<lambda>(ptr, buf, c). \<exists>u. data = u @ buf \<and> filled ptr c (s @ u) \<and> sha_count c = sha_count ?c"
  let ?s = "(unat (sha_count cc AND 63), data, ?c)"
  have "?P (while ?go update_step ?s) \<and> \<not> ?go (while ?go update_step ?s)"
  proof (rule while_rule[where P = ?P and r = "measure (\<lambda>(ptr, buf, c). length buf)"])
    have "filled (length s mod 64) ?c s"
      using assms by (simp add: absorbed_def filled_def)
    then show "?P ?s"
      using assms by (simp add: absorbed_def count_ptr)
  next
    fix st assume P: "?P st" and go: "?go st"
    obtain ptr buf c u where st: "st = (ptr, buf, c)" and u: "data = u @ buf" "filled ptr c (s @ u)" "sha_count c = sha_count ?c"
      using P by (cases st) auto
    then have "buf \<noteq> []"
      using go by auto
    then obtain ptr' n c' where step: "update_step (ptr, buf, c) = (ptr', drop n buf, c')" "0 < n" "n \<le> length buf"
      "filled ptr' c' ((s @ u) @ take n buf)" "sha_count c' = sha_count c"
      by (rule update_step_filled[OF u(2)])
    show "?P (update_step st)"
      using step u by (auto simp: st intro!: exI[of _ "u @ take n buf"])
    show "(update_step st, st) \<in> measure (\<lambda>(ptr, buf, c). length buf)"
      using step by (simp add: st)
  qed auto
  then obtain ptr c where stop: "while ?go update_step ?s = (ptr, [], c)"
    and c: "filled ptr c (s @ data)" "sha_count c = sha_count ?c"
    by (cases "while ?go update_step ?s") auto
  then have "br_sha256_update cc data = c"
    by (simp add: br_sha256_update_def)
  then show ?thesis
    using c assms filled_ptr[OF c(1)] by (simp add: absorbed_def)
qed

lemma init_absorbed: "length (sha_buf cc) = 64 \<Longrightarrow> absorbed (br_sha256_init cc) []"
  by (auto simp: absorbed_def filled_def br_sha256_init_def chain_short intro!: exI[of _ "[]"])

lemma range_enc: "length v = n \<Longrightarrow> br_range_enc32be v n = concat (map br_enc32be v)"
  by (induction n arbitrary: v) (auto simp: length_Suc_conv)

lemma bits_count: "push_bit 3 (of_nat n :: 64 word) = of_nat (8 * n)"
  by (simp add: push_bit_eq_mult mult.commute)

lemma out_SHA256:
  assumes "absorbed cc s"
  shows "br_sha256_out cc = SHA256 s"
proof -
  let ?r = "length s mod 64"
  let ?len = "br_enc64be (of_nat (8 * length s))"
  obtain whole where r: "?r < 64" "length (sha_buf cc) = 64" and whole: "64 dvd length whole"
      "s = whole @ take ?r (sha_buf cc)" "sha_val cc = chain br_sha256_IV whole"
    using assms unfolding absorbed_def filled_def by blast
  let ?t = "take ?r (sha_buf cc) @ [CHR 0x80]"
  have len: "length (sha_val cc) = 8" "length ?t = ?r + 1"
    using whole(3) r by simp_all
  have count: "unat (sha_count cc AND 63) = ?r" "push_bit 3 (sha_count cc) = of_nat (8 * length s)"
    using assms by (simp_all only: absorbed_def count_ptr bits_count)
  have pad: "padded s = whole @ ?t @ replicate ((119 - ?r) mod 64) nul @ ?len"
    by (subst (1) padded_def, subst (1) whole(2)) simp
  have "br_sha256_out cc = concat (map br_enc32be (chain (sha_val cc) (?t @ replicate ((119 - ?r) mod 64) nul @ ?len)))"
  proof (cases "?r + 1 > 56")
    case True
    have two: "?t @ replicate ((119 - ?r) mod 64) nul @ ?len = (?t @ replicate (63 - ?r) nul) @ (replicate 56 nul @ ?len)"
      using True r by (simp add: replicate_add[symmetric])
    have "length (?t @ replicate (63 - ?r) nul) = 64" "length (replicate 56 nul @ ?len) = 64"
      using True r by auto
    then show ?thesis
      unfolding two using True len(1)
      by (simp add: br_sha256_out_def sha2small_out_def count Let_def round_compress chain_append chain_block range_enc del: append_assoc)
  next
    case False
    have one: "(119 - ?r) mod 64 = 55 - ?r"
      using False by (simp add: zeros_low)
    have "length (?t @ replicate (55 - ?r) nul @ ?len) = 64"
      using False r by auto
    then show ?thesis
      unfolding one using False len(1)
      by (simp add: br_sha256_out_def sha2small_out_def count Let_def round_compress chain_block range_enc)
  qed
  also have "\<dots> = SHA256 s"
    by (simp only: SHA256_def pad chain_append[OF whole(1)] whole(3))
  finally show ?thesis .
qed

text \<open>However a text is cut into the pieces of the calls of \<open>br_sha256_update\<close>.\<close>

lemma updates_absorbed: "absorbed cc s \<Longrightarrow> absorbed (fold (\<lambda>c cc. br_sha256_update cc c) chunks cc) (s @ concat chunks)"
proof (induction chunks arbitrary: cc s)
  case (Cons c chunks)
  from Cons.IH[OF update_absorbed[OF Cons.prems]] show ?case by simp
qed simp

end
