(* ===== verification/Update_Proofs.thy ===== *)
theory Update_Proofs
  imports Unshort_Proofs Rulesets_Proofs SHA256_Proofs
begin

text \<open>
  What an update of the ruleset does to the files: only the temporary file and the
  target can change, the target only when everything was verified; and the
  deviations of the error paths.
\<close>

section \<open>The hash of a file\<close>

text \<open>Reading pairs of hexadecimal digits back.\<close>

fun unhex :: "string \<Rightarrow> string" where
  "unhex (a # b # s) = char_of (code (from_hex a) * 16 + code (from_hex b) :: nat) # unhex s"
| "unhex _ = []"

lemma unhex_hex_byte: "unhex (hex_byte c @ s) = c # unhex s"
proof -
  have code: "code c < (256::nat)"
    by (rule nat_of_char_less_256)
  then have "code c div 16 < (16::nat)"
    by (intro less_mult_imp_div_less) simp
  then show ?thesis
    by (simp add: hex_byte_digits from_hex_to_hex)
qed

lemma unhex_digest: "unhex (concat (map hex_byte s)) = s"
  by (induction s) (simp_all add: unhex_hex_byte)

lemma length_digest: "length (concat (map hex_byte s)) = 2 * length s"
  by (induction s) (simp_all add: hex_byte_def)

text \<open>The chunks of a file reach the context in order, whatever their size.\<close>

lemma hash_loop_absorbed: "absorbed ctx s \<Longrightarrow> absorbed (hash_loop ctx data) (s @ data)"
proof (induction ctx data arbitrary: s rule: hash_loop.induct)
  case (1 ctx data)
  show ?case
  proof (cases "data = []")
    case True
    then show ?thesis
      using 1(2) by (subst hash_loop.simps) (simp add: Let_def)
  next
    case False
    let ?chunk = "take FILERW_MAX_CHUNK_SIZE data"
    have "length ?chunk \<noteq> 0"
      using False by (simp add: FILERW_MAX_CHUNK_SIZE_def)
    moreover have "absorbed (br_sha256_update ctx ?chunk) (s @ ?chunk)"
      by (rule update_absorbed[OF 1(2)])
    ultimately have "absorbed (hash_loop (br_sha256_update ctx ?chunk) (drop FILERW_MAX_CHUNK_SIZE data)) ((s @ ?chunk) @ drop FILERW_MAX_CHUNK_SIZE data)"
      by (intro 1(1)) simp_all
    with \<open>length ?chunk \<noteq> 0\<close> show ?thesis
      by (subst hash_loop.simps) (simp add: Let_def)
  qed
qed

lemma hash_loop_digest: "br_sha256_out (hash_loop (br_sha256_init zero_sha256) data) = SHA256 data"
  using out_SHA256[OF hash_loop_absorbed[OF init_absorbed]] by (simp add: zero_sha256_def)

definition hex_digest :: "string \<Rightarrow> string" where
  "hex_digest data = concat (map hex_byte (SHA256 data))"

lemma length_hex_digest [simp]: "length (hex_digest data) = 64"
  by (simp add: hex_digest_def length_digest)

lemma to_hex_digit: "n < (16::nat) \<Longrightarrow> to_hex (char_of n) \<in> set ''0123456789abcdef''"
proof -
  assume "n < 16"
  then have "n \<in> {0, 1, 2, 3, 4, 5, 6, 7, 8, 9, 10, 11, 12, 13, 14, 15}"
    by (auto simp: eval_nat_numeral less_Suc_eq)
  then show ?thesis
    by (elim insertE emptyE) (simp_all add: to_hex_def schar_def, simp_all add: char_of_def bit_0)
qed

lemma hex_digest_digits: "set (hex_digest data) \<subseteq> set ''0123456789abcdef''"
proof -
  have "set (hex_byte c) \<subseteq> set ''0123456789abcdef''" for c
  proof -
    have "code c < (256::nat)"
      by (rule nat_of_char_less_256)
    then have "code c div 16 < (16::nat)"
      by (intro less_mult_imp_div_less) simp
    then show ?thesis
      unfolding hex_byte_digits using to_hex_digit[of "code c div 16"] to_hex_digit[of "code c mod 16"]
      by (simp only: list.set(1,2) insert_subset empty_subsetI simp_thms)
  qed
  then show ?thesis
    unfolding hex_digest_def by (auto simp del: list.set)
qed

lemma lower_to_hex: "n < (16::nat) \<Longrightarrow> lower_hex (to_hex (char_of n)) = to_hex (char_of n)"
  using code_to_hex[of n] by (cases "n > 9") (auto simp: lower_hex_def schar_def)

lemma lower_hex_digest [simp]: "map lower_hex (hex_digest data) = hex_digest data"
proof -
  have "map lower_hex (hex_byte c) = hex_byte c" for c
  proof -
    have "code c < (256::nat)"
      by (rule nat_of_char_less_256)
    then have "code c div 16 < (16::nat)"
      by (intro less_mult_imp_div_less) simp
    then show ?thesis
      by (simp add: hex_byte_digits lower_to_hex)
  qed
  then show ?thesis
    by (simp add: hex_digest_def map_concat comp_def)
qed

lemma sha256_digest_eq:
  assumes "fs filename = Some f" "os_can_read os filename" "os_read_error os filename = None"
  shows "sha256_digest os fs filename = (UNALIXERR_SUCCESS, hex_digest (file_content f))"
  using assms by (simp add: sha256_digest_def fopen_read_def stream_error_def stream_data_def hash_loop_digest hex_digest_def)

section \<open>What an update does to the files\<close>

text \<open>The files that two file systems may differ in.\<close>

definition same_but :: "string set \<Rightarrow> filesys \<Rightarrow> filesys \<Rightarrow> bool" where
  "same_but names fs fs' \<longleftrightarrow> (\<forall>n. n \<notin> names \<longrightarrow> fs' n = fs n)"

lemma same_but_refl [simp]: "same_but names fs fs"
  by (simp add: same_but_def)

lemma same_but_trans: "same_but A fs fs1 \<Longrightarrow> same_but B fs1 fs2 \<Longrightarrow> A \<subseteq> C \<Longrightarrow> B \<subseteq> C \<Longrightarrow> same_but C fs fs2"
  unfolding same_but_def by (metis subsetD)

lemma same_but_remove_in: "same_but {file} fs (remove_in os fs file)"
  by (simp add: same_but_def remove_in_def remove_file_def)

lemma same_but_fopen: "fopen_write os fs file = Some fs' \<Longrightarrow> same_but {file} fs fs'"
  by (auto simp: same_but_def fopen_write_def split: if_splits)

lemma same_but_copy: "copy_file os fs source file = Some (ok, fs') \<Longrightarrow> same_but {file} fs fs'"
  using copy_loop_other same_but_fopen
  by (fastforce simp: same_but_def copy_file_def split: option.splits)

lemma same_but_read:
  "http_response_read p os context (Some file) fs = Some (rc, context', fs') \<Longrightarrow> same_but {file} fs fs'"
  by (auto simp: same_but_def intro: http_response_read_file_only)

lemma read_loop_memory_files:
  "read_loop p os h None incoming (response, fs) = (rc, rest, response', fs') \<Longrightarrow> fs' = fs"
proof (induction "sum_list (map arrival_size incoming)" arbitrary: incoming response rule: less_induct)
  case less
  show ?case
  proof (cases rule: recv_cases[of MAX_CHUNK_SIZE incoming])
    case (received bs as')
    obtain rc1 response1 fs1 where st1: "store_chunk p os None bs (response, fs) = (rc1, response1, fs1)"
      by (cases "store_chunk p os None bs (response, fs)")
    moreover have "snd (snd (store_chunk p os None bs (response, fs))) = fs"
      by (simp add: store_chunk_def Let_def)
    ultimately have st: "store_chunk p os None bs (response, fs) = (rc1, response1, fs)"
      by simp
    show ?thesis
    proof (cases "rc1 = UNALIXERR_SUCCESS")
      case True
      then have "read_loop p os h None as' (response1, fs) = (rc, rest, response', fs')"
        using less.prems st received by (subst (asm) read_loop.simps) simp
      then show ?thesis
        by (rule less.hyps[OF recv_decreases[OF received MAX_CHUNK_pos]])
    next
      case False
      then show ?thesis
        using less.prems st received by (subst (asm) read_loop.simps) simp
    qed
  next
    case closed
    then show ?thesis
      using less.prems by (subst (asm) read_loop.simps) simp
  next
    case failed
    then show ?thesis
      using less.prems by (subst (asm) read_loop.simps) (auto split: if_splits)
  qed
qed

lemma same_read_memory:
  "http_response_read p os context None fs = Some (rc, context', fs') \<Longrightarrow> fs' = fs"
  by (auto simp: http_response_read_def Let_def split: option.splits prod.splits if_splits dest!: read_loop_memory_files)

lemma same_but_move:
  assumes "move_file os fs source destination = Some (m, fs')"
  shows "same_but {source, destination} fs fs'"
proof (cases "if fs source = None then Rename_Error else os_rename os source destination")
  case Rename_EXDEV
  with assms obtain copied fs1 where copy: "copy_file os fs source destination = Some (copied, fs1)"
    "fs' = (if copied then snd (remove_file os fs1 source) else fs1)"
    by (auto simp: move_file_def bind_eq_Some_conv Let_def)
  have "same_but {source} fs1 fs'"
    using copy(2) same_but_remove_in[of source fs1 os] by (simp add: remove_in_def)
  from same_but_trans[OF same_but_copy[OF copy(1)] this] show ?thesis by blast
next
  case Renamed
  with assms show ?thesis by (auto simp: move_file_def same_but_def)
next
  case Rename_Error
  with assms show ?thesis by (simp add: move_file_def)
qed

lemma download_files:
  "leaves (download sv file (context, fs)) (\<lambda>(rc, c, fs'). same_but {file} fs fs' \<and> rc \<noteq> UNALIXERR_SUCCESS)
     (\<lambda>(c, fs'). same_but {file} fs fs' \<and> (\<exists>c0. c = http_context_free c0))"
proof (cases "fopen_write (sv_os sv) fs file")
  case (Some fs1)
  have 1: "same_but {file} fs fs1"
    by (rule same_but_fopen[OF Some])
  show ?thesis
  proof (cases "http_response_read (sv_platform sv) (sv_os sv) context (Some file) fs1")
    case None
    with Some show ?thesis by (simp add: download_def)
  next
    case (Some r)
    obtain rc c fs2 where [simp]: "r = (rc, c, fs2)" by (cases r)
    have "same_but {file} fs fs2"
      using same_but_trans[OF 1 same_but_read] Some by auto
    moreover from this have "same_but {file} fs (remove_in (sv_os sv) fs2 file)"
      using same_but_trans same_but_remove_in by blast
    ultimately show ?thesis
      using Some \<open>fopen_write (sv_os sv) fs file = Some fs1\<close> by (auto simp: download_def Let_def)
  qed
qed (simp add: download_def)

text \<open>
  The hash published at an URL: the first 64 characters of the body that the
  second exchange delivers to a context that was released.
\<close>

definition published_hash :: "'c services \<Rightarrow> string \<Rightarrow> filesys \<Rightarrow> string \<Rightarrow> bool" where
  "published_hash sv url fs h \<longleftrightarrow> (\<exists>c0 c1 c2.
     fetch (in_call 1 (sv_platform sv)) (sv_exchange sv 1) url ''text/plain'' (http_context_free c0) = Some (Inr c1) \<and>
     http_response_read (in_call 1 (sv_platform sv)) (sv_os sv) c1 None fs = Some (UNALIXERR_SUCCESS, c2, fs) \<and>
     memcpy_range (opt_str (body_content (rs_body (ctx_response c2)))) 0 64 = Some h)"

text \<open>The hash of a file is the published one, up to the case of its digits.\<close>

definition hash_matches :: "'c services \<Rightarrow> string \<Rightarrow> string \<Rightarrow> filesys \<Rightarrow> bool" where
  "hash_matches sv url file fs \<longleftrightarrow> (\<exists>data h.
     fopen_read (sv_os sv) fs file = Some data \<and> published_hash sv url fs h \<and>
     hex_digest data = map lower_hex h)"

lemma fetch_fails:
  "leaves (fetch p ex url a context) (\<lambda>(rc, c). rc \<noteq> UNALIXERR_SUCCESS) (\<lambda>_. True)"
  unfolding fetch_def by (intro leaves_stage[where Q = "\<lambda>_. True"] leaves_attempt) simp_all

lemma sha256_digest_Success:
  "sha256_digest os fs file = (UNALIXERR_SUCCESS, d) \<Longrightarrow> \<exists>data. fopen_read os fs file = Some data \<and> d = hex_digest data"
  by (auto simp: sha256_digest_def Let_def hash_loop_digest hex_digest_def split: option.splits if_splits)

lemma compare_hash_files:
  assumes "fetch (in_call 1 (sv_platform sv)) (sv_exchange sv 1) url ''text/plain'' (http_context_free c0) = Some (Inr c)"
  shows "leaves (compare_hash sv file fs c) (\<lambda>(rc, c, fs'). same_but {file} fs fs' \<and> rc \<noteq> UNALIXERR_SUCCESS)
     (\<lambda>(c, fs'). (fs' = fs \<and> hash_matches sv url file fs) \<and> (\<exists>c0. c = http_context_free c0))"
proof (cases "http_response_read (in_call 1 (sv_platform sv)) (sv_os sv) c None fs")
  case None
  then show ?thesis by (simp add: compare_hash_def)
next
  case (Some r)
  have rm: "same_but {file} fs (remove_in (sv_os sv) fs file)"
    by (rule same_but_remove_in)
  obtain rc c1 where r: "http_response_read (in_call 1 (sv_platform sv)) (sv_os sv) c None fs = Some (rc, c1, fs)"
    using Some same_read_memory by (cases r) blast
  let ?h = "memcpy_range (opt_str (body_content (rs_body (ctx_response c1)))) 0 64"
  show ?thesis
  proof (cases ?h)
    case None
    then show ?thesis
      using r rm by (simp add: compare_hash_def Let_def http_response_get_body_def br_sha256_SIZE_def)
  next
    case (Some h)
    then have "length h = 64"
      by (auto simp: memcpy_range_def split: if_splits)
    moreover have "rc = UNALIXERR_SUCCESS \<Longrightarrow> published_hash sv url fs h"
      using assms r Some unfolding published_hash_def by blast
    ultimately show ?thesis
      using r rm Some by (auto simp: compare_hash_def Let_def http_response_get_body_def br_sha256_SIZE_def
          SHA256_DIGEST_SIZE_def hash_matches_def split: prod.split dest!: sha256_digest_Success)
  qed
qed

lemma check_hash_files:
  "leaves (check_hash sv file url (http_context_free c0, fs))
     (\<lambda>(rc, c, fs'). same_but {file} fs fs' \<and> rc \<noteq> UNALIXERR_SUCCESS)
     (\<lambda>(c, fs'). (fs' = fs \<and> hash_matches sv url file fs) \<and> (\<exists>c0. c = http_context_free c0))"
proof -
  let ?m = "fetch (in_call 1 (sv_platform sv)) (sv_exchange sv 1) url ''text/plain'' (http_context_free c0)"
  have "leaves (map_option (map_sum (\<lambda>(rc, c). (rc, c, fs)) id) ?m)
      (\<lambda>(rc, c, fs'). same_but {file} fs fs' \<and> rc \<noteq> UNALIXERR_SUCCESS) (\<lambda>c. ?m = Some (Inr c))"
    using fetch_fails[of "in_call 1 (sv_platform sv)" "sv_exchange sv 1" url "''text/plain''" "http_context_free c0"]
    by (cases ?m; cases "the ?m") auto
  then show ?thesis
    unfolding check_hash_def Let_def prod.case by (rule leaves_stage) (rule compare_hash_files)
qed

definition loads :: "'c services \<Rightarrow> string \<Rightarrow> filesys \<Rightarrow> bool" where
  "loads sv file fs \<longleftrightarrow> (\<exists>obj. load_file (sv_platform sv) (sv_regex sv) (sv_strtod sv) (sv_os sv) fs file zero_rulesets =
     Some (UNALIXERR_SUCCESS, obj))"

text \<open>What a run that reached the last step did.\<close>

definition installed :: "'c services \<Rightarrow> string \<Rightarrow> string \<Rightarrow> filesys \<Rightarrow> unalixerr \<Rightarrow> filesys \<Rightarrow> bool" where
  "installed sv file filename fs rc fs' \<longleftrightarrow>
     same_but {file, filename} fs fs' \<and>
     (rc \<noteq> UNALIXERR_SUCCESS \<and> rc \<noteq> UNALIXERR_FILE_CANNOT_MOVE \<longrightarrow> same_but {file} fs fs') \<and>
     (rc = UNALIXERR_SUCCESS \<longrightarrow> loads sv file fs \<and> (\<exists>m. move_file (sv_os sv) fs file filename = Some (m, fs') \<and> m \<noteq> 0))"

lemma install_files:
  assumes "install sv file filename (context, fs) = Some (rc, context', fs')"
  shows "installed sv file filename fs rc fs'"
proof -
  obtain rc1 obj where load: "load_file (sv_platform sv) (sv_regex sv) (sv_strtod sv) (sv_os sv) fs file zero_rulesets = Some (rc1, obj)"
    using assms by (auto simp: install_def Let_def split: option.splits)
  show ?thesis
  proof (cases "rc1 = UNALIXERR_SUCCESS")
    case True
    with assms load obtain m where m: "move_file (sv_os sv) fs file filename = Some (m, fs')"
      and rc: "rc = (if m = 0 then UNALIXERR_FILE_CANNOT_MOVE else UNALIXERR_SUCCESS)"
      by (auto simp: install_def Let_def bind_eq_Some_conv split: if_splits)
    show ?thesis
      using same_but_move[OF m] m rc load True by (auto simp: installed_def loads_def)
  next
    case False
    then have "rc = rc1" "fs' = remove_in (sv_os sv) fs file"
      using assms load by (auto simp: install_def Let_def)
    then show ?thesis
      using False same_but_remove_in same_but_trans[OF same_but_refl same_but_remove_in, of "{file}" "{file, filename}"]
      by (auto simp: installed_def)
  qed
qed

definition updated :: "'c services \<Rightarrow> string \<Rightarrow> string \<Rightarrow> string option \<Rightarrow> filesys \<Rightarrow> unalixerr \<Rightarrow> filesys \<Rightarrow> bool" where
  "updated sv file filename sha256_url fs rc fs' \<longleftrightarrow>
     (same_but {file} fs fs' \<and> rc \<noteq> UNALIXERR_SUCCESS) \<or>
     (\<exists>fs1. same_but {file} fs fs1 \<and> (\<forall>url. sha256_url = Some url \<longrightarrow> hash_matches sv url file fs1) \<and>
       installed sv file filename fs1 rc fs')"

lemma ruleset_update_files:
  assumes "ruleset_update sv filename url sha256_url temporary_directory (context, fs) = Some (rc, context', fs')"
    and "ruleset_file (sv_platform sv) (sv_os sv) temporary_directory = Some file"
  shows "updated sv file filename sha256_url fs rc fs'"
proof -
  let ?U = "\<lambda>(rc, c, fs'). updated sv file filename sha256_url fs rc fs'"
  let ?D = "\<lambda>(c, fs1). same_but {file} fs fs1 \<and> (\<exists>c0. c = http_context_free c0)"
  let ?H = "\<lambda>(c, fs1). same_but {file} fs fs1 \<and> (\<forall>url. sha256_url = Some url \<longrightarrow> hash_matches sv url file fs1)"
  have stop: "same_but {file} fs fs1 \<Longrightarrow> rc \<noteq> UNALIXERR_SUCCESS \<Longrightarrow> ?U (rc, c, fs1)" for rc c fs1
    by (simp add: updated_def)
  have 1: "leaves (map_option (map_sum (\<lambda>(rc, c). (rc, c, fs)) id) (fetch p ex url a context)) ?U (\<lambda>_. True)" for p ex a
    by (rule leaves_map_Inl, rule leaves_mono[OF fetch_fails]) (auto intro: stop[simplified])
  have 2: "leaves (download sv file (c, fs)) ?U ?D" for c
    by (rule leaves_mono[OF download_files]) (auto intro: stop[simplified])
  have 3: "leaves (case sha256_url of None \<Rightarrow> Some (Inr state) | Some hash_url \<Rightarrow> check_hash sv file hash_url state) ?U ?H"
    if D: "?D state" for state
  proof (cases sha256_url)
    case (Some hash_url)
    obtain c0 fs1 where state: "state = (http_context_free c0, fs1)" and same: "same_but {file} fs fs1"
      using D by auto
    have "leaves (check_hash sv file hash_url (http_context_free c0, fs1)) ?U ?H"
      by (rule leaves_mono[OF check_hash_files])
        (use same in \<open>auto simp: updated_def Some intro: same_but_trans[OF same]\<close>)
    then show ?thesis using Some state by simp
  qed (use D in auto)
  have 4: "leaves (map_option Inr (install sv file filename state)) ?U ?U" if "?H state" for state
    using that by (auto simp: updated_def intro!: leaves_map_Inr dest!: install_files split: prod.splits)
  have "?U (rc, context', fs')"
    by (rule leaves_body[OF _ assms(1)[unfolded ruleset_update_def Let_def prod.case assms(2) option.case]])
      (intro leaves_stage[OF 1] leaves_stage[OF 2] leaves_stage[OF 3] 4)
  then show ?thesis by simp
qed

lemma ruleset_file_given: "ruleset_file p os (Some d) = Some (d @ RULESET_TEMPORARY_FILE)"
  by (simp add: ruleset_file_def strcat_def)

lemma unalix_ruleset_update_files:
  assumes "unalix_ruleset_update sv (Some filename) (Some url) sha256_url (Some d) fs = Some (rc, events, fs')"
    and "filename \<noteq> []" "url \<noteq> []" "d \<noteq> []"
  shows "updated sv (d @ RULESET_TEMPORARY_FILE) filename sha256_url fs rc fs'"
  using assms ruleset_update_files[OF _ ruleset_file_given]
  by (auto simp: unalix_ruleset_update_def blank_def)

text \<open>
  The last thing a successful run does with its context is to release it, and
  \<open>unalix_ruleset_update\<close> releases it again.
\<close>

definition released :: "unalixerr \<Rightarrow> http_context \<Rightarrow> bool" where
  "released rc context \<longleftrightarrow> (rc = UNALIXERR_SUCCESS \<longrightarrow> (\<exists>c0. context = http_context_free c0))"

lemma install_context: "install sv file filename (context, fs) = Some (rc, context', fs') \<Longrightarrow> context' = context"
  by (auto simp: install_def Let_def bind_eq_Some_conv split: option.splits if_splits)

lemma ruleset_update_released:
  assumes "ruleset_update sv filename url sha256_url temporary_directory (context, fs) = Some (rc, context', fs')"
    and "ruleset_file (sv_platform sv) (sv_os sv) temporary_directory = Some file"
  shows "released rc context'"
proof -
  let ?E = "\<lambda>(rc, c, fs'). released rc c"
  let ?D = "\<lambda>(c, fs1). \<exists>c0. c = http_context_free c0"
  have failed: "rc \<noteq> UNALIXERR_SUCCESS \<Longrightarrow> released rc c" for rc c
    by (simp add: released_def)
  have 1: "leaves (map_option (map_sum (\<lambda>(rc, c). (rc, c, fs)) id) (fetch p ex url a context)) ?E (\<lambda>_. True)" for p ex a
    by (rule leaves_map_Inl, rule leaves_mono[OF fetch_fails]) (auto intro: failed)
  have 2: "leaves (download sv file (c, fs)) ?E ?D" for c
    by (rule leaves_mono[OF download_files]) (auto intro: failed)
  have 3: "leaves (case sha256_url of None \<Rightarrow> Some (Inr state) | Some hash_url \<Rightarrow> check_hash sv file hash_url state) ?E ?D"
    if D: "?D state" for state
  proof (cases sha256_url)
    case (Some hash_url)
    obtain c0 fs1 where state: "state = (http_context_free c0, fs1)"
      using D by (cases state) auto
    have "leaves (check_hash sv file hash_url state) ?E ?D"
      unfolding state by (rule leaves_mono[OF check_hash_files]) (auto intro: failed)
    then show ?thesis using Some by simp
  qed (use D in auto)
  have 4: "leaves (map_option Inr (install sv file filename state)) ?E ?E" if "?D state" for state
    using that by (auto simp: released_def intro!: leaves_map_Inr dest: install_context split: prod.splits)
  have "?E (rc, context', fs')"
    by (rule leaves_body[OF _ assms(1)[unfolded ruleset_update_def Let_def prod.case assms(2) option.case]])
      (intro leaves_stage[OF 1] leaves_stage[OF 2] leaves_stage[OF 3] 4)
  then show ?thesis by simp
qed

lemma close_events_free: "close_events (connection_free c) = close_events c"
  by (simp add: close_events_def connection_free_def log_event_def Let_def)

lemma free_twice_log:
  "conn_log (ctx_connection (http_context_free (http_context_free c))) =
     conn_log (ctx_connection c) @ close_events (ctx_connection c) @ close_events (ctx_connection c)"
  by (simp add: http_context_free_log) (simp add: http_context_free_def close_events_free)

text \<open>A \<open>rename\<close> that fails for another reason than the device is not noticed.\<close>

lemma install_rename_fails:
  assumes "loads sv file fs" "os_rename (sv_os sv) file filename = Rename_Error"
  shows "install sv file filename (context, fs) = Some (UNALIXERR_SUCCESS, context, fs)"
  using assms by (auto simp: install_def Let_def loads_def move_file_def)

section \<open>Checking for an update\<close>

lemma check_update_local_error:
  assumes "local_date cal fs filename = Inl rc" "filename \<noteq> []" "url \<noteq> []"
  shows "unalix_ruleset_check_update p cal ex fs (Some filename) (Some url) = Some (rc, [Ev_close 0])"
  using assms by (simp add: unalix_ruleset_check_update_def blank_def check_ruleset_update_def new_context_def
      http_context_free_def connection_free_def log_event_def)

end
