(* ===== verification/HTTP_Roundtrip.thy ===== *)
theory HTTP_Roundtrip
  imports HTTP_Proofs Regex
begin

text \<open>
  The round trip of a response: \<open>parse_http_response\<close> on the text of a status line,
  header lines and a body gives them back.  The header loop is a run of appends
  over the lines.
\<close>

section \<open>Texts of responses\<close>

definition header_ok :: "string \<times> string \<Rightarrow> bool" where
  "header_ok kv \<longleftrightarrow> fst kv \<noteq> [] \<and> header_name_safe (fst kv) \<and> nul \<notin> set (fst kv) \<and>
     snd kv \<noteq> [] \<and> header_value_safe (snd kv) \<and> nul \<notin> set (snd kv)"

definition line_text :: "string \<times> string \<Rightarrow> string" where
  "line_text kv = fst kv @ HEADER_SEPARATOR @ snd kv"

definition status_line :: "http_version \<Rightarrow> int \<Rightarrow> string \<Rightarrow> string" where
  "status_line v n reason = ''HTTP/'' @ http_version_stringify v @ '' '' @ show_digits n @ '' '' @ reason"

definition response_text :: "http_version \<Rightarrow> int \<Rightarrow> string \<Rightarrow> (string \<times> string) list \<Rightarrow> string \<Rightarrow> string" where
  "response_text v n reason kvs bs = join CRLF (status_line v n reason # map line_text kvs) @ CRLFCRLF @ bs"

section \<open>Characters of headers\<close>

lemma name_safe_chars: "header_name_safe s \<Longrightarrow> c \<in> set s \<Longrightarrow> isalnum c \<or> c = CHR ''-'' \<or> c = CHR ''_'' \<or> c = nul"
  by (induction s rule: header_name_safe.induct)
    (auto simp: strchr_in_def HEADER_NAME_SAFE_SYMBOLS_def split: if_splits)

lemma value_safe_chars: "header_value_safe s \<Longrightarrow> c \<in> set s \<Longrightarrow> isalnum c \<or> c = nul \<or> c \<in> set HEADER_VALUE_SAFE_SYMBOLS"
  by (induction s rule: header_value_safe.induct) (auto simp: strchr_in_def split: if_splits)

lemma control_not_alnum: "\<not> isalnum CHR 0x0D" "\<not> isalnum CHR '':''"
  by (simp_all add: ctype_simps)

lemma header_ok_chars:
  assumes "header_ok kv"
  shows "CHR 0x0D \<notin> set (fst kv)" "CHR '':'' \<notin> set (fst kv)" "CHR 0x0D \<notin> set (snd kv)"
  using assms name_safe_chars[of "fst kv" "CHR 0x0D"] name_safe_chars[of "fst kv" "CHR '':''"]
    value_safe_chars[of "snd kv" "CHR 0x0D"] control_not_alnum
  by (auto simp: header_ok_def nul_def HEADER_VALUE_SAFE_SYMBOLS_def)

lemma line_text_chars:
  assumes "header_ok kv"
  shows "CHR 0x0D \<notin> set (line_text kv)" "line_text kv \<noteq> []" "nul \<notin> set (line_text kv)"
  using header_ok_chars[OF assms] assms by (auto simp: line_text_def HEADER_SEPARATOR_def header_ok_def nul_def)

section \<open>Header lines\<close>

lemma header_line_text:
  assumes "header_ok kv" "headers = pre @ line_text kv @ post"
  shows "header_line headers (length pre) (length pre + length (line_text kv)) = Some (Inr kv)"
proof -
  obtain k v where [simp]: "kv = (k, v)" by (cases kv)
  have ok: "k \<noteq> []" "v \<noteq> []" "header_name_safe k" "header_value_safe v" "CHR '':'' \<notin> set k"
    using assms(1) header_ok_chars[OF assms(1)] by (auto simp: header_ok_def)
  have "find_sub HEADER_SEPARATOR (k @ HEADER_SEPARATOR @ v @ post) = Some (length k)"
    using ok(5) by (subst find_sub_skip) (simp_all add: HEADER_SEPARATOR_def)
  then have sep: "strstr headers (length pre) HEADER_SEPARATOR = Some (length pre + length k)"
    by (simp add: assms(2) line_text_def strstr_def)
  have key: "memcpy_range headers (length pre) (length k) = Some k"
    by (simp add: memcpy_range_def assms(2) line_text_def slice_def)
  have val: "memcpy_range headers (length pre + length k + length HEADER_SEPARATOR) (length v) = Some v"
    by (simp add: memcpy_range_def assms(2) line_text_def slice_def)
  have sz: "length pre + length (line_text kv) = length pre + length k + length HEADER_SEPARATOR + length v"
    by (simp add: line_text_def)
  show ?thesis
    unfolding header_line_def sz using sep key val ok by (simp add: Let_def)
qed

abbreviation add_all :: "platform \<Rightarrow> http_headers \<Rightarrow> (string \<times> string) list \<Rightarrow> (unalixerr \<times> http_headers) option" where
  "add_all p \<equiv> push_all (\<lambda>obj (key, val). http_headers_add p obj key val)"

lemma header_loop_lines:
  assumes "kvs \<noteq> []" "\<forall>kv \<in> set kvs. header_ok kv" "headers = pre @ join CRLF (map line_text kvs)"
  shows "header_loop p obj headers (length pre) = add_all p obj kvs"
  using assms
proof (induction kvs arbitrary: pre obj)
  case (Cons kv kvs)
  note line = line_text_chars[of kv]
  have kv: "header_ok kv" using Cons.prems(2) by simp
  let ?post = "if kvs = [] then [] else CRLF @ join CRLF (map line_text kvs)"
  let ?stop = "length pre + length (line_text kv)"
  have headers: "headers = pre @ line_text kv @ ?post"
    using Cons.prems(3) by (simp add: join_Cons)
  have parsed: "header_line headers (length pre) ?stop = Some (Inr kv)"
    by (rule header_line_text[OF kv headers])
  have "find_sub CRLF (line_text kv @ ?post) = (if kvs = [] then None else Some (length (line_text kv)))"
    using line(1)[OF kv] by (subst find_sub_skip) (auto simp: CRLF_def)
  then have found: "strstr headers (length pre) CRLF = (if kvs = [] then None else Some ?stop)"
    by (simp add: headers strstr_def)
  have he: "(case strstr headers (length pre) CRLF of None \<Rightarrow> length headers | Some e \<Rightarrow> e) = ?stop"
    using found headers by simp
  have last: "?stop = length headers \<longleftrightarrow> kvs = []"
    by (simp add: headers CRLF_def)
  have rest: "header_loop p obj' headers (?stop + length CRLF) = add_all p obj' kvs" if "kvs \<noteq> []" for obj'
  proof -
    have "header_loop p obj' headers (length (pre @ line_text kv @ CRLF)) = add_all p obj' kvs"
      using Cons.prems(2) that headers by (intro Cons.IH) simp_all
    then show ?thesis by (simp add: add.assoc)
  qed
  show ?case
  proof (cases "http_headers_add p obj (fst kv) (snd kv)")
    case None
    then show ?thesis
      unfolding header_loop.simps[of p obj headers "length pre"] Let_def he by (simp add: parsed case_prod_beta)
  next
    case (Some r)
    then show ?thesis
      unfolding header_loop.simps[of p obj headers "length pre"] Let_def he
      by (cases "kvs = []") (simp_all add: parsed last rest[unfolded case_prod_beta] case_prod_beta)
  qed
qed simp

section \<open>The message\<close>

lemma find_blank_line:
  assumes "\<forall>l \<in> set ls. l \<noteq> [] \<and> CHR 0x0D \<notin> set l" "ls \<noteq> []"
  shows "find_sub CRLFCRLF (join CRLF ls @ CRLFCRLF @ rest) = Some (length (join CRLF ls))"
  using assms
proof (induction ls)
  case (Cons l ls)
  show ?case
  proof (cases ls)
    case Nil
    then show ?thesis
      using Cons.prems by (simp, subst find_sub_skip) (auto simp: CRLFCRLF_def)
  next
    case (Cons l' ls')
    obtain c cs where l': "l' = c # cs" "c \<noteq> CHR 0x0D"
      using Cons.prems Cons by (cases l') auto
    let ?tail = "join CRLF ls @ CRLFCRLF @ rest"
    obtain t where t: "?tail = c # t"
      using l' Cons by (simp add: join_Cons)
    have "find_sub CRLFCRLF (CRLF @ ?tail) = map_option (Suc \<circ> Suc) (find_sub CRLFCRLF ?tail)"
      unfolding t using l'(2) by (simp add: CRLF_def CRLFCRLF_def option.map_comp comp_def)
    also have "find_sub CRLFCRLF ?tail = Some (length (join CRLF ls))"
      using Cons.IH Cons.prems Cons by simp
    finally have "find_sub CRLFCRLF (CRLF @ ?tail) = Some (length CRLF + length (join CRLF ls))"
      by (simp add: CRLF_def)
    moreover have "hd CRLFCRLF \<notin> set l" "CRLFCRLF \<noteq> []"
      using Cons.prems by (simp_all add: CRLFCRLF_def)
    ultimately have "find_sub CRLFCRLF (l @ CRLF @ ?tail) = Some (length l + (length CRLF + length (join CRLF ls)))"
      by (subst find_sub_skip) simp_all
    then show ?thesis
      using Cons by (simp only: join_Cons[of CRLF l] if_False append_assoc length_append list.distinct)
  qed
qed simp

definition reason_ok :: "string \<Rightarrow> bool" where
  "reason_ok reason \<longleftrightarrow> nul \<notin> set reason \<and> CHR 0x0D \<notin> set reason"

text \<open>Every enumerator has a message, and nothing else has.\<close>

lemma status_table_codes: "map fst status_table = map snd HTTPStatusCode"
  by (simp only: status_table_def HTTPStatusCode_def list.map prod.sel)

lemma http_status_stringify_iff: "http_status_stringify n \<noteq> None \<longleftrightarrow> n \<in> snd ` set HTTPStatusCode"
proof -
  have "fst ` set status_table = snd ` set HTTPStatusCode"
    using arg_cong[OF status_table_codes, of set] by (simp only: set_map)
  then show ?thesis
    by (simp only: http_status_stringify_def map_of_eq_None_iff not_not)
qed

lemma status_code_digits:
  assumes "http_status_stringify n \<noteq> None"
  shows "100 \<le> n" "n < 1000"
proof -
  have "n \<in> set (map snd HTTPStatusCode)"
    using assms by (simp only: http_status_stringify_iff set_map)
  moreover have "list_all (\<lambda>x. 100 \<le> x \<and> x < 1000) (map snd HTTPStatusCode)"
    unfolding HTTPStatusCode_def list.map prod.sel by simp
  ultimately have "100 \<le> n \<and> n < 1000"
    by (simp only: list_all_iff)
  then show "100 \<le> n" "n < 1000" by simp_all
qed

lemma show_digits_three:
  assumes "100 \<le> n" "n < 1000"
  shows "length (show_digits n) = 3"
proof -
  have "10 \<le> n" "10 \<le> n div 10" "n div 10 div 10 < 10"
    using assms by simp_all
  then show ?thesis
    by (subst show_digits.simps, subst show_digits.simps, subst show_digits.simps) simp
qed

lemma digits_chars: "0 \<le> n \<Longrightarrow> \<not> isdigit c \<Longrightarrow> c \<notin> set (show_digits n)"
  using show_digits_isdigit by blast

lemma version_chars: "c \<in> set (http_version_stringify v) \<Longrightarrow> isdigit c \<or> c = CHR ''.''"
  by (cases v) (auto simp: isdigit_def)

lemma version_length [simp]: "length (http_version_stringify v) = 3"
  by (cases v) simp_all

lemma status_line_chars:
  assumes "reason_ok reason" "0 \<le> n"
  shows "CHR 0x0D \<notin> set (status_line v n reason)" "nul \<notin> set (status_line v n reason)" "status_line v n reason \<noteq> []"
  using assms digits_chars[of n] version_chars[of _ v]
  by (fastforce simp: status_line_def reason_ok_def nul_def isdigit_def)+

lemma version_text_status_line:
  "version_text (status_line v n reason @ rest) = Some (8, http_version_stringify v)"
proof -
  let ?v = "http_version_stringify v" and ?tail = "'' '' @ show_digits n @ '' '' @ reason @ rest"
  have space: "CHR '' '' \<notin> set ?v"
    using version_chars[of "CHR '' ''" v] by (auto simp: isdigit_def)
  have s: "status_line v n reason @ rest = (''HTTP'' @ SLASH) @ ?v @ ?tail"
    by (simp add: status_line_def SLASH_def)
  have slash: "strstr ((''HTTP'' @ SLASH) @ ?v @ ?tail) 0 SLASH = Some 4"
    by (simp add: strstr_def SLASH_def)
  have "find_sub SPACE (?v @ ?tail) = Some 3"
    using space by (subst find_sub_skip) (simp_all add: SPACE_def)
  then have end_at: "strstr ((''HTTP'' @ SLASH) @ ?v @ ?tail) 5 SPACE = Some 8"
    by (simp add: strstr_def SLASH_def)
  have "memcpy_range ((''HTTP'' @ SLASH) @ ?v @ ?tail) 5 3 = Some ?v"
    by (simp add: memcpy_range_def slice_def SLASH_def)
  then show ?thesis
    unfolding version_text_def s slash using end_at by (simp add: SLASH_def Let_def)
qed

lemma status_text_status_line:
  assumes "100 \<le> n" "n < 1000"
  shows "status_text (status_line v n reason @ rest) 8 = Some (Inr (show_digits n))"
proof -
  let ?d = "show_digits n" and ?pre = "''HTTP/'' @ http_version_stringify v"
  note three = show_digits_three[OF assms]
  have space: "CHR '' '' \<notin> set ?d"
    using digits_chars[of n "CHR '' ''"] assms by (simp add: isdigit_def)
  have pre: "length ?pre = 8"
    by simp
  have s: "status_line v n reason @ rest = ?pre @ SPACE @ ?d @ SPACE @ reason @ rest"
    by (simp add: status_line_def SPACE_def)
  have first: "strstr (?pre @ SPACE @ ?d @ SPACE @ reason @ rest) 8 SPACE = Some 8"
    by (simp add: strstr_def SPACE_def)
  have "find_sub SPACE (?d @ SPACE @ reason @ rest) = Some 3"
    using space three by (subst find_sub_skip) (simp_all add: SPACE_def)
  then have second: "strstr (?pre @ SPACE @ ?d @ SPACE @ reason @ rest) 9 SPACE = Some 12"
    by (simp add: strstr_def SPACE_def)
  have copy: "memcpy_range (?pre @ SPACE @ ?d @ SPACE @ reason @ rest) 9 3 = Some ?d"
    using three by (simp add: memcpy_range_def slice_def SPACE_def)
  have three': "intlen STATUS_OK = 3"
    by code_simp
  have "isnumeric ?d"
    using show_digits_isdigit[of n] assms by (simp add: isnumeric_iff)
  then show ?thesis
    unfolding status_text_def s using first second copy three' by (simp add: SPACE_def Let_def)
qed

text \<open>The response a request starts from: nothing is in it, although a size may be left over.\<close>

definition fresh :: "http_response \<Rightarrow> bool" where
  "fresh response \<longleftrightarrow> rs_body response = zero_body \<and> headers_inv (rs_headers response) \<and> hs_items (rs_headers response) = []"

lemma fresh_zero [simp]: "fresh zero_response"
  by (simp add: fresh_def zero_response_def headers_inv_zero) (simp add: zero_headers_def)

lemma parse_response_text:
  assumes "ample p" "fresh response" "http_status_stringify n \<noteq> None" "reason_ok reason"
    and "kvs \<noteq> []" "\<forall>kv \<in> set kvs. header_ok kv \<and> length (line_text kv) < PTRDIFF_MAX" "length kvs < 2 ^ 58"
    and "length bs \<le> PTRDIFF_MAX"
  shows "\<exists>hs. parse_http_response p response (response_text v n reason kvs bs) = Some (UNALIXERR_SUCCESS,
       \<lparr>rs_status = \<lparr>status_code = n, status_message = http_status_stringify n\<rparr>, rs_version = v, rs_headers = hs,
        rs_body = \<lparr>body_size = length bs, body_content = nonempty bs\<rparr>\<rparr>) \<and>
     headers_inv hs \<and> hs_items hs = map mk_header kvs"
proof -
  let ?sl = "status_line v n reason" and ?lines = "map line_text kvs"
  let ?head = "join CRLF (?sl # ?lines)"
  note n = status_code_digits[OF assms(3)]
  note sl = status_line_chars[OF assms(4), of n v]
  have n0: "0 \<le> n" using n by simp
  have lines: "\<forall>l \<in> set (?sl # ?lines). l \<noteq> [] \<and> CHR 0x0D \<notin> set l \<and> nul \<notin> set l"
    using sl[OF n0] assms(6) line_text_chars by auto
  have "nul \<notin> set ?head"
  proof -
    have "set (join CRLF ls) \<subseteq> \<Union> (set ` set ls) \<union> set CRLF" for ls
      by (induction ls) (auto simp: join_Cons)
    then show ?thesis
      using lines by (fastforce simp: CRLF_def nul_def)
  qed
  then have c_str: "c_str (?head @ CRLFCRLF @ bs) = ?head @ CRLFCRLF @ c_str bs"
    unfolding c_str_def by (subst takeWhile_append2) (auto simp: CRLFCRLF_def nul_def)
  have "find_sub CRLFCRLF (?head @ CRLFCRLF @ c_str bs) = Some (length ?head)"
    by (rule find_blank_line) (use lines in auto)
  then have split: "split_message (response_text v n reason kvs bs) = Some (?head, bs)"
    by (simp add: split_message_def response_text_def c_str)
  have head: "?head = ?sl @ CRLF @ join CRLF ?lines"
    using assms(5) by (simp add: join_Cons)
  have atoi: "atoi (show_digits n) = n"
    using n by (intro atoi_show_digits) auto
  have "find_sub CRLF (?sl @ CRLF @ join CRLF ?lines) = Some (length ?sl)"
    using sl(1)[OF n0] by (subst find_sub_skip) (auto simp: CRLF_def)
  then have line_end: "strstr ?head 0 CRLF = Some (length ?sl)"
    by (simp add: head strstr_def)
  have "header_loop p (rs_headers response) ?head (length (?sl @ CRLF)) = add_all p (rs_headers response) kvs"
    using assms(5,6) head by (intro header_loop_lines) auto
  moreover obtain hs where hs: "add_all p (rs_headers response) kvs = Some (UNALIXERR_SUCCESS, hs)" "headers_inv hs"
      "hs_items hs = map mk_header kvs"
    using hdr.push_all_items[OF _ assms(1), of "rs_headers response" kvs] assms(2,6,7)
    by (auto simp: fresh_def mk_header_parts line_text_def HEADER_SEPARATOR_def)
  ultimately have loop: "header_loop p (rs_headers response) ?head (length ?sl + length CRLF) = Some (UNALIXERR_SUCCESS, hs)"
    by simp
  have "parse_http_response p response (response_text v n reason kvs bs) = Some (UNALIXERR_SUCCESS,
       \<lparr>rs_status = \<lparr>status_code = n, status_message = http_status_stringify n\<rparr>, rs_version = v, rs_headers = hs,
        rs_body = \<lparr>body_size = length bs, body_content = nonempty bs\<rparr>\<rparr>)"
    using version_text_status_line[of v n reason "CRLF @ join CRLF ?lines"]
      status_text_status_line[OF n, of v reason "CRLF @ join CRLF ?lines"] line_end loop assms(1,2,3,8)
    unfolding parse_http_response_def split head[symmetric]
    by (cases v; cases "bs = []") (simp_all add: Let_def atoi fresh_def zero_body_def nonempty_def)
  with hs show ?thesis by blast
qed

end
