(* ===== verification/HTTP_Redirect.thy ===== *)
theory HTTP_Redirect
  imports HTTP_Proofs
begin

text \<open>
  The URLs \<open>http_get_redirect\<close> gives for the forms of a \<open>Location\<close> header.
\<close>

section \<open>The situation of a redirect\<close>

text \<open>The status asks for one, and both headers and the scheme are there.\<close>

definition redirect_context :: "http_request \<Rightarrow> http_response \<Rightarrow> string \<Rightarrow> string \<Rightarrow> string \<Rightarrow> bool" where
  "redirect_context request response location host scheme \<longleftrightarrow>
     is_redirect (status_code (rs_status response)) \<and>
     (\<exists>header. http_headers_get (rs_headers response) ''Location'' = Some (Some header) \<and> hdr_value header = Some location) \<and>
     (\<exists>header. http_headers_get (rq_headers request) ''Host'' = Some (Some header) \<and> hdr_value header = Some host) \<and>
     uri_scheme (rq_uri request) = Some scheme"

definition absolute_form :: "string \<Rightarrow> bool" where
  "absolute_form location \<longleftrightarrow> prefix HTTP_SCHEME location \<or> prefix HTTPS_SCHEME location"

lemma redirect_branches:
  assumes "redirect_context request response location host scheme"
  shows "http_get_redirect p request response =
     (if absolute_form location then
        (case strdup p AtLocation location of
           None \<Rightarrow> Some (UNALIXERR_MEMORY_ALLOCATE_FAILURE, None)
         | Some s \<Rightarrow> Some (UNALIXERR_SUCCESS, Some s))
      else if char_at location 0 = CHR ''/'' \<and> length location > 1 \<and> char_at location 2 \<noteq> CHR ''/''
      then redirect_absolute p (rq_uri request) (Some host) location
      else if char_at location 0 \<noteq> CHR ''/''
      then redirect_relative p (rq_uri request) (Some host) location
      else if prefix ''//'' location then redirect_network p (rq_uri request) location
      else Some (UNALIXERR_HTTP_HEADERS_INVALID_LOCATION, None))"
proof -
  have "prefix ''///'' location \<Longrightarrow> prefix ''//'' location"
    by (auto simp: prefix_def)
  then show ?thesis
    using assms by (auto simp: http_get_redirect_def redirect_context_def header_text_def absolute_form_def Let_def)
qed

lemma not_absolute_form: "location = [] \<or> hd location \<noteq> CHR ''h'' \<Longrightarrow> \<not> absolute_form location"
  by (cases location) (auto simp: absolute_form_def HTTP_SCHEME_def HTTPS_SCHEME_def)

lemma absolute_url_text:
  assumes "ample p" "uri_scheme uri = Some scheme"
    and "length scheme + length host + length path + 4 \<le> PTRDIFF_MAX"
  shows "absolute_url p uri host path = Some (UNALIXERR_SUCCESS, Some (scheme @ ''://'' @ host @ path))"
proof -
  let ?cap = "length scheme + length SCHEME_SEPARATOR + length host + length path + 1"
  have "strcats ?cap [] [scheme, SCHEME_SEPARATOR, host, path] = Some (scheme @ SCHEME_SEPARATOR @ host @ path)"
    by (subst strcats_fits) simp_all
  then show ?thesis
    unfolding absolute_url_def Let_def using assms by (simp add: SCHEME_SEPARATOR_def del: strcats.simps)
qed

lemma redirect_to_path:
  assumes "ample p" "redirect_context request response location host scheme"
    and "location = CHR ''/'' # rest" "rest \<noteq> []" "char_at location 2 \<noteq> CHR ''/''"
    and "\<forall>c \<in> set location. c \<noteq> CHR ''?'' \<and> c \<noteq> CHR ''#''"
    and "length scheme + length host + length location + 5 \<le> PTRDIFF_MAX"
  shows "http_get_redirect p request response =
     map_option (\<lambda>cs. (UNALIXERR_SUCCESS, Some (scheme @ ''://'' @ host @ norm_path cs)))
       (comps_run [] (split_on CHR ''/'' location))"
proof -
  have form: "\<not> absolute_form location"
    using assms(3) by (intro not_absolute_form) simp
  have norm: "httpnormpath (length location + length SLASH + 1) location = map_option norm_path (comps_run [] (split_on CHR ''/'' location))"
    using httpnormpath_run[of location "[]" "length location + length SLASH + 1"] assms(6)
    by (simp add: query_mark_def SLASH_def)
  have scheme: "uri_scheme (rq_uri request) = Some scheme"
    using assms(2) by (simp add: redirect_context_def)
  have "redirect_absolute p (rq_uri request) (Some host) location =
      map_option (\<lambda>cs. (UNALIXERR_SUCCESS, Some (scheme @ ''://'' @ host @ norm_path cs)))
       (comps_run [] (split_on CHR ''/'' location))"
  proof (cases "comps_run [] (split_on CHR ''/'' location)")
    case None
    with norm show ?thesis by (simp add: redirect_absolute_def)
  next
    case (Some cs)
    have "length (norm_path cs) \<le> length location + 1"
      using comps_run_bounds[OF Some] by (simp add: length_path_of_split norm_path_def)
    then have "absolute_url p (rq_uri request) host (norm_path cs) =
        Some (UNALIXERR_SUCCESS, Some (scheme @ ''://'' @ host @ norm_path cs))"
      using assms(7) by (intro absolute_url_text[OF assms(1) scheme]) simp
    with norm Some show ?thesis by (simp add: redirect_absolute_def)
  qed
  then show ?thesis
    using assms(3,4,5) form by (simp add: redirect_branches[OF assms(2)] char_at_def)
qed

lemma redirect_rejects:
  assumes "redirect_context request response location host scheme"
    and "location = ''/'' \<or> (\<exists>c rest. location = CHR ''/'' # c # CHR ''/'' # rest \<and> c \<noteq> CHR ''/'')"
  shows "http_get_redirect p request response = Some (UNALIXERR_HTTP_HEADERS_INVALID_LOCATION, None)"
proof -
  have "\<not> absolute_form location"
    using assms(2) by (intro not_absolute_form) auto
  then show ?thesis
    using assms(2) by (auto simp: redirect_branches[OF assms(1)] char_at_def)
qed

lemma redirect_other_host:
  assumes "ample p" "redirect_context request response (''//'' @ rest) host scheme"
    and "rest = [] \<or> hd rest = CHR ''/''" "length scheme + length rest + 4 \<le> PTRDIFF_MAX"
    and "start = dropWhile (\<lambda>c. c = CHR ''/'') rest" "rest \<noteq> []"
  shows "http_get_redirect p request response = Some (UNALIXERR_SUCCESS, Some (scheme @ ''://'' @ start))"
proof -
  have form: "\<not> absolute_form (''//'' @ rest)"
    by (intro not_absolute_form) simp
  have "countp (''//'' @ rest) (length (''//'' @ rest)) CHR ''/'' = length (takeWhile (\<lambda>c. c = CHR ''/'') (''//'' @ rest))"
    by (subst countp_eq) simp_all
  then have start: "drop (countp (''//'' @ rest) (length (''//'' @ rest)) CHR ''/'') (''//'' @ rest) = start"
    by (simp add: assms(5) dropWhile_eq_drop)
  have scheme: "uri_scheme (rq_uri request) = Some scheme"
    using assms(2) by (simp add: redirect_context_def)
  have len: "length start \<le> length rest"
    by (simp add: assms(5) length_dropWhile_le)
  let ?cap = "length scheme + length SCHEME_SEPARATOR + length start + 1"
  have "strcats ?cap [] [scheme, SCHEME_SEPARATOR, start] = Some (scheme @ SCHEME_SEPARATOR @ start)"
    by (subst strcats_fits) simp_all
  then have "redirect_network p (rq_uri request) (''//'' @ rest) = Some (UNALIXERR_SUCCESS, Some (scheme @ ''://'' @ start))"
    unfolding redirect_network_def Let_def start using scheme assms(1,4) len
    by (simp add: SCHEME_SEPARATOR_def del: strcats.simps)
  then show ?thesis
    using assms(3,6) form by (cases rest) (auto simp: redirect_branches[OF assms(2)] char_at_def)
qed

end
