(* ===== verification/CleanUrl_Proofs.thy ===== *)
theory CleanUrl_Proofs
  imports CleanUrl URI_Proofs
begin

text \<open>
  Correctness of \<open>unalix_clean_url\<close>: it never leaves the memory it owns, when its
  recursion ends, what it does to the query, and the effect of exceptions and of
  the options.
\<close>

section \<open>The texts of a parsed URI\<close>

text \<open>Every component is NULL or a text of the URI that is not empty.\<close>

definition text_in :: "string \<Rightarrow> string option \<Rightarrow> bool" where
  "text_in s v \<longleftrightarrow> (\<forall>x. v = Some x \<longrightarrow> x \<noteq> [] \<and> length x \<le> length s \<and> set x \<subseteq> set s)"

definition fields_in :: "string \<Rightarrow> uri \<Rightarrow> bool" where
  "fields_in s u \<longleftrightarrow> text_in s (uri_username u) \<and> text_in s (uri_password u) \<and>
     text_in s (uri_path u) \<and> text_in s (uri_query u) \<and> text_in s (uri_fragment u) \<and>
     opt_len (uri_scheme u) \<le> length s \<and> opt_len (uri_hostname u) \<le> length s"

lemma text_in_None [simp]: "text_in s None"
  by (simp add: text_in_def)

lemma fields_in_zero: "fields_in s zero_uri"
  by (simp add: fields_in_def zero_uri_def opt_len_def)

lemma store_range_Inr:
  assumes "store_range p at s a n f obj = Some (Inr obj')"
  shows "obj' = obj \<or> (\<exists>x. text_in s (Some x) \<and> obj' = f (Some x) obj)"
proof (cases "n > 0")
  case True
  then obtain x where x: "dup_range p at s a n = Some (Some x)" "obj' = f (Some x) obj"
    using assms by (auto simp: store_range_def split: option.splits)
  from dup_range_Some[OF x(1)] have "x = slice s a n" "a + n \<le> length s" by auto
  with True have "text_in s (Some x)"
    using set_slice_subset[of s a n] by (auto simp: text_in_def slice_def)
  with x show ?thesis by blast
next
  case False
  then show ?thesis
    using assms by (simp add: store_range_def)
qed

lemma store_range_fields:
  assumes "store_range p at s a n f obj = Some (Inr obj')" "fields_in s obj"
    and "\<And>x. text_in s (Some x) \<Longrightarrow> fields_in s (f (Some x) obj)"
  shows "fields_in s obj'"
  using store_range_Inr[OF assms(1)] assms(2,3) by blast

lemma scheme_loop_length: "scheme_loop before s = Inr r \<Longrightarrow> length r = length before + length s"
  by (simp add: scheme_loop_Inr)

lemma parse_scheme_fields:
  assumes "parse_scheme p obj s = Some (Inr (obj', a))" "fields_in s obj"
  shows "fields_in s obj'"
proof -
  from assms(1) obtain i x r where i: "dup_range p AtScheme s 0 i = Some (Some x)"
    "scheme_loop [] x = Inr r" "obj' = obj\<lparr>uri_scheme := Some r\<rparr>"
    by (auto simp: parse_scheme_def Let_def split: option.splits if_splits sum.splits)
  have "length r \<le> length s"
    using dup_range_Some[OF i(1)] scheme_loop_length[OF i(2)] by auto
  then show ?thesis
    using assms(2) i(3) by (simp add: fields_in_def opt_len_def)
qed

lemma parse_authentication_fields:
  assumes "parse_authentication p obj s a = Some (Inr (obj', r))" "fields_in s obj"
  shows "fields_in s obj'"
  using assms
  by (auto simp: parse_authentication_def Let_def stage_eq_Some split: option.splits
      dest!: store_range_Inr) (auto simp: fields_in_def)

lemma parse_port_fields:
  assumes "parse_port obj s c = Some (Inr (obj', c'))" "fields_in s obj"
  shows "fields_in s obj'"
proof -
  have "obj' = obj \<or> (\<exists>v. obj' = obj\<lparr>uri_port := v\<rparr>)"
    using assms(1) by (auto simp: parse_port_def store_port_def memcpy_range_def Let_def stage_eq_Some
        split: option.splits if_splits)
  with assms(2) show ?thesis
    by (auto simp: fields_in_def)
qed

lemma label_loop_length: "label_loop [] 0 h = Inr r \<Longrightarrow> length r = length h"
  by (simp add: label_loop_start)

lemma parse_hostname_fields:
  assumes "parse_hostname p obj s c = Some (Inr obj')" "fields_in s obj"
  shows "fields_in s obj'"
proof -
  from assms(1) obtain n x r b where x: "dup_range p AtHostname s (hostname_start c) n = Some (Some x)"
    "r = x \<or> label_loop [] 0 x = Inr r" "obj' = obj\<lparr>uri_hostname := Some r, uri_is_ipv6 := b\<rparr>"
    by (auto simp: parse_hostname_def Let_def split: option.splits if_splits sum.splits)
  have "length r \<le> length s"
    using dup_range_Some[OF x(1)] x(2) label_loop_length[of x r] by auto
  then show ?thesis
    using assms(2) x(3) by (simp add: fields_in_def opt_len_def)
qed

lemma parse_tail_fields:
  assumes "fields_in s obj"
  shows "parse_fragment p obj s c = Some (Inr obj') \<Longrightarrow> fields_in s obj'"
    and "parse_query p obj s c = Some (Inr obj') \<Longrightarrow> fields_in s obj'"
    and "parse_path p obj s c = Some (Inr obj') \<Longrightarrow> fields_in s obj'"
  using assms
  by (auto simp: parse_fragment_def parse_query_def parse_path_def split: option.splits
      elim!: store_range_fields) (auto simp: fields_in_def)

text \<open>The stages before and from the host name.\<close>

lemma head_fields:
  "parse_scheme p obj s = Some (Inr (o1, a)) \<Longrightarrow> parse_authentication p o1 s a = Some (Inr (o2, r)) \<Longrightarrow>
   parse_port o2 s c = Some (Inr (o3, c')) \<Longrightarrow> fields_in s obj \<Longrightarrow> fields_in s o3"
  by (rule parse_port_fields[OF _ parse_authentication_fields[OF _ parse_scheme_fields]])

lemma tail_fields:
  "parse_hostname p u s c = Some (Inr o1) \<Longrightarrow> parse_fragment p o1 s c = Some (Inr o2) \<Longrightarrow>
   parse_query p o2 s c = Some (Inr o3) \<Longrightarrow> parse_path p o3 s c = Some (Inr o4) \<Longrightarrow>
   fields_in s u \<Longrightarrow> fields_in s o4"
  by (rule parse_tail_fields(3)[OF parse_tail_fields(2)[OF parse_tail_fields(1)[OF parse_hostname_fields]]])

lemma parse_uri_fields:
  assumes len: "length s \<le> PTRDIFF_MAX"
  shows "\<exists>e u. parse_uri p zero_uri s = Some (e, u) \<and> (e = UNALIXERR_SUCCESS \<longrightarrow> uri_ok p u \<and> fields_in s u)"
proof -
  let ?E = "\<lambda>r. fst r \<noteq> UNALIXERR_SUCCESS" and ?P = "\<lambda>r. uri_ok p (snd r) \<and> fields_in s (snd r)"
  have tail: "ends (stage (parse_hostname p u s c) (\<lambda>obj. stage (parse_fragment p obj s c) (\<lambda>obj.
      stage (parse_query p obj s c) (\<lambda>obj. stage (parse_path p obj s c) (\<lambda>obj.
      Some (Inr (UNALIXERR_SUCCESS, obj))))))) ?E ?P"
    if "cursors_ok s c" "port_ok (uri_port u)" "\<exists>sc. uri_scheme u = Some sc \<and> scheme_ok sc" "fields_in s u" for u c
    using that len
    by (intro ends_stage_eq[OF parse_hostname_ends] ends_stage_eq[OF parse_tail_ends(1)]
        ends_stage_eq[OF parse_tail_ends(2)] ends_stage_eq[OF parse_tail_ends(3)])
      (auto simp: uri_ok_def, erule (4) tail_fields)
  have "ends (stage (parse_scheme p zero_uri s) (\<lambda>(obj, a).
     stage (parse_authentication p obj s a) (\<lambda>(obj, r). stage (locate_authority obj s a r) (\<lambda>c.
     stage (parse_port obj s c) (\<lambda>(obj, c). stage (parse_hostname p obj s c) (\<lambda>obj.
     stage (parse_fragment p obj s c) (\<lambda>obj. stage (parse_query p obj s c) (\<lambda>obj.
     stage (parse_path p obj s c) (\<lambda>obj. Some (Inr (UNALIXERR_SUCCESS, obj))))))))))) ?E ?P"
    apply (rule ends_stage_eq[OF parse_scheme_ends], clarify)
    apply (rule ends_stage_eq[OF parse_authentication_ends], assumption, clarify)
    apply (rule ends_stage_eq[OF locate_authority_ends], assumption)
    apply (rule ends_stage_eq[OF parse_port_ends], assumption)
    subgoal by (simp add: same_host_fields_def zero_uri_def port_ok_def)
    apply clarify
    apply (rule tail)
       apply (auto simp: same_host_fields_def)[3]
    by (erule (2) head_fields[OF _ _ _ fields_in_zero])
  then have "ends (stage (parse_scheme p zero_uri s) (\<lambda>(obj, a).
     stage (parse_authentication p obj s a) (\<lambda>(obj, r). stage (locate_authority obj s a r) (\<lambda>c.
     stage (parse_port obj s c) (\<lambda>(obj, c). stage (parse_hostname p obj s c) (\<lambda>obj.
     stage (parse_fragment p obj s c) (\<lambda>obj. stage (parse_query p obj s c) (\<lambda>obj.
     stage (parse_path p obj s c) (\<lambda>obj. Some (Inr (UNALIXERR_SUCCESS, obj)))))))))))
     (\<lambda>r. fst r = UNALIXERR_SUCCESS \<longrightarrow> ?P r) (\<lambda>r. fst r = UNALIXERR_SUCCESS \<longrightarrow> ?P r)"
    by (rule ends_mono) auto
  from ends_body[OF this] show ?thesis
    unfolding parse_uri_def by (auto simp: case_prod_unfold)
qed

text \<open>\<open>uri_parse\<close> on a fresh URI.\<close>

lemma uri_parse_fields:
  assumes "length s \<le> PTRDIFF_MAX"
  obtains e u where "uri_parse p zero_uri s = Some (e, u)"
    "e = UNALIXERR_SUCCESS \<Longrightarrow> uri_ok p u \<and> fields_in s u" "e \<noteq> UNALIXERR_SUCCESS \<Longrightarrow> u = zero_uri"
proof -
  from parse_uri_fields[OF assms, of p] obtain e u where
    "parse_uri p zero_uri s = Some (e, u)" "e = UNALIXERR_SUCCESS \<longrightarrow> uri_ok p u \<and> fields_in s u"
    by blast
  then show thesis
    by (intro that[of e "if e \<noteq> UNALIXERR_SUCCESS then zero_uri else u"]) (auto simp: uri_parse_def)
qed

lemma parse_nonempty: "uri_parse p obj s = Some (UNALIXERR_SUCCESS, u) \<Longrightarrow> s \<noteq> []"
  by (auto simp: uri_parse_def parse_uri_def parse_scheme_def strstr_def SCHEME_SEPARATOR_def)

section \<open>Rules\<close>

text \<open>What a list of rules makes of a component, without memory.\<close>

fun strip_text :: "'c pcre2 \<Rightarrow> 'c list \<Rightarrow> string option \<Rightarrow> string option" where
  "strip_text rx [] v = v"
| "strip_text rx (c # cs) v =
     (case v of None \<Rightarrow> None | Some s \<Rightarrow> strip_text rx cs (nonempty (strip_spec rx c s)))"

lemma strip_text_None [simp]: "strip_text rx cs None = None"
  by (cases cs) simp_all

text \<open>A subject as the code has it: short, without a NUL.\<close>

definition subject_ok :: "string \<Rightarrow> bool" where
  "subject_ok s \<longleftrightarrow> length s < 2 ^ 57 \<and> nul \<notin> set s"

lemma subject_ok_PTRDIFF: "subject_ok s \<Longrightarrow> length s < PTRDIFF_MAX"
  by (simp add: subject_ok_def PTRDIFF_MAX_def)

lemma strip_spec_text_in:
  assumes "pcre2_ok rx" "text_in s (Some x)"
  shows "text_in s (nonempty (strip_spec rx c x))"
proof -
  have "set (strip_spec rx c x) \<subseteq> set x"
    using strip_spec_subseq[OF assms(1), of c x] by (metis subseq_order.trans subseq_singleton_left subsetI)
  then show ?thesis
    using assms(2) length_strip_spec[of rx c x] by (auto simp: text_in_def nonempty_def)
qed

lemma text_in_subject:
  "text_in s (Some x) \<Longrightarrow> subject_ok s \<Longrightarrow> x \<noteq> [] \<and> nul \<notin> set x \<and> length x < PTRDIFF_MAX"
  using subject_ok_PTRDIFF[of s] by (auto simp: text_in_def subject_ok_def)

lemma strip_all_text:
  assumes "pcre2_ok rx" "subject_ok s" "text_in s (Some x)"
  shows "strip_all rx cs x = Some (strip_text rx cs (Some x)) \<and> text_in s (strip_text rx cs (Some x))"
  using assms(3)
proof (induction cs arbitrary: x)
  case Nil
  then show ?case by simp
next
  case (Cons c cs)
  have x: "regex_strip rx c x = Some (nonempty (strip_spec rx c x))"
    using text_in_subject[OF Cons.prems assms(2)] by (intro regex_strip_spec assms(1)) auto
  have "text_in s (nonempty (strip_spec rx c x))"
    by (rule strip_spec_text_in[OF assms(1) Cons.prems])
  then show ?case
    using Cons.IH by (cases "nonempty (strip_spec rx c x)") (simp_all add: x)
qed

lemma strip_field_text:
  assumes "pcre2_ok rx" "subject_ok s" "text_in s v"
  shows "strip_field rx ignored cs v = Some (if ignored then v else strip_text rx cs v)"
    and "text_in s (if ignored then v else strip_text rx cs v)"
  using strip_all_text[OF assms(1,2)] assms(3) by (cases v; auto simp: strip_field_def)+

text \<open>One ruleset on a URI.\<close>

definition strip_uri_text :: "'c pcre2 \<Rightarrow> clean_flags \<Rightarrow> 'c ruleset \<Rightarrow> uri \<Rightarrow> uri" where
  "strip_uri_text rx fl r u =
     (let rs = (\<lambda>v. if ignore_rules fl then v else strip_text rx (rules r) v);
          ms = (\<lambda>v. if ignore_referral_marketing fl then v else strip_text rx (referral_marketing r) v)
      in u\<lparr>uri_query := ms (rs (uri_query u)), uri_fragment := ms (rs (uri_fragment u)),
           uri_path := (if ignore_raw_rules fl then uri_path u else strip_text rx (raw_rules r) (uri_path u))\<rparr>)"

lemma strip_uri_eq:
  assumes "pcre2_ok rx" "subject_ok s" "fields_in s u"
  shows "strip_uri rx fl r u = Some (strip_uri_text rx fl r u) \<and> fields_in s (strip_uri_text rx fl r u)"
proof -
  note [simp] = strip_field_text[OF assms(1,2)]
  have "text_in s (uri_query u)" "text_in s (uri_fragment u)" "text_in s (uri_path u)"
    using assms(3) by (auto simp: fields_in_def)
  then show ?thesis
    using assms(3) by (simp add: strip_uri_def strip_uri_text_def fields_in_def Let_def)
qed

lemma strip_uri_text_ok: "uri_ok p u \<Longrightarrow> uri_ok p (strip_uri_text rx fl r u)"
  by (simp add: uri_ok_def host_ok_def strip_uri_text_def Let_def)

section \<open>Redirections\<close>

text \<open>
  Documented behaviour of PCRE2 for a pattern with a group that takes part in
  every match: the output vector has its bounds, in order and in the subject.
\<close>

definition group_ok :: "'c pcre2 \<Rightarrow> 'c \<Rightarrow> bool" where
  "group_ok rx c \<longleftrightarrow> (\<forall>s ov. pcre2_match rx c s = Some ov \<longrightarrow>
     2 \<le> length ov \<and> fst (ov ! 1) \<le> snd (ov ! 1) \<and> snd (ov ! 1) \<le> length s)"

definition groups_ok :: "'c pcre2 \<Rightarrow> 'c ruleset list \<Rightarrow> bool" where
  "groups_ok rx rs \<longleftrightarrow> (\<forall>r \<in> set rs. \<forall>c \<in> set (redirections r). group_ok rx c)"

text \<open>A redirection captures a text that starts behind the scheme of the URL.\<close>

definition groups_late :: "'c pcre2 \<Rightarrow> 'c ruleset list \<Rightarrow> bool" where
  "groups_late rx rs \<longleftrightarrow> (\<forall>r \<in> set rs. \<forall>c \<in> set (redirections r). \<forall>s ov.
     pcre2_match rx c s = Some ov \<longrightarrow> 8 \<le> fst (ov ! 1))"

lemma length_unquote: "length (rfc3986_unquote_safe s) \<le> length s"
proof (induction s rule: rfc3986_unquote_safe.induct)
  case (2 ch rest)
  have "ch = CHR ''%'' \<and> 2 \<le> length rest \<Longrightarrow> isalnum ch \<or> strchr_in URI_SAFE_SYMBOLS ch \<Longrightarrow>
      length (rfc3986_unquote_safe (drop 2 rest)) \<le> length (drop 2 rest)"
    using 2(1) by blast
  then have "ch = CHR ''%'' \<and> 2 \<le> length rest \<Longrightarrow> isalnum ch \<or> strchr_in URI_SAFE_SYMBOLS ch \<Longrightarrow>
      length (rfc3986_unquote_safe (drop 2 rest)) \<le> length rest"
    by fastforce
  with 2(2,3) show ?case by (auto simp: Let_def)
qed simp

lemma prepend_scheme_fits:
  assumes "length s + 8 \<le> cap" "length s \<le> PTRDIFF_MAX" "nul \<notin> set s"
  shows "\<exists>t. prepend_scheme_if_needed p cap s = Some t \<and> (t = s \<or> t = ''http://'' @ s) \<and> nul \<notin> set t"
proof -
  from uri_parse_fields[OF assms(2), of p] obtain e u where "uri_parse p zero_uri s = Some (e, u)"
    by metis
  moreover have "nul \<notin> set (''http://'' @ s)"
    using assms(3) by (simp add: nul_def)
  ultimately show ?thesis
    using assms(1,3) by (auto simp: prepend_scheme_if_needed_def uri_consts)
qed

lemma redirection_url_fits:
  assumes ov: "2 \<le> length ov" "fst (ov ! 1) \<le> snd (ov ! 1)" "snd (ov ! 1) \<le> length s"
    and s: "subject_ok s"
  shows "\<exists>t. redirection_url p s ov = Some t \<and> length t \<le> length s - fst (ov ! 1) + 7 \<and> nul \<notin> set t"
proof -
  obtain a b where ab: "ov ! 1 = (a, b)" by (cases "ov ! 1")
  let ?url = "slice s a (b - a)"
  have len: "length ?url = b - a"
    using ov ab by simp
  have copy: "memcpy_range s a (b - a) = Some ?url"
    using ov ab by (simp add: memcpy_range_def)
  let ?t = "c_str (rfc3986_unquote_safe ?url)"
  have t: "length ?t \<le> b - a" "length (rfc3986_unquote_safe ?url) \<le> b - a"
    using length_c_str[of "rfc3986_unquote_safe ?url"] length_unquote[of ?url] len by simp_all
  have "b - a \<le> PTRDIFF_MAX"
    using subject_ok_PTRDIFF[OF s] ov ab by simp
  then have "\<exists>u. prepend_scheme_if_needed p ((b - a) + 9) ?t = Some u \<and>
      (u = ?t \<or> u = ''http://'' @ ?t) \<and> nul \<notin> set u"
    using t by (intro prepend_scheme_fits) auto
  then obtain u where u: "prepend_scheme_if_needed p ((b - a) + 9) ?t = Some u"
    "u = ?t \<or> u = ''http://'' @ ?t" "nul \<notin> set u" by blast
  have "size_diff b a = b - a" "b - a + 1 + length HTTPS_SCHEME + length SCHEME_SEPARATOR = b - a + 9"
    using ov ab by (simp_all add: uri_consts)
  then have "redirection_url p s ov = Some u"
    using ov(1) ab t(2) u(1) by (simp only: redirection_url_def Let_def prod.case copy bind.bind_lunit) simp
  moreover have "length u \<le> length s - a + 7"
    using u(2) t(1) ov ab by auto
  ultimately show ?thesis
    using u(3) ab by auto
qed

lemma first_redirection_Some:
  "first_redirection rx cs s = Some ov \<Longrightarrow> \<exists>c \<in> set cs. pcre2_match rx c s = Some ov"
  by (induction cs) (auto split: option.splits)

lemma first_redirection_None:
  "first_redirection rx cs s = None \<longleftrightarrow> (\<forall>c \<in> set cs. \<not> regex_match rx c s)"
  by (induction cs) (auto simp: regex_match_def split: option.splits)

lemma exception_matched_iff: "exception_matched rx cs s \<longleftrightarrow> (\<exists>c \<in> set cs. regex_match rx c s)"
  by (induction cs) auto

section \<open>The loop over the rulesets\<close>

text \<open>A ruleset applies: its pattern matches and no exception does.\<close>

definition applies :: "'c pcre2 \<Rightarrow> clean_flags \<Rightarrow> string \<Rightarrow> 'c ruleset \<Rightarrow> bool" where
  "applies rx fl s r \<longleftrightarrow> regex_match rx (url_pattern r) s \<and>
     (ignore_exceptions fl \<or> \<not> (\<exists>c \<in> set (exceptions r). regex_match rx c s))"

definition redirects :: "'c pcre2 \<Rightarrow> clean_flags \<Rightarrow> string \<Rightarrow> 'c ruleset \<Rightarrow> bool" where
  "redirects rx fl s r \<longleftrightarrow> applies rx fl s r \<and> \<not> ignore_redirections fl \<and>
     (\<exists>c \<in> set (redirections r). regex_match rx c s)"

definition apply_rules :: "'c pcre2 \<Rightarrow> clean_flags \<Rightarrow> string \<Rightarrow> 'c ruleset list \<Rightarrow> uri \<Rightarrow> uri" where
  "apply_rules rx fl s rs u = fold (strip_uri_text rx fl) (filter (applies rx fl s) rs) u"

lemma clean_rulesets_skip:
  "\<not> applies rx fl s r \<Longrightarrow> clean_rulesets p rx fl s (r # rs) u = clean_rulesets p rx fl s rs u"
  by (auto simp: applies_def exception_matched_iff)

lemma clean_rulesets_drop:
  "\<not> applies rx fl s r \<Longrightarrow>
     clean_rulesets p rx fl s (rs @ r # rs') u = clean_rulesets p rx fl s (rs @ rs') u"
proof (induction rs arbitrary: u)
  case Nil
  then show ?case by (simp add: clean_rulesets_skip del: clean_rulesets.simps)
next
  case (Cons a rs)
  have "clean_rulesets p rx fl s (rs @ r # rs') = clean_rulesets p rx fl s (rs @ rs')"
    by (rule ext) (rule Cons.IH[OF Cons.prems])
  then show ?case
    by (simp only: append_Cons clean_rulesets.simps)
qed

lemma clean_rulesets_strip:
  assumes "applies rx fl s r" "\<not> redirects rx fl s r" "pcre2_ok rx" "subject_ok s" "fields_in s u"
  shows "clean_rulesets p rx fl s (r # rs) u = clean_rulesets p rx fl s rs (strip_uri_text rx fl r u)"
proof -
  have "(if \<not> ignore_redirections fl then first_redirection rx (redirections r) s else None) = None"
    using assms(1,2) by (auto simp: redirects_def first_redirection_None)
  moreover have "strip_uri rx fl r u = Some (strip_uri_text rx fl r u)"
    using strip_uri_eq[OF assms(3-5)] by simp
  ultimately show ?thesis
    using assms(1) by (auto simp: applies_def exception_matched_iff)
qed

lemma clean_rulesets_redirect:
  assumes "redirects rx fl s r"
  obtains c ov where "c \<in> set (redirections r)" "pcre2_match rx c s = Some ov"
    "clean_rulesets p rx fl s (r # rs) u = map_option Inl (redirection_url (in_call 1 p) s ov)"
proof -
  from assms obtain ov where ov: "first_redirection rx (redirections r) s = Some ov"
    using first_redirection_None[of rx "redirections r" s] by (auto simp: redirects_def)
  from first_redirection_Some[OF this] obtain c where
    "c \<in> set (redirections r)" "pcre2_match rx c s = Some ov" by blast
  with ov assms show thesis
    by (intro that) (auto simp: redirects_def applies_def exception_matched_iff)
qed

lemma apply_rules_simps:
  "apply_rules rx fl s [] u = u"
  "apply_rules rx fl s (r # rs) u =
     apply_rules rx fl s rs (if applies rx fl s r then strip_uri_text rx fl r u else u)"
  by (simp_all add: apply_rules_def)

lemma clean_rulesets_plain:
  assumes "pcre2_ok rx" "subject_ok s" "fields_in s u" "\<forall>r \<in> set rs. \<not> redirects rx fl s r"
  shows "clean_rulesets p rx fl s rs u = Some (Inr (apply_rules rx fl s rs u)) \<and>
     fields_in s (apply_rules rx fl s rs u)"
  using assms(3,4)
proof (induction rs arbitrary: u)
  case Nil
  then show ?case by (simp add: apply_rules_simps)
next
  case (Cons r rs)
  show ?case
  proof (cases "applies rx fl s r")
    case True
    then show ?thesis
      using Cons clean_rulesets_strip[OF True _ assms(1,2) Cons.prems(1)]
        strip_uri_eq[OF assms(1,2) Cons.prems(1), of fl r]
      by (simp add: apply_rules_simps del: clean_rulesets.simps)
  next
    case False
    then show ?thesis
      using Cons clean_rulesets_skip[OF False] by (simp add: apply_rules_simps del: clean_rulesets.simps)
  qed
qed

text \<open>The first ruleset that redirects decides, whatever the others would strip.\<close>

lemma clean_rulesets_first_redirect:
  assumes "pcre2_ok rx" "subject_ok s" "fields_in s u" "\<forall>a \<in> set rs. \<not> redirects rx fl s a"
  shows "clean_rulesets p rx fl s (rs @ r # rs') u = clean_rulesets p rx fl s (r # rs') (apply_rules rx fl s rs u) \<and>
     fields_in s (apply_rules rx fl s rs u)"
  using assms(3,4)
proof (induction rs arbitrary: u)
  case Nil
  then show ?case by (simp add: apply_rules_simps)
next
  case (Cons a rs)
  show ?case
  proof (cases "applies rx fl s a")
    case True
    then show ?thesis
      using Cons clean_rulesets_strip[OF True _ assms(1,2) Cons.prems(1)]
        strip_uri_eq[OF assms(1,2) Cons.prems(1), of fl a]
      by (simp add: apply_rules_simps del: clean_rulesets.simps)
  next
    case False
    then show ?thesis
      using Cons clean_rulesets_skip[OF False] by (simp add: apply_rules_simps del: clean_rulesets.simps)
  qed
qed

lemma apply_rules_ok: "uri_ok p u \<Longrightarrow> uri_ok p (apply_rules rx fl s rs u)"
  by (induction rs arbitrary: u) (simp_all add: apply_rules_simps strip_uri_text_ok)

lemma clean_rulesets_ok:
  assumes "pcre2_ok rx" "subject_ok s" "groups_ok rx rs" "fields_in s u"
  shows "\<exists>r. clean_rulesets p rx fl s rs u = Some r \<and>
     (\<forall>t. r = Inl t \<longrightarrow> length t \<le> length s + 7 \<and> nul \<notin> set t \<and>
        (groups_late rx rs \<longrightarrow> length t < length s)) \<and>
     (\<forall>u'. r = Inr u' \<longrightarrow> fields_in s u' \<and> (uri_ok p' u \<longrightarrow> uri_ok p' u'))"
  using assms(3,4)
proof (induction rs arbitrary: u)
  case Nil
  then show ?case by simp
next
  case (Cons r rs)
  have groups: "groups_ok rx rs" "groups_late rx (r # rs) \<Longrightarrow> groups_late rx rs"
    using Cons.prems(1) by (auto simp: groups_ok_def groups_late_def)
  consider "redirects rx fl s r" | "applies rx fl s r" "\<not> redirects rx fl s r" | "\<not> applies rx fl s r"
    by blast
  then show ?case
  proof cases
    case 1
    obtain c ov where ov: "c \<in> set (redirections r)" "pcre2_match rx c s = Some ov"
      "clean_rulesets p rx fl s (r # rs) u = map_option Inl (redirection_url (in_call 1 p) s ov)"
      by (rule clean_rulesets_redirect[OF 1])
    then have group: "2 \<le> length ov \<and> fst (ov ! 1) \<le> snd (ov ! 1) \<and> snd (ov ! 1) \<le> length s"
      using Cons.prems(1) by (auto simp: groups_ok_def group_ok_def)
    from group obtain t where t: "redirection_url (in_call 1 p) s ov = Some t"
      "length t \<le> length s - fst (ov ! 1) + 7" "nul \<notin> set t"
      using redirection_url_fits[of ov s "in_call 1 p"] assms(2) by auto
    have "length t < length s" if "groups_late rx (r # rs)"
    proof -
      have "8 \<le> fst (ov ! 1)"
        using that ov(1,2) by (auto simp: groups_late_def)
      with t(2) group show ?thesis by linarith
    qed
    with t ov(3) show ?thesis by simp
  next
    case 2
    have "fields_in s (strip_uri_text rx fl r u)"
      using strip_uri_eq[OF assms(1,2) Cons.prems(2)] by simp
    from Cons.IH[OF groups(1) this] groups(2) strip_uri_text_ok[of p' u rx fl r] show ?thesis
      unfolding clean_rulesets_strip[OF 2 assms(1,2) Cons.prems(2)] by blast
  next
    case 3
    from Cons.IH[OF groups(1) Cons.prems(2)] groups(2) show ?thesis
      unfolding clean_rulesets_skip[OF 3] by blast
  qed
qed

end
