(* ===== verification/CleanUrl_Query.thy ===== *)
theory CleanUrl_Query
  imports CleanUrl_Proofs
begin

text \<open>
  The rewritten query of \<open>unalix_clean_url\<close> (which parameters are kept, and that
  they fit in the buffer of three times the query), one activation of the
  function, and the end of its recursion.
\<close>

section \<open>The kept parameters\<close>

fun kept :: "clean_flags \<Rightarrow> parameter list \<Rightarrow> parameter list \<Rightarrow> parameter list" where
  "kept fl seen [] = []"
| "kept fl seen (x # xs) =
     (if strip_empty fl \<and> (par_key x = None \<or> par_value x = None) then kept fl seen xs
      else if strip_duplicates fl \<and> (\<exists>y \<in> set seen. par_key x = par_key y) then kept fl seen xs
      else x # kept fl (if strip_duplicates fl then seen @ [x] else seen) xs)"

lemma list_ex_same_key: "list_ex (same_key x) ys \<longleftrightarrow> (\<exists>y \<in> set ys. par_key x = par_key y)"
proof -
  have "same_key x y \<longleftrightarrow> par_key x = par_key y" for y
    by (cases "par_key x"; cases "par_key y") (simp_all add: same_key_def)
  then show ?thesis
    by (simp add: list_ex_iff)
qed

lemma rebuild_query_kept:
  assumes "strip_duplicates fl \<longrightarrow> length seen + length xs \<le> slots"
  shows "rebuild_query cap slots fl seen dst xs = print_items cap AND_SIGN parameter_parts dst (kept fl seen xs)"
  using assms
proof (induction xs arbitrary: seen dst)
  case (Cons x xs)
  have skip: "strip_duplicates fl \<longrightarrow> length seen + length xs \<le> slots"
    and add: "strip_duplicates fl \<longrightarrow> length (seen @ [x]) + length xs \<le> slots"
    and room: "\<not> (strip_duplicates fl \<and> \<not> length seen < slots)"
    using Cons.prems by auto
  have more: "strip_duplicates fl \<longrightarrow>
      length (if strip_duplicates fl then seen @ [x] else seen) + length xs \<le> slots"
    using add by simp
  show ?case
    unfolding rebuild_query.simps kept.simps list_ex_same_key if_not_P[OF room]
      Cons.IH[OF skip] Cons.IH[OF more]
    by (cases "strip_empty fl \<and> (par_key x = None \<or> par_value x = None)";
        cases "strip_duplicates fl \<and> (\<exists>y \<in> set seen. par_key x = par_key y)")
      (simp_all only: if_True if_False simp_thms print_items.simps)
qed simp

lemma subseq_kept: "subseq (kept fl seen xs) xs"
  by (induction xs arbitrary: seen) auto

lemma kept_all: "\<not> strip_empty fl \<Longrightarrow> \<not> strip_duplicates fl \<Longrightarrow> kept fl seen xs = xs"
  by (induction xs arbitrary: seen) auto

lemma kept_nonempty:
  "strip_empty fl \<Longrightarrow> x \<in> set (kept fl seen xs) \<Longrightarrow> par_key x \<noteq> None \<and> par_value x \<noteq> None"
  by (induction xs arbitrary: seen) (auto split: if_splits)

lemma kept_seen:
  "strip_duplicates fl \<Longrightarrow> x \<in> set (kept fl seen xs) \<Longrightarrow> y \<in> set seen \<Longrightarrow> par_key x \<noteq> par_key y"
proof (induction xs arbitrary: seen)
  case (Cons z xs)
  show ?case
    using Cons.prems Cons.IH[of seen] Cons.IH[of "seen @ [z]"] by (auto split: if_splits)
qed simp

lemma kept_distinct: "strip_duplicates fl \<Longrightarrow> distinct (map par_key (kept fl seen xs))"
proof (induction xs arbitrary: seen)
  case (Cons z xs)
  have "par_key z \<notin> par_key ` set (kept fl (seen @ [z]) xs)"
    using kept_seen[OF Cons.prems, of _ "seen @ [z]" xs z] by force
  then show ?case
    using Cons by simp
qed simp

text \<open>A kept parameter is the first one of its key among those that are candidates.\<close>

lemma kept_keys:
  assumes "strip_duplicates fl"
  shows "par_key ` set (kept fl seen xs) =
     par_key ` set (filter (\<lambda>x. strip_empty fl \<longrightarrow> par_key x \<noteq> None \<and> par_value x \<noteq> None) xs) - par_key ` set seen"
proof (induction xs arbitrary: seen)
  case (Cons z xs)
  show ?case
    using assms Cons.IH[of seen] Cons.IH[of "seen @ [z]"] by auto
qed simp

lemma kept_idem:
  assumes "\<forall>x \<in> set xs. strip_empty fl \<longrightarrow> par_key x \<noteq> None \<and> par_value x \<noteq> None"
    and "strip_duplicates fl \<longrightarrow> distinct (map par_key (seen @ xs))"
  shows "kept fl seen xs = xs"
  using assms
proof (induction xs arbitrary: seen)
  case (Cons z xs)
  have "strip_duplicates fl \<longrightarrow> distinct (map par_key ((if strip_duplicates fl then seen @ [z] else seen) @ xs))"
    using Cons.prems(2) by simp
  with Cons show ?case by auto
qed simp

section \<open>The buffer of the rewritten query\<close>

lemma join_split_on: "join [d] (split_on d s) = s"
proof (induction s)
  case (Cons c s)
  then show ?case
    by (cases "split_on d s" rule: list.exhaust) (auto simp: join_Cons)
qed simp

lemma length_split_on: "length (split_on d s) \<le> length s + 1"
proof (induction s)
  case (Cons c s)
  obtain y ys where "split_on d s = y # ys" by (rule split_on_Cons)
  with Cons show ?case by simp
qed simp

lemma length_join: "length (join sep xs) = sum_list (map length xs) + (length xs - 1) * length sep"
  by (induction xs rule: join.induct) simp_all

lemma sum_list_subseq: "subseq ys xs \<Longrightarrow> sum_list (map f ys) \<le> (sum_list (map f xs) :: nat)"
  by (induction rule: list_emb.induct) auto

lemma length_join_subseq: "subseq ys xs \<Longrightarrow> length (join sep (rendered parts ys)) \<le> length (join sep (rendered parts xs))"
  using sum_list_subseq[of ys xs "\<lambda>x. length (concat (parts x))"] list_emb_length[of "(=)" ys xs]
  by (simp add: length_join comp_def diff_le_mono add_mono mult_le_mono1 del: length_concat)

lemma length_key_value: "length (pair_str (key_value s)) \<le> length s + 1"
proof (induction s)
  case (Cons c s)
  then show ?case by (auto simp: key_value_def pair_str_def)
qed (simp add: key_value_def pair_str_def)

lemma length_join_pieces: "length (join ''&'' (map pair_str (query_pieces q))) \<le> 2 * length q + 1"
proof -
  let ?ps = "split_on CHR ''&'' q"
  have "sum_list (map (length \<circ> pair_str \<circ> key_value) ps) \<le> sum_list (map length ps) + length ps" for ps
    by (induction ps) (auto intro: order_trans[OF add_mono[OF length_key_value]])
  then have "length (join ''&'' (map pair_str (query_pieces q))) \<le> length (join ''&'' ?ps) + length ?ps"
    by (simp add: length_join query_pieces_def comp_assoc)
  also have "\<dots> \<le> 2 * length q + 1"
    using length_split_on[of "CHR ''&''" q] join_split_on[of "CHR ''&''" q] by simp
  finally show ?thesis .
qed

lemma length_query_pieces: "length (query_pieces q) \<le> length q + 1"
  using length_split_on by (simp add: query_pieces_def)

section \<open>clean_query\<close>

text \<open>The rewritten query, without memory.\<close>

definition clean_query_text :: "clean_flags \<Rightarrow> string \<Rightarrow> string option" where
  "clean_query_text fl q =
     nonempty (join ''&'' (rendered parameter_parts (kept fl [] (map mk_parameter (query_pieces q)))))"

lemma length_join_kept:
  "length (join ''&'' (rendered parameter_parts (kept fl [] (map mk_parameter (query_pieces q))))) \<le> 2 * length q + 1"
proof -
  have "length (join ''&'' (rendered parameter_parts (kept fl [] (map mk_parameter (query_pieces q))))) \<le>
      length (join ''&'' (rendered parameter_parts (map mk_parameter (query_pieces q))))"
    by (rule length_join_subseq[OF subseq_kept])
  also have "\<dots> \<le> 2 * length q + 1"
    unfolding rendered_pairs by (rule length_join_pieces)
  finally show ?thesis .
qed

lemma length_clean_query_text: "opt_len (clean_query_text fl q) \<le> 2 * length q + 1"
  using length_join_kept[of fl q]
  by (simp add: clean_query_text_def nonempty_def opt_len_def del: length_concat)

lemma put_add_accounted: "add.accounted q = put.accounted q"
  by (simp add: put.accounted_def add.accounted_def)

lemma query_parse_result:
  obtains e q where "query_parse p zero_query s = Some (e, q)" "query_inv q"
    "e = UNALIXERR_SUCCESS \<Longrightarrow> q_parameters q = map mk_parameter (query_pieces s)"
proof -
  from add.push_all_accounted[OF add.accounted_empty, of p "query_pieces s"] obtain e q where
    "query_parse p zero_query s = Some (e, q)" "add.accounted q"
    "if e = UNALIXERR_SUCCESS then q_parameters q = q_parameters zero_query @ map mk_parameter (query_pieces s)
     else prefix (q_parameters q) (q_parameters zero_query @ map mk_parameter (query_pieces s))"
    unfolding query_parse_pieces by blast
  then show thesis
    using add.empty(2) by (intro that[of e q]) (simp_all add: add.accounted_def)
qed

lemma clean_query_cases:
  assumes "q \<noteq> []"
  shows "\<exists>r. clean_query p fl q = Some r \<and> (\<forall>e. r = Inl e \<longrightarrow> e \<noteq> UNALIXERR_SUCCESS) \<and>
     (\<forall>v. r = Inr v \<longrightarrow> v = clean_query_text fl q)"
proof -
  obtain e query where parse: "query_parse p zero_query q = Some (e, query)" "query_inv query"
    "e = UNALIXERR_SUCCESS \<Longrightarrow> q_parameters query = map mk_parameter (query_pieces q)"
    by (rule query_parse_result[of p q, OF that])
  show ?thesis
  proof (cases "e = UNALIXERR_SUCCESS")
    case False
    then show ?thesis using parse(1) by (simp add: clean_query_def)
  next
    case True
    let ?ps = "map mk_parameter (query_pieces q)"
    have ps: "q_parameters query = ?ps" "take (q_position query) (q_parameters query) = ?ps"
      "q_size query div sizeof_Parameter = length ?ps"
      using parse(2,3) True by (auto simp: query_inv_def sizeof_Parameter_def)
    have "rebuild_query (length q * 3 + 1) (length ?ps) fl [] [] ?ps =
        print_items (length q * 3 + 1) AND_SIGN parameter_parts [] (kept fl [] ?ps)"
      by (rule rebuild_query_kept) simp
    also have "\<dots> = Some (join AND_SIGN (rendered parameter_parts (kept fl [] ?ps)))"
    proof (rule print_items_fits[OF put.parts_nonempty])
      have "length (join AND_SIGN (rendered parameter_parts (kept fl [] ?ps))) \<le> 2 * length q + 1"
        unfolding AND_SIGN_def by (rule length_join_kept)
      moreover have "1 \<le> length q"
        using assms by (cases q) simp_all
      ultimately show "length (join AND_SIGN (rendered parameter_parts (kept fl [] ?ps))) + 1 \<le> length q * 3 + 1"
        by (simp del: length_concat)
    qed
    finally have "rebuild_query (length q * 3 + 1) (length ?ps) fl [] [] ?ps =
        Some (join ''&'' (rendered parameter_parts (kept fl [] ?ps)))"
      by (simp add: AND_SIGN_def)
    then show ?thesis
      using parse(1) True ps by (simp add: clean_query_def clean_query_text_def nonempty_def)
  qed
qed

lemma clean_query_ample:
  assumes "q \<noteq> []" "ample p" "length q < 2 ^ 58 - 1"
  shows "clean_query p fl q = Some (Inr (clean_query_text fl q))"
proof -
  have small: "\<forall>kv \<in> set (query_pieces q). length (pair_str kv) < PTRDIFF_MAX"
  proof
    fix kv assume "kv \<in> set (query_pieces q)"
    then obtain x where x: "kv = key_value x" "x \<in> set (split_on CHR ''&'' q)"
      by (auto simp: query_pieces_def)
    have "length x \<le> length (join ''&'' (split_on CHR ''&'' q))"
      using member_le_sum_list[of "length x" "map length (split_on CHR ''&'' q)"] x(2)
      by (simp add: length_join trans_le_add1)
    then have "length x \<le> length q"
      by (simp add: join_split_on)
    then show "length (pair_str kv) < PTRDIFF_MAX"
      using length_key_value[of x] assms(3) x(1) by (simp add: PTRDIFF_MAX_def)
  qed
  have "length (query_pieces q) < 2 ^ 58"
    using length_query_pieces[of q] assms(3) by simp
  from query_built[OF assms(2) this small] obtain query where
    query: "query_parse p zero_query q = Some (UNALIXERR_SUCCESS, query)" "put.accounted query"
      "q_parameters query = map mk_parameter (query_pieces q)"
    unfolding query_parse_pieces by blast
  have "q_size query \<le> PTRDIFF_MAX"
    using query(2,3) length_query_pieces[of q] assms(3)
    by (simp add: put.accounted_def query_inv_def sizeof_Parameter_def PTRDIFF_MAX_def)
  moreover have "length q * 3 + 1 \<le> PTRDIFF_MAX"
    using assms(3) by (simp add: PTRDIFF_MAX_def)
  ultimately have no_error: "clean_query p fl q \<noteq> Some (Inl e)" for e
    using query(1) assms(2) by (auto simp: clean_query_def bind_eq_Some_conv)
  from clean_query_cases[OF assms(1), of p fl] no_error show ?thesis
    by (metis sumE)
qed

section \<open>The rewritten query read again\<close>

definition pair_of :: "parameter \<Rightarrow> string \<times> string" where
  "pair_of x = (opt_str (par_key x), opt_str (par_value x))"

lemma pair_of_mk [simp]: "pair_of (mk_parameter kv) = kv"
  by (cases kv) (simp add: pair_of_def mk_parameter_def opt_str_def)

lemma pair_ok_key_value: "CHR ''&'' \<notin> set x \<Longrightarrow> pair_ok (key_value x)"
  unfolding pair_ok_def key_value_def fst_conv snd_conv
  by (auto dest: set_takeWhileD in_set_dropD set_dropWhileD)

lemma query_pieces_ok: "kv \<in> set (query_pieces q) \<Longrightarrow> pair_ok kv"
  by (auto simp: query_pieces_def intro!: pair_ok_key_value dest: split_on_notin)

lemma par_key_eq: "par_key (mk_parameter x) = par_key (mk_parameter y) \<longleftrightarrow> fst x = fst y"
  by (auto simp: mk_parameter_def)

definition kept_pairs :: "clean_flags \<Rightarrow> string \<Rightarrow> (string \<times> string) list" where
  "kept_pairs fl q = map pair_of (kept fl [] (map mk_parameter (query_pieces q)))"

lemma kept_pairs_subseq: "subseq (kept_pairs fl q) (query_pieces q)"
proof -
  have "subseq (kept_pairs fl q) (map pair_of (map mk_parameter (query_pieces q)))"
    unfolding kept_pairs_def by (rule subseq_map[OF subseq_kept])
  then show ?thesis by (simp add: comp_def)
qed

lemma subseq_setD: "subseq xs ys \<Longrightarrow> x \<in> set xs \<Longrightarrow> x \<in> set ys"
  by (metis subseq_order.trans subseq_singleton_left)

lemma mk_kept_pairs: "map mk_parameter (kept_pairs fl q) = kept fl [] (map mk_parameter (query_pieces q))"
proof -
  have "x \<in> set (kept fl [] (map mk_parameter (query_pieces q))) \<Longrightarrow> mk_parameter (pair_of x) = x" for x
    using subseq_setD[OF subseq_kept] by fastforce
  then show ?thesis
    unfolding kept_pairs_def by (auto intro: map_idI)
qed

lemma clean_query_text_pairs:
  assumes "clean_query_text fl q = Some q'"
  shows "query_pieces q' = kept_pairs fl q"
proof -
  have q': "q' = join ''&'' (map pair_str (kept_pairs fl q))" "q' \<noteq> []"
    using assms unfolding clean_query_text_def mk_kept_pairs[symmetric] rendered_pairs
    by (auto simp: nonempty_def split: if_splits)
  then have "kept_pairs fl q \<noteq> []"
    by auto
  moreover have "\<forall>kv \<in> set (kept_pairs fl q). pair_ok kv"
    using subseq_setD[OF kept_pairs_subseq] query_pieces_ok by blast
  ultimately show ?thesis
    unfolding q'(1) by (rule query_pieces_join)
qed

lemma kept_pairs_distinct: "strip_duplicates fl \<Longrightarrow> distinct (map fst (kept_pairs fl q))"
proof -
  assume "strip_duplicates fl"
  from kept_distinct[OF this, where seen = "[]" and xs = "map mk_parameter (query_pieces q)"] have "distinct (map (\<lambda>x. par_key (mk_parameter x)) (kept_pairs fl q))"
    unfolding mk_kept_pairs[symmetric] by (simp add: comp_def)
  then show ?thesis
    by (auto simp: distinct_map inj_on_def par_key_eq)
qed

lemma kept_pairs_nonempty:
  "strip_empty fl \<Longrightarrow> kv \<in> set (kept_pairs fl q) \<Longrightarrow> fst kv \<noteq> [] \<and> snd kv \<noteq> []"
  using kept_nonempty[of fl "mk_parameter kv" "[]" "map mk_parameter (query_pieces q)"]
  by (auto simp: mk_kept_pairs[symmetric] mk_parameter_def split: if_splits)

text \<open>The parameters the options let through, before keys that repeat are dropped.\<close>

definition qualifies :: "clean_flags \<Rightarrow> string \<times> string \<Rightarrow> bool" where
  "qualifies fl = (\<lambda>(k, v). strip_empty fl \<longrightarrow> k \<noteq> [] \<and> v \<noteq> [])"

lemma par_value_None: "par_key (mk_parameter kv) = None \<longleftrightarrow> fst kv = []" "par_value (mk_parameter kv) = None \<longleftrightarrow> snd kv = []"
  by (simp_all add: mk_parameter_def)

lemma kept_filter: "\<not> strip_duplicates fl \<Longrightarrow> map pair_of (kept fl seen (map mk_parameter ps)) = filter (qualifies fl) ps"
  by (induction ps) (auto simp: qualifies_def par_value_None)

lemma kept_map_of:
  "map_of (map pair_of (kept fl (map mk_parameter ss) (map mk_parameter ps))) k =
     (if strip_duplicates fl \<and> k \<in> fst ` set ss then None else map_of (filter (qualifies fl) ps) k)"
proof (induction ps arbitrary: ss)
  case (Cons x ps)
  define S where "S = fst ` set ss"
  have seen: "(\<exists>y \<in> set (map mk_parameter ss). par_key (mk_parameter x) = par_key y) \<longleftrightarrow> fst x \<in> S"
    by (auto simp: par_key_eq image_iff S_def)
  have snoc: "map mk_parameter ss @ [mk_parameter x] = map mk_parameter (ss @ [x])" "fst ` set (ss @ [x]) = insert (fst x) S"
    by (simp_all add: S_def)
  show ?case
    using Cons.IH[of ss] Cons.IH[of "ss @ [x]"] unfolding list.map(2) kept.simps seen par_value_None snoc S_def[symmetric]
    by (cases x) (auto simp: qualifies_def simp del: map_append)
qed simp

lemma kept_pairs_filter: "\<not> strip_duplicates fl \<Longrightarrow> kept_pairs fl q = filter (qualifies fl) (query_pieces q)"
  by (simp add: kept_pairs_def kept_filter)

lemma kept_pairs_map_of: "map_of (kept_pairs fl q) = map_of (filter (qualifies fl) (query_pieces q))"
  using kept_map_of[of fl "[]" "query_pieces q"] by (auto simp: kept_pairs_def)

lemma clean_query_text_idem:
  assumes "clean_query_text fl q = Some q'"
  shows "clean_query_text fl q' = Some q'"
proof -
  let ?K = "kept fl [] (map mk_parameter (query_pieces q))"
  have "kept fl [] ?K = ?K"
  proof (rule kept_idem)
    show "\<forall>x \<in> set ?K. strip_empty fl \<longrightarrow> par_key x \<noteq> None \<and> par_value x \<noteq> None"
      using kept_nonempty by blast
    show "strip_duplicates fl \<longrightarrow> distinct (map par_key ([] @ ?K))"
      using kept_distinct by simp
  qed
  then have "kept_pairs fl q' = kept_pairs fl q"
    unfolding kept_pairs_def[of fl q'] clean_query_text_pairs[OF assms] mk_kept_pairs by (simp add: kept_pairs_def)
  then show ?thesis
    using assms unfolding clean_query_text_def mk_kept_pairs[symmetric] by simp
qed

section \<open>One activation\<close>

text \<open>
  \<open>uri_stringify\<close> does not check its allocation, so the function is defined
  under an allocator that answers at that site, in every activation.
\<close>

fun at_buffer :: "site \<Rightarrow> bool" where
  "at_buffer AtBuffer = True"
| "at_buffer (InCall k s) = at_buffer s"
| "at_buffer _ = False"

definition buffers_ok :: "platform \<Rightarrow> bool" where
  "buffers_ok p \<longleftrightarrow> (\<forall>s n. at_buffer s \<longrightarrow> malloc_ok p s n)"

lemma buffers_ok_in_call: "buffers_ok p \<Longrightarrow> buffers_ok (in_call k p)"
  by (simp add: buffers_ok_def in_call_def)

lemma ample_buffers: "ample p \<Longrightarrow> buffers_ok p"
  by (simp add: ample_def buffers_ok_def)

lemma intlen_port: "port_ok n \<Longrightarrow> intlen n \<le> 5"
proof -
  assume "port_ok n"
  then have n: "0 \<le> n" "n < 10 ^ 5" by (auto simp: port_ok_def)
  have short: "0 \<le> m \<Longrightarrow> m < 10 ^ Suc k \<Longrightarrow> intlen m \<le> Suc k" for m k
  proof (induction k arbitrary: m)
    case 0
    then show ?case by (subst intlen.simps) (simp add: sdiv_10 Let_def)
  next
    case (Suc k)
    then have "m div 10 < 10 ^ Suc k"
      by (simp add: div_less_iff_less_mult)
    with Suc show ?case by (subst intlen.simps) (simp add: sdiv_10 Let_def)
  qed
  show ?thesis
    using short[of n 4] n by simp
qed

lemma uri_mem_size_bound:
  assumes "uri_ok p u" "fields_in s u" "subject_ok s" "opt_len q \<le> 2 * length s + 1"
  shows "uri_mem_size (u\<lparr>uri_query := q\<rparr>) + 1 \<le> PTRDIFF_MAX"
proof -
  have opt: "text_in s v \<Longrightarrow> opt_len v \<le> length s" for v
    by (cases v) (simp_all add: opt_len_def text_in_def)
  have "opt_len (uri_username u) \<le> length s" "opt_len (uri_password u) \<le> length s"
    "opt_len (uri_path u) \<le> length s" "opt_len (uri_fragment u) \<le> length s"
    "opt_len (uri_scheme u) \<le> length s" "opt_len (uri_hostname u) \<le> length s"
    using assms(2) opt by (auto simp: fields_in_def)
  moreover have "intlen (uri_port u) \<le> 5"
    using assms(1) intlen_port by (simp add: uri_ok_def)
  ultimately have "uri_mem_size (u\<lparr>uri_query := q\<rparr>) \<le> 8 * length s + 18"
    using assms(4) by (simp add: uri_mem_size_def SCHEME_SEPARATOR_def)
  then show ?thesis
    using assms(3) by (simp add: subject_ok_def PTRDIFF_MAX_def)
qed

lemma uri_stringify_clean:
  assumes "buffers_ok p" "uri_ok p' u" "fields_in s u" "subject_ok s" "opt_len q \<le> 2 * length s + 1"
  shows "uri_stringify p (u\<lparr>uri_query := q\<rparr>) = Some (concat (uri_parts (u\<lparr>uri_query := q\<rparr>)))"
proof -
  have "uri_mem_size v = length (concat (uri_parts v))" for v
  proof -
    have "0 < n \<Longrightarrow> length (snprintf (intlen n + 1) (show_int n)) = intlen n" for n
      by (simp add: snprintf_intlen[simplified] intlen_show_int)
    then show ?thesis
      by (auto simp: uri_mem_size_def uri_parts_def opt_len_def SCHEME_SEPARATOR_def split: option.splits)
  qed
  moreover have "malloc p AtBuffer (uri_mem_size (u\<lparr>uri_query := q\<rparr>) + 1)"
    using uri_mem_size_bound[OF assms(2-5)] assms(1) by (simp add: malloc_def buffers_ok_def)
  ultimately show ?thesis
    by (simp add: uri_stringify_def strcats_fits)
qed

text \<open>What the function makes of the URI once no redirection applies.\<close>

definition clean_text :: "'c pcre2 \<Rightarrow> clean_flags \<Rightarrow> string \<Rightarrow> 'c ruleset list \<Rightarrow> uri \<Rightarrow> uri" where
  "clean_text rx fl s rs u =
     (let v = apply_rules rx fl s rs u in
      v\<lparr>uri_query := Option.bind (uri_query v) (clean_query_text fl)\<rparr>)"

lemma uri_query_id [simp]: "uri_query u = q \<Longrightarrow> u\<lparr>uri_query := q\<rparr> = u"
  by (cases u) simp

lemma query_bound:
  assumes "fields_in s u"
  shows "opt_len (Option.bind (uri_query u) (clean_query_text fl)) \<le> 2 * length s + 1"
proof (cases "uri_query u")
  case (Some q)
  then have "length q \<le> length s"
    using assms by (simp add: fields_in_def text_in_def)
  then show ?thesis
    using Some length_clean_query_text[of fl q] by simp
qed (simp add: opt_len_def)

text \<open>The part of an activation after the rulesets.\<close>

lemma clean_finish:
  assumes "buffers_ok p" "uri_ok p' u" "fields_in s u" "subject_ok s"
  shows "\<exists>r. (case uri_query u of None \<Rightarrow> Some (Inr None) | Some q \<Rightarrow> clean_query p fl q) = Some r \<and>
     (\<forall>e. r = Inl e \<longrightarrow> e \<noteq> UNALIXERR_SUCCESS) \<and>
     (\<forall>q. r = Inr q \<longrightarrow> uri_stringify p (u\<lparr>uri_query := q\<rparr>) = Some (concat (uri_parts (u\<lparr>uri_query := q\<rparr>))) \<and>
        q = Option.bind (uri_query u) (clean_query_text fl))"
proof (cases "uri_query u")
  case None
  then show ?thesis
    using uri_stringify_clean[OF assms, of None] by (simp add: opt_len_def)
next
  case (Some q)
  then have "q \<noteq> []"
    using assms(3) by (auto simp: fields_in_def text_in_def)
  from clean_query_cases[OF this, of p fl] obtain r where
    r: "clean_query p fl q = Some r" "\<forall>e. r = Inl e \<longrightarrow> e \<noteq> UNALIXERR_SUCCESS"
      "\<forall>v. r = Inr v \<longrightarrow> v = clean_query_text fl q" by blast
  have "uri_stringify p (u\<lparr>uri_query := clean_query_text fl q\<rparr>) =
      Some (concat (uri_parts (u\<lparr>uri_query := clean_query_text fl q\<rparr>)))"
    using uri_stringify_clean[OF assms query_bound[OF assms(3), of fl]] Some by simp
  then show ?thesis
    using Some r by auto
qed

lemma clean_frame_ok:
  assumes "pcre2_ok rx" "groups_ok rx rs" "buffers_ok p" "subject_ok s"
  shows "\<exists>r. clean_frame p rx rs fl (Some s) t = Some r \<and>
     (\<forall>x. r = Inr x \<longrightarrow> length x \<le> length s + 7 \<and> nul \<notin> set x \<and> (groups_late rx rs \<longrightarrow> length x < length s))"
proof (cases "s = [] \<or> \<not> t \<or> length rs < 1")
  case True
  then show ?thesis by (auto simp: clean_frame_def)
next
  case False
  have len: "length s \<le> PTRDIFF_MAX"
    using subject_ok_PTRDIFF[OF assms(4)] by simp
  obtain e u where u: "uri_parse p zero_uri s = Some (e, u)"
    "e = UNALIXERR_SUCCESS \<Longrightarrow> uri_ok p u \<and> fields_in s u"
    by (rule uri_parse_fields[OF len, of p, OF that])
  show ?thesis
  proof (cases "e = UNALIXERR_SUCCESS")
    case err: False
    then show ?thesis using False u(1) by (simp add: clean_frame_def)
  next
    case True
    then have ok: "uri_ok p u" "fields_in s u" using u(2) by auto
    from clean_rulesets_ok[OF assms(1,4,2) ok(2), of p fl p] obtain r where
      r: "clean_rulesets p rx fl s rs u = Some r"
        "\<forall>t. r = Inl t \<longrightarrow> length t \<le> length s + 7 \<and> nul \<notin> set t \<and>
          (groups_late rx rs \<longrightarrow> length t < length s)"
        "\<forall>u'. r = Inr u' \<longrightarrow> fields_in s u' \<and> (uri_ok p u \<longrightarrow> uri_ok p u')" by blast
    show ?thesis
    proof (cases r)
      case (Inl x)
      then show ?thesis
        using False u(1) True r(1,2) by (simp add: clean_frame_def)
    next
      case (Inr v)
      have "fields_in s v" "uri_ok p v" using r(3) Inr ok(1) by simp_all
      then obtain r' where r': "(case uri_query v of None \<Rightarrow> Some (Inr None) | Some q \<Rightarrow> clean_query p fl q) = Some r'"
        "\<forall>q. r' = Inr q \<longrightarrow> uri_stringify p (v\<lparr>uri_query := q\<rparr>) = Some (concat (uri_parts (v\<lparr>uri_query := q\<rparr>)))"
        using clean_finish[OF assms(3) _ _ assms(4), of p v fl] by blast
      then show ?thesis
        using False u(1) True r(1) Inr by (cases r') (simp_all add: clean_frame_def)
    qed
  qed
qed

lemma clean_frame_plain:
  assumes "pcre2_ok rx" "ample p" "subject_ok s" "rs \<noteq> []" "\<forall>r \<in> set rs. \<not> redirects rx fl s r"
    and parse: "uri_parse p zero_uri s = Some (UNALIXERR_SUCCESS, u)"
  shows "clean_frame p rx rs fl (Some s) True =
     Some (Inl (UNALIXERR_SUCCESS, Some (concat (uri_parts (clean_text rx fl s rs u)))))"
proof -
  have len: "length s \<le> PTRDIFF_MAX"
    using subject_ok_PTRDIFF[OF assms(3)] by simp
  have u: "uri_ok p u" "fields_in s u"
    using parse uri_parse_fields[OF len, of p] by (metis option.inject prod.inject)+
  let ?v = "apply_rules rx fl s rs u"
  have v: "clean_rulesets p rx fl s rs u = Some (Inr ?v)" "fields_in s ?v"
    using clean_rulesets_plain[OF assms(1,3) u(2) assms(5)] by simp_all
  have "uri_ok p ?v"
    by (rule apply_rules_ok[OF u(1)])
  from clean_finish[OF ample_buffers[OF assms(2)] this v(2) assms(3), of fl] obtain r where
    r: "(case uri_query ?v of None \<Rightarrow> Some (Inr None) | Some q \<Rightarrow> clean_query p fl q) = Some r"
      "\<forall>q. r = Inr q \<longrightarrow> uri_stringify p (?v\<lparr>uri_query := q\<rparr>) = Some (concat (uri_parts (?v\<lparr>uri_query := q\<rparr>))) \<and>
        q = Option.bind (uri_query ?v) (clean_query_text fl)"
    by blast
  have "\<exists>q. r = Inr q"
  proof (cases "uri_query ?v")
    case None
    then show ?thesis using r(1) by auto
  next
    case (Some q)
    then have "q \<noteq> []" "length q < 2 ^ 58 - 1"
      using v(2) assms(3) by (auto simp: fields_in_def text_in_def subject_ok_def)
    then show ?thesis
      using r(1) Some clean_query_ample[OF _ assms(2), of q fl] by auto
  qed
  then obtain q where q: "r = Inr q" by blast
  then have str: "uri_stringify p (?v\<lparr>uri_query := q\<rparr>) = Some (concat (uri_parts (?v\<lparr>uri_query := q\<rparr>)))"
    "q = Option.bind (uri_query ?v) (clean_query_text fl)"
    using r(2) by blast+
  then have "?v\<lparr>uri_query := q\<rparr> = clean_text rx fl s rs u"
    unfolding clean_text_def Let_def by simp
  note str(1) this
  moreover have "s \<noteq> []" "\<not> length rs < 1"
    using parse_nonempty[OF parse] assms(4) by (cases rs; simp)+
  ultimately show ?thesis
    using parse v(1) r(1) q by (simp add: clean_frame_def)
qed

lemma clean_frame_skip:
  assumes "\<not> applies rx fl s r" "rs @ rs' \<noteq> []"
  shows "clean_frame p rx (rs @ r # rs') fl (Some s) t = clean_frame p rx (rs @ rs') fl (Some s) t"
proof -
  have "length (rs @ r # rs') < 1 \<longleftrightarrow> False" "length (rs @ rs') < 1 \<longleftrightarrow> False"
    using assms(2) by (cases rs; cases rs'; simp)+
  then show ?thesis
    by (simp only: clean_frame_def option.case clean_rulesets_drop[OF assms(1)])
qed

section \<open>The recursion\<close>

lemma unalix_clean_url_runs:
  assumes "pcre2_ok rx" "groups_ok rx rs" "groups_late rx rs"
  shows "buffers_ok p \<Longrightarrow> subject_ok s \<Longrightarrow> length s < frames \<Longrightarrow>
     \<exists>r. unalix_clean_url frames p rx rs fl (Some s) t = Some r"
proof (induction frames arbitrary: p s)
  case 0
  then show ?case by simp
next
  case (Suc frames)
  obtain r where r: "clean_frame p rx rs fl (Some s) t = Some r"
    "\<forall>x. r = Inr x \<longrightarrow> length x \<le> length s + 7 \<and> nul \<notin> set x \<and> (groups_late rx rs \<longrightarrow> length x < length s)"
    using clean_frame_ok[OF assms(1,2) Suc.prems(1,2)] by blast
  show ?case
  proof (cases r)
    case (Inl x)
    then show ?thesis using r(1) by simp
  next
    case (Inr x)
    then have "length x < length s" "subject_ok x"
      using r(2) assms(3) Suc.prems(2) by (auto simp: subject_ok_def)
    then have "\<exists>r. unalix_clean_url frames (in_call 0 p) rx rs fl (Some x) t = Some r"
      using Suc.IH[OF buffers_ok_in_call[OF Suc.prems(1)]] Suc.prems(3) by auto
    then show ?thesis using r(1) Inr by simp
  qed
qed

end
