(* ===== verification/Delivery.thy ===== *)
theory Delivery
  imports Update_Proofs HTTP_Roundtrip HTTP_Redirect CleanUrl_Query
begin

text \<open>
  A request that is answered: the bytes of a response, cut into arrivals in any
  way, are received, parsed and stored as the message that was sent.
\<close>

section \<open>The headers\<close>

abbreviation response_head :: "http_version \<Rightarrow> int \<Rightarrow> string \<Rightarrow> (string \<times> string) list \<Rightarrow> string" where
  "response_head v n reason kvs \<equiv> join CRLF (status_line v n reason # map line_text kvs)"

lemma front_of_text:
  assumes "headers @ further = head @ sep @ bs" "length head + length sep \<le> length headers"
  shows "\<exists>b. headers = head @ sep @ b \<and> b @ further = bs"
  using assms by (auto simp: append_eq_append_conv2)

text \<open>
  The search for the blank line reads up to three bytes behind those received, which
  nobody has written.  They cannot complete a blank line when what was received ends
  in a byte that is neither CR nor LF.
\<close>

lemma no_blank_line_across:
  assumes "prefix CRLFCRLF (drop i (headers @ stale))" "i < length headers" "last headers \<notin> set CRLF"
  shows "i + 4 \<le> length headers"
proof (rule ccontr)
  assume out: "\<not> i + 4 \<le> length headers"
  obtain post where post: "drop i (headers @ stale) = CRLFCRLF @ post"
    using assms(1) by (auto simp: prefix_def)
  have four: "length CRLFCRLF = 4"
    by (simp add: CRLFCRLF_def)
  define k where "k = length headers - 1 - i"
  have k: "k < 4" "i + k < length headers" "i + k = length headers - 1"
    using out assms(2) by (auto simp: k_def)
  have "headers \<noteq> []"
    using assms(2) by auto
  then have "last headers = (headers @ stale) ! (i + k)"
    using k by (simp add: nth_append last_conv_nth)
  also have "\<dots> = drop i (headers @ stale) ! k"
    using k(2) by (subst nth_drop) simp_all
  also have "\<dots> = CRLFCRLF ! k"
    unfolding post nth_append using k(1) four by simp
  also have "\<dots> \<in> set CRLF"
    using k(1) by (auto simp: CRLFCRLF_def CRLF_def less_Suc_eq eval_nat_numeral)
  finally show False
    using assms(3) by blast
qed

lemma blank_line_found:
  assumes "headers @ further = head @ CRLFCRLF @ bs" "find_sub CRLFCRLF (head @ CRLFCRLF @ bs) = Some (length head)"
    and "length head + 4 \<le> length headers \<or> last headers \<notin> set CRLF" "length headers + 3 \<le> length headers + length stale"
  shows "find_crlfcrlf (headers @ stale) (length headers) = Some (length head + 4 \<le> length headers)"
proof -
  let ?n = "length headers" and ?s = "head @ CRLFCRLF @ bs"
  have four: "length CRLFCRLF = 4"
    by (simp add: CRLFCRLF_def)
  have "length head + 4 \<le> ?n" if here: "i < ?n" "prefix CRLFCRLF (drop i (headers @ stale))" for i
  proof (rule ccontr)
    assume short: "\<not> length head + 4 \<le> ?n"
    then have inside: "i + 4 \<le> ?n"
      using no_blank_line_across[OF here(2,1)] assms(3) by blast
    obtain post where post: "drop i (headers @ stale) = CRLFCRLF @ post"
      using here(2) by (auto simp: prefix_def)
    have "prefix CRLFCRLF (drop i headers)"
      using front_of_text[of "drop i headers" stale "[]" CRLFCRLF post] post four inside by fastforce
    then have "prefix CRLFCRLF (drop i ?s)"
      using here(1) by (simp add: assms(1)[symmetric] prefix_def) (metis append.assoc)
    then have "\<not> i < length head"
      using find_sub_least[OF assms(2)] by blast
    with inside short show False by simp
  qed
  moreover have "length head < ?n \<and> prefix CRLFCRLF (drop (length head) (headers @ stale))" if long: "length head + 4 \<le> ?n"
  proof -
    obtain b where "headers = head @ CRLFCRLF @ b"
      using front_of_text[OF assms(1)] long four by auto
    with long show ?thesis by (simp add: CRLFCRLF_def)
  qed
  ultimately have "(\<exists>i < ?n. prefix CRLFCRLF (drop i (headers @ stale))) \<longleftrightarrow> length head + 4 \<le> ?n"
    by blast
  then show ?thesis
    using find_crlfcrlf_from_defined[of ?n "headers @ stale"] assms(4) by (simp add: find_crlfcrlf_def del: drop_append)
qed

text \<open>
  What the calls of \<open>recv\<close> hand out, and that none of those that end inside the first
  \<open>n\<close> bytes ends in a CR or an LF.
\<close>

function received_chunks :: "arrival list \<Rightarrow> string list" where
  "received_chunks incoming =
     (case recv MAX_CHUNK_SIZE incoming of
        (Received chunk, rest) \<Rightarrow> chunk # received_chunks rest
      | _ \<Rightarrow> [])"
  by pat_completeness auto
termination
  by (relation "measure (\<lambda>incoming. sum_list (map arrival_size incoming))") (auto dest!: recv_decreases[OF sym])

declare received_chunks.simps [simp del]

lemma received_chunks_Received:
  "recv MAX_CHUNK_SIZE incoming = (Received chunk, rest) \<Longrightarrow> received_chunks incoming = chunk # received_chunks rest"
  by (subst received_chunks.simps) simp

fun cut_inside_lines :: "nat \<Rightarrow> string list \<Rightarrow> bool" where
  "cut_inside_lines n [] \<longleftrightarrow> True"
| "cut_inside_lines n (chunk # chunks) \<longleftrightarrow>
     n \<le> length chunk \<or> last chunk \<notin> set CRLF \<and> cut_inside_lines (n - length chunk) chunks"

lemma receive_headers_answer:
  assumes "headers @ arrived incoming = head @ CRLFCRLF @ bs" "broken incoming = None"
    and "\<And>bs. find_sub CRLFCRLF (head @ CRLFCRLF @ bs) = Some (length head)"
    and "cut_inside_lines (length head + 4 - length headers) (received_chunks incoming)" "length stale = MAX_HEADERS_SIZE"
    and "length head + MAX_CHUNK_SIZE + 6 \<le> MAX_HEADERS_SIZE" "length headers < length head + 4"
  shows "\<exists>b rest. receive_headers h stale incoming headers = Some (Inr (head @ CRLFCRLF @ b, rest)) \<and>
     b @ arrived rest = bs \<and> broken rest = None"
  using assms
proof (induction h stale incoming headers rule: receive_headers.induct)
  case (1 h stale incoming headers)
  note prems = 1(2-)
  show ?case
  proof (cases rule: recv_cases[of MAX_CHUNK_SIZE incoming])
    case (received chunk rest)
    note r = recv_Received[OF received MAX_CHUNK_pos]
    let ?hs = "headers @ chunk"
    have msg: "?hs @ arrived rest = head @ CRLFCRLF @ bs" "broken rest = None"
      using r(1,2) prems(1,2) by simp_all
    have small: "length headers + length chunk + 3 \<le> MAX_HEADERS_SIZE"
      using r(4) prems(6,7) by simp
    have cut: "length head + 4 - length headers \<le> length chunk \<or>
        last chunk \<notin> set CRLF \<and> cut_inside_lines (length head + 4 - length headers - length chunk) (received_chunks rest)"
      using prems(4) received_chunks_Received[OF received] by simp
    then have ends: "length head + 4 \<le> length ?hs \<or> last ?hs \<notin> set CRLF"
      using r(3) by auto
    have found: "find_crlfcrlf (?hs @ drop (length ?hs) stale) (length ?hs) = Some (length head + 4 \<le> length ?hs)"
      by (rule blank_line_found[OF msg(1) prems(3) ends]) (use prems(5) small in auto)
    have step: "receive_headers h stale incoming headers =
        (if length head + 4 \<le> length ?hs then Some (Inr (?hs, rest)) else receive_headers h stale rest ?hs)"
      using small found by (subst receive_headers.simps) (simp add: received Let_def)
    show ?thesis
    proof (cases "length head + 4 \<le> length ?hs")
      case True
      obtain b where b: "?hs = head @ CRLFCRLF @ b" "b @ arrived rest = bs"
        using front_of_text[OF msg(1)] True by (auto simp: CRLFCRLF_def)
      with step True msg(2) show ?thesis by auto
    next
      case False
      have "\<exists>b r. receive_headers h stale rest ?hs = Some (Inr (head @ CRLFCRLF @ b, r)) \<and> b @ arrived r = bs \<and> broken r = None"
        by (rule 1(1)[OF received[symmetric] refl _ refl found _ msg prems(3) _ prems(5,6)])
          (use small False cut in auto)
      with step False show ?thesis by simp
    qed
  next
    case (closed rest)
    then show ?thesis
      using recv_Closed[OF closed] prems(1,7) arg_cong[OF prems(1), of length] by (simp add: CRLFCRLF_def)
  next
    case (failed e rest)
    then show ?thesis
      using recv_Failed[OF failed] prems(2) by simp
  qed
qed

section \<open>One request\<close>

definition message_ok :: "http_version \<Rightarrow> int \<Rightarrow> string \<Rightarrow> (string \<times> string) list \<Rightarrow> bool" where
  "message_ok v n reason kvs \<longleftrightarrow> http_status_stringify n \<noteq> None \<and> reason_ok reason \<and> kvs \<noteq> [] \<and> list_all header_ok kvs \<and>
     length (response_head v n reason kvs) + MAX_CHUNK_SIZE + 6 \<le> MAX_HEADERS_SIZE"

text \<open>The length of the headers of a message, up to and with the blank line.\<close>

definition headers_length :: "string \<Rightarrow> nat" where
  "headers_length msg = (case find_sub CRLFCRLF msg of Some n \<Rightarrow> n + 4 | None \<Rightarrow> length msg)"

text \<open>
  The exchange works, and what arrives is \<open>msg\<close>, cut in any way that does not split the
  end of a line of the headers.
\<close>

definition delivers :: "exchange \<Rightarrow> string \<Rightarrow> bool" where
  "delivers ex msg \<longleftrightarrow> ex_socket ex \<noteq> - 1 \<and> ex_rcvtimeo_ok ex \<and> ex_sndtimeo_ok ex \<and> ex_connect_ok ex \<and>
     (\<forall>b. ex_send ex b = int (length b)) \<and> ex_ssl_write ex = 0 \<and>
     arrived (ex_incoming ex) = msg \<and> broken (ex_incoming ex) = None \<and>
     cut_inside_lines (headers_length msg) (received_chunks (ex_incoming ex)) \<and> length (ex_stale ex) = MAX_HEADERS_SIZE"

definition reachable :: "platform \<Rightarrow> exchange \<Rightarrow> uri \<Rightarrow> bool" where
  "reachable p ex u \<longleftrightarrow> (\<exists>sa. uri_hostname u = Some sa \<and>
     (inet_pton4 p sa \<or> inet_pton6 p sa \<or> (\<forall>service. \<exists>a. ex_gai ex sa service = Some a))) \<and>
     (uri_scheme u = Some HTTP_SCHEME \<or> uri_scheme u = Some HTTPS_SCHEME)"

text \<open>The text a request without a body is sent as.\<close>

definition request_bytes :: "http_request \<Rightarrow> string" where
  "request_bytes r = request_text (rq_method r) (rq_version r) (location_text (rq_uri r))
     (join CRLF (rendered header_parts (hs_items (rq_headers r))))"

definition sendable :: "platform \<Rightarrow> exchange \<Rightarrow> http_request \<Rightarrow> bool" where
  "sendable p ex r \<longleftrightarrow> reachable p ex (rq_uri r) \<and> hdr.roomy (rq_headers r) \<and> body_size (rq_body r) = 0 \<and>
     length (request_bytes r) \<le> PTRDIFF_MAX"

text \<open>A body that is empty, or has its bytes.\<close>

definition body_kept :: "http_body \<Rightarrow> bool" where
  "body_kept b \<longleftrightarrow> b = zero_body \<or> (body_size b > 0 \<and> body_ok b)"

text \<open>The message is in the context; the end of its body may still have to be read.\<close>

definition answered :: "http_version \<Rightarrow> int \<Rightarrow> (string \<times> string) list \<Rightarrow> string \<Rightarrow> http_context \<Rightarrow> bool" where
  "answered v n kvs bs context \<longleftrightarrow> (let r = ctx_response context; incoming = conn_incoming (ctx_connection context) in
     rs_version r = v \<and> rs_status r = \<lparr>status_code = n, status_message = http_status_stringify n\<rparr> \<and>
     headers_inv (rs_headers r) \<and> hs_items (rs_headers r) = map mk_header kvs \<and>
     body_kept (rs_body r) \<and> body_text (rs_body r) @ arrived incoming = bs \<and> broken incoming = None)"

lemma message_ok_sizes:
  assumes "message_ok v n reason kvs"
  shows "\<forall>kv \<in> set kvs. header_ok kv \<and> length (line_text kv) < PTRDIFF_MAX" "length kvs < 2 ^ 58"
    "find_sub CRLFCRLF (response_head v n reason kvs @ CRLFCRLF @ bs) = Some (length (response_head v n reason kvs))"
proof -
  let ?ls = "status_line v n reason # map line_text kvs"
  have ok: "\<forall>kv \<in> set kvs. header_ok kv" "reason_ok reason" "http_status_stringify n \<noteq> None"
    using assms by (simp_all add: message_ok_def list_all_iff)
  have part: "length l \<le> length (join CRLF ls)" if "l \<in> set ls" for l ls
    using that by (induction ls) (auto simp: join_Cons)
  have count: "length ls \<le> length (join CRLF ls) + 1" for ls
    by (induction ls) (auto simp: join_Cons CRLF_def)
  have small: "length (join CRLF ?ls) \<le> 10240"
    using assms by (simp add: message_ok_def MAX_HEADERS_SIZE_def MAX_CHUNK_SIZE_def)
  have "length (line_text kv) \<le> 10240" if "kv \<in> set kvs" for kv
    using part[of "line_text kv" ?ls] small that by simp
  then show "\<forall>kv \<in> set kvs. header_ok kv \<and> length (line_text kv) < PTRDIFF_MAX"
    using ok(1) by (fastforce simp: PTRDIFF_MAX_def)
  show "length kvs < 2 ^ 58"
    using count[of ?ls] small by simp
  show "find_sub CRLFCRLF (response_head v n reason kvs @ CRLFCRLF @ bs) = Some (length (response_head v n reason kvs))"
    by (rule find_blank_line)
      (use status_line_chars[OF ok(2), of n v] status_code_digits[OF ok(3)] line_text_chars ok(1) in auto)
qed

lemma read_response_answer:
  assumes "ample p" "fresh (ctx_response context)" "message_ok v n reason kvs" "length bs \<le> PTRDIFF_MAX"
    and "arrived (conn_incoming (ctx_connection context)) = response_text v n reason kvs bs"
    and "broken (conn_incoming (ctx_connection context)) = None"
    and "length (ex_stale ex) = MAX_HEADERS_SIZE"
    and "cut_inside_lines (headers_length (response_text v n reason kvs bs)) (received_chunks (conn_incoming (ctx_connection context)))"
  shows "\<exists>context'. read_response p ex h context = Some (UNALIXERR_SUCCESS, context') \<and> answered v n kvs bs context' \<and>
     ctx_request context' = ctx_request context"
proof -
  let ?head = "response_head v n reason kvs"
  have small: "length ?head + MAX_CHUNK_SIZE + 6 \<le> MAX_HEADERS_SIZE"
    using assms(3) by (simp add: message_ok_def)
  obtain b rest where got: "receive_headers h (ex_stale ex) (conn_incoming (ctx_connection context)) [] =
      Some (Inr (?head @ CRLFCRLF @ b, rest))" "b @ arrived rest = bs" "broken rest = None"
    using receive_headers_answer[of "[]" "conn_incoming (ctx_connection context)" ?head bs "ex_stale ex" h,
        OF _ assms(6) message_ok_sizes(3)[OF assms(3)] _ assms(7) small] assms(5,8) message_ok_sizes(3)[OF assms(3), of bs]
    by (auto simp: response_text_def headers_length_def)
  have "length b \<le> PTRDIFF_MAX"
    using assms(4) got(2) by auto
  then obtain hs where "parse_http_response p (ctx_response context) (?head @ CRLFCRLF @ b) = Some (UNALIXERR_SUCCESS,
       \<lparr>rs_status = \<lparr>status_code = n, status_message = http_status_stringify n\<rparr>, rs_version = v, rs_headers = hs,
        rs_body = \<lparr>body_size = length b, body_content = nonempty b\<rparr>\<rparr>)" "headers_inv hs" "hs_items hs = map mk_header kvs"
    using parse_response_text[OF assms(1,2) _ _ _ message_ok_sizes(1,2)[OF assms(3)], where bs = b and v = v] assms(3)
    unfolding response_text_def message_ok_def by blast
  then show ?thesis
    using got by (auto simp: read_response_def on_connection_def answered_def body_kept_def zero_body_def body_ok_def body_text_def
        nonempty_def opt_str_def)
qed

lemma server_port_reachable: "reachable p ex u \<Longrightarrow> \<exists>port. server_port u = Some (Inr port)"
  by (auto simp: reachable_def server_port_def HTTP_SCHEME_def HTTPS_SCHEME_def)

lemma server_address_reachable:
  assumes "reachable p ex u" "uri_hostname u = Some sa"
  shows "\<exists>a. server_address p ex sa port = Some (Inr a)"
  using assms by (cases "ex_gai ex sa (snprintf (intlen port + 1) (show_int port))")
    (auto simp: reachable_def server_address_def address_parse_def, (metis option.distinct(1))+)

lemma open_connection_delivers:
  assumes "delivers ex msg"
  shows "\<exists>context'. open_connection ex a context = Some (Inr context') \<and> ctx_request context' = ctx_request context \<and>
     ctx_response context' = ctx_response context \<and> conn_incoming (ctx_connection context') = ex_incoming ex"
  using assms by (simp add: delivers_def open_connection_def on_connection_def log_event_def connection_set_timeout_def Let_def)

lemma write_request_delivers:
  assumes "delivers ex msg"
  shows "\<exists>context'. write_request ex h buffer context = Some (Inr context') \<and> ctx_request context' = ctx_request context \<and>
     ctx_response context' = ctx_response context \<and> conn_incoming (ctx_connection context') = conn_incoming (ctx_connection context)"
  using assms by (simp add: delivers_def write_request_def on_connection_def log_event_def Let_def)

lemma http_request_send_opened:
  assumes "sendable p ex (ctx_request context)" "delivers ex msg"
  obtains c where "http_request_send p ex context = body (exchange_messages p ex c)" "ctx_request c = ctx_request context"
    "ctx_response c = ctx_response context" "conn_incoming (ctx_connection c) = ex_incoming ex"
proof -
  let ?u = "rq_uri (ctx_request context)"
  have r: "reachable p ex ?u"
    using assms(1) by (simp add: sendable_def)
  obtain sa where sa: "uri_hostname ?u = Some sa"
    using r by (auto simp: reachable_def)
  obtain port a where port: "server_port ?u = Some (Inr port)" and a: "server_address p ex sa port = Some (Inr a)"
    using server_port_reachable[OF r] server_address_reachable[OF r sa] by blast
  obtain c where c: "open_connection ex a context = Some (Inr c)" "ctx_request c = ctx_request context"
    "ctx_response c = ctx_response context" "conn_incoming (ctx_connection c) = ex_incoming ex"
    using open_connection_delivers[OF assms(2)] by blast
  have "http_request_send p ex context = body (exchange_messages p ex c)"
    using port a sa c(1) by (simp add: http_request_send_def)
  then show ?thesis
    by (rule that) (fact c)+
qed

lemma sendable_printed:
  assumes "ample p" "sendable p ex r"
  shows "http_request_stringify p r = (if slack p > 0 then Some (UNALIXERR_SUCCESS, r, Some (request_bytes r)) else None)"
proof -
  have "hdr.roomy (rq_headers r)" "body_size (rq_body r) = 0" "length (request_bytes r) \<le> PTRDIFF_MAX"
    using assms(2) by (simp_all add: sendable_def)
  then show ?thesis
    using http_request_stringify_eq[of r p] assms(1) by (simp add: request_bytes_def)
qed

text \<open>Without a byte behind an object, the terminator of the printed request is written outside.\<close>

lemma http_request_send_tight:
  assumes "ample p" "slack p = 0" "sendable p ex (ctx_request context)" "delivers ex msg"
  shows "http_request_send p ex context = None"
proof -
  obtain c where c: "http_request_send p ex context = body (exchange_messages p ex c)" "ctx_request c = ctx_request context"
    by (rule http_request_send_opened[OF assms(3,4)])
  have "exchange_messages p ex c = None"
    using sendable_printed[OF assms(1,3)] assms(2) c(2) by (simp add: exchange_messages_def)
  then show ?thesis
    using c(1) by simp
qed

lemma http_request_send_answer:
  assumes "ample p" "0 < slack p" "sendable p ex (ctx_request context)" "fresh (ctx_response context)"
    and "delivers ex (response_text v n reason kvs bs)" "message_ok v n reason kvs" "length bs \<le> PTRDIFF_MAX"
  shows "\<exists>context'. http_request_send p ex context = Some (UNALIXERR_SUCCESS, context') \<and> answered v n kvs bs context' \<and>
     ctx_request context' = ctx_request context"
proof -
  let ?r = "ctx_request context"
  obtain scheme where scheme: "uri_scheme (rq_uri ?r) = Some scheme"
    using assms(3) by (auto simp: sendable_def reachable_def)
  obtain c1 where c1: "http_request_send p ex context = body (exchange_messages p ex c1)" "ctx_request c1 = ?r"
    "ctx_response c1 = ctx_response context" "conn_incoming (ctx_connection c1) = ex_incoming ex"
    by (rule http_request_send_opened[OF assms(3,5)])
  have printed: "http_request_stringify p ?r = Some (UNALIXERR_SUCCESS, ?r, Some (request_bytes ?r))"
    using sendable_printed[OF assms(1,3)] assms(2) by simp
  obtain c2 where c2: "write_request ex (scheme = HTTPS_SCHEME) (request_bytes ?r) c1 = Some (Inr c2)" "ctx_request c2 = ?r"
    "ctx_response c2 = ctx_response context" "conn_incoming (ctx_connection c2) = ex_incoming ex"
    using write_request_delivers[OF assms(5)] c1(2-4) by metis
  obtain c3 where c3: "read_response p ex (scheme = HTTPS_SCHEME) c2 = Some (UNALIXERR_SUCCESS, c3)" "answered v n kvs bs c3"
    "ctx_request c3 = ?r"
    using read_response_answer[OF assms(1) _ assms(6,7), of c2 ex] assms(4,5) c2(2-4)
    by (auto simp: delivers_def)
  have same: "c1\<lparr>ctx_request := ?r\<rparr> = c1"
    using c1(2) by simp
  have "exchange_messages p ex c1 = Some (Inr (UNALIXERR_SUCCESS, c3))"
    unfolding exchange_messages_def c1(2) printed by (simp add: Let_def opt_str_def same scheme c2(1) c3(1))
  then show ?thesis
    using c1(1) c3 by simp
qed

section \<open>Preparing a request\<close>

text \<open>What the calls in front of \<open>http_request_send\<close> make of a request that was released or never used.\<close>

definition unsent :: "http_request \<Rightarrow> bool" where
  "unsent r \<longleftrightarrow> rq_uri r = zero_uri \<and> hdr.roomy (rq_headers r) \<and> body_size (rq_body r) = 0"

text \<open>A request with a header more.\<close>

definition with_header :: "http_request \<Rightarrow> string \<times> string \<Rightarrow> http_request \<Rightarrow> bool" where
  "with_header r kv r' \<longleftrightarrow> hdr.roomy (rq_headers r') \<and> hs_items (rq_headers r') = hs_items (rq_headers r) @ [mk_header kv] \<and>
     rq_uri r' = rq_uri r \<and> rq_method r' = rq_method r \<and> rq_version r' = rq_version r \<and> rq_body r' = rq_body r"

lemma http_headers_add_ample:
  assumes "ample p" "hdr.roomy hs" "length (hs_items hs) < 2 ^ 58" "length k + length v + 2 < PTRDIFF_MAX"
  shows "\<exists>hs'. http_headers_add p hs k v = Some (UNALIXERR_SUCCESS, hs') \<and> hdr.roomy hs' \<and>
     hs_items hs' = hs_items hs @ [mk_header (k, v)]"
proof -
  have inv: "headers_inv hs"
    using assms(2) by (simp add: hdr.roomy_def)
  obtain hs' where push: "http_headers_add p hs k v = Some (UNALIXERR_SUCCESS, hs')"
    using hdr.push_ample[OF inv assms(1,3), of "(k, v)"] assms(4) by (auto simp: mk_header_parts)
  with hdr.roomy_push[OF assms(2), of p "(k, v)"] show ?thesis by auto
qed

lemma add_header_ample:
  assumes "ample p" "hdr.roomy (rq_headers (ctx_request context))" "length (hs_items (rq_headers (ctx_request context))) < 2 ^ 58"
    and "length k + length v + 2 < PTRDIFF_MAX"
  shows "\<exists>r'. add_header p k v context = Some (UNALIXERR_SUCCESS, context\<lparr>ctx_request := r'\<rparr>) \<and>
     with_header (ctx_request context) (k, v) r'"
  using http_headers_add_ample[OF assms]
  by (auto simp: add_header_def on_request_def http_request_add_header_def with_header_def)

lemma set_url_ample:
  assumes "ample p" "default_port u \<or> 0 < slack p" "unsent (ctx_request context)" "length (hs_items (rq_headers (ctx_request context))) < 2 ^ 58"
    and "uri_parse p zero_uri url = Some (UNALIXERR_SUCCESS, u)" "uri_hostname u \<noteq> None" "uri_scheme u \<noteq> None"
    and "length (host_text u) + 6 < PTRDIFF_MAX"
  shows "\<exists>r'. set_url p url context = Some (UNALIXERR_SUCCESS, context\<lparr>ctx_request := r'\<rparr>) \<and>
     with_header ((ctx_request context)\<lparr>rq_uri := u\<rparr>) (''Host'', host_text u) r'"
proof -
  obtain hs' where "http_headers_add p (rq_headers (ctx_request context)) ''Host'' (host_text u) = Some (UNALIXERR_SUCCESS, hs')"
    "hdr.roomy hs'" "hs_items hs' = hs_items (rq_headers (ctx_request context)) @ [mk_header (''Host'', host_text u)]"
    using http_headers_add_ample[OF assms(1) _ assms(4), of "''Host''" "host_text u"] assms(3,8) by (auto simp: unsent_def)
  then show ?thesis
    using assms(2,3,5) set_host_header_eq[OF assms(6,7)]
    by (auto simp: set_url_def on_request_def http_request_set_url_def unsent_def with_header_def)
qed

text \<open>A port that is printed needs a byte behind the array of the host.\<close>

lemma set_url_tight:
  assumes "slack p = 0" "\<not> default_port u" "rq_uri (ctx_request context) = zero_uri"
    and "uri_parse p zero_uri url = Some (UNALIXERR_SUCCESS, u)" "uri_hostname u \<noteq> None" "uri_scheme u \<noteq> None"
  shows "set_url p url context = None"
  using assms(1-4) set_host_header_eq[OF assms(5,6)]
  by (simp add: set_url_def on_request_def http_request_set_url_def)

section \<open>A resource is fetched\<close>

text \<open>A context before its first request, or after it was released.\<close>

definition idle :: "http_context \<Rightarrow> bool" where
  "idle context \<longleftrightarrow> rq_method (ctx_request context) = GET \<and> rq_version (ctx_request context) = HTTP10 \<and>
     unsent (ctx_request context) \<and> hs_items (rq_headers (ctx_request context)) = [] \<and> fresh (ctx_response context)"

lemma idle_new: "idle (new_context GET timeout)"
  by (simp add: idle_def new_context_def unsent_def zero_request_def zero_body_def hdr.accounted_roomy hdr.accounted_empty)
    (simp add: zero_headers_def)

lemma headers_free_roomy:
  assumes "headers_inv hs"
  shows "hdr.roomy (http_headers_free hs) \<and> hs_items (http_headers_free hs) = [] \<and> headers_inv (http_headers_free hs)"
  using assms by (auto simp: hdr.roomy_def http_headers_free_def headers_inv_def sizeof_HTTPHeader_def)

lemma idle_free:
  assumes "headers_inv (rq_headers (ctx_request context))" "body_size (rq_body (ctx_request context)) = 0"
    and "headers_inv (rs_headers (ctx_response context))" "body_kept (rs_body (ctx_response context))"
  shows "idle (http_context_free context)"
proof -
  have "http_body_free (rs_body (ctx_response context)) = zero_body"
    using assms(4) by (auto simp: body_kept_def http_body_free_def zero_body_def)
  then show ?thesis
    using assms headers_free_roomy
    by (simp add: idle_def http_context_free_def http_request_free_def http_response_free_def unsent_def fresh_def http_body_free_def)
qed

text \<open>An URL the code can ask for: it parses, and its texts are short.\<close>

definition url_ready :: "platform \<Rightarrow> exchange \<Rightarrow> string \<Rightarrow> uri \<Rightarrow> bool" where
  "url_ready p ex url u \<longleftrightarrow> uri_parse p zero_uri url = Some (UNALIXERR_SUCCESS, u) \<and> reachable p ex u \<and>
     length (host_text u) + length (location_text u) < 2 ^ 60"

lemma url_readyD:
  assumes "url_ready p ex url u"
  shows "uri_parse p zero_uri url = Some (UNALIXERR_SUCCESS, u)" "reachable p ex u" "uri_hostname u \<noteq> None"
    "uri_scheme u \<noteq> None" "length (host_text u) + length (location_text u) < 2 ^ 60" "length (host_text u) + 6 < PTRDIFF_MAX"
  using assms by (auto simp: url_ready_def reachable_def PTRDIFF_MAX_def)

text \<open>The request with \<open>Host\<close> and two more headers, which is not too long.\<close>

lemma get_request_sendable:
  assumes "url_ready p ex url u" "rq_method r = GET" "rq_version r = HTTP10" "rq_uri r = u" "hdr.roomy (rq_headers r)"
    and "body_size (rq_body r) = 0" "set (hs_items (rq_headers r)) = mk_header ` {(''Host'', host_text u), a, b}"
    and "length (hs_items (rq_headers r)) = 3"
    and "length (fst a) + length (snd a) < 2 ^ 60" "length (fst b) + length (snd b) < 2 ^ 60"
  shows "sendable p ex r"
proof -
  have part: "length (concat (header_parts h)) < 2 ^ 60 + 10" if "h \<in> set (hs_items (rq_headers r))" for h
    using that assms(7,9,10) url_readyD(5)[OF assms(1)] by (auto simp: mk_header_parts)
  have "length (join CRLF (rendered header_parts hs)) \<le> length hs * (2 ^ 60 + 12)"
    if "set hs \<subseteq> set (hs_items (rq_headers r))" for hs
    using that part by (induction hs) (fastforce simp: join_Cons CRLF_def)+
  from this[of "hs_items (rq_headers r)"] have "length (request_bytes r) \<le> PTRDIFF_MAX"
    using assms(2-4,8) url_readyD(5)[OF assms(1)]
    by (simp add: request_bytes_def request_text_def PTRDIFF_MAX_def CRLF_def CRLFCRLF_def)
  then show ?thesis
    using assms url_readyD(2)[OF assms(1)] by (simp add: sendable_def)
qed

text \<open>After a request that was answered: the message, and a request that can be released.\<close>

definition served :: "http_version \<Rightarrow> int \<Rightarrow> (string \<times> string) list \<Rightarrow> string \<Rightarrow> uri \<Rightarrow> http_context \<Rightarrow> bool" where
  "served v n kvs bs u context \<longleftrightarrow> answered v n kvs bs context \<and> headers_inv (rq_headers (ctx_request context)) \<and>
     body_size (rq_body (ctx_request context)) = 0 \<and> rq_uri (ctx_request context) = u"

lemma user_agent_short: "length HTTP_HEADER_USER_AGENT + length HTTP_DEFAULT_USER_AGENT < 2 ^ 60"
  "length HTTP_HEADER_USER_AGENT + length HTTP_DEFAULT_USER_AGENT + 2 < PTRDIFF_MAX"
  by (simp_all add: HTTP_HEADER_USER_AGENT_def HTTP_DEFAULT_USER_AGENT_def PTRDIFF_MAX_def)

lemma fetch_prepared:
  assumes "ample p" "default_port u \<or> 0 < slack p" "idle context" "url_ready p ex url u" "length accept < 1000"
  obtains r where "\<forall>c. http_request_send p ex (context\<lparr>ctx_request := r\<rparr>) = Some (UNALIXERR_SUCCESS, c) \<longrightarrow>
      status_code (rs_status (ctx_response c)) = STATUS_OK \<longrightarrow> fetch p ex url accept context = Some (Inr c)"
    "http_request_send p ex (context\<lparr>ctx_request := r\<rparr>) = None \<longrightarrow> fetch p ex url accept context = None"
    "sendable p ex r" "body_size (rq_body r) = 0" "headers_inv (rq_headers r)" "rq_uri r = u"
proof -
  let ?r = "ctx_request context"
  note url = url_readyD[OF assms(4)]
  have r: "rq_method ?r = GET" "rq_version ?r = HTTP10" "unsent ?r" "hs_items (rq_headers ?r) = []"
    using assms(3) by (simp_all add: idle_def)
  obtain r1 where r1: "set_url p url context = Some (UNALIXERR_SUCCESS, context\<lparr>ctx_request := r1\<rparr>)"
    "with_header (?r\<lparr>rq_uri := u\<rparr>) (''Host'', host_text u) r1"
    using set_url_ample[OF assms(1,2) r(3) _ url(1,3,4,6)] r(4) by auto
  obtain r2 where r2: "add_header p HTTP_HEADER_USER_AGENT HTTP_DEFAULT_USER_AGENT (context\<lparr>ctx_request := r1\<rparr>) =
      Some (UNALIXERR_SUCCESS, context\<lparr>ctx_request := r2\<rparr>)" "with_header r1 (HTTP_HEADER_USER_AGENT, HTTP_DEFAULT_USER_AGENT) r2"
    using add_header_ample[OF assms(1), of "context\<lparr>ctx_request := r1\<rparr>" HTTP_HEADER_USER_AGENT HTTP_DEFAULT_USER_AGENT] r1(2) r(4)
      user_agent_short(2) by (auto simp: with_header_def)
  have acc: "length HTTP_HEADER_ACCEPT + length accept + 2 < PTRDIFF_MAX" "length HTTP_HEADER_ACCEPT + length accept < 2 ^ 60"
    using assms(5) by (simp_all add: HTTP_HEADER_ACCEPT_def PTRDIFF_MAX_def)
  obtain r3 where r3: "add_header p HTTP_HEADER_ACCEPT accept (context\<lparr>ctx_request := r2\<rparr>) =
      Some (UNALIXERR_SUCCESS, context\<lparr>ctx_request := r3\<rparr>)" "with_header r2 (HTTP_HEADER_ACCEPT, accept) r3"
    using add_header_ample[OF assms(1), of "context\<lparr>ctx_request := r2\<rparr>" HTTP_HEADER_ACCEPT accept] r1(2) r2(2) r(4) acc(1)
    by (auto simp: with_header_def)
  have hs: "hs_items (rq_headers r3) = map mk_header [(''Host'', host_text u), (HTTP_HEADER_USER_AGENT, HTTP_DEFAULT_USER_AGENT),
      (HTTP_HEADER_ACCEPT, accept)]"
    using r1(2) r2(2) r3(2) r(4) by (simp add: with_header_def)
  have body: "body_size (rq_body r3) = 0" "hdr.roomy (rq_headers r3)" "rq_uri r3 = u" "rq_method r3 = GET" "rq_version r3 = HTTP10"
    using r1(2) r2(2) r3(2) r by (simp_all add: with_header_def unsent_def)
  have "sendable p ex r3"
    by (rule get_request_sendable[OF assms(4) body(4,5,3,2,1), where a = "(HTTP_HEADER_USER_AGENT, HTTP_DEFAULT_USER_AGENT)"
          and b = "(HTTP_HEADER_ACCEPT, accept)"]) (use user_agent_short(1) acc(2) in \<open>simp_all add: hs\<close>)
  then show ?thesis
    using that[of r3] body r1(1) r2(1) r3(1)
    by (simp add: fetch_def attempt_def http_response_get_status_def Let_def hdr.roomy_def)
qed

lemma fetch_answer:
  assumes "ample p" "0 < slack p" "idle context" "url_ready p ex url u" "length accept < 1000"
    and "delivers ex (response_text v STATUS_OK reason kvs bs)" "message_ok v STATUS_OK reason kvs" "length bs \<le> PTRDIFF_MAX"
  shows "\<exists>context'. fetch p ex url accept context = Some (Inr context') \<and> served v STATUS_OK kvs bs u context'"
proof -
  obtain r where sent: "\<forall>c. http_request_send p ex (context\<lparr>ctx_request := r\<rparr>) = Some (UNALIXERR_SUCCESS, c) \<longrightarrow>
      status_code (rs_status (ctx_response c)) = STATUS_OK \<longrightarrow> fetch p ex url accept context = Some (Inr c)"
    and r: "sendable p ex r" "body_size (rq_body r) = 0" "headers_inv (rq_headers r)" "rq_uri r = u"
    by (rule fetch_prepared[OF assms(1) disjI2[OF assms(2)] assms(3-5)])
  obtain c where c: "http_request_send p ex (context\<lparr>ctx_request := r\<rparr>) = Some (UNALIXERR_SUCCESS, c)"
    "answered v STATUS_OK kvs bs c" "ctx_request c = r"
    using http_request_send_answer[OF assms(1,2) _ _ assms(6-8), of "context\<lparr>ctx_request := r\<rparr>"] r(1) assms(3)
    by (auto simp: idle_def)
  have "fetch p ex url accept context = Some (Inr c)"
    using sent c(1,2) by (simp add: answered_def Let_def)
  then show ?thesis
    using c r by (auto simp: served_def)
qed

lemma fetch_tight:
  assumes "ample p" "slack p = 0" "idle context" "url_ready p ex url u" "length accept < 1000" "delivers ex msg"
  shows "fetch p ex url accept context = None"
proof (cases "default_port u")
  case True
  obtain r where "http_request_send p ex (context\<lparr>ctx_request := r\<rparr>) = None \<longrightarrow> fetch p ex url accept context = None"
    "sendable p ex r"
    by (rule fetch_prepared[OF assms(1) disjI1[OF True] assms(3-5)])
  then show ?thesis
    using http_request_send_tight[OF assms(1,2) _ assms(6), of "context\<lparr>ctx_request := r\<rparr>"] by simp
next
  case False
  have "set_url p url context = None"
    using assms(3) by (intro set_url_tight[OF assms(2) False] url_readyD[OF assms(4)]) (simp add: idle_def unsent_def)
  then show ?thesis
    by (simp add: fetch_def attempt_def)
qed

section \<open>A file is downloaded\<close>

definition file_node :: "os \<Rightarrow> string \<Rightarrow> node" where
  "file_node os content = \<lparr>file_content = content, file_mtime = os_clock os, file_regular = True\<rparr>"

definition can_write_new :: "os \<Rightarrow> filesys \<Rightarrow> string \<Rightarrow> bool" where
  "can_write_new os fs file \<longleftrightarrow> os_can_write os file \<and> (case fs file of None \<Rightarrow> True | Some f \<Rightarrow> file_regular f) \<and> os_space os file = None"

lemma download_answer:
  assumes "served v n kvs bs u context" "uri_scheme u \<noteq> None" "can_write_new (sv_os sv) fs file"
  shows "\<exists>c. download sv file (context, fs) = Some (Inr (c, fs(file \<mapsto> file_node (sv_os sv) bs))) \<and> idle c \<and>
     (\<exists>c0. c = http_context_free c0)"
proof -
  let ?fs = "fs(file \<mapsto> file_node (sv_os sv) [])" and ?a = "arrived (conn_incoming (ctx_connection context))"
  let ?c = "on_connection (\<lambda>c. c\<lparr>conn_incoming := []\<rparr>) context"
  have ans: "body_kept (rs_body (ctx_response context))" "body_text (rs_body (ctx_response context)) @ ?a = bs"
    "broken (conn_incoming (ctx_connection context)) = None" "headers_inv (rs_headers (ctx_response context))"
    "headers_inv (rq_headers (ctx_request context))" "body_size (rq_body (ctx_request context)) = 0" "rq_uri (ctx_request context) = u"
    using assms(1) by (simp_all add: served_def answered_def Let_def)
  have "body_ok (rs_body (ctx_response context))"
    using ans(1) by (auto simp: body_kept_def body_ok_def zero_body_def)
  then have read: "http_response_read (sv_platform sv) (sv_os sv) context (Some file) ?fs =
      Some (UNALIXERR_SUCCESS, ?c, appended file bs ?fs)"
    using http_response_read_saved[where os = "sv_os sv" and name = "file" and fs = ?fs] ans assms(2,3) by (simp add: can_write_new_def)
  have bytes: "appended file bs ?fs = fs(file \<mapsto> file_node (sv_os sv) bs)"
    by (simp add: appended_def file_node_def)
  have opened: "fopen_write (sv_os sv) fs file = Some ?fs"
    using assms(3) by (simp add: can_write_new_def fopen_write_def file_node_def)
  have "idle (http_context_free ?c)"
    by (rule idle_free) (use ans in \<open>simp_all add: on_connection_def\<close>)
  then show ?thesis
    using read by (auto simp: download_def opened bytes Let_def)
qed

section \<open>The hash is compared\<close>

lemma compare_hash_answer:
  assumes "ample (sv_platform sv)" "served v n kvs bs u context" "uri_scheme u \<noteq> None"
    and "64 \<le> length bs" "length bs \<le> PTRDIFF_MAX"
    and "fs file = Some f" "os_can_read (sv_os sv) file" "os_read_error (sv_os sv) file = None"
    and "hex_digest (file_content f) = map lower_hex (take 64 bs)"
  shows "\<exists>c. compare_hash sv file fs context = Some (Inr (c, fs))"
proof -
  let ?p = "in_call 1 (sv_platform sv)" and ?r = "ctx_response context"
  let ?a = "arrived (conn_incoming (ctx_connection context))"
  have ans: "body_kept (rs_body ?r)" "body_text (rs_body ?r) @ ?a = bs"
    "broken (conn_incoming (ctx_connection context)) = None" "rq_uri (ctx_request context) = u"
    using assms(2) by (simp_all add: served_def answered_def Let_def)
  have ok: "body_ok (rs_body ?r)"
    using ans(1) by (auto simp: body_kept_def body_ok_def zero_body_def)
  have size: "body_size (rs_body ?r) = length (body_text (rs_body ?r))"
    using ok by (auto simp: body_ok_def body_text_def opt_str_def)
  let ?r' = "extend_body ?a ?r"
  have loop: "read_loop ?p (sv_os sv) h None (conn_incoming (ctx_connection context)) (?r, fs) = (UNALIXERR_SUCCESS, [], ?r', fs)" for h
    using assms(1,5) ans(2,3) ok size by (intro read_loop_memory) auto
  have all: "body_text (rs_body ?r') = bs" "body_ok (rs_body ?r')"
    using ans(2) ok by (simp_all add: body_text_extend body_ok_extend)
  then have content: "body_size (rs_body ?r') = length bs" "opt_str (body_content (rs_body ?r')) = bs"
    using assms(4) by (auto simp: body_text_def body_ok_def opt_str_def split: if_splits)
  have "sha256_digest (sv_os sv) fs file = (UNALIXERR_SUCCESS, hex_digest (file_content f))"
    using assms(6-8) by (rule sha256_digest_eq)
  moreover have "memcpy_range bs 0 64 = Some (take 64 bs)"
    using assms(4) by (simp add: memcpy_range_def slice_def)
  ultimately show ?thesis
    using assms(3,4,9) ans(4) loop content
    by (auto simp: compare_hash_def http_response_read_def Let_def http_response_get_body_def br_sha256_SIZE_def SHA256_DIGEST_SIZE_def)
qed

end
