(* ===== verification/End_To_End.thy ===== *)
theory End_To_End
  imports Delivery
begin

text \<open>
  Whole runs over exchanges that answer: an update of the ruleset installs what the
  server sends when the published hash is right, and the unshortener follows a
  chain of redirects to its end or to the limit.
\<close>

section \<open>An update\<close>

lemma install_moves:
  assumes "loads sv file fs" "fs file = Some f" "os_rename (sv_os sv) file filename = Renamed"
  shows "install sv file filename (context, fs) = Some (UNALIXERR_SUCCESS, context, (fs(file := None))(filename \<mapsto> f))"
  using assms by (auto simp: install_def loads_def move_file_def Let_def)

text \<open>The server answers the k-th request, for \<open>url\<close>, with 200 and \<open>content\<close>.\<close>

definition serves :: "'c services \<Rightarrow> platform \<Rightarrow> nat \<Rightarrow> string \<Rightarrow> string \<Rightarrow> bool" where
  "serves sv p k url content \<longleftrightarrow> (\<exists>u v reason kvs. url_ready p (sv_exchange sv k) url u \<and>
     delivers (sv_exchange sv k) (response_text v STATUS_OK reason kvs content) \<and>
     message_ok v STATUS_OK reason kvs \<and> length content \<le> PTRDIFF_MAX)"

lemma serves_fetch:
  assumes "serves sv p k url content" "ample p" "0 < slack p" "idle context" "length accept < 1000"
  shows "\<exists>context' v kvs u. fetch p (sv_exchange sv k) url accept context = Some (Inr context') \<and>
     served v STATUS_OK kvs content u context' \<and> uri_scheme u \<noteq> None"
proof -
  obtain u v reason kvs where s: "url_ready p (sv_exchange sv k) url u"
    "delivers (sv_exchange sv k) (response_text v STATUS_OK reason kvs content)" "message_ok v STATUS_OK reason kvs"
    "length content \<le> PTRDIFF_MAX"
    using assms(1) by (auto simp: serves_def)
  from fetch_answer[OF assms(2-4) s(1) assms(5) s(2-4)] url_readyD(4)[OF s(1)] show ?thesis
    by blast
qed

lemma serves_tight:
  assumes "serves sv p k url content" "ample p" "slack p = 0" "idle context" "length accept < 1000"
  shows "fetch p (sv_exchange sv k) url accept context = None"
  using assms(1) fetch_tight[OF assms(2-4) _ assms(5)] by (auto simp: serves_def)

lemma check_hash_answer:
  assumes "ample (sv_platform sv)" "0 < slack (sv_platform sv)" "idle context"
    and "serves sv (in_call 1 (sv_platform sv)) 1 url published" "64 \<le> length published"
    and "fs file = Some f" "os_can_read (sv_os sv) file" "os_read_error (sv_os sv) file = None"
    and "hex_digest (file_content f) = map lower_hex (take 64 published)"
  shows "\<exists>c. check_hash sv file url (context, fs) = Some (Inr (c, fs))"
proof -
  obtain c v kvs u where c: "fetch (in_call 1 (sv_platform sv)) (sv_exchange sv 1) url ''text/plain'' context = Some (Inr c)"
    "served v STATUS_OK kvs published u c" "uri_scheme u \<noteq> None"
    using serves_fetch[OF assms(4) _ _ assms(3), of "''text/plain''"] assms(1,2) by auto
  have "length published \<le> PTRDIFF_MAX"
    using assms(4) by (auto simp: serves_def)
  then have "\<exists>c'. compare_hash sv file fs c = Some (Inr (c', fs))"
    using assms(5-8) assms(9) by (intro compare_hash_answer[OF assms(1) c(2,3)])
  then show ?thesis
    unfolding check_hash_def Let_def prod.case c(1) by simp
qed

definition can_read_back :: "os \<Rightarrow> string \<Rightarrow> bool" where
  "can_read_back os file \<longleftrightarrow> os_can_read os file \<and> os_read_error os file = None"

lemma update_installs:
  assumes "ample (sv_platform sv)" "0 < slack (sv_platform sv)" "filename \<noteq> []" "url \<noteq> []" "d \<noteq> []"
    and "serves sv (sv_platform sv) 0 url content"
    and "serves sv (in_call 1 (sv_platform sv)) 1 hash_url published"
    and "64 \<le> length published" "hex_digest content = map lower_hex (take 64 published)"
    and "can_write_new (sv_os sv) fs (d @ RULESET_TEMPORARY_FILE)" "can_read_back (sv_os sv) (d @ RULESET_TEMPORARY_FILE)"
    and "os_rename (sv_os sv) (d @ RULESET_TEMPORARY_FILE) filename = Renamed"
    and "loads sv (d @ RULESET_TEMPORARY_FILE) (fs(d @ RULESET_TEMPORARY_FILE \<mapsto> file_node (sv_os sv) content))"
  shows "\<exists>events. unalix_ruleset_update sv (Some filename) (Some url) (Some hash_url) (Some d) fs =
     Some (UNALIXERR_SUCCESS, events,
       fs(d @ RULESET_TEMPORARY_FILE := None, filename \<mapsto> file_node (sv_os sv) content))"
proof -
  let ?file = "d @ RULESET_TEMPORARY_FILE" and ?n = "file_node (sv_os sv) content"
  let ?fs = "fs(?file \<mapsto> ?n)"
  obtain c v kvs u where c: "fetch (sv_platform sv) (sv_exchange sv 0) url ''application/json'' (new_context GET HTTP_DEFAULT_TIMEOUT) =
      Some (Inr c)" "served v STATUS_OK kvs content u c" "uri_scheme u \<noteq> None"
    using serves_fetch[OF assms(6,1,2) idle_new, of "''application/json''"] by fastforce
  obtain c1 where c1: "download sv ?file (c, fs) = Some (Inr (c1, ?fs))" "idle c1"
    using download_answer[OF c(2,3) assms(10)] by blast
  obtain c2 where c2: "check_hash sv ?file hash_url (c1, ?fs) = Some (Inr (c2, ?fs))"
    using check_hash_answer[OF assms(1,2) c1(2) assms(7,8), of ?fs ?file ?n] assms(9,11)
    by (auto simp: can_read_back_def file_node_def)
  have c3: "install sv ?file filename (c2, ?fs) = Some (UNALIXERR_SUCCESS, c2, (?fs(?file := None))(filename \<mapsto> ?n))"
    by (rule install_moves[OF assms(13) _ assms(12)]) simp
  have "ruleset_update sv filename url (Some hash_url) (Some d) (new_context GET HTTP_DEFAULT_TIMEOUT, fs) =
      Some (UNALIXERR_SUCCESS, c2, (?fs(?file := None))(filename \<mapsto> ?n))"
    by (simp add: ruleset_update_def c(1) ruleset_file_given c1(1) c2 c3 del: fun_upd_upd)
  then show ?thesis
    using assms(3-5) by (auto simp: unalix_ruleset_update_def blank_def)
qed

lemma update_tight:
  assumes "ample (sv_platform sv)" "slack (sv_platform sv) = 0" "filename \<noteq> []" "url \<noteq> []" "d \<noteq> []"
    and "serves sv (sv_platform sv) 0 url content"
  shows "unalix_ruleset_update sv (Some filename) (Some url) hash_url (Some d) fs = None"
proof -
  have "fetch (sv_platform sv) (sv_exchange sv 0) url ''application/json'' (new_context GET HTTP_DEFAULT_TIMEOUT) = None"
    using serves_tight[OF assms(6,1,2) idle_new] by simp
  then have "ruleset_update sv filename url hash_url (Some d) (new_context GET HTTP_DEFAULT_TIMEOUT, fs) = None"
    by (simp add: ruleset_update_def ruleset_file_given)
  then show ?thesis
    using assms(3-5) by (auto simp: unalix_ruleset_update_def blank_def)
qed

section \<open>A redirect\<close>

lemma headers_get_messages:
  assumes "headers_inv hs" "hs_items hs = map mk_header kvs"
  shows "http_headers_get hs key = Some (map_option (\<lambda>v. mk_header (key, v)) (map_of kvs key))"
proof -
  have "find (\<lambda>h. hdr_key h = Some key) (map mk_header kvs) = map_option (\<lambda>v. mk_header (key, v)) (map_of kvs key)"
    by (induction kvs) (auto simp: mk_header_def)
  moreover have "take (hs_offset hs) (hs_items hs) = map mk_header kvs"
    using assms by (simp add: headers_inv_def)
  ultimately show ?thesis
    by (simp add: http_headers_get_def headers_find_eq mk_header_def)
qed

text \<open>Where a message redirects to.\<close>

definition redirect_target :: "int \<Rightarrow> (string \<times> string) list \<Rightarrow> string option" where
  "redirect_target n kvs = (if is_redirect n then map_of kvs ''Location'' else None)"

lemma get_redirect_answer:
  assumes "ample p" "answered v n kvs bs context" "message_ok v n reason kvs"
    and "\<forall>l. redirect_target n kvs = Some l \<longrightarrow> absolute_form l"
  shows "http_get_redirect p r (ctx_response context) = Some (UNALIXERR_SUCCESS, redirect_target n kvs)"
proof -
  have hs: "http_headers_get (rs_headers (ctx_response context)) ''Location'' =
      Some (map_option (\<lambda>v. mk_header (''Location'', v)) (map_of kvs ''Location''))"
    "status_code (rs_status (ctx_response context)) = n"
    using assms(2) by (simp_all add: answered_def Let_def headers_get_messages)
  have "length l < PTRDIFF_MAX" if "map_of kvs ''Location'' = Some l" for l
    using message_ok_sizes(1)[OF assms(3)] map_of_SomeD[OF that] by (fastforce simp: line_text_def)
  then show ?thesis
    using assms(1,4) hs
    by (auto simp: http_get_redirect_def redirect_target_def absolute_form_def header_text_def mk_header_def strdup_def
        split: option.splits)
qed

definition agent :: "string option \<Rightarrow> string" where
  "agent user_agent = (case user_agent of None \<Rightarrow> HTTP_DEFAULT_USER_AGENT
     | Some s \<Rightarrow> if s = [] then HTTP_DEFAULT_USER_AGENT else s)"

text \<open>The context of a request before its URL is set.\<close>

abbreviation unshort_context :: "int \<Rightarrow> http_context" where
  "unshort_context timeout \<equiv> new_context GET (if timeout > 0 then timeout else HTTP_DEFAULT_TIMEOUT)"

lemma unshort_headers:
  assumes "ample p" "length (agent user_agent) < 2 ^ 58"
  obtains r1 r2 where
    "add_header p HTTP_HEADER_ACCEPT ''*/*'' (unshort_context timeout) =
       Some (UNALIXERR_SUCCESS, unshort_context timeout\<lparr>ctx_request := r1\<rparr>)"
    "add_header p HTTP_HEADER_USER_AGENT (agent user_agent) (unshort_context timeout\<lparr>ctx_request := r1\<rparr>) =
       Some (UNALIXERR_SUCCESS, unshort_context timeout\<lparr>ctx_request := r2\<rparr>)"
    "unsent r2" "rq_method r2 = GET" "rq_version r2 = HTTP10"
    "hs_items (rq_headers r2) = map mk_header [(HTTP_HEADER_ACCEPT, ''*/*''), (HTTP_HEADER_USER_AGENT, agent user_agent)]"
proof -
  let ?ctx = "unshort_context timeout" and ?ua = "agent user_agent"
  let ?r = "ctx_request ?ctx"
  have r: "rq_method ?r = GET" "rq_version ?r = HTTP10" "unsent ?r" "hs_items (rq_headers ?r) = []"
    using idle_new by (simp_all add: idle_def)
  have short: "length HTTP_HEADER_ACCEPT + length ''*/*'' + 2 < PTRDIFF_MAX"
    "length HTTP_HEADER_USER_AGENT + length ?ua + 2 < PTRDIFF_MAX"
    using assms(2) by (simp_all add: HTTP_HEADER_ACCEPT_def HTTP_HEADER_USER_AGENT_def PTRDIFF_MAX_def)
  obtain r1 where r1: "add_header p HTTP_HEADER_ACCEPT ''*/*'' ?ctx = Some (UNALIXERR_SUCCESS, ?ctx\<lparr>ctx_request := r1\<rparr>)"
    "with_header ?r (HTTP_HEADER_ACCEPT, ''*/*'') r1"
    using add_header_ample[OF assms(1), of ?ctx HTTP_HEADER_ACCEPT "''*/*''"] r(3,4) short(1) by (auto simp: unsent_def)
  obtain r2 where r2: "add_header p HTTP_HEADER_USER_AGENT ?ua (?ctx\<lparr>ctx_request := r1\<rparr>) =
      Some (UNALIXERR_SUCCESS, ?ctx\<lparr>ctx_request := r2\<rparr>)" "with_header r1 (HTTP_HEADER_USER_AGENT, ?ua) r2"
    using add_header_ample[OF assms(1), of "?ctx\<lparr>ctx_request := r1\<rparr>" HTTP_HEADER_USER_AGENT ?ua] r1(2) r(4) short(2)
    by (auto simp: with_header_def)
  show ?thesis
    by (rule that[OF r1(1) r2(1)]) (use r1(2) r2(2) r in \<open>simp_all add: unsent_def with_header_def\<close>)
qed

text \<open>The request that is sent, and what the answer to it makes of the call.\<close>

lemma unshort_prepared:
  assumes "ample p" "default_port u \<or> 0 < slack p" "url_ready p ex url u" "length (agent user_agent) < 2 ^ 58"
  obtains c where "sendable p ex (ctx_request c)" "fresh (ctx_response c)"
    "http_request_send p ex c = None \<longrightarrow> unshort_request p ex user_agent timeout url = None"
    "\<forall>c' l. http_request_send p ex c = Some (UNALIXERR_SUCCESS, c') \<longrightarrow>
       http_get_redirect p (ctx_request c') (ctx_response c') = Some (UNALIXERR_SUCCESS, l) \<longrightarrow>
       (\<exists>events. unshort_request p ex user_agent timeout url = Some (UNALIXERR_SUCCESS, l, events))"
proof -
  let ?ctx = "unshort_context timeout" and ?ua = "agent user_agent"
  note url = url_readyD[OF assms(3)]
  obtain r1 r2 where r1: "add_header p HTTP_HEADER_ACCEPT ''*/*'' ?ctx = Some (UNALIXERR_SUCCESS, ?ctx\<lparr>ctx_request := r1\<rparr>)"
    and r2: "add_header p HTTP_HEADER_USER_AGENT ?ua (?ctx\<lparr>ctx_request := r1\<rparr>) = Some (UNALIXERR_SUCCESS, ?ctx\<lparr>ctx_request := r2\<rparr>)"
      "unsent r2" "rq_method r2 = GET" "rq_version r2 = HTTP10"
      "hs_items (rq_headers r2) = map mk_header [(HTTP_HEADER_ACCEPT, ''*/*''), (HTTP_HEADER_USER_AGENT, ?ua)]"
    by (rule unshort_headers[OF assms(1,4)])
  obtain r3 where r3: "set_url p url (?ctx\<lparr>ctx_request := r2\<rparr>) = Some (UNALIXERR_SUCCESS, ?ctx\<lparr>ctx_request := r3\<rparr>)"
    "with_header (r2\<lparr>rq_uri := u\<rparr>) (''Host'', host_text u) r3"
    using set_url_ample[OF assms(1,2) _ _ url(1,3,4,6), of "?ctx\<lparr>ctx_request := r2\<rparr>"] r2(2,5) by auto
  have hs: "hs_items (rq_headers r3) = map mk_header [(HTTP_HEADER_ACCEPT, ''*/*''), (HTTP_HEADER_USER_AGENT, ?ua),
      (''Host'', host_text u)]"
    using r3(2) r2(5) by (simp add: with_header_def)
  have body: "body_size (rq_body r3) = 0" "hdr.roomy (rq_headers r3)" "rq_uri r3 = u" "rq_method r3 = GET" "rq_version r3 = HTTP10"
    using r3(2) r2(2-4) by (simp_all add: with_header_def unsent_def)
  have short: "length HTTP_HEADER_ACCEPT + length ''*/*'' < 2 ^ 60" "length HTTP_HEADER_USER_AGENT + length ?ua < 2 ^ 60"
    using assms(4) by (simp_all add: HTTP_HEADER_ACCEPT_def HTTP_HEADER_USER_AGENT_def)
  have sendable: "sendable p ex r3"
    by (rule get_request_sendable[OF assms(3) body(4,5,3,2,1), where a = "(HTTP_HEADER_USER_AGENT, ?ua)"
          and b = "(HTTP_HEADER_ACCEPT, ''*/*'')"]) (use short in \<open>auto simp: hs\<close>)
  have ua: "(case user_agent of None \<Rightarrow> HTTP_DEFAULT_USER_AGENT | Some s \<Rightarrow> if s = [] then HTTP_DEFAULT_USER_AGENT else s) = ?ua"
    by (simp add: agent_def)
  have "fresh (ctx_response ?ctx)"
    using idle_new by (simp add: idle_def)
  with sendable show ?thesis
    by (intro that[of "?ctx\<lparr>ctx_request := r3\<rparr>"])
      (use r1 r2(1) r3(1) in \<open>simp_all add: unshort_request_def Let_def ua attempt_def\<close>)
qed

lemma unshort_request_answer:
  assumes "ample p" "0 < slack p" "url_ready p ex url u" "length (agent user_agent) < 2 ^ 58"
    and "delivers ex (response_text v n reason kvs bs)" "message_ok v n reason kvs" "length bs \<le> PTRDIFF_MAX"
    and "\<forall>l. redirect_target n kvs = Some l \<longrightarrow> absolute_form l"
  shows "\<exists>events. unshort_request p ex user_agent timeout url = Some (UNALIXERR_SUCCESS, redirect_target n kvs, events)"
proof -
  obtain c where c: "sendable p ex (ctx_request c)" "fresh (ctx_response c)"
    and sent: "\<forall>c' l. http_request_send p ex c = Some (UNALIXERR_SUCCESS, c') \<longrightarrow>
       http_get_redirect p (ctx_request c') (ctx_response c') = Some (UNALIXERR_SUCCESS, l) \<longrightarrow>
       (\<exists>events. unshort_request p ex user_agent timeout url = Some (UNALIXERR_SUCCESS, l, events))"
    by (rule unshort_prepared[OF assms(1) disjI2[OF assms(2)] assms(3,4), of timeout])
  obtain c' where c': "http_request_send p ex c = Some (UNALIXERR_SUCCESS, c')" "answered v n kvs bs c'"
    using http_request_send_answer[OF assms(1,2) c assms(5-7)] by blast
  show ?thesis
    using sent c'(1) get_redirect_answer[OF assms(1) c'(2) assms(6,8)] by blast
qed

lemma unshort_request_tight:
  assumes "ample p" "slack p = 0" "url_ready p ex url u" "length (agent user_agent) < 2 ^ 58" "delivers ex msg"
  shows "unshort_request p ex user_agent timeout url = None"
proof (cases "default_port u")
  case True
  obtain c where "sendable p ex (ctx_request c)"
    "http_request_send p ex c = None \<longrightarrow> unshort_request p ex user_agent timeout url = None"
    by (rule unshort_prepared[OF assms(1) disjI1[OF True] assms(3,4), of timeout])
  then show ?thesis
    using http_request_send_tight[OF assms(1,2) _ assms(5), of c] by simp
next
  case False
  let ?ctx = "unshort_context timeout"
  obtain r1 r2 where "add_header p HTTP_HEADER_ACCEPT ''*/*'' ?ctx = Some (UNALIXERR_SUCCESS, ?ctx\<lparr>ctx_request := r1\<rparr>)"
    "add_header p HTTP_HEADER_USER_AGENT (agent user_agent) (?ctx\<lparr>ctx_request := r1\<rparr>) =
       Some (UNALIXERR_SUCCESS, ?ctx\<lparr>ctx_request := r2\<rparr>)" "unsent r2"
    by (rule unshort_headers[OF assms(1,4)])
  moreover have "(case user_agent of None \<Rightarrow> HTTP_DEFAULT_USER_AGENT | Some s \<Rightarrow> if s = [] then HTTP_DEFAULT_USER_AGENT else s) =
      agent user_agent"
    by (simp add: agent_def)
  moreover have "set_url p url (?ctx\<lparr>ctx_request := r2\<rparr>) = None"
    using calculation(3) by (intro set_url_tight[OF assms(2) False] url_readyD[OF assms(3)]) (simp add: unsent_def)
  ultimately show ?thesis
    by (simp add: unshort_request_def Let_def attempt_def)
qed

section \<open>A chain of redirects\<close>

text \<open>
  One hop: the URL of a location is cleaned to \<open>url\<close>, and the exchange of that
  iteration answers with a message that redirects to \<open>target\<close> or nowhere.
\<close>

definition hop :: "nat \<Rightarrow> platform \<Rightarrow> 'c pcre2 \<Rightarrow> 'c ruleset list \<Rightarrow> (nat \<Rightarrow> exchange) \<Rightarrow> clean_flags
     \<Rightarrow> nat \<Rightarrow> string \<Rightarrow> string \<Rightarrow> string option \<Rightarrow> bool" where
  "hop frames p rx rs exs fl k location url target \<longleftrightarrow>
     unalix_clean_url frames (in_call k p) rx rs fl (Some location) True = Some (UNALIXERR_SUCCESS, Some url) \<and>
     (\<exists>u v n reason kvs bs. url_ready (in_call k p) (exs k) url u \<and> delivers (exs k) (response_text v n reason kvs bs) \<and>
        message_ok v n reason kvs \<and> length bs \<le> PTRDIFF_MAX \<and> redirect_target n kvs = target \<and>
        (\<forall>l. target = Some l \<longrightarrow> absolute_form l))"

fun hops :: "(nat \<Rightarrow> string \<Rightarrow> string \<Rightarrow> string option \<Rightarrow> bool) \<Rightarrow> nat \<Rightarrow> (string \<times> string) list \<Rightarrow> bool" where
  "hops P k [] = False"
| "hops P k [(location, url)] = P k location url None"
| "hops P k ((location, url) # (location', url') # hs) =
     (P k location url (Some location') \<and> hops P (Suc k) ((location', url') # hs))"

lemma hop_request:
  assumes "hop frames p rx rs exs fl k location url target" "ample p" "0 < slack p" "length (agent user_agent) < 2 ^ 58"
  obtains events where
    "unalix_clean_url frames (in_call k p) rx rs fl (Some location) True = Some (UNALIXERR_SUCCESS, Some url)"
    "unshort_request (in_call k p) (exs k) user_agent timeout url = Some (UNALIXERR_SUCCESS, target, events)"
  using assms unshort_request_answer[of "in_call k p" "exs k" url _ user_agent _ _ _ _ _ timeout]
  unfolding hop_def by (metis ample_in_call in_call_simps(1))

lemma unshort_loop_hops:
  assumes "hops (hop frames p rx rs exs fl) k hs" "ample p" "0 < slack p" "length (agent user_agent) < 2 ^ 58"
    and "k \<le> HTTP_DEFAULT_MAX_REDIRECTS"
  shows "\<exists>events. unshort_loop frames p rx rs exs fl user_agent timeout k (fst (hd hs)) target log =
     Some (if k + length hs \<le> HTTP_DEFAULT_MAX_REDIRECTS + 1 then (UNALIXERR_SUCCESS, Some (snd (last hs)), events)
       else (UNALIXERR_HTTP_TOO_MANY_REDIRECTS, Some (snd (hs ! (HTTP_DEFAULT_MAX_REDIRECTS - k))), events))"
  using assms(1,5)
proof (induction "hop frames p rx rs exs fl" k hs arbitrary: target log rule: hops.induct)
  case (2 k location url)
  from 2(1) have "hop frames p rx rs exs fl k location url None" by simp
  then obtain events where
    "unalix_clean_url frames (in_call k p) rx rs fl (Some location) True = Some (UNALIXERR_SUCCESS, Some url)"
    "unshort_request (in_call k p) (exs k) user_agent timeout url = Some (UNALIXERR_SUCCESS, None, events)"
    by (rule hop_request[OF _ assms(2-4)])
  then show ?case
    using 2(2) by (subst unshort_loop.simps) simp
next
  case (3 k location url location' url' hs)
  from 3(2) have "hop frames p rx rs exs fl k location url (Some location')" by simp
  then obtain events where run:
    "unalix_clean_url frames (in_call k p) rx rs fl (Some location) True = Some (UNALIXERR_SUCCESS, Some url)"
    "unshort_request (in_call k p) (exs k) user_agent timeout url = Some (UNALIXERR_SUCCESS, Some location', events)"
    by (rule hop_request[OF _ assms(2-4)])
  show ?case
  proof (cases "Suc k \<le> HTTP_DEFAULT_MAX_REDIRECTS")
    case True
    with 3(1)[of "Some url" "log @ events"] 3(2) run show ?thesis
      by (subst unshort_loop.simps) (auto simp: Suc_diff_Suc[symmetric] nth_Cons')
  next
    case False
    with 3(3) run show ?thesis
      by (subst unshort_loop.simps) simp
  qed
qed simp

lemma hops_first: "hops P k hs \<Longrightarrow> \<exists>url target. P k (fst (hd hs)) url target"
  by (induction P k hs rule: hops.induct) auto

lemma unshort_hops_tight:
  assumes "hops (hop frames p rx rs exs fl) 0 hs" "ample p" "slack p = 0" "length (agent user_agent) < 2 ^ 58"
    and "fst (hd hs) \<noteq> []"
  shows "unalix_unshort_url frames p rx rs exs fl user_agent timeout (Some (fst (hd hs))) (Some target) = None"
proof -
  obtain url t where "hop frames p rx rs exs fl 0 (fst (hd hs)) url t"
    using hops_first[OF assms(1)] by blast
  then obtain u msg where
    "unalix_clean_url frames (in_call 0 p) rx rs fl (Some (fst (hd hs))) True = Some (UNALIXERR_SUCCESS, Some url)"
    "url_ready (in_call 0 p) (exs 0) url u" "delivers (exs 0) msg"
    by (auto simp: hop_def)
  moreover have "unshort_request (in_call 0 p) (exs 0) user_agent timeout url = None"
    using unshort_request_tight[OF _ _ calculation(2) assms(4) calculation(3)] assms(2,3) by simp
  ultimately show ?thesis
    using assms(5) by (subst unalix_unshort_url_def) (simp add: unshort_loop.simps[of _ _ _ _ _ _ _ _ 0])
qed

lemma unshort_hops:
  assumes "hops (hop frames p rx rs exs fl) 0 hs" "ample p" "0 < slack p" "length (agent user_agent) < 2 ^ 58"
    and "fst (hd hs) \<noteq> []"
  shows "\<exists>events. unalix_unshort_url frames p rx rs exs fl user_agent timeout (Some (fst (hd hs))) (Some target) =
     Some (if length hs \<le> 21 then (UNALIXERR_SUCCESS, Some (snd (last hs)), events)
       else (UNALIXERR_HTTP_TOO_MANY_REDIRECTS, Some (snd (hs ! 20)), events))"
  using unshort_loop_hops[OF assms(1-4), of timeout target "[]"] assms(5)
  by (cases "length hs \<le> 21") (auto simp: unalix_unshort_url_def HTTP_DEFAULT_MAX_REDIRECTS_def)

end
