(* ===== verification/JNI.thy ===== *)
theory JNI
  imports Update
begin

text \<open>
  \<open>src/unalix_jni.c\<close>: the six native methods.  Each calls the library with the
  characters of its strings and turns the code into a result or an exception, an
  object of the class of the code with its message.  A null string reference is
  undefined (\<open>GetStringUTFChars\<close> does not take it).
\<close>

datatype 'a java = Returned 'a | Thrown string string

definition throw_code :: "unalixerr \<Rightarrow> 'a java" where
  "throw_code rc = Thrown (get_exception_class (err_code rc)) (unalix_strerror (err_code rc))"

definition rulesetCheckUpdate ::
  "platform \<Rightarrow> 't calendar \<Rightarrow> exchange \<Rightarrow> filesys \<Rightarrow> string option \<Rightarrow> string option
     \<Rightarrow> (bool java \<times> event list) option" where
  "rulesetCheckUpdate p cal ex fs filename url = do {
     cfilename \<leftarrow> filename;
     curl \<leftarrow> url;
     (rc, events) \<leftarrow> unalix_ruleset_check_update p cal ex fs (Some cfilename) (Some curl);
     Some (if rc = UNALIXERR_RULESETS_UPDATE_AVAILABLE then Returned True
           else if rc = UNALIXERR_RULESETS_NOT_MODIFIED then Returned False
           else throw_code rc, events) }"

definition rulesetUpdate ::
  "'c services \<Rightarrow> string option \<Rightarrow> string option \<Rightarrow> string option \<Rightarrow> string option \<Rightarrow> filesys
     \<Rightarrow> (unit java \<times> event list \<times> filesys) option" where
  "rulesetUpdate sv filename url sha256_url temporary_directory fs = do {
     cfilename \<leftarrow> filename;
     curl \<leftarrow> url;
     csha256_url \<leftarrow> sha256_url;
     ctemporary_directory \<leftarrow> temporary_directory;
     (rc, events, fs) \<leftarrow> unalix_ruleset_update sv (Some cfilename) (Some curl) (Some csha256_url)
        (Some ctemporary_directory) fs;
     Some (if rc \<noteq> UNALIXERR_SUCCESS then throw_code rc else Returned (), events, fs) }"

definition cleanUrl ::
  "nat \<Rightarrow> platform \<Rightarrow> 'c pcre2 \<Rightarrow> 'c rulesets \<Rightarrow> clean_flags \<Rightarrow> string option \<Rightarrow> string option java option" where
  "cleanUrl frames p rx rulesets fl url = do {
     curl \<leftarrow> url;
     (rc, target_url) \<leftarrow> unalix_clean_url frames p rx (get_rulesets rulesets) fl (Some curl) True;
     Some (if rc = UNALIXERR_SUCCESS then Returned target_url else throw_code rc) }"

definition unshortUrl ::
  "nat \<Rightarrow> platform \<Rightarrow> 'c pcre2 \<Rightarrow> 'c rulesets \<Rightarrow> (nat \<Rightarrow> exchange) \<Rightarrow> clean_flags \<Rightarrow> string option \<Rightarrow> string option \<Rightarrow> int
     \<Rightarrow> (string option java \<times> event list) option" where
  "unshortUrl frames p rx rulesets exs fl url userAgent timeout = do {
     curl \<leftarrow> url;
     cuserAgent \<leftarrow> userAgent;
     (rc, target_url, events) \<leftarrow> unalix_unshort_url frames p rx (get_rulesets rulesets) exs fl (Some cuserAgent) timeout
        (Some curl) (Some None);
     Some (if rc = UNALIXERR_SUCCESS then Returned target_url else throw_code rc, events) }"

definition loadFile ::
  "platform \<Rightarrow> 'c pcre2 \<Rightarrow> (string \<Rightarrow> bool) \<Rightarrow> os \<Rightarrow> filesys \<Rightarrow> string option \<Rightarrow> 'c rulesets
     \<Rightarrow> (unit java \<times> 'c rulesets) option" where
  "loadFile p rx fin os fs filename rulesets = do {
     cfilename \<leftarrow> filename;
     (rc, rulesets) \<leftarrow> unalix_load_file p rx fin os fs (Some cfilename) rulesets;
     Some (if rc \<noteq> UNALIXERR_SUCCESS then throw_code rc else Returned (), rulesets) }"

definition loadString ::
  "platform \<Rightarrow> 'c pcre2 \<Rightarrow> (string \<Rightarrow> bool) \<Rightarrow> string option \<Rightarrow> 'c rulesets \<Rightarrow> (unit java \<times> 'c rulesets) option" where
  "loadString p rx fin str rulesets = do {
     cstring \<leftarrow> str;
     (rc, rulesets) \<leftarrow> unalix_load_string p rx fin (Some cstring) rulesets;
     Some (if rc \<noteq> UNALIXERR_SUCCESS then throw_code rc else Returned (), rulesets) }"

end
