(* ===== verification/Codes.thy ===== *)
theory Codes
  imports JNI CleanUrl_Query
begin

text \<open>
  Which codes the cleaner can answer with, from the stages of the parser up, and
  so which exceptions the Java binding can throw for a URL.
\<close>

section \<open>The codes of the URI parser\<close>

definition uri_codes :: "unalixerr set" where
  "uri_codes = {UNALIXERR_URI_SCHEME_MISSING, UNALIXERR_URI_SCHEME_SHOULD_STARTS_WITH_LETTER, UNALIXERR_URI_SCHEME_EMPTY,
     UNALIXERR_URI_SCHEME_CONTAINS_INVALID_CHARACTER, UNALIXERR_URI_HOSTNAME_LABEL_CONNOT_STARTS_WITH_HYPHEN,
     UNALIXERR_URI_HOSTNAME_TOO_LONG, UNALIXERR_URI_HOSTNAME_TOO_SHORT, UNALIXERR_URI_HOSTNAME_LABEL_TOO_LONG,
     UNALIXERR_URI_HOSTNAME_LABEL_EMPTY, UNALIXERR_URI_HOSTNAME_LABEL_CONTAINS_INVALID_CHARACTER,
     UNALIXERR_URI_HOSTNAME_LABEL_CONNOT_ENDS_WITH_HYPHEN, UNALIXERR_URI_PORT_OUT_OF_RANGE,
     UNALIXERR_URI_PORT_CONTAINS_INVALID_CHARACTER, UNALIXERR_URI_HOSTNAME_MISSING_CLOSING_BRACKET,
     UNALIXERR_URI_IPV6_ADDRESS_TOO_SHORT, UNALIXERR_URI_IPV6_ADDRESS_TOO_LONG, UNALIXERR_URI_IPV6_ADDRESS_INVALID}"

definition uri_code_list :: "unalixerr list" where
  "uri_code_list = [UNALIXERR_URI_SCHEME_MISSING, UNALIXERR_URI_SCHEME_SHOULD_STARTS_WITH_LETTER, UNALIXERR_URI_SCHEME_EMPTY,
     UNALIXERR_URI_SCHEME_CONTAINS_INVALID_CHARACTER, UNALIXERR_URI_HOSTNAME_LABEL_CONNOT_STARTS_WITH_HYPHEN,
     UNALIXERR_URI_HOSTNAME_TOO_LONG, UNALIXERR_URI_HOSTNAME_TOO_SHORT, UNALIXERR_URI_HOSTNAME_LABEL_TOO_LONG,
     UNALIXERR_URI_HOSTNAME_LABEL_EMPTY, UNALIXERR_URI_HOSTNAME_LABEL_CONTAINS_INVALID_CHARACTER,
     UNALIXERR_URI_HOSTNAME_LABEL_CONNOT_ENDS_WITH_HYPHEN, UNALIXERR_URI_PORT_OUT_OF_RANGE,
     UNALIXERR_URI_PORT_CONTAINS_INVALID_CHARACTER, UNALIXERR_URI_HOSTNAME_MISSING_CLOSING_BRACKET,
     UNALIXERR_URI_IPV6_ADDRESS_TOO_SHORT, UNALIXERR_URI_IPV6_ADDRESS_TOO_LONG, UNALIXERR_URI_IPV6_ADDRESS_INVALID]"

lemma uri_codes_eq: "uri_codes = set uri_code_list"
  by (simp add: uri_codes_def uri_code_list_def)

definition stop_codes :: "unalixerr set" where
  "stop_codes = insert UNALIXERR_MEMORY_ALLOCATE_FAILURE uri_codes"

abbreviation stops :: "unalixerr \<times> 'a \<Rightarrow> bool" where
  "stops r \<equiv> fst r \<in> stop_codes"

abbreviation stage_ok :: "((unalixerr \<times> 'a) + 'b) option \<Rightarrow> bool" where
  "stage_ok m \<equiv> leaves m stops (\<lambda>_. True)"

lemma scheme_loop_codes: "scheme_loop before s = Inl (e, t) \<Longrightarrow> e \<in> stop_codes"
  by (induction before s rule: scheme_loop.induct) (auto simp: stop_codes_def uri_codes_def split: if_splits)

lemma label_end_codes: "label_end before n = Some e \<Longrightarrow> e \<in> stop_codes"
  by (auto simp: label_end_def stop_codes_def uri_codes_def split: if_splits)

lemma label_loop_codes: "label_loop before n s = Inl (e, t) \<Longrightarrow> e \<in> stop_codes"
  by (induction before n s rule: label_loop.induct)
    (auto simp: stop_codes_def uri_codes_def split: if_splits option.splits dest!: label_end_codes)

lemma hostname_size_error_codes: "hostname_size_error ipv6 n = Some e \<Longrightarrow> e \<in> stop_codes"
  by (auto simp: hostname_size_error_def stop_codes_def uri_codes_def split: if_splits)

lemma stop_codes_in [simp]:
  "UNALIXERR_MEMORY_ALLOCATE_FAILURE \<in> stop_codes" "UNALIXERR_URI_SCHEME_MISSING \<in> stop_codes"
  "UNALIXERR_URI_SCHEME_EMPTY \<in> stop_codes" "UNALIXERR_URI_HOSTNAME_MISSING_CLOSING_BRACKET \<in> stop_codes"
  "UNALIXERR_URI_PORT_CONTAINS_INVALID_CHARACTER \<in> stop_codes" "UNALIXERR_URI_PORT_OUT_OF_RANGE \<in> stop_codes"
  "UNALIXERR_URI_IPV6_ADDRESS_INVALID \<in> stop_codes"
  by (simp_all add: stop_codes_def uri_codes_def)

lemma parse_scheme_codes: "stage_ok (parse_scheme p obj uri)"
  by (rule leavesI) (auto simp: parse_scheme_def Let_def split: option.splits sum.splits if_splits dest!: scheme_loop_codes)

lemma store_range_codes: "stage_ok (store_range p at s a n f obj)"
  by (rule leavesI) (auto simp: store_range_def split: option.splits if_splits)

lemma parse_authentication_codes: "stage_ok (parse_authentication p obj uri a)"
  by (auto simp: parse_authentication_def Let_def split: option.split
      intro!: leaves_stage[where Q = "\<lambda>_. True"] store_range_codes)

lemma locate_authority_codes: "stage_ok (locate_authority obj uri a e)"
  by (auto simp: locate_authority_def Let_def split: option.split)

lemma store_port_codes: "stage_ok (store_port obj uri s n)"
  by (auto simp: store_port_def Let_def split: option.split)

lemma parse_port_codes: "stage_ok (parse_port obj uri c)"
  by (auto simp: parse_port_def split: option.split intro!: leaves_stage[where Q = "\<lambda>_. True"] store_port_codes)

lemma parse_hostname_codes: "stage_ok (parse_hostname p obj uri c)"
  by (auto simp: parse_hostname_def Let_def split: option.split sum.split
      dest!: hostname_size_error_codes label_loop_codes)

lemma parse_tail_codes:
  "stage_ok (parse_fragment p obj uri c)" "stage_ok (parse_query p obj uri c)" "stage_ok (parse_path p obj uri c)"
  by (auto simp: parse_fragment_def parse_query_def parse_path_def split: option.split intro: store_range_codes)

text \<open>The code a function of the parser may end with, opaque to the simplifier.\<close>

definition finishes :: "unalixerr \<times> 'a \<Rightarrow> bool" where
  "finishes r \<longleftrightarrow> fst r \<in> insert UNALIXERR_SUCCESS stop_codes"

lemma leaves_finishes: "stage_ok m \<Longrightarrow> leaves m finishes (\<lambda>_. True)"
  by (simp add: leaves_def finishes_def)

lemma finishes_SUCCESS: "finishes (UNALIXERR_SUCCESS, a)"
  by (simp add: finishes_def)

lemma uri_parse_codes:
  assumes "uri_parse p obj s = Some (e, u)"
  shows "e \<in> insert UNALIXERR_SUCCESS stop_codes"
proof -
  obtain u' where "parse_uri p obj s = Some (e, u')"
    using assms by (auto simp: uri_parse_def bind_eq_Some_conv)
  moreover have "finishes r" if "parse_uri p obj s = Some r" for r
    by (rule leaves_body[OF _ that[unfolded parse_uri_def]])
      (auto intro!: leaves_stage[where Q = "\<lambda>_. True"] leaves_finishes finishes_SUCCESS parse_scheme_codes parse_authentication_codes
        locate_authority_codes parse_port_codes parse_hostname_codes parse_tail_codes)
  ultimately show ?thesis by (force simp: finishes_def)
qed

section \<open>The codes of the cleaner\<close>

lemma put_parameter_codes:
  "put_parameter p q x = Some (e, q') \<Longrightarrow> e \<in> {UNALIXERR_SUCCESS, UNALIXERR_MEMORY_ALLOCATE_FAILURE}"
  by (auto simp: put_parameter_def Let_def split: if_splits)

lemma add_parameter_codes:
  "add_parameter p q k v = Some (e, q') \<Longrightarrow> e \<in> {UNALIXERR_SUCCESS, UNALIXERR_MEMORY_ALLOCATE_FAILURE}"
  by (auto simp: add_parameter_def Let_def split: if_splits option.splits dest!: put_parameter_codes)

lemma push_all_codes:
  assumes "\<And>s x e t. push s x = Some (e, t) \<Longrightarrow> e \<in> C" "UNALIXERR_SUCCESS \<in> C"
  shows "push_all push s xs = Some (e, t) \<Longrightarrow> e \<in> C"
proof (induction xs arbitrary: s)
  case (Cons x xs)
  then show ?case
    using assms by (cases "push s x") (auto split: if_splits)
qed (use assms in simp)

lemma query_parse_codes:
  assumes "query_parse p q s = Some (e, q')"
  shows "e \<in> {UNALIXERR_SUCCESS, UNALIXERR_MEMORY_ALLOCATE_FAILURE}"
  using assms unfolding query_parse_pieces
  by (rule push_all_codes[rotated 2]) (auto dest: add_parameter_codes)

lemma clean_query_codes: "clean_query p fl q = Some (Inl e) \<Longrightarrow> e = UNALIXERR_MEMORY_ALLOCATE_FAILURE"
  by (auto simp: clean_query_def bind_eq_Some_conv split: option.splits if_splits prod.splits dest!: query_parse_codes)

definition clean_codes :: "unalixerr set" where
  "clean_codes = {UNALIXERR_SUCCESS, UNALIXERR_ARG_INVALID, UNALIXERR_RULESETS_EMPTY} \<union> stop_codes"

lemma clean_frame_codes:
  assumes "clean_frame p rx rs fl url has_target = Some (Inl (e, t))"
  shows "e \<in> clean_codes"
proof (cases "url = None \<or> url = Some [] \<or> \<not> has_target \<or> rs = []")
  case True
  then show ?thesis
    using assms by (auto simp: clean_frame_def clean_codes_def split: option.splits if_splits)
next
  case False
  then obtain s where s: "url = Some s" "s \<noteq> []" "has_target" "rs \<noteq> []" by auto
  then obtain rc u where parse: "uri_parse p zero_uri s = Some (rc, u)"
    using assms by (cases "uri_parse p zero_uri s") (auto simp: clean_frame_def)
  note code = uri_parse_codes[OF parse]
  show ?thesis
  proof (cases "rc = UNALIXERR_SUCCESS")
    case False
    then show ?thesis
      using assms s parse code by (auto simp: clean_frame_def clean_codes_def)
  next
    case True
    obtain v where v: "clean_rulesets p rx fl s rs u = Some (Inr v)"
      using assms s parse True
      by (cases "clean_rulesets p rx fl s rs u") (auto simp: clean_frame_def split: sum.splits)
    have "e = UNALIXERR_SUCCESS \<or> e = UNALIXERR_MEMORY_ALLOCATE_FAILURE"
      using assms s parse True v
      by (auto simp: clean_frame_def bind_eq_Some_conv split: option.splits sum.splits)
        (metis clean_query_codes sum.exhaust)
    then show ?thesis by (auto simp: clean_codes_def)
  qed
qed

lemma unalix_clean_url_codes:
  "unalix_clean_url frames p rx rs fl url has_target = Some (e, t) \<Longrightarrow> e \<in> clean_codes"
  by (induction frames p rx rs fl url has_target rule: unalix_clean_url.induct)
    (auto split: option.splits sum.splits dest: clean_frame_codes)

text \<open>The classes of exceptions for these codes.\<close>

definition exception_class :: "string \<Rightarrow> string" where
  "exception_class name = ''com/amanoteam/libunalix/exceptions/Unalix'' @ name"

lemma uri_code_class: "e \<in> uri_codes \<Longrightarrow> get_exception_class (err_code e) = exception_class ''URIException''"
proof -
  have "list_all (\<lambda>e. get_exception_class (err_code e) = exception_class ''URIException'') uri_code_list"
    by code_simp
  then show "e \<in> uri_codes \<Longrightarrow> ?thesis"
    by (simp only: list_all_iff uri_codes_eq)
qed

lemma other_code_class:
  "get_exception_class (err_code UNALIXERR_MEMORY_ALLOCATE_FAILURE) = exception_class ''MemoryException''"
  "get_exception_class (err_code UNALIXERR_RULESETS_EMPTY) = exception_class ''RulesetsException''"
  "get_exception_class (err_code UNALIXERR_ARG_INVALID) = exception_class ''Exception''"
  by code_simp+

lemma cleanUrl_class:
  assumes "cleanUrl frames p rx rulesets fl url = Some (Thrown c m)"
  shows "c \<in> exception_class ` {''URIException'', ''MemoryException'', ''RulesetsException'', ''Exception''}"
proof -
  obtain e t where e: "unalix_clean_url frames p rx (get_rulesets rulesets) fl url True = Some (e, t)"
    "e \<noteq> UNALIXERR_SUCCESS" "c = get_exception_class (err_code e)"
    using assms by (auto simp: cleanUrl_def bind_eq_Some_conv throw_code_def split: if_splits)
  from unalix_clean_url_codes[OF e(1)] e(2)
  have "e \<in> {UNALIXERR_ARG_INVALID, UNALIXERR_RULESETS_EMPTY, UNALIXERR_MEMORY_ALLOCATE_FAILURE} \<or> e \<in> uri_codes"
    by (auto simp: clean_codes_def stop_codes_def)
  then show ?thesis
    using uri_code_class other_code_class e(3) by auto
qed

end
