(* ===== verification/JSON_Lexer.thy ===== *)
theory JSON_Lexer
  imports JSON_Load
begin

text \<open>
  The stream and the lexical analyzer of Jansson read the bytes of the data in order:
  what a stream has not delivered yet is a string, every function that reads takes a
  prefix of it, and no assertion fails.  The tokens are those of \<open>lexeme\<close>, a function
  of the string alone.
\<close>

section \<open>Total results\<close>

definition returns :: "'a option \<Rightarrow> ('a \<Rightarrow> bool) \<Rightarrow> bool" where
  "returns m P \<longleftrightarrow> (\<exists>x. m = Some x \<and> P x)"

lemma returns_simps [simp]: "returns (Some x) P = P x" "\<not> returns None P"
  by (simp_all add: returns_def)

lemma returns_bind: "returns m P \<Longrightarrow> (\<And>x. P x \<Longrightarrow> returns (f x) Q) \<Longrightarrow> returns (m \<bind> f) Q"
  by (auto simp: returns_def)

lemma returns_mono: "returns m P \<Longrightarrow> (\<And>x. P x \<Longrightarrow> Q x) \<Longrightarrow> returns m Q"
  by (auto simp: returns_def)

section \<open>What is left of a stream\<close>

text \<open>
  \<open>view D st s\<close>: of the data \<open>D\<close> the stream delivers \<open>s\<close> next, and what it has
  delivered is valid UTF-8.
\<close>

definition view :: "string \<Rightarrow> stream \<Rightarrow> string \<Rightarrow> bool" where
  "view D st s \<longleftrightarrow> st_pos st < length (st_buffer st) \<and> last (st_buffer st) = nul \<and>
     (case st_state st of
        STREAM_STATE_OK \<Rightarrow> (\<exists>d. D = d @ st_data st \<and> utf8_check_string d) \<and>
          s = takeWhile (\<lambda>c. c \<noteq> nul) (drop (st_pos st) (st_buffer st)) @ st_data st
      | STREAM_STATE_EOF \<Rightarrow> s = [] \<and> utf8_check_string D
      | STREAM_STATE_ERROR \<Rightarrow> s = [] \<and> \<not> utf8_check_string D)"

definition malformed :: "string \<Rightarrow> stream \<Rightarrow> bool" where
  "malformed D st \<longleftrightarrow> view D st [] \<and> st_state st = STREAM_STATE_ERROR"

text \<open>The byte before the position, which can be given back.\<close>

definition holds :: "stream \<Rightarrow> char \<Rightarrow> bool" where
  "holds st b \<longleftrightarrow> st_state st = STREAM_STATE_OK \<and> 0 < st_pos st \<and> st_buffer st ! (st_pos st - 1) = b \<and>
     (b = nul \<longrightarrow> st_buffer st ! st_pos st = nul)"

definition got_from :: "string \<Rightarrow> string \<Rightarrow> got \<times> stream \<Rightarrow> bool" where
  "got_from D s = (\<lambda>(c, st). case c of
      Byte b \<Rightarrow> (\<exists>r. s = b # r \<and> view D st r \<and> holds st b)
    | End \<Rightarrow> s = [] \<and> view D st [] \<and> utf8_check_string D
    | Bad \<Rightarrow> malformed D st)"

lemma view_init: "view data (stream_init data) data"
  by (simp add: view_def stream_init_def utf8_check_string.simps)

lemma nul_notin_utf8: "0x80 \<le> n \<Longrightarrow> scalar n \<Longrightarrow> nul \<notin> set (utf8 n)"
  by (erule utf8_cases) (auto simp: utf8_pieces nul_def dest!: arg_cong[where f = "of_char :: char \<Rightarrow> nat"])

lemma takeWhile_not_nul: "nul \<notin> set xs \<Longrightarrow> takeWhile (\<lambda>c. c \<noteq> nul) (xs @ [nul]) = xs"
  by (induction xs) auto

text \<open>A character of several bytes that the stream accepts, and one that it does not.\<close>

lemma multibyte_ok:
  assumes "0x80 \<le> code c" "utf8_check_first c \<noteq> 0"
    and full: "utf8_check_full (c # next_bytes (utf8_check_first c - 1) data) \<noteq> None"
  obtains n where "scalar n" "0x80 \<le> n" "c # take (utf8_check_first c - 1) data = utf8 n"
    "next_bytes (utf8_check_first c - 1) data = take (utf8_check_first c - 1) data"
proof -
  define k where "k = utf8_check_first c - 1"
  have "k \<le> length data"
    using full_available full by (simp add: k_def)
  then have next_: "next_bytes k data = take k data"
    by (simp add: next_bytes_def)
  obtain v where v: "utf8_check_full (c # take k data) = Some v"
    using full next_ by (auto simp: k_def)
  have "length (c # take k data) = utf8_check_first (hd (c # take k data))"
    using \<open>k \<le> length data\<close> assms(2) by (simp add: k_def)
  from check_full_Some[OF v this] obtain n where "scalar n" "0x80 \<le> n" "c # take k data = utf8 n"
    by metis
  then show ?thesis
    using that next_ by (simp add: k_def)
qed

lemma multibyte_bad:
  assumes "0x80 \<le> code c"
    and "utf8_check_first c = 0 \<or> utf8_check_full (c # next_bytes (utf8_check_first c - 1) data) = None"
  shows "\<not> utf8_check_string (c # data)"
proof
  assume ok: "utf8_check_string (c # data)"
  have count: "utf8_check_first c \<noteq> 1"
    using assms(1) by (simp add: utf8_check_first_def Let_def)
  then have "utf8_check_first c > 1" "utf8_check_first c \<le> length (c # data)"
    "utf8_check_full (take (utf8_check_first c) (c # data)) \<noteq> None"
    using ok by (auto simp: utf8_check_string.simps(2) Let_def split: if_splits)
  then show False
    using assms(2) by (auto simp: next_bytes_def take_Cons')
qed

lemma view_delivered:
  "D = d @ st_data st \<Longrightarrow> utf8_check_string d \<Longrightarrow> utf8_check_string D = utf8_check_string (st_data st)"
  by (simp add: check_string_append)

lemma stream_get_view:
  assumes "view D st s"
  shows "returns (stream_get st) (got_from D s)"
proof (cases "st_state st")
  case STREAM_STATE_OK
  let ?b = "st_buffer st ! st_pos st"
  have pos: "st_pos st < length (st_buffer st)" and last: "last (st_buffer st) = nul"
    and s: "s = takeWhile (\<lambda>c. c \<noteq> nul) (drop (st_pos st) (st_buffer st)) @ st_data st"
    using assms STREAM_STATE_OK by (auto simp: view_def)
  obtain d where d: "D = d @ st_data st" "utf8_check_string d"
    using assms STREAM_STATE_OK by (auto simp: view_def)
  have split: "drop (st_pos st) (st_buffer st) = ?b # drop (st_pos st + 1) (st_buffer st)"
    using pos by (simp add: Cons_nth_drop_Suc)
  show ?thesis
  proof (cases "?b = nul")
    case False
    then have "st_pos st + 1 < length (st_buffer st)"
      using pos last by (metis Suc_eq_plus1 Suc_leI diff_Suc_1 last_conv_nth le_neq_implies_less list.size(3) not_less_zero)
    then show ?thesis
      using False pos last s split d STREAM_STATE_OK
      by (auto simp: stream_get_def stream_byte_def got_from_def view_def holds_def)
  next
    case True
    show ?thesis
    proof (cases "st_data st")
      case Nil
      then show ?thesis
        using True pos last s split d STREAM_STATE_OK by (auto simp: stream_get_def got_from_def view_def)
    next
      case (Cons c data)
      have sc: "s = c # data"
        using True s split Cons by simp
      show ?thesis
      proof (cases "0x80 \<le> code c")
        case False
        then have "utf8_check_string (d @ [c])"
          using d(2) by (simp add: check_string_append utf8_check_string.simps utf8_check_first_def)
        then show ?thesis
          using True False pos last d(1) Cons sc STREAM_STATE_OK
          by (auto simp: stream_get_def stream_byte_def got_from_def view_def holds_def intro!: exI[of _ "d @ [c]"])
      next
        case multi: True
        show ?thesis
        proof (cases "utf8_check_first c \<noteq> 0 \<and> utf8_check_full (c # next_bytes (utf8_check_first c - 1) data) \<noteq> None")
          case ok: True
          then obtain n where n: "scalar n" "0x80 \<le> n" "c # take (utf8_check_first c - 1) data = utf8 n"
            "next_bytes (utf8_check_first c - 1) data = take (utf8_check_first c - 1) data"
            using multibyte_ok multi by metis
          have count: "\<not> utf8_check_first c < 2"
            using ok multi by (auto simp: utf8_check_first_def Let_def split: if_splits)
          have "utf8_check_string (d @ c # take (utf8_check_first c - 1) data)"
            using d(2) n check_string_utf8[of n "[]"] by (simp add: check_string_append utf8_check_string.simps)
          moreover have "nul \<notin> set (c # take (utf8_check_first c - 1) data)"
            using nul_notin_utf8 n by simp
          moreover have "\<exists>e. D = e @ drop (utf8_check_first c - 1) data \<and> utf8_check_string e"
            using calculation(1) d(1) Cons by (intro exI[of _ "d @ c # take (utf8_check_first c - 1) data"]) simp
          ultimately show ?thesis
            using True multi ok count pos last d(1) Cons sc STREAM_STATE_OK n(2, 4)
            by (auto simp: stream_get_def stream_byte_def got_from_def view_def holds_def Let_def takeWhile_not_nul
                  nth_append Suc_le_eq)
        next
          case bad: False
          then have "\<not> utf8_check_string D"
            using multibyte_bad[OF multi] view_delivered[OF d] Cons by auto
          moreover have "\<not> utf8_check_first c < 2" if "utf8_check_first c \<noteq> 0"
            using that multi by (auto simp: utf8_check_first_def Let_def split: if_splits)
          ultimately show ?thesis
            using True bad multi pos Cons STREAM_STATE_OK
            by (auto simp: stream_get_def got_from_def view_def malformed_def Let_def)
        qed
      qed
    qed
  qed
qed (use assms in \<open>auto simp: stream_get_def got_from_def view_def malformed_def\<close>)

text \<open>A byte that is given back is delivered again, unless it is a terminator.\<close>

fun unread :: "string \<Rightarrow> string" where
  "unread [] = []"
| "unread (b # s) = (if b = nul then s else b # s)"

lemma stream_unget_view:
  assumes "view D st s" "holds st b"
  shows "returns (stream_unget st (Byte b)) (\<lambda>st'. view D st' (unread (b # s)))"
proof -
  have "drop (st_pos st - 1) (st_buffer st) = b # drop (st_pos st) (st_buffer st)"
    using assms by (auto simp: view_def holds_def Cons_nth_drop_Suc[symmetric])
  moreover have "b = nul \<Longrightarrow> takeWhile (\<lambda>c. c \<noteq> nul) (drop (st_pos st) (st_buffer st)) = []"
    using assms by (auto simp: view_def holds_def Cons_nth_drop_Suc[symmetric])
  ultimately show ?thesis
    using assms by (auto simp: stream_unget_def view_def holds_def)
qed

section \<open>Reading and giving back\<close>

fun bytes :: "got \<Rightarrow> string" where
  "bytes (Byte b) = [b]"
| "bytes c = []"

text \<open>
  \<open>cur D f w s (c, l)\<close>: \<open>c\<close> is the first byte of \<open>s\<close>, which the analyzer has read and
  saved behind the text \<open>w\<close>; \<open>f\<close> is the depth and the token.
\<close>

definition cur :: "string \<Rightarrow> nat \<times> token \<Rightarrow> string \<Rightarrow> string \<Rightarrow> got \<times> lex \<Rightarrow> bool" where
  "cur D f w s = (\<lambda>(c, l). (lex_depth l, lex_token l) = f \<and> lex_saved_text l = w @ bytes c \<and>
     got_from D s (c, lex_stream l))"

text \<open>\<open>given D f w s l\<close>: the text \<open>w\<close> is saved and \<open>s\<close> is left, unless the data is malformed.\<close>

definition given :: "string \<Rightarrow> nat \<times> token \<Rightarrow> string \<Rightarrow> string \<Rightarrow> lex \<Rightarrow> bool" where
  "given D f w s l \<longleftrightarrow> (lex_depth l, lex_token l) = f \<and> lex_saved_text l = w \<and>
     (malformed D (lex_stream l) \<or> view D (lex_stream l) s)"

lemma lex_get_from:
  assumes "view D (lex_stream l) s"
  shows "returns (lex_get l) (\<lambda>(c, l'). got_from D s (c, lex_stream l') \<and> l' = l\<lparr>lex_stream := lex_stream l'\<rparr>)"
  using stream_get_view[OF assms] by (auto simp: lex_get_def returns_def)

lemma get_save_cur:
  assumes "view D (lex_stream l) s"
  shows "returns (lex_get_save l) (cur D (lex_depth l, lex_token l) (lex_saved_text l) s)"
proof -
  obtain c l' where "lex_get l = Some (c, l')" "got_from D s (c, lex_stream l')" and l': "l' = l\<lparr>lex_stream := lex_stream l'\<rparr>"
    using lex_get_from[OF assms] by (auto simp: returns_def)
  moreover have "lex_depth l' = lex_depth l" "lex_token l' = lex_token l" "lex_saved_text l' = lex_saved_text l"
    by (subst l', simp)+
  ultimately show ?thesis
    by (cases c) (simp_all add: lex_get_save_def cur_def lex_save_def)
qed

lemma cur_Byte:
  assumes "cur D f w s (Byte b, l)"
  obtains r where "s = b # r" "view D (lex_stream l) r" "holds (lex_stream l) b"
    "lex_saved_text l = w @ [b]" "f = (lex_depth l, lex_token l)"
  using assms by (auto simp: cur_def got_from_def)

lemma cur_next:
  assumes "cur D f w (b # r) (Byte b', l)"
  shows "returns (lex_get_save l) (cur D f (w @ [b]) r)"
  using assms get_save_cur[of D l r] by (auto simp: cur_def got_from_def)

lemma view_broken: "malformed D st \<Longrightarrow> view D st []"
  by (simp add: malformed_def)

lemma unget_unsave_given:
  assumes "cur D f w s (c, l)"
  shows "returns (lex_unget_unsave l c) (given D f w (unread s))"
proof (cases c)
  case (Byte b)
  then obtain r where "s = b # r" "view D (lex_stream l) r" "holds (lex_stream l) b"
    "lex_saved_text l = w @ [b]" "f = (lex_depth l, lex_token l)"
    using assms cur_Byte by metis
  then show ?thesis
    using Byte stream_unget_view[of D "lex_stream l" r b]
    by (auto simp: lex_unget_unsave_def lex_unget_def returns_def given_def simp del: unread.simps)
qed (use assms in \<open>auto simp: lex_unget_unsave_def cur_def given_def got_from_def view_broken\<close>)

text \<open>The byte that is read first, and how a string splits at it.\<close>

fun starts :: "(char \<Rightarrow> bool) \<Rightarrow> string \<Rightarrow> bool" where
  "starts P [] = False"
| "starts P (b # s) = P b"

lemma is_byte_simps [simp]: "is_byte P (Byte b) = P b" "\<not> is_byte P End" "\<not> is_byte P Bad"
  by (simp_all add: is_byte_def)

lemma is_byteD: "is_byte P c \<Longrightarrow> \<exists>b. c = Byte b \<and> P b"
  by (cases c) auto

lemma got_starts: "got_from D s (c, st) \<Longrightarrow> c \<noteq> Bad \<Longrightarrow> is_byte P c = starts P s"
  by (cases c) (auto simp: got_from_def)

lemma cur_starts: "cur D f w s (c, l) \<Longrightarrow> c \<noteq> Bad \<Longrightarrow> is_byte P c = starts P s"
  by (auto simp: cur_def got_starts)

lemma cur_Bad: "cur D f w s (Bad, l) \<Longrightarrow> cur D f w s' (Bad, l)"
  by (simp add: cur_def got_from_def)

lemma get_save_while_cur:
  assumes "view D (lex_stream l) s"
  shows "returns (get_save_while P l) (\<lambda>(c, l'). \<not> is_byte P c \<and> (\<exists>xs. list_all P xs \<and> (c \<noteq> Bad \<longrightarrow> xs = takeWhile P s) \<and>
     cur D (lex_depth l, lex_token l) (lex_saved_text l @ xs) (dropWhile P s) (c, l')))"
  using assms
proof (induction P l arbitrary: s rule: get_save_while.induct)
  case (1 P l)
  obtain c l1 where lg: "lex_get_save l = Some (c, l1)"
    and c: "cur D (lex_depth l, lex_token l) (lex_saved_text l) s (c, l1)"
    using get_save_cur[OF "1.prems"] by (auto simp: returns_def)
  show ?case
  proof (cases "is_byte P c")
    case False
    then have "c \<noteq> Bad \<Longrightarrow> takeWhile P s = [] \<and> dropWhile P s = s"
      using cur_starts[OF c, of P] by (cases s) auto
    then show ?thesis
      using False lg c by (cases "c = Bad") (auto simp: get_save_while.simps[of P l] dest: cur_Bad intro!: exI[of _ "[]"])
  next
    case True
    then obtain b where b: "c = Byte b" "P b"
      using is_byteD by blast
    then obtain r where r: "s = b # r" "view D (lex_stream l1) r" "lex_saved_text l1 = lex_saved_text l @ [b]"
      "(lex_depth l, lex_token l) = (lex_depth l1, lex_token l1)"
      using c cur_Byte by metis
    have eq: "get_save_while P l = get_save_while P l1"
      using lg True by (simp add: get_save_while.simps[of P l])
    have post: "returns (get_save_while P l1) (\<lambda>(c, l'). \<not> is_byte P c \<and> (\<exists>xs. list_all P xs \<and> (c \<noteq> Bad \<longrightarrow> xs = takeWhile P r) \<and>
       cur D (lex_depth l1, lex_token l1) (lex_saved_text l1 @ xs) (dropWhile P r) (c, l')))"
      using "1.IH"[OF lg refl True r(2)] .
    show ?thesis
      unfolding eq
    proof (rule returns_mono[OF post])
      fix x
      assume "case x of (c, l') \<Rightarrow> \<not> is_byte P c \<and> (\<exists>xs. list_all P xs \<and> (c \<noteq> Bad \<longrightarrow> xs = takeWhile P r) \<and>
        cur D (lex_depth l1, lex_token l1) (lex_saved_text l1 @ xs) (dropWhile P r) (c, l'))"
      then obtain c' l' xs where "x = (c', l')" "\<not> is_byte P c'" "list_all P xs" "c' \<noteq> Bad \<longrightarrow> xs = takeWhile P r"
        "cur D (lex_depth l1, lex_token l1) (lex_saved_text l1 @ xs) (dropWhile P r) (c', l')"
        by (cases x) auto
      then show "case x of (c, l') \<Rightarrow> \<not> is_byte P c \<and> (\<exists>xs. list_all P xs \<and> (c \<noteq> Bad \<longrightarrow> xs = takeWhile P s) \<and>
        cur D (lex_depth l, lex_token l) (lex_saved_text l @ xs) (dropWhile P s) (c, l'))"
        using r b by (auto intro!: exI[of _ "b # xs"])
    qed
  qed
qed

lemma get_nonspace_from:
  assumes "view D (lex_stream l) s"
  shows "returns (get_nonspace l) (\<lambda>(c, l'). \<not> is_byte is_space c \<and> got_from D (dropWhile is_space s) (c, lex_stream l') \<and>
     l' = l\<lparr>lex_stream := lex_stream l'\<rparr>)"
  using assms
proof (induction l arbitrary: s rule: get_nonspace.induct)
  case (1 l)
  obtain c l1 where lg: "lex_get l = Some (c, l1)" and c: "got_from D s (c, lex_stream l1)" "l1 = l\<lparr>lex_stream := lex_stream l1\<rparr>"
    using lex_get_from[OF "1.prems"] by (auto simp: returns_def)
  show ?case
  proof (cases "is_byte is_space c")
    case False
    then have "c \<noteq> Bad \<Longrightarrow> dropWhile is_space s = s"
      using got_starts[OF c(1), of is_space] by (cases s) auto
    then show ?thesis
      using False lg c by (cases "c = Bad") (auto simp: get_nonspace.simps[of l] got_from_def)
  next
    case True
    then obtain b r where r: "s = b # r" "is_space b" "view D (lex_stream l1) r"
      using c(1) is_byteD[OF True] by (auto simp: got_from_def)
    have eq: "get_nonspace l = get_nonspace l1"
      using lg True by (simp add: get_nonspace.simps[of l])
    have "l' = l\<lparr>lex_stream := lex_stream l'\<rparr>" if "l' = l1\<lparr>lex_stream := lex_stream l'\<rparr>" for l'
      using that by (subst (asm) c(2)) simp
    then show ?thesis
      unfolding eq using r(1, 2) by (intro returns_mono[OF "1.IH"[OF lg refl True r(3)]]) auto
  qed
qed

section \<open>Numbers\<close>

text \<open>
  A number at the front of a string, in the stages of the code: \<open>w\<close> is the text that has
  been read and \<open>s\<close> what follows it.
\<close>

definition no_lexeme :: "token \<times> string" where
  "no_lexeme = (TOKEN_INVALID, [])"

definition real_end :: "(string \<Rightarrow> bool) \<Rightarrow> string \<Rightarrow> string \<Rightarrow> token \<times> string" where
  "real_end fin w s = (if fin w then (TOKEN_REAL w, unread s) else no_lexeme)"

definition is_exp :: "char \<Rightarrow> bool" where "is_exp b \<longleftrightarrow> b = CHR ''E'' \<or> b = CHR ''e''"
definition is_sign :: "char \<Rightarrow> bool" where "is_sign b \<longleftrightarrow> b = CHR ''+'' \<or> b = CHR ''-''"

definition exponent_digits :: "(string \<Rightarrow> bool) \<Rightarrow> string \<Rightarrow> string \<Rightarrow> token \<times> string" where
  "exponent_digits fin w s =
     (if starts isdigit s then real_end fin (w @ takeWhile isdigit s) (dropWhile isdigit s) else no_lexeme)"

definition take_if :: "(char \<Rightarrow> bool) \<Rightarrow> string \<times> string \<Rightarrow> string \<times> string" where
  "take_if P x = (if starts P (snd x) then (fst x @ [hd (snd x)], tl (snd x)) else x)"

definition exponent_lexeme :: "(string \<Rightarrow> bool) \<Rightarrow> string \<Rightarrow> string \<Rightarrow> token \<times> string" where
  "exponent_lexeme fin w s =
     (if starts is_exp s then case_prod (exponent_digits fin) (take_if is_sign (w @ [hd s], tl s)) else real_end fin w s)"

definition real_lexeme :: "(string \<Rightarrow> bool) \<Rightarrow> string \<Rightarrow> string \<Rightarrow> token \<times> string" where
  "real_lexeme fin w s =
     (if starts (\<lambda>b. b = CHR ''.'') s then
        if starts isdigit (tl s) then exponent_lexeme fin (w @ CHR ''.'' # takeWhile isdigit (tl s)) (dropWhile isdigit (tl s))
        else no_lexeme
      else exponent_lexeme fin w s)"

definition integer_lexeme :: "string \<Rightarrow> string \<Rightarrow> token \<times> string" where
  "integer_lexeme w s =
     (if - (2 ^ 63) \<le> fst (strtoll w) \<and> fst (strtoll w) < 2 ^ 63 then (TOKEN_INTEGER (fst (strtoll w)), unread s) else no_lexeme)"

definition number_rest :: "json_flags \<Rightarrow> (string \<Rightarrow> bool) \<Rightarrow> string \<Rightarrow> string \<Rightarrow> token \<times> string" where
  "number_rest fl fin w s =
     (if \<not> JSON_DECODE_INT_AS_REAL fl \<and> \<not> starts (\<lambda>b. b = CHR ''.'' \<or> b = CHR ''E'' \<or> b = CHR ''e'') s
      then integer_lexeme w s else real_lexeme fin w s)"

definition number_digits :: "json_flags \<Rightarrow> (string \<Rightarrow> bool) \<Rightarrow> string \<Rightarrow> string \<Rightarrow> token \<times> string" where
  "number_digits fl fin w s =
     (if starts (\<lambda>b. b = CHR ''0'') s then
        if starts isdigit (tl s) then no_lexeme else number_rest fl fin (w @ ''0'') (tl s)
      else if starts isdigit s then number_rest fl fin (w @ takeWhile isdigit s) (dropWhile isdigit s)
      else no_lexeme)"

definition number_lexeme :: "json_flags \<Rightarrow> (string \<Rightarrow> bool) \<Rightarrow> string \<Rightarrow> token \<times> string" where
  "number_lexeme fl fin s = case_prod (number_digits fl fin) (take_if (\<lambda>b. b = CHR ''-'') ([], s))"

text \<open>
  The analyzer ends with that token in front of the rest, or the data is malformed; it does
  not take malformed data for the end.
\<close>

definition lexed :: "string \<Rightarrow> nat \<Rightarrow> token \<times> string \<Rightarrow> lex \<Rightarrow> bool" where
  "lexed D d = (\<lambda>(t, r) l. lex_depth l = d \<and> (lex_token l = TOKEN_EOF \<longrightarrow> t = TOKEN_EOF \<and> \<not> malformed D (lex_stream l)) \<and>
     (malformed D (lex_stream l) \<or> lex_token l = t \<and> (t = TOKEN_INVALID \<or> view D (lex_stream l) r)))"

lemma lexed_broken: "lex_depth l = d \<Longrightarrow> lex_token l \<noteq> TOKEN_EOF \<Longrightarrow> malformed D (lex_stream l) \<Longrightarrow> lexed D d x l"
  by (simp add: lexed_def split: prod.split)

lemma lexed_none: "given D (d, TOKEN_INVALID) w s l \<Longrightarrow> lexed D d no_lexeme l"
  by (simp add: lexed_def given_def no_lexeme_def)

lemma unget_unsave_Bad: "lex_unget_unsave l Bad = Some l"
  by (simp add: lex_unget_unsave_def)

lemma cur_Bad_D: "cur D (d, t) w s (Bad, l) \<Longrightarrow> lex_depth l = d \<and> lex_token l = t \<and> lex_saved_text l = w \<and> malformed D (lex_stream l)"
  by (simp add: cur_def got_from_def)

lemma lex_stream_token [simp]: "lex_stream (l\<lparr>lex_token := t\<rparr>) = lex_stream l" "lex_depth (l\<lparr>lex_token := t\<rparr>) = lex_depth l"
  "lex_saved_text (l\<lparr>lex_token := t\<rparr>) = lex_saved_text l"
  by simp_all

lemma unget_invalid:
  assumes "cur D (d, TOKEN_INVALID) w s (c, l)"
  shows "returns (lex_unget_unsave l c) (lexed D d no_lexeme)"
  using unget_unsave_given[OF assms] by (rule returns_mono) (rule lexed_none)

lemma get_save_cur':
  assumes "cur D (d, t) w s (Byte b, l)"
  shows "returns (lex_get_save l) (cur D (d, t) (w @ [b]) (tl s))"
  using assms by (elim cur_Byte) (metis get_save_cur list.sel(3))

lemma digits_cur:
  assumes "cur D (d, t) w s (c, l)" "is_byte isdigit c"
  shows "returns (get_save_while isdigit l) (\<lambda>x. \<exists>ds. ds \<noteq> [] \<and> list_all isdigit ds \<and>
    (fst x \<noteq> Bad \<longrightarrow> ds = takeWhile isdigit s) \<and> cur D (d, t) (w @ ds) (dropWhile isdigit s) x)"
proof -
  obtain b where b: "c = Byte b" "isdigit b"
    using assms(2) is_byteD by blast
  then obtain r where r: "s = b # r" "view D (lex_stream l) r" "lex_saved_text l = w @ [b]" "(d, t) = (lex_depth l, lex_token l)"
    using assms(1) cur_Byte by metis
  show ?thesis
  proof (rule returns_mono[OF get_save_while_cur[OF r(2), of isdigit]], clarsimp)
    fix c' l' xs
    assume "list_all isdigit xs" "c' \<noteq> Bad \<longrightarrow> xs = takeWhile isdigit r"
      "cur D (lex_depth l, lex_token l) (lex_saved_text l @ xs) (dropWhile isdigit r) (c', l')"
    then show "\<exists>ds. ds \<noteq> [] \<and> list_all isdigit ds \<and> (c' \<noteq> Bad \<longrightarrow> ds = takeWhile isdigit s) \<and>
      cur D (d, t) (w @ ds) (dropWhile isdigit s) (c', l')"
      using b(2) r by (intro exI[of _ "b # xs"]) auto
  qed
qed

text \<open>
  \<open>read_upto D d w s (c, l)\<close>: the text \<open>w\<close> is behind the analyzer and \<open>s\<close> begins with \<open>c\<close>,
  unless the data is malformed.
\<close>

definition read_upto :: "string \<Rightarrow> nat \<Rightarrow> string \<times> string \<Rightarrow> got \<times> lex \<Rightarrow> bool" where
  "read_upto D d y x \<longleftrightarrow> (\<exists>w s. cur D (d, TOKEN_INVALID) w s x \<and> (fst x \<noteq> Bad \<longrightarrow> (w, s) = y))"

text \<open>The same for a stage that may fail; \<open>rest\<close> is the token when it succeeds.\<close>

definition reads :: "string \<Rightarrow> nat \<Rightarrow> (string \<Rightarrow> bool) \<Rightarrow> (string \<Rightarrow> string \<Rightarrow> token \<times> string) \<Rightarrow> token \<times> string \<Rightarrow>
    bool \<times> got \<times> lex \<Rightarrow> bool" where
  "reads D d I rest x = (\<lambda>(ok, c, l). \<exists>w s. cur D (d, TOKEN_INVALID) w s (c, l) \<and> (ok \<longrightarrow> I w) \<and>
     (c \<noteq> Bad \<longrightarrow> x = (if ok then rest w s else no_lexeme)))"

lemma readsI:
  assumes "cur D (d, TOKEN_INVALID) w s (c, l)" "ok \<Longrightarrow> I w" "c \<noteq> Bad \<Longrightarrow> x = (if ok then rest w s else no_lexeme)"
  shows "reads D d I rest x (ok, c, l)"
  unfolding reads_def using assms by auto

lemma uptoE:
  assumes "read_upto D d (w, s) (c, l)"
  obtains "c \<noteq> Bad" "cur D (d, TOKEN_INVALID) w s (c, l)" | w' where "c = Bad" "cur D (d, TOKEN_INVALID) w' [] (c, l)"
  using assms by (cases "c = Bad") (auto simp: read_upto_def dest: cur_Bad)

lemma get_save_upto:
  assumes "cur D (d, TOKEN_INVALID) w s (Byte b, l)"
  shows "returns (lex_get_save l) (read_upto D d (w @ [b], tl s))"
  using get_save_cur'[OF assms] by (rule returns_mono) (auto simp: read_upto_def)

lemma get_save_if_upto:
  assumes "read_upto D d (w, s) (c, l)"
  shows "returns (get_save_if P c l) (read_upto D d (take_if P (w, s)))"
  using assms
proof (cases rule: uptoE)
  case 1
  show ?thesis
  proof (cases "is_byte P c")
    case True
    then obtain b where b: "c = Byte b" "P b"
      using is_byteD by blast
    then obtain r where "s = b # r"
      using 1 cur_Byte by metis
    then show ?thesis
      using get_save_upto[of D d w s b l] 1 b by (simp add: get_save_if_def take_if_def)
  next
    case False
    then show ?thesis
      using 1 assms cur_starts[OF 1(2), of P] by (simp add: get_save_if_def take_if_def)
  qed
next
  case (2 w')
  then show ?thesis
    by (auto simp: get_save_if_def read_upto_def)
qed

definition with_digits :: "string \<Rightarrow> string \<Rightarrow> bool" where
  "with_digits w w' \<longleftrightarrow> (\<exists>ds. w' = w @ ds \<and> ds \<noteq> [] \<and> list_all isdigit ds)"

lemma digits_reads:
  assumes "read_upto D d (w, s) (c, l)"
  shows "returns (get_save_digits c l) (reads D d (with_digits w) rest
    (if starts isdigit s then rest (w @ takeWhile isdigit s) (dropWhile isdigit s) else no_lexeme))"
  using assms
proof (cases rule: uptoE)
  case 1
  show ?thesis
  proof (cases "is_byte isdigit c")
    case True
    have "starts isdigit s"
      using cur_starts[OF 1(2)] 1 True by simp
    show ?thesis
      unfolding get_save_digits_def if_P[OF \<open>starts isdigit s\<close>] using True
    proof (simp, intro returns_bind[OF digits_cur[OF 1(2) True]], clarify)
      fix c' l' ds
      assume "ds \<noteq> []" "list_all isdigit ds" "fst (c', l') \<noteq> Bad \<longrightarrow> ds = takeWhile isdigit s"
        "cur D (d, TOKEN_INVALID) (w @ ds) (dropWhile isdigit s) (c', l')"
      then show "returns (Some (True, c', l')) (reads D d (with_digits w) rest (rest (w @ takeWhile isdigit s) (dropWhile isdigit s)))"
        by (auto simp: with_digits_def intro!: readsI[of D d "w @ ds" "dropWhile isdigit s"])
    qed
  next
    case False
    then show ?thesis
      using 1 cur_starts[OF 1(2), of isdigit] by (auto simp: get_save_digits_def intro!: readsI)
  qed
next
  case (2 w')
  then show ?thesis
    by (auto simp: get_save_digits_def intro!: readsI)
qed

lemma scan_int_digits_reads:
  assumes "read_upto D d (w, s) (c, l)"
  shows "returns (scan_int_digits c l) (reads D d (with_digits w) (number_rest fl fin) (number_digits fl fin w s))"
proof (cases "c = Byte (CHR ''0'')")
  case True
  have cur: "cur D (d, TOKEN_INVALID) w s (Byte (CHR ''0''), l)"
    using assms True by (auto simp: read_upto_def)
  then obtain r where s: "s = CHR ''0'' # r"
    using cur_Byte by metis
  have "reads D d (with_digits w) (number_rest fl fin) (number_digits fl fin w s) (\<not> is_byte isdigit c', c', l')"
    if "cur D (d, TOKEN_INVALID) (w @ ''0'') r (c', l')" for c' l'
    using cur_starts[OF that, of isdigit] s
    by (intro readsI[OF that]) (auto simp: with_digits_def number_digits_def isdigit_def)
  then show ?thesis
    using True get_save_cur'[OF cur] s
    by (auto simp: scan_int_digits_def intro!: returns_bind[where P = "cur D (d, TOKEN_INVALID) (w @ ''0'') r"])
next
  case False
  have "c \<noteq> Bad \<Longrightarrow> \<not> starts (\<lambda>b. b = CHR ''0'') s"
    using assms False cur_starts[of D _ w s c l "\<lambda>b. b = CHR ''0''"] by (cases c) (auto elim!: uptoE)
  then have "c \<noteq> Bad \<Longrightarrow> number_digits fl fin w s =
      (if starts isdigit s then number_rest fl fin (w @ takeWhile isdigit s) (dropWhile isdigit s) else no_lexeme)"
    by (simp add: number_digits_def)
  moreover have "returns (get_save_digits Bad l) (reads D d (with_digits w) (number_rest fl fin) x)" if "c = Bad" for x
    using assms that by (auto simp: get_save_digits_def elim!: uptoE intro!: readsI)
  ultimately show ?thesis
    using False digits_reads[OF assms, of "number_rest fl fin"] by (cases "c = Bad") (simp_all add: scan_int_digits_def)
qed

lemma reads_weaken:
  assumes "reads D d I rest x y"
  shows "reads D d (\<lambda>_. True) rest x y"
proof -
  obtain ok c l where y: "y = (ok, c, l)"
    by (cases y)
  show ?thesis
    using assms unfolding y reads_def prod.case by blast
qed

lemma scan_exponent_part_reads:
  assumes "read_upto D d (w, s) (c, l)"
  shows "returns (scan_exponent_part c l) (reads D d (\<lambda>_. True) (real_end fin) (exponent_lexeme fin w s))"
proof -
  let ?E = "\<lambda>b. b = CHR ''E'' \<or> b = CHR ''e''"
  have E: "starts ?E = starts is_exp" and S: "(\<lambda>b. b = CHR ''+'' \<or> b = CHR ''-'') = is_sign"
    by (simp_all add: is_exp_def[abs_def] is_sign_def[abs_def])
  show ?thesis
  proof (cases "is_byte ?E c")
    case False
    then show ?thesis
      using assms cur_starts[of D _ w s c l ?E] E
      by (auto simp: scan_exponent_part_def exponent_lexeme_def elim!: uptoE intro!: readsI)
  next
    case True
    then obtain b where b: "c = Byte b" "?E b"
      using is_byteD by blast
    then have cur: "cur D (d, TOKEN_INVALID) w s (Byte b, l)"
      using assms by (auto simp: read_upto_def)
    then obtain r where s: "s = b # r"
      using cur_Byte by metis
    have eq: "exponent_lexeme fin w s = case_prod (exponent_digits fin) (take_if is_sign (w @ [b], r))"
      using b s by (auto simp: exponent_lexeme_def is_exp_def)
    have digits: "returns (get_save_digits c' l') (reads D d (\<lambda>_. True) (real_end fin) (case_prod (exponent_digits fin) y))"
      if "read_upto D d y (c', l')" for c' l' y
      using digits_reads[of D d "fst y" "snd y" c' l' "real_end fin"] that
      by (auto simp: exponent_digits_def split: prod.split elim!: returns_mono intro: reads_weaken)
    show ?thesis
      unfolding scan_exponent_part_def S if_P[OF True] eq
    proof (rule returns_bind[OF get_save_upto[OF cur]], clarify)
      fix c1 l1
      assume "read_upto D d (w @ [b], tl s) (c1, l1)"
      then show "returns (get_save_if is_sign c1 l1 \<bind> (\<lambda>(c, l). get_save_digits c l))
        (reads D d (\<lambda>_. True) (real_end fin) (case_prod (exponent_digits fin) (take_if is_sign (w @ [b], r))))"
        using s by (auto intro!: returns_bind[OF get_save_if_upto] elim!: digits)
    qed
  qed
qed

lemma lex_scan_exponent_lexed:
  assumes "read_upto D d (w, s) (c, l)"
  shows "returns (lex_scan_exponent fin c l) (lexed D d (exponent_lexeme fin w s))"
  unfolding lex_scan_exponent_def
proof (rule returns_bind[OF scan_exponent_part_reads[OF assms, of fin]], clarify)
  fix ok c' l'
  assume "reads D d (\<lambda>_. True) (real_end fin) (exponent_lexeme fin w s) (ok, c', l')"
  then obtain w' s' where cur: "cur D (d, TOKEN_INVALID) w' s' (c', l')"
    and x: "c' \<noteq> Bad \<Longrightarrow> exponent_lexeme fin w s = (if ok then real_end fin w' s' else no_lexeme)"
    by (auto simp: reads_def)
  show "returns (lex_unget_unsave l' c' \<bind> (\<lambda>l. Some (if ok \<and> fin (lex_saved_text l) then l\<lparr>lex_token := TOKEN_REAL (lex_saved_text l)\<rparr> else l)))
    (lexed D d (exponent_lexeme fin w s))"
  proof (cases "c' = Bad")
    case True
    then show ?thesis
      using cur_Bad_D cur by (auto simp: unget_unsave_Bad intro!: lexed_broken)
  next
    case False
    show ?thesis
      by (rule returns_bind[OF unget_unsave_given[OF cur]])
        (auto simp: x[OF False] real_end_def given_def no_lexeme_def lexed_def)
  qed
qed

lemma stream_unget_got: "got_from D s (c, st) \<Longrightarrow> returns (stream_unget st c) (\<lambda>st'. c = Bad \<longrightarrow> malformed D st')"
proof (cases c)
  case (Byte b)
  assume "got_from D s (c, st)"
  then obtain r where "view D st r" "holds st b"
    using Byte by (auto simp: got_from_def)
  then show ?thesis
    using stream_unget_view unfolding Byte by (blast intro: returns_mono)
qed (auto simp: got_from_def stream_unget_def)

lemma lex_scan_exponent_Bad:
  "cur D (d, TOKEN_INVALID) w s (Bad, l) \<Longrightarrow> returns (lex_scan_exponent fin Bad l) (lexed D d x)"
  by (auto simp: lex_scan_exponent_def scan_exponent_part_def unget_unsave_Bad dest!: cur_Bad_D intro!: lexed_broken)

lemma lex_scan_real_lexed:
  assumes "read_upto D d (w, s) (c, l)"
  shows "returns (lex_scan_real fin c l) (lexed D d (real_lexeme fin w s))"
proof (cases "c = Byte (CHR ''.'')")
  case False
  have "real_lexeme fin w s = exponent_lexeme fin w s" if "c \<noteq> Bad"
  proof -
    have "\<not> starts (\<lambda>b. b = CHR ''.'') s"
      using assms that False cur_starts[of D _ w s c l "\<lambda>b. b = CHR ''.''"] by (cases c) (auto simp: read_upto_def)
    then show ?thesis
      by (simp add: real_lexeme_def)
  qed
  then show ?thesis
    using False assms lex_scan_exponent_lexed[of D d w s c l fin] lex_scan_exponent_Bad[where x = "real_lexeme fin w s"]
    by (cases "c = Bad") (auto simp: lex_scan_real_def read_upto_def)
next
  case True
  then have cur: "cur D (d, TOKEN_INVALID) w s (Byte (CHR ''.''), l)"
    using assms by (auto simp: read_upto_def)
  then obtain r where s: "s = CHR ''.'' # r" and r: "view D (lex_stream l) r" "lex_saved_text l = w @ [CHR ''.'']"
      "(d, TOKEN_INVALID) = (lex_depth l, lex_token l)"
    using cur_Byte by metis
  show ?thesis
    unfolding lex_scan_real_def if_P[OF True]
  proof (rule returns_bind[OF lex_get_from[OF r(1)]], clarify)
    fix c1 l1
    assume c1: "got_from D r (c1, lex_stream l1)" and l1: "l1 = l\<lparr>lex_stream := lex_stream l1\<rparr>"
    have frame: "lex_depth l1 = d" "lex_token l1 = TOKEN_INVALID" "lex_saved_text l1 = w @ [CHR ''.'']"
      using r by (subst l1, simp)+
    show "returns (if \<not> is_byte isdigit c1 then lex_unget l1 c1
        else get_save_while isdigit (lex_save c1 l1) \<bind> (\<lambda>(c, l). lex_scan_exponent fin c l)) (lexed D d (real_lexeme fin w s))"
    proof (cases "is_byte isdigit c1")
      case False
      have "real_lexeme fin w s = no_lexeme" if "c1 \<noteq> Bad"
        using got_starts[OF c1 that, of isdigit] False s by (simp add: real_lexeme_def)
      then show ?thesis
        using False frame stream_unget_got[OF c1]
        by (cases "c1 = Bad") (auto simp: lex_unget_def returns_def lexed_def no_lexeme_def split: prod.split)
    next
      case True
      then obtain b r' where b: "c1 = Byte b" "isdigit b" "r = b # r'"
        using is_byteD[OF True] c1 by (auto simp: got_from_def)
      then have "cur D (d, TOKEN_INVALID) (w @ ''.'') r (c1, lex_save c1 l1)"
        using frame c1 by (simp add: cur_def lex_save_def)
      note digits = digits_cur[OF this True]
      have eq: "real_lexeme fin w s = exponent_lexeme fin (w @ CHR ''.'' # takeWhile isdigit r) (dropWhile isdigit r)"
        using s b by (simp add: real_lexeme_def)
      show ?thesis
        using True
      proof (simp, intro returns_bind[OF digits], clarify)
        fix c2 l2 ds
        assume "fst (c2, l2) \<noteq> Bad \<longrightarrow> ds = takeWhile isdigit r"
          "cur D (d, TOKEN_INVALID) ((w @ ''.'') @ ds) (dropWhile isdigit r) (c2, l2)"
        then have "read_upto D d (w @ CHR ''.'' # takeWhile isdigit r, dropWhile isdigit r) (c2, l2)"
          by (auto simp: read_upto_def)
        then show "returns (lex_scan_exponent fin c2 l2) (lexed D d (real_lexeme fin w s))"
          unfolding eq by (rule lex_scan_exponent_lexed)
      qed
    qed
  qed
qed

lemma strtoll_all:
  assumes "with_digits m w" "m = [] \<or> m = ''-''"
  shows "snd (strtoll w) = []"
proof -
  obtain ds where ds: "w = m @ ds" "ds \<noteq> []" "list_all isdigit ds"
    using assms(1) by (auto simp: with_digits_def)
  then have "takeWhile isdigit ds = ds" "dropWhile isdigit ds = []"
    by (auto simp: list_all_iff)
  moreover have "hd ds \<noteq> CHR ''-''"
    using ds(2, 3) by (cases ds) (auto simp: isdigit_def)
  ultimately show ?thesis
    using assms(2) ds(1, 2) by (auto simp: strtoll_def)
qed

lemma lex_scan_integer_lexed:
  assumes "given D (d, TOKEN_INVALID) w (unread s) l" "snd (strtoll w) = []"
  shows "returns (lex_scan_integer l) (lexed D d (integer_lexeme w s))"
  using assms by (auto simp: lex_scan_integer_def given_def integer_lexeme_def lexed_def no_lexeme_def split: prod.split)

lemma number_rest_lexed:
  assumes cur: "cur D (d, TOKEN_INVALID) w s (c, l)" and "snd (strtoll w) = []"
    and x: "c \<noteq> Bad \<Longrightarrow> x = number_rest fl fin w s"
  shows "returns (if \<not> JSON_DECODE_INT_AS_REAL fl \<and> \<not> is_byte (\<lambda>b. b = CHR ''.'' \<or> b = CHR ''E'' \<or> b = CHR ''e'') c
      then lex_unget_unsave l c \<bind> lex_scan_integer else lex_scan_real fin c l)
    (lexed D d x)"
proof (cases "c = Bad")
  case True
  then show ?thesis
    using cur assms(2) cur_Bad_D[of D d TOKEN_INVALID w s l] lex_scan_exponent_Bad[of D d w s l fin x]
    by (auto simp: unget_unsave_Bad lex_scan_integer_def lex_scan_real_def split: prod.split intro!: lexed_broken)
next
  case False
  have "returns (lex_unget_unsave l c \<bind> lex_scan_integer) (lexed D d (integer_lexeme w s))"
    by (rule returns_bind[OF unget_unsave_given[OF cur]]) (rule lex_scan_integer_lexed[OF _ assms(2)])
  moreover have "returns (lex_scan_real fin c l) (lexed D d (real_lexeme fin w s))"
    using cur by (intro lex_scan_real_lexed) (auto simp: read_upto_def)
  ultimately show ?thesis
    using x[OF False] cur_starts[OF cur False, of "\<lambda>b. b = CHR ''.'' \<or> b = CHR ''E'' \<or> b = CHR ''e''"]
    by (simp add: number_rest_def)
qed

lemma lex_scan_number_lexed:
  assumes "cur D (d, t) [] s (c, l)" "c \<noteq> Bad"
  shows "returns (lex_scan_number fl fin c l) (lexed D d (number_lexeme fl fin s))"
proof -
  let ?y = "take_if (\<lambda>b. b = CHR ''-'') ([], s)"
  have "read_upto D d ([], s) (c, l\<lparr>lex_token := TOKEN_INVALID\<rparr>)"
    using assms by (auto simp: read_upto_def cur_def)
  note 1 = get_save_if_upto[OF this, of "\<lambda>b. b = CHR ''-''"]
  have m: "fst ?y = [] \<or> fst ?y = ''-''"
    by (cases s) (auto simp: take_if_def)
  show ?thesis
    unfolding lex_scan_number_def
  proof (rule returns_bind[OF 1], clarify)
    fix c1 l1
    assume "read_upto D d ?y (c1, l1)"
    then have "returns (scan_int_digits c1 l1) (reads D d (with_digits (fst ?y)) (number_rest fl fin) (number_lexeme fl fin s))"
      using scan_int_digits_reads[of D d "fst ?y" "snd ?y"] by (simp add: number_lexeme_def split_beta)
    then show "returns (scan_int_digits c1 l1 \<bind> (\<lambda>(ok, c, l). if \<not> ok then lex_unget_unsave l c
        else if \<not> JSON_DECODE_INT_AS_REAL fl \<and> \<not> is_byte (\<lambda>b. b = CHR ''.'' \<or> b = CHR ''E'' \<or> b = CHR ''e'') c
          then lex_unget_unsave l c \<bind> lex_scan_integer else lex_scan_real fin c l)) (lexed D d (number_lexeme fl fin s))"
    proof (rule returns_bind, clarify)
      fix ok c2 l2
      assume "reads D d (with_digits (fst ?y)) (number_rest fl fin) (number_lexeme fl fin s) (ok, c2, l2)"
      then obtain w s' where cur: "cur D (d, TOKEN_INVALID) w s' (c2, l2)" and w: "ok \<Longrightarrow> snd (strtoll w) = []"
        and x: "c2 \<noteq> Bad \<Longrightarrow> number_lexeme fl fin s = (if ok then number_rest fl fin w s' else no_lexeme)"
        using strtoll_all m by (auto simp: reads_def)
      show "returns (if \<not> ok then lex_unget_unsave l2 c2
        else if \<not> JSON_DECODE_INT_AS_REAL fl \<and> \<not> is_byte (\<lambda>b. b = CHR ''.'' \<or> b = CHR ''E'' \<or> b = CHR ''e'') c2
          then lex_unget_unsave l2 c2 \<bind> lex_scan_integer else lex_scan_real fin c2 l2) (lexed D d (number_lexeme fl fin s))"
      proof (cases ok)
        case True
        show ?thesis
          unfolding if_not_P[OF not_not[THEN iffD2, OF True]] using True x by (intro number_rest_lexed[OF cur w]) auto
      next
        case False
        then show ?thesis
          using x unget_invalid[OF cur] cur
          by (cases "c2 = Bad") (auto simp: unget_unsave_Bad dest!: cur_Bad_D intro!: lexed_broken)
      qed
    qed
  qed
qed

section \<open>Strings\<close>

text \<open>The text of a string up to its closing quote, and what is behind the quote.\<close>

definition quad :: "string \<Rightarrow> bool" where
  "quad s \<longleftrightarrow> 4 \<le> length s \<and> list_all l_isxdigit (take 4 s)"

function raw_split :: "string \<Rightarrow> (string \<times> string) option" where
  "raw_split [] = None"
| "raw_split (b # r) =
     (if b = CHR 0x22 then Some ([], r)
      else if code b \<le> (0x1F :: nat) then None
      else if b = CHR 0x5C then
        if starts (\<lambda>e. e = CHR ''u'') r then
          if quad (tl r) then map_option (apfst ((@) (b # take 5 r))) (raw_split (drop 5 r)) else None
        else if starts is_escape r then map_option (apfst ((@) (b # take 1 r))) (raw_split (drop 1 r))
        else None
      else map_option (apfst ((@) [b])) (raw_split r))"
  by pat_completeness auto
termination
  by (relation "measure length") auto

declare raw_split.simps(2) [simp del]

definition hexed :: "string \<Rightarrow> nat \<times> token \<Rightarrow> nat \<Rightarrow> string \<Rightarrow> string \<Rightarrow> bool \<times> got \<times> lex \<Rightarrow> bool" where
  "hexed D f n w s = (\<lambda>(ok, c, l).
     if ok then n \<le> length s \<and> list_all l_isxdigit (take n s) \<and> cur D f (w @ take n s) (drop n s) (c, l)
     else (lex_depth l, lex_token l) = f \<and> (malformed D (lex_stream l) \<or> \<not> (n \<le> length s \<and> list_all l_isxdigit (take n s))))"

lemma hexed_Suc: "l_isxdigit b \<Longrightarrow> hexed D f n (w @ [b]) r x \<Longrightarrow> hexed D f (Suc n) w (b # r) x"
  by (cases x) (auto simp: hexed_def)

lemma scan_hex_hexed: "cur D f w s (c, l) \<Longrightarrow> returns (scan_hex n c l) (hexed D f n w s)"
proof (induction n arbitrary: w s c l)
  case (Suc n)
  show ?case
  proof (cases "is_byte l_isxdigit c")
    case False
    then show ?thesis
      using Suc.prems by (cases s) (auto simp: cur_def got_from_def hexed_def split: got.splits)
  next
    case True
    then obtain b r where b: "c = Byte b" "l_isxdigit b" "s = b # r"
      using Suc.prems is_byteD cur_Byte by metis
    then have "returns (lex_get_save l) (cur D f (w @ [b]) r)"
      using Suc.prems get_save_cur'[of D "fst f" "snd f" w s b l] by simp
    then have "returns (lex_get_save l \<bind> (\<lambda>(c, l). scan_hex n c l)) (hexed D f n (w @ [b]) r)"
      by (rule returns_bind) (use Suc.IH in auto)
    then show ?thesis
      using True b by (auto elim: returns_mono dest: hexed_Suc)
  qed
qed (simp add: cur_def hexed_def)

text \<open>The result of the first pass over a string that has been read up to \<open>s\<close>.\<close>

definition scanned :: "string \<Rightarrow> nat \<times> token \<Rightarrow> string \<Rightarrow> string \<Rightarrow> bool \<times> lex \<Rightarrow> bool" where
  "scanned D f w s = (\<lambda>(ok, l). (lex_depth l, lex_token l) = f \<and>
     (if ok then \<exists>raw r. raw_split s = Some (raw, r) \<and> lex_saved_text l = w @ raw @ [CHR 0x22] \<and> view D (lex_stream l) r
      else malformed D (lex_stream l) \<or> raw_split s = None))"

lemma scanned_prefix:
  assumes "scanned D f (w @ u) r x" "raw_split s = map_option (apfst ((@) u)) (raw_split r)"
  shows "scanned D f w s x"
  using assms by (cases x) (auto simp: scanned_def split: if_splits)

text \<open>
  The branches of the loop that go on reading; \<open>rec\<close> is the rest of the loop, whose
  results are scanned from a shorter string.
\<close>

definition scans :: "string \<Rightarrow> nat \<times> token \<Rightarrow> string \<Rightarrow> string \<Rightarrow> bool" where
  "scans D f w s \<longleftrightarrow> (\<forall>t u c l. length t < length s \<longrightarrow> cur D f (w @ u) t (c, l) \<longrightarrow>
     raw_split s = map_option (apfst ((@) u)) (raw_split t) \<longrightarrow> returns (scan_string c l) (scanned D f w s))"

lemma scansD:
  "scans D f w s \<Longrightarrow> cur D f (w @ u) t (c, l) \<Longrightarrow> raw_split s = map_option (apfst ((@) u)) (raw_split t) \<Longrightarrow>
    length t < length s \<Longrightarrow> returns (scan_string c l) (scanned D f w s)"
  unfolding scans_def by blast

lemma scan_hex_escape:
  assumes s: "s = CHR 0x5C # CHR ''u'' # q" and "scans D f w s"
    and "hexed D f 4 (w @ [CHR 0x5C, CHR ''u'']) q (ok, c, l)"
  shows "returns (if ok then scan_string c l else Some (False, l)) (scanned D f w s)"
proof (cases ok)
  case True
  have "raw_split s = map_option (apfst ((@) (CHR 0x5C # CHR ''u'' # take 4 q))) (raw_split (drop 4 q))"
    using True assms(3) s by (simp add: raw_split.simps(2) hexed_def quad_def)
  then show ?thesis
    using True assms scansD[of D f w s "CHR 0x5C # CHR ''u'' # take 4 q" "drop 4 q" c l] by (simp add: hexed_def)
next
  case False
  then show ?thesis
    using assms by (auto simp: raw_split.simps(2) hexed_def quad_def scanned_def)
qed

lemma scan_escape:
  assumes s: "s = CHR 0x5C # r" and rec: "scans D f w s" and c: "cur D f (w @ [CHR 0x5C]) r (c, l)"
  shows "returns (if c = Byte (CHR ''u'') then lex_get_save l \<bind> (\<lambda>(c, l). scan_hex 4 c l \<bind>
      (\<lambda>(ok, c, l). if ok then scan_string c l else Some (False, l)))
    else if is_byte is_escape c then lex_get_save l \<bind> (\<lambda>(c, l). scan_string c l) else Some (False, l)) (scanned D f w s)"
proof (cases c)
  case (Byte e)
  then obtain q where r: "r = e # q"
    using c cur_Byte by metis
  have after: "returns (lex_get_save l) (cur D f (w @ [CHR 0x5C, e]) q)"
    using get_save_cur'[of D "fst f" "snd f" "w @ [CHR 0x5C]" r e l] c Byte r by simp
  consider (hex) "e = CHR ''u''" | (simple) "e \<noteq> CHR ''u''" "is_escape e" | (bad) "e \<noteq> CHR ''u''" "\<not> is_escape e"
    by blast
  then show ?thesis
  proof cases
    case simple
    then have "raw_split s = map_option (apfst ((@) [CHR 0x5C, e])) (raw_split q)"
      using s r by (simp add: raw_split.simps(2))
    then have "returns (lex_get_save l \<bind> (\<lambda>(c, l). scan_string c l)) (scanned D f w s)"
      by (intro returns_bind[OF after]) (use scansD[OF rec, of "[CHR 0x5C, e]" q] s r in auto)
    then show ?thesis
      using simple Byte by simp
  next
    case bad
    then show ?thesis
      using c Byte r s by (simp add: raw_split.simps(2) scanned_def cur_def)
  next
    case hex
    have "returns (lex_get_save l \<bind> (\<lambda>(c, l). scan_hex 4 c l \<bind>
        (\<lambda>(ok, c, l). if ok then scan_string c l else Some (False, l)))) (scanned D f w s)"
      using s r rec hex by (intro returns_bind[OF after]) (auto intro!: returns_bind[OF scan_hex_hexed] scan_hex_escape)
    then show ?thesis
      using hex Byte by simp
  qed
qed (use c s in \<open>auto simp: scanned_def cur_def got_from_def raw_split.simps(2)\<close>)

lemma scan_string_scanned: "cur D f w s (c, l) \<Longrightarrow> returns (scan_string c l) (scanned D f w s)"
proof (induction s arbitrary: w c l rule: length_induct)
  case (1 s)
  show ?case
  proof (cases c)
    case (Byte b)
    then obtain r where s: "s = b # r" and frame: "lex_saved_text l = w @ [b]" "f = (lex_depth l, lex_token l)" "view D (lex_stream l) r"
      using "1.prems" cur_Byte by metis
    have cur: "cur D f w (b # r) (Byte b, l)"
      using "1.prems" Byte s by simp
    have after: "returns (lex_get_save l) (cur D f (w @ [b]) r)"
      using get_save_cur'[of D "fst f" "snd f" w s b l] "1.prems" Byte s by simp
    have rec: "scans D f w s"
      unfolding scans_def using "1.IH" by (blast intro: returns_mono scanned_prefix)
    consider (quote) "b = CHR 0x22" | (control) "b \<noteq> CHR 0x22" "code b \<le> (0x1F :: nat)" | (escape) "b = CHR 0x5C"
      | (plain) "b \<noteq> CHR 0x22" "\<not> code b \<le> (0x1F :: nat)" "b \<noteq> CHR 0x5C"
      by blast
    then show ?thesis
    proof cases
      case quote
      then show ?thesis
        using Byte s frame by (auto simp: scan_string.simps scanned_def raw_split.simps(2))
    next
      case control
      then show ?thesis
        using Byte s unget_unsave_given[OF cur]
        by (auto simp: scan_string.simps[of "Byte b" l] scanned_def raw_split.simps(2) given_def elim!: returns_bind)
    next
      case plain
      then have "raw_split s = map_option (apfst ((@) [b])) (raw_split r)"
        using s by (simp add: raw_split.simps(2))
      then have "returns (lex_get_save l \<bind> (\<lambda>(c, l). scan_string c l)) (scanned D f w s)"
        by (intro returns_bind[OF after]) (use scansD[OF rec, of "[b]" r] s in auto)
      then show ?thesis
        using plain Byte by (simp add: scan_string.simps[of "Byte b" l])
    next
      case escape
      then show ?thesis
        using Byte after s scan_escape[of s r D f w, OF _ rec]
        by (auto simp: scan_string.simps[of "Byte (CHR 0x5C)" l] intro!: returns_bind[where P = "cur D f (w @ [CHR 0x5C]) r"])
    qed
  qed (use "1.prems" in \<open>auto simp: scan_string.simps scanned_def cur_def got_from_def view_def\<close>)
qed

end
