(* ===== verification/JSON_Grammar.thy ===== *)
theory JSON_Grammar
  imports JSON UTF8 CString
begin

text \<open>
  The grammar of RFC 8259, with the tree a text stands for.  Where the RFC leaves the
  choice to the implementation, the grammar makes that of Jansson: integers have 64
  bits, a text in the range of a double (the parameter \<open>fin\<close>) is a real, the last of
  equal keys counts, no string has a terminator in it, and the nesting is bounded.
\<close>

section \<open>Strings\<close>

definition ws :: "string \<Rightarrow> bool" where
  "ws s \<longleftrightarrow> set s \<subseteq> {CHR 0x20, CHR 0x09, CHR 0x0A, CHR 0x0D}"

definition hex_digit :: "char \<Rightarrow> nat option" where
  "hex_digit c =
     (if code (CHR ''0'') \<le> code c \<and> code c \<le> code (CHR ''9'') then Some (code c - code (CHR ''0''))
      else if code (CHR ''a'') \<le> code c \<and> code c \<le> code (CHR ''f'') then Some (10 + (code c - code (CHR ''a'')))
      else if code (CHR ''A'') \<le> code c \<and> code c \<le> code (CHR ''F'') then Some (10 + (code c - code (CHR ''A'')))
      else None)"

text \<open>\<open>hex4 h n\<close>: the four digits \<open>h\<close> are the number \<open>n\<close>.\<close>

definition hex4 :: "string \<Rightarrow> nat \<Rightarrow> bool" where
  "hex4 h n \<longleftrightarrow> (\<exists>a b c d. map hex_digit h = map Some [a, b, c, d] \<and> n = ((a * 16 + b) * 16 + c) * 16 + d)"

definition short_escapes :: "(char \<times> char) list" where
  "short_escapes =
     [(CHR 0x22, CHR 0x22), (CHR 0x5C, CHR 0x5C), (CHR ''/'', CHR ''/''), (CHR ''b'', CHR 0x08),
      (CHR ''f'', CHR 0x0C), (CHR ''n'', CHR 0x0A), (CHR ''r'', CHR 0x0D), (CHR ''t'', CHR 0x09)]"

text \<open>The text between the quotes, and the string it stands for.\<close>

inductive string_text :: "string \<Rightarrow> string \<Rightarrow> bool" where
  Nil: "string_text [] []"
| Plain: "string_text v x \<Longrightarrow> 0x20 \<le> code b \<Longrightarrow> b \<noteq> CHR 0x22 \<Longrightarrow> b \<noteq> CHR 0x5C \<Longrightarrow> string_text (b # v) (b # x)"
| Short: "string_text v x \<Longrightarrow> (e, b) \<in> set short_escapes \<Longrightarrow> string_text (b # v) (CHR 0x5C # e # x)"
| Scalar: "string_text v x \<Longrightarrow> hex4 h n \<Longrightarrow> n < 0xD800 \<or> 0xE000 \<le> n \<Longrightarrow>
    string_text (utf8 n @ v) (CHR 0x5C # CHR ''u'' # h @ x)"
| Pair: "string_text v x \<Longrightarrow> hex4 h m \<Longrightarrow> 0xD800 \<le> m \<Longrightarrow> m < 0xDC00 \<Longrightarrow> hex4 h' n \<Longrightarrow> 0xDC00 \<le> n \<Longrightarrow> n < 0xE000 \<Longrightarrow>
    string_text (utf8 (0x10000 + (m - 0xD800) * 0x400 + (n - 0xDC00)) @ v)
      (CHR 0x5C # CHR ''u'' # h @ CHR 0x5C # CHR ''u'' # h' @ x)"

section \<open>Numbers\<close>

definition digits :: "string \<Rightarrow> bool" where
  "digits s \<longleftrightarrow> s \<noteq> [] \<and> list_all isdigit s"

definition nat_text :: "string \<Rightarrow> bool" where
  "nat_text s \<longleftrightarrow> digits s \<and> (hd s = CHR ''0'' \<longrightarrow> s = ''0'')"

definition int_text :: "int \<Rightarrow> string \<Rightarrow> bool" where
  "int_text n s \<longleftrightarrow> nat_text s \<and> n = digits_val 0 s \<or> (\<exists>t. s = CHR ''-'' # t \<and> nat_text t \<and> n = - digits_val 0 t)"

definition frac_text :: "string \<Rightarrow> bool" where
  "frac_text s \<longleftrightarrow> (\<exists>t. s = CHR ''.'' # t \<and> digits t)"

definition exp_text :: "string \<Rightarrow> bool" where
  "exp_text s \<longleftrightarrow> (\<exists>e sign t. s = e # sign @ t \<and> e \<in> {CHR ''e'', CHR ''E''} \<and> sign \<in> {'''', ''+'', ''-''} \<and> digits t)"

definition real_text :: "string \<Rightarrow> bool" where
  "real_text s \<longleftrightarrow> (\<exists>n i f e. s = i @ f @ e \<and> int_text n i \<and> (frac_text f \<or> f = []) \<and> (exp_text e \<or> e = []) \<and> f @ e \<noteq> [])"

section \<open>Values\<close>

text \<open>
  \<open>value_text fin d t s\<close>: the text \<open>s\<close> is the value \<open>t\<close>, which nests at most \<open>d\<close> deep.
  The members and the items stand between their brackets with the white space around them;
  the members have read \<open>o\<close> before.
\<close>

inductive value_text :: "(string \<Rightarrow> bool) \<Rightarrow> nat \<Rightarrow> json \<Rightarrow> string \<Rightarrow> bool"
  and members_text :: "(string \<Rightarrow> bool) \<Rightarrow> nat \<Rightarrow> (string \<times> json) list \<Rightarrow> (string \<times> json) list \<Rightarrow> string \<Rightarrow> bool"
  and items_text :: "(string \<Rightarrow> bool) \<Rightarrow> nat \<Rightarrow> json list \<Rightarrow> string \<Rightarrow> bool"
  for fin :: "string \<Rightarrow> bool"
where
  Null: "value_text fin (Suc d) JNull ''null''"
| TrueV: "value_text fin (Suc d) (JBool True) ''true''"
| FalseV: "value_text fin (Suc d) (JBool False) ''false''"
| StringV: "string_text v x \<Longrightarrow> nul \<notin> set v \<Longrightarrow> value_text fin (Suc d) (JString v) (CHR 0x22 # x @ [CHR 0x22])"
| Integer: "int_text n x \<Longrightarrow> - (2 ^ 63) \<le> n \<Longrightarrow> n < 2 ^ 63 \<Longrightarrow> value_text fin (Suc d) (JInteger n) x"
| Real: "real_text x \<Longrightarrow> fin x \<Longrightarrow> value_text fin (Suc d) (JReal x) x"
| EmptyObject: "ws w \<Longrightarrow> value_text fin (Suc d) (JObject []) (CHR ''{'' # w @ ''}'')"
| Object: "members_text fin d [] ms x \<Longrightarrow> value_text fin (Suc d) (JObject ms) (CHR ''{'' # x @ ''}'')"
| EmptyArray: "ws w \<Longrightarrow> value_text fin (Suc d) (JArray []) (CHR ''['' # w @ '']'')"
| Array: "items_text fin d ts x \<Longrightarrow> value_text fin (Suc d) (JArray ts) (CHR ''['' # x @ '']'')"
| Member: "ws w1 \<Longrightarrow> string_text k x \<Longrightarrow> nul \<notin> set k \<Longrightarrow> ws w2 \<Longrightarrow> ws w3 \<Longrightarrow> value_text fin d t y \<Longrightarrow> ws w4 \<Longrightarrow>
    members_text fin d ms (object_set ms k t) (w1 @ CHR 0x22 # x @ CHR 0x22 # w2 @ CHR '':'' # w3 @ y @ w4)"
| Members: "ws w1 \<Longrightarrow> string_text k x \<Longrightarrow> nul \<notin> set k \<Longrightarrow> ws w2 \<Longrightarrow> ws w3 \<Longrightarrow> value_text fin d t y \<Longrightarrow> ws w4 \<Longrightarrow>
    members_text fin d (object_set ms k t) ms' z \<Longrightarrow>
    members_text fin d ms ms' (w1 @ CHR 0x22 # x @ CHR 0x22 # w2 @ CHR '':'' # w3 @ y @ w4 @ CHR '','' # z)"
| Item: "ws w1 \<Longrightarrow> value_text fin d t y \<Longrightarrow> ws w2 \<Longrightarrow> items_text fin d [t] (w1 @ y @ w2)"
| Items: "ws w1 \<Longrightarrow> value_text fin d t y \<Longrightarrow> ws w2 \<Longrightarrow> items_text fin d ts z \<Longrightarrow>
    items_text fin d (t # ts) (w1 @ y @ w2 @ CHR '','' # z)"

text \<open>A text with a value in white space, which is an object or an array.\<close>

definition document_text :: "(string \<Rightarrow> bool) \<Rightarrow> nat \<Rightarrow> json \<Rightarrow> string \<Rightarrow> bool" where
  "document_text fin d t s \<longleftrightarrow> (case t of JObject _ \<Rightarrow> True | JArray _ \<Rightarrow> True | _ \<Rightarrow> False) \<and>
     (\<exists>w1 x w2. s = w1 @ x @ w2 \<and> ws w1 \<and> value_text fin d t x \<and> ws w2)"

end
