(* ===== verification/JSON_Text.thy ===== *)
theory JSON_Text
  imports JSON_Lexer JSON_Grammar
begin

text \<open>
  The tokens of the analyzer and the texts of the grammar: \<open>lexeme\<close> is the token at the
  front of a string and what is left behind it; \<open>lex_scan\<close> returns it; its text is the
  one the grammar gives to such a value.
\<close>

section \<open>The text of a string\<close>

text \<open>What the first pass lets through.\<close>

inductive raw_text :: "string \<Rightarrow> bool" where
  Nil: "raw_text []"
| Plain: "raw_text x \<Longrightarrow> b \<noteq> CHR 0x22 \<Longrightarrow> b \<noteq> CHR 0x5C \<Longrightarrow> 0x20 \<le> code b \<Longrightarrow> raw_text (b # x)"
| Short: "raw_text x \<Longrightarrow> is_escape e \<Longrightarrow> raw_text (CHR 0x5C # e # x)"
| Hex: "raw_text x \<Longrightarrow> length h = 4 \<Longrightarrow> list_all l_isxdigit h \<Longrightarrow> raw_text (CHR 0x5C # CHR ''u'' # h @ x)"

lemma quadE:
  assumes "quad s"
  obtains h t where "s = h @ t" "length h = 4" "list_all l_isxdigit h"
  using assms that[of "take 4 s" "drop 4 s"] by (auto simp: quad_def)

lemma quad_app: "length h = 4 \<Longrightarrow> quad (h @ t) = list_all l_isxdigit h"
  by (simp add: quad_def)

lemma starts_Cons: "starts P s \<Longrightarrow> \<exists>b r. s = b # r \<and> P b"
  by (cases s) auto

lemma raw_split_Some: "raw_split s = Some (x, r) \<Longrightarrow> raw_text x \<and> s = x @ CHR 0x22 # r"
proof (induction s arbitrary: x rule: raw_split.induct)
  case (2 b s)
  show ?case
  proof (cases "b = CHR 0x22 \<or> b \<noteq> CHR 0x5C")
    case True
    then show ?thesis
      using 2 by (auto simp: raw_split.simps(2) split: if_splits intro: raw_text.intros)
  next
    case False
    show ?thesis
    proof (cases "starts (\<lambda>e. e = CHR ''u'') s")
      case True
      then have q: "quad (tl s)" and "\<exists>y. raw_split (drop 5 s) = Some (y, r) \<and> x = b # take 5 s @ y"
        using "2.prems" False by (auto simp: raw_split.simps(2) split: if_splits)
      then obtain y where y: "raw_split (drop 5 s) = Some (y, r)" "x = b # take 5 s @ y"
        by blast
      obtain h t where h: "tl s = h @ t" "length h = 4" "list_all l_isxdigit h"
        using q quadE by blast
      have s: "s = CHR ''u'' # h @ t"
        using starts_Cons[OF True] h(1) by auto
      have "raw_text y \<and> drop 5 s = y @ CHR 0x22 # r"
        using False True q y(1) by (intro "2.IH"(1)) auto
      then show ?thesis
        using y(2) s h False raw_text.Hex[of y h] by simp
    next
      case nu: False
      then have e: "starts is_escape s" and "\<exists>y. raw_split (drop 1 s) = Some (y, r) \<and> x = b # take 1 s @ y"
        using "2.prems" False by (auto simp: raw_split.simps(2) split: if_splits)
      then obtain y where y: "raw_split (drop 1 s) = Some (y, r)" "x = b # take 1 s @ y"
        by blast
      then have "raw_text y \<and> drop 1 s = y @ CHR 0x22 # r"
        using False nu e by (intro "2.IH"(2)) auto
      then show ?thesis
        using y(2) starts_Cons[OF e] False by (auto intro: raw_text.Short)
    qed
  qed
qed simp

lemma raw_split_app: "raw_text x \<Longrightarrow> raw_split (x @ CHR 0x22 # r) = Some (x, r)"
proof (induction rule: raw_text.induct)
  case (Short x e)
  then have "e \<noteq> CHR ''u''"
    by (auto simp: is_escape_def)
  then show ?case
    using Short by (simp add: raw_split.simps(2))
qed (auto simp: raw_split.simps(2) quad_app)

section \<open>Hexadecimal digits\<close>

lemma hex_digit_range: "hex_digit c = Some a \<Longrightarrow> a < 16 \<and> l_isxdigit c"
  by (auto simp: hex_digit_def l_isxdigit_def isdigit_def split: if_splits)

lemma hex_digit_total: "l_isxdigit c \<Longrightarrow> \<exists>a. hex_digit c = Some a"
  by (auto simp: hex_digit_def l_isxdigit_def isdigit_def)

lemma hex_value_digit: "hex_digit c = Some a \<Longrightarrow> hex_value (int v) (c # cs) = hex_value (int (v * 16 + a)) cs"
  by (auto simp: hex_digit_def islower_def isupper_def isdigit_def split: if_splits)

lemma hex4E:
  assumes "hex4 h n"
  obtains c1 c2 c3 c4 a1 a2 a3 a4 where "h = [c1, c2, c3, c4]" "n = ((a1 * 16 + a2) * 16 + a3) * 16 + a4"
    "hex_digit c1 = Some a1" "hex_digit c2 = Some a2" "hex_digit c3 = Some a3" "hex_digit c4 = Some a4"
  using assms by (auto simp: hex4_def map_eq_Cons_conv)

lemma hex4_decode:
  assumes "hex4 h n"
  shows "length h = 4" "list_all l_isxdigit h" "n < 0x10000" "decode_unicode_escape (h @ t) = int n"
proof -
  obtain c1 c2 c3 c4 a1 a2 a3 a4 where h: "h = [c1, c2, c3, c4]" and n: "n = ((a1 * 16 + a2) * 16 + a3) * 16 + a4"
    and d: "hex_digit c1 = Some a1" "hex_digit c2 = Some a2" "hex_digit c3 = Some a3" "hex_digit c4 = Some a4"
    using hex4E[OF assms] .
  note r = d[THEN hex_digit_range]
  show "length h = 4" "list_all l_isxdigit h" "n < 0x10000"
    using h n r by auto
  show "decode_unicode_escape (h @ t) = int n"
    using h n hex_value_digit[OF d(1), of 0] by (simp add: decode_unicode_escape_def hex_value_digit[OF d(2)] hex_value_digit[OF d(3)]
      hex_value_digit[OF d(4)] del: hex_value.simps(2) of_nat_add of_nat_mult)
qed

lemma hex4_total:
  assumes "length h = 4" "list_all l_isxdigit h"
  obtains n where "hex4 h n"
proof -
  obtain c1 c2 c3 c4 where h: "h = [c1, c2, c3, c4]"
    using assms(1) by (auto simp: numeral_eq_Suc length_Suc_conv)
  moreover obtain a1 a2 a3 a4 where "hex_digit c1 = Some a1" "hex_digit c2 = Some a2" "hex_digit c3 = Some a3" "hex_digit c4 = Some a4"
    using assms(2) h hex_digit_total by (auto dest!: hex_digit_total)
  ultimately show ?thesis
    using that unfolding hex4_def by fastforce
qed

section \<open>The second pass\<close>

lemma escape_byte_short: "escape_byte e = Some b \<longleftrightarrow> (e, b) \<in> set short_escapes"
  by (auto simp: escape_byte_def short_escapes_def)

lemma escape_byte_total: "is_escape e \<Longrightarrow> \<exists>b. escape_byte e = Some b"
  by (auto simp: is_escape_def escape_byte_def)

lemma append_single: "(@) [c] = (#) c"
  by (simp add: fun_eq_iff)

lemma unescape_plain: "c \<noteq> CHR 0x22 \<Longrightarrow> c \<noteq> CHR 0x5C \<Longrightarrow> unescape (c # p) = map_option (map_option ((@) [c])) (unescape p)"
  by (simp add: unescape.simps(2) append_single)

lemma unescape_short: "escape_byte e = Some b \<Longrightarrow> unescape (CHR 0x5C # e # p) = map_option (map_option ((@) [b])) (unescape p)"
  unfolding append_single by (auto simp: unescape.simps(2) escape_byte_def split: if_splits)

text \<open>One escape: a scalar value, or the first half of a pair.\<close>

lemma unescape_hex:
  assumes "hex4 h n"
  shows "unescape (CHR 0x5C # CHR ''u'' # h @ p) =
    (if 0xD800 \<le> n \<and> n \<le> 0xDBFF then
       if take 2 p = [CHR 0x5C, CHR ''u''] then
         if decode_unicode_escape (drop 2 p) < 0 then Some None
         else if 0xDC00 \<le> decode_unicode_escape (drop 2 p) \<and> decode_unicode_escape (drop 2 p) \<le> 0xDFFF
         then utf8_put (push_bit 10 (int n - 0xD800) + (decode_unicode_escape (drop 2 p) - 0xDC00) + 0x10000) (unescape (drop 6 p))
         else Some None
       else Some None
     else if 0xDC00 \<le> n \<and> n \<le> 0xDFFF then Some None
     else utf8_put (int n) (unescape p))"
  using hex4_decode[OF assms] by (simp add: unescape.simps(2) Let_def)

lemma unescape_scalar:
  assumes "hex4 h n" "n < 0xD800 \<or> 0xE000 \<le> n"
  shows "unescape (CHR 0x5C # CHR ''u'' # h @ p) = map_option (map_option ((@) (utf8 n))) (unescape p)"
  using assms hex4_decode(3)[OF assms(1)] utf8_encode_scalar[of n] by (auto simp: unescape_hex utf8_put_def)

lemma unescape_pair:
  assumes "hex4 h m" "0xD800 \<le> m" "m < 0xDC00" "hex4 h' n" "0xDC00 \<le> n" "n < 0xE000"
  shows "unescape (CHR 0x5C # CHR ''u'' # h @ CHR 0x5C # CHR ''u'' # h' @ p) =
    map_option (map_option ((@) (utf8 (0x10000 + (m - 0xD800) * 0x400 + (n - 0xDC00))))) (unescape p)"
proof -
  define k where "k = 0x10000 + (m - 0xD800) * 0x400 + (n - 0xDC00)"
  have "push_bit 10 (int m - 0xD800) + (int n - 0xDC00) + 0x10000 = int k"
    using assms by (simp add: k_def push_bit_eq_mult of_nat_diff)
  moreover have "k \<le> 0x10FFFF"
    using assms by (simp add: k_def)
  ultimately show ?thesis
    using assms utf8_encode_scalar[of k] unfolding k_def[symmetric]
    by (simp add: unescape_hex[OF assms(1)] hex4_decode[OF assms(4)] utf8_put_def)
qed

lemma unescape_string_text: "string_text v x \<Longrightarrow> unescape (x @ CHR 0x22 # p) = Some (Some v)"
proof (induction rule: string_text.induct)
  case Nil
  then show ?case
    by (simp add: unescape.simps(2))
qed (auto simp: unescape_plain unescape_short[OF escape_byte_short[THEN iffD2]] unescape_scalar unescape_pair)

lemma length_utf8_3: "n < 0x10000 \<Longrightarrow> length (utf8 n) \<le> 3"
  by (simp add: utf8_def)

lemma raw_text_u:
  assumes "raw_text x" "take 2 (x @ CHR 0x22 # p) = [CHR 0x5C, CHR ''u'']"
  obtains h y where "x = CHR 0x5C # CHR ''u'' # h @ y" "raw_text y" "length h = 4" "list_all l_isxdigit h"
  using assms by (cases rule: raw_text.cases) (auto simp: is_escape_def take_Cons')

definition unescapes :: "string \<Rightarrow> string \<Rightarrow> bool" where
  "unescapes p x \<longleftrightarrow> (\<exists>t. unescape (x @ CHR 0x22 # p) = Some t \<and> (\<forall>v. t = Some v \<longrightarrow> string_text v x \<and> length v \<le> length x))"

lemma unescapes_prefix:
  assumes "unescapes p x" "unescape (y @ CHR 0x22 # p) = map_option (map_option ((@) u)) (unescape (x @ CHR 0x22 # p))"
    and "\<And>v. string_text v x \<Longrightarrow> string_text (u @ v) y" "length u + length x \<le> length y"
  shows "unescapes p y"
  using assms unfolding unescapes_def by fastforce

lemma unescapes_none: "unescape (x @ CHR 0x22 # p) = Some None \<Longrightarrow> unescapes p x"
  by (simp add: unescapes_def)

lemma unescapes_hex:
  assumes h: "length h = 4" "list_all l_isxdigit h" and x: "raw_text x"
    and IH: "\<And>y. raw_text y \<Longrightarrow> length y \<le> length x \<Longrightarrow> unescapes p y"
  shows "unescapes p (CHR 0x5C # CHR ''u'' # h @ x)"
proof -
  obtain n where n: "hex4 h n"
    using h hex4_total by blast
  consider (scalar) "n < 0xD800 \<or> 0xE000 \<le> n" | (low) "0xDC00 \<le> n" "n \<le> 0xDFFF" | (high) "0xD800 \<le> n" "n \<le> 0xDBFF"
    by linarith
  then show ?thesis
  proof cases
    case scalar
    show ?thesis
    proof (rule unescapes_prefix[OF IH[OF x order_refl]])
      show "unescape ((CHR 0x5C # CHR ''u'' # h @ x) @ CHR 0x22 # p) = map_option (map_option ((@) (utf8 n))) (unescape (x @ CHR 0x22 # p))"
        by (simp add: unescape_scalar[OF n scalar])
    qed (use h length_utf8_3[OF hex4_decode(3)[OF n]] in \<open>simp_all add: string_text.Scalar[OF _ n scalar]\<close>)
  next
    case low
    then show ?thesis
      by (intro unescapes_none) (simp add: unescape_hex[OF n])
  next
    case high
    show ?thesis
    proof (cases "take 2 (x @ CHR 0x22 # p) = [CHR 0x5C, CHR ''u'']")
      case False
      then show ?thesis
        using high by (intro unescapes_none) (simp add: unescape_hex[OF n])
    next
      case True
      then obtain h' y where y: "x = CHR 0x5C # CHR ''u'' # h' @ y" "raw_text y" "length h' = 4" "list_all l_isxdigit h'"
        using raw_text_u x by blast
      obtain m where m: "hex4 h' m"
        using y hex4_total by blast
      show ?thesis
      proof (cases "0xDC00 \<le> m \<and> m < 0xE000")
        case True
        let ?k = "0x10000 + (n - 0xD800) * 0x400 + (m - 0xDC00)"
        show ?thesis
        proof (rule unescapes_prefix)
          show "unescapes p y"
            using IH[OF y(2)] y(1) by simp
          show "unescape ((CHR 0x5C # CHR ''u'' # h @ x) @ CHR 0x22 # p) = map_option (map_option ((@) (utf8 ?k))) (unescape (y @ CHR 0x22 # p))"
            using unescape_pair[OF n _ _ m] high True y(1) by simp
          show "string_text v y \<Longrightarrow> string_text (utf8 ?k @ v) (CHR 0x5C # CHR ''u'' # h @ x)" for v
            using string_text.Pair[of v y h n h' m] n m high True y(1) by simp
          show "length (utf8 ?k) + length y \<le> length (CHR 0x5C # CHR ''u'' # h @ x)"
            using y(1, 3) h(1) length_utf8(2)[of ?k] by simp
        qed
      next
        case False
        then show ?thesis
          using high y(1) by (intro unescapes_none) (auto simp: unescape_hex[OF n] hex4_decode(4)[OF m])
      qed
    qed
  qed
qed

lemma unescape_raw: "raw_text x \<Longrightarrow> unescapes p x"
proof (induction x rule: length_induct)
  case (1 x)
  from "1.prems" show ?case
  proof (cases rule: raw_text.cases)
    case Nil
    then show ?thesis
      by (auto simp: unescapes_def unescape.simps(2) intro: string_text.Nil)
  next
    case (Plain y b)
    then show ?thesis
      using "1.IH" by (intro unescapes_prefix[of p y x "[b]"]) (auto simp: unescape_plain intro: string_text.Plain)
  next
    case (Short y e)
    then obtain b where "escape_byte e = Some b"
      using escape_byte_total by blast
    then show ?thesis
      using "1.IH" Short
      by (intro unescapes_prefix[of p y x "[b]"]) (auto simp: unescape_short intro!: string_text.Short dest: escape_byte_short[THEN iffD1])
  next
    case (Hex y h)
    have "unescapes p z" if "raw_text z" "length z \<le> length y" for z
      using "1.IH" that Hex(1) by auto
    then show ?thesis
      unfolding Hex(1) using Hex by (intro unescapes_hex)
  qed
qed

lemma string_text_raw: "string_text v x \<Longrightarrow> raw_text x"
proof (induction rule: string_text.induct)
  case (Short v x e b)
  then show ?case
    by (intro raw_text.Short) (auto simp: short_escapes_def is_escape_def)
next
  case (Pair v x h m h' n)
  then show ?case
    using raw_text.Hex[OF raw_text.Hex[of x h'], of h] hex4_decode by simp
qed (auto intro: raw_text.intros simp: hex4_decode)

section \<open>Tokens\<close>

definition string_lexeme :: "string \<Rightarrow> token \<times> string" where
  "string_lexeme s = (case raw_split s of
     None \<Rightarrow> no_lexeme
   | Some (x, r) \<Rightarrow> (case unescape (x @ [CHR 0x22]) of
       Some (Some t) \<Rightarrow> (TOKEN_STRING t, r)
     | _ \<Rightarrow> no_lexeme))"

lemma string_lexeme_text: "string_text v x \<Longrightarrow> string_lexeme (x @ CHR 0x22 # r) = (TOKEN_STRING v, r)"
  by (simp add: string_lexeme_def raw_split_app string_text_raw unescape_string_text)

lemma string_lexeme_Some:
  assumes "string_lexeme s = (t, r)" "t \<noteq> TOKEN_INVALID"
  obtains v x where "t = TOKEN_STRING v" "s = x @ CHR 0x22 # r" "string_text v x"
proof -
  obtain x r' where x: "raw_split s = Some (x, r')"
    using assms by (cases "raw_split s") (auto simp: string_lexeme_def no_lexeme_def)
  then have "raw_text x" and s: "s = x @ CHR 0x22 # r'"
    using raw_split_Some by auto
  then obtain t' where t': "unescape (x @ [CHR 0x22]) = Some t'" "\<forall>v. t' = Some v \<longrightarrow> string_text v x"
    using unescape_raw[of x "[]"] by (auto simp: unescapes_def)
  show ?thesis
    using assms x t' s that by (cases t') (auto simp: string_lexeme_def no_lexeme_def)
qed

lemma lex_scan_string_lexed:
  assumes "view D (lex_stream l) s" "lex_depth l = d" "lex_saved_text l = [CHR 0x22]"
  shows "returns (lex_scan_string l) (lexed D d (string_lexeme s))"
proof -
  have get1: "returns (lex_get_save (l\<lparr>lex_token := TOKEN_INVALID\<rparr>)) (cur D (d, TOKEN_INVALID) [CHR 0x22] s)"
    using get_save_cur[of D "l\<lparr>lex_token := TOKEN_INVALID\<rparr>" s] assms by simp
  show ?thesis
    unfolding lex_scan_string_def
  proof (rule returns_bind[OF get1], clarify, rule returns_bind[OF scan_string_scanned], assumption, clarify)
    fix ok l'
    assume x: "scanned D (d, TOKEN_INVALID) [CHR 0x22] s (ok, l')"
    show "returns (if \<not> ok then Some l' else unescape (drop 1 (lex_saved_text l')) \<bind>
        (\<lambda>t. case t of None \<Rightarrow> Some l' | Some text \<Rightarrow> if length text > length (lex_saved_text l') then None
          else Some (l'\<lparr>lex_token := TOKEN_STRING text\<rparr>))) (lexed D d (string_lexeme s))"
    proof (cases ok)
      case False
      then show ?thesis
        using x by (auto simp: scanned_def lexed_def string_lexeme_def no_lexeme_def split: prod.splits)
    next
      case True
      then obtain raw r where r: "raw_split s = Some (raw, r)" "lex_saved_text l' = CHR 0x22 # raw @ [CHR 0x22]" "view D (lex_stream l') r"
        "lex_depth l' = d" "lex_token l' = TOKEN_INVALID"
        using x by (auto simp: scanned_def)
      obtain t where t: "unescape (raw @ [CHR 0x22]) = Some t" "\<forall>v. t = Some v \<longrightarrow> length v \<le> length raw"
        using unescape_raw[of raw "[]"] raw_split_Some[OF r(1)] by (auto simp: unescapes_def)
      show ?thesis
        using True r t by (cases t) (auto simp: string_lexeme_def lexed_def no_lexeme_def)
    qed
  qed
qed

section \<open>Texts of numbers\<close>

definition delimited :: "string \<Rightarrow> bool" where
  "delimited s \<longleftrightarrow> \<not> starts (\<lambda>b. isalnum b \<or> b = CHR ''.'') s"

lemma starts_mono: "starts P s \<Longrightarrow> (\<And>b. P b \<Longrightarrow> Q b) \<Longrightarrow> starts Q s"
  by (cases s) auto

lemma stops_not: "delimited r \<Longrightarrow> (\<And>b. P b \<Longrightarrow> isalnum b \<or> b = CHR ''.'') \<Longrightarrow> \<not> starts P r"
  unfolding delimited_def by (erule contrapos_nn) (rule starts_mono)

lemma stops_number:
  assumes "delimited r"
  shows "\<not> starts isdigit r" "\<not> starts is_exp r" "\<not> starts (\<lambda>b. b = CHR ''.'') r" "\<not> starts isalpha r"
    "\<not> starts (\<lambda>b. b = CHR ''.'' \<or> b = CHR ''E'' \<or> b = CHR ''e'') r"
proof -
  have exp: "isalnum (CHR ''E'')" "isalnum (CHR ''e'')"
    by (simp_all add: isalnum_def isalpha_def isupper_def islower_def)
  show "\<not> starts isdigit r" "\<not> starts isalpha r"
    by (rule stops_not[OF assms]; simp add: isalnum_def)+
  show "\<not> starts is_exp r"
    by (rule stops_not[OF assms]) (use exp in \<open>auto simp: is_exp_def\<close>)
  show "\<not> starts (\<lambda>b. b = CHR ''.'') r"
    by (rule stops_not[OF assms]) simp
  show "\<not> starts (\<lambda>b. b = CHR ''.'' \<or> b = CHR ''E'' \<or> b = CHR ''e'') r"
    by (rule stops_not[OF assms]) (use exp in auto)
qed

lemma takeWhile_text: "list_all P d \<Longrightarrow> \<not> starts P r \<Longrightarrow> takeWhile P (d @ r) = d \<and> dropWhile P (d @ r) = r"
proof (induction d)
  case Nil
  then show ?case
    by (cases r) auto
qed auto

lemma digits_app:
  assumes "digits d" "\<not> starts isdigit r"
  shows "starts isdigit (d @ r)" "takeWhile isdigit (d @ r) = d" "dropWhile isdigit (d @ r) = r"
  using assms takeWhile_text[of isdigit d r] by (auto simp: digits_def neq_Nil_conv)

lemma digits_take: "starts isdigit s \<Longrightarrow> digits (takeWhile isdigit s)"
  by (cases s) (auto simp: digits_def list_all_iff dest: set_takeWhileD)

lemma not_starts_dropWhile: "\<not> starts P (dropWhile P s)"
  by (induction s) auto

lemma number_digits_text:
  assumes "nat_text d" "\<not> starts isdigit r"
  shows "number_digits fl fin w (d @ r) = number_rest fl fin (w @ d) r"
proof (cases "hd d = CHR ''0''")
  case True
  then show ?thesis
    using assms by (auto simp: nat_text_def number_digits_def)
next
  case False
  then have "\<not> starts (\<lambda>b. b = CHR ''0'') (d @ r)"
    using assms by (cases d) (auto simp: nat_text_def digits_def)
  then show ?thesis
    using assms digits_app[of d r] by (simp add: number_digits_def nat_text_def)
qed

lemma number_digits_Some:
  assumes "number_digits fl fin w s = (t, q)" "t \<noteq> TOKEN_INVALID"
  obtains d r where "s = d @ r" "nat_text d" "number_rest fl fin (w @ d) r = (t, q)"
proof (cases "starts (\<lambda>b. b = CHR ''0'') s")
  case True
  then have "s = ''0'' @ tl s" "nat_text ''0''"
    by (cases s; simp add: nat_text_def digits_def isdigit_def)+
  then show ?thesis
    using assms True that[of "''0''" "tl s"] by (auto simp: number_digits_def no_lexeme_def split: if_splits)
next
  case False
  then have d: "starts isdigit s" "number_rest fl fin (w @ takeWhile isdigit s) (dropWhile isdigit s) = (t, q)"
    using assms by (auto simp: number_digits_def no_lexeme_def split: if_splits)
  have "nat_text (takeWhile isdigit s)"
    using False d(1) digits_take[OF d(1)] by (cases s) (auto simp: nat_text_def)
  then show ?thesis
    using that[of "takeWhile isdigit s" "dropWhile isdigit s"] d(2) by simp
qed

lemma exponent_digits_Some:
  assumes "exponent_digits fin w s = (t, q)" "t \<noteq> TOKEN_INVALID"
  obtains d r where "s = d @ r" "digits d" "fin (w @ d)" "t = TOKEN_REAL (w @ d)" "q = unread r"
  using assms that[of "takeWhile isdigit s" "dropWhile isdigit s"] digits_take
  by (auto simp: exponent_digits_def real_end_def no_lexeme_def split: if_splits)

lemma take_if_split:
  obtains m v where "take_if P (w, u) = (w @ m, v)" "u = m @ v" "m = [] \<or> (\<exists>b. m = [b] \<and> P b)"
proof (cases "starts P u")
  case True
  then obtain c u' where "u = c # u'" "P c"
    using starts_Cons by blast
  then show ?thesis
    using that[of "[c]" u'] by (auto simp: take_if_def)
next
  case False
  then show ?thesis
    using that[of "[]" u] by (simp add: take_if_def)
qed

lemma exponent_lexeme_Some:
  assumes "exponent_lexeme fin w s = (t, q)" "t \<noteq> TOKEN_INVALID"
  obtains e r where "s = e @ r" "e = [] \<or> exp_text e" "starts is_exp s \<Longrightarrow> e \<noteq> []" "fin (w @ e)" "t = TOKEN_REAL (w @ e)" "q = unread r"
proof (cases "starts is_exp s")
  case False
  then show ?thesis
    using assms that[of "[]" s] by (auto simp: exponent_lexeme_def real_end_def no_lexeme_def split: if_splits)
next
  case True
  then obtain b u where b: "s = b # u" "is_exp b"
    using starts_Cons by blast
  obtain v m where "take_if is_sign (w @ [b], u) = ((w @ [b]) @ m, v)" "u = m @ v" "m = [] \<or> (\<exists>c. m = [c] \<and> is_sign c)"
    by (rule take_if_split)
  then have m: "take_if is_sign (w @ [b], u) = (w @ b # m, v)" "u = m @ v" "m \<in> {'''', ''+'', ''-''}"
    by (auto simp: is_sign_def)
  then obtain d r where "v = d @ r" "digits d" "fin ((w @ b # m) @ d)" "t = TOKEN_REAL ((w @ b # m) @ d)" "q = unread r"
    using assms True b exponent_digits_Some[of fin "w @ b # m" v t q] by (auto simp: exponent_lexeme_def)
  then show ?thesis
    using m b that[of "b # m @ d" r] by (auto simp: exp_text_def is_exp_def)
qed

lemma exponent_lexeme_text:
  assumes "e = [] \<or> exp_text e" "delimited r" "fin (w @ e)"
  shows "exponent_lexeme fin w (e @ r) = (TOKEN_REAL (w @ e), unread r)"
  using assms(1)
proof
  assume "exp_text e"
  then obtain b m d where e: "e = b # m @ d" "b \<in> {CHR ''e'', CHR ''E''}" "m \<in> {'''', ''+'', ''-''}" "digits d"
    by (auto simp: exp_text_def)
  then have "\<not> starts is_sign (d @ r)"
    by (cases d) (auto simp: digits_def is_sign_def isdigit_def)
  then have "take_if is_sign (w @ [b], m @ d @ r) = (w @ b # m, d @ r)"
    using e(3) by (auto simp: take_if_def is_sign_def)
  then show ?thesis
    using e(1, 2) assms(3) digits_app[OF e(4) stops_number(1)[OF assms(2)]]
    by (auto simp: exponent_lexeme_def is_exp_def exponent_digits_def real_end_def)
qed (use assms(2, 3) stops_number in \<open>simp add: exponent_lexeme_def real_end_def\<close>)

lemma real_lexeme_Some:
  assumes "real_lexeme fin w s = (t, q)" "t \<noteq> TOKEN_INVALID" "starts (\<lambda>b. b = CHR ''.'' \<or> b = CHR ''E'' \<or> b = CHR ''e'') s"
  obtains f e r where "s = f @ e @ r" "frac_text f \<or> f = []" "exp_text e \<or> e = []" "f @ e \<noteq> []"
    "fin (w @ f @ e)" "t = TOKEN_REAL (w @ f @ e)" "q = unread r"
proof (cases "starts (\<lambda>b. b = CHR ''.'') s")
  case True
  then obtain u where u: "s = CHR ''.'' # u"
    using starts_Cons by blast
  then have d: "starts isdigit u" "exponent_lexeme fin (w @ CHR ''.'' # takeWhile isdigit u) (dropWhile isdigit u) = (t, q)"
    using assms by (auto simp: real_lexeme_def no_lexeme_def split: if_splits)
  obtain e r where e: "dropWhile isdigit u = e @ r" "e = [] \<or> exp_text e" "fin ((w @ CHR ''.'' # takeWhile isdigit u) @ e)"
      "t = TOKEN_REAL ((w @ CHR ''.'' # takeWhile isdigit u) @ e)" "q = unread r"
    using exponent_lexeme_Some[OF d(2) assms(2)] by metis
  have "u = takeWhile isdigit u @ e @ r"
    using e(1) takeWhile_dropWhile_id[of isdigit u] by simp
  then show ?thesis
    using e u digits_take[OF d(1)] that[of "CHR ''.'' # takeWhile isdigit u" e r] by (auto simp: frac_text_def)
next
  case False
  then have "exponent_lexeme fin w s = (t, q)" "starts is_exp s"
    using assms by (cases s; auto simp: real_lexeme_def is_exp_def)+
  then show ?thesis
    using exponent_lexeme_Some[of fin w s t q] assms(2) that[of "[]"] by (metis append_Nil)
qed

lemma real_lexeme_text:
  assumes "frac_text f \<or> f = []" "exp_text e \<or> e = []" "delimited r" "fin (w @ f @ e)"
  shows "real_lexeme fin w (f @ e @ r) = (TOKEN_REAL (w @ f @ e), unread r)"
proof -
  have e: "\<not> starts isdigit (e @ r)" "\<not> starts (\<lambda>b. b = CHR ''.'') (e @ r)"
    using assms(2) stops_number[OF assms(3)] by (auto simp: exp_text_def isdigit_def)
  show ?thesis
  proof (cases "f = []")
    case False
    then obtain d where d: "f = CHR ''.'' # d" "digits d"
      using assms(1) by (auto simp: frac_text_def)
    then show ?thesis
      using exponent_lexeme_text[of e r fin "w @ CHR ''.'' # d"] assms digits_app[OF d(2) e(1)] by (simp add: real_lexeme_def disj_commute)
  qed (use exponent_lexeme_text[of e r fin w] assms e in \<open>auto simp: real_lexeme_def\<close>)
qed

lemma strtoll_text:
  assumes "nat_text d" "m = [] \<or> m = ''-''"
  shows "int_text n (m @ d) \<longleftrightarrow> n = fst (strtoll (m @ d))"
proof -
  have d: "takeWhile isdigit d = d" "hd d \<noteq> CHR ''-''" "d \<noteq> []" "hd d = CHR ''-'' \<Longrightarrow> False"
    using assms(1) by (cases d; auto simp: nat_text_def digits_def list_all_iff isdigit_def)+
  have "\<not> nat_text (CHR ''-'' # d)"
    by (simp add: nat_text_def digits_def isdigit_def)
  then show ?thesis
    using assms d by (cases d) (auto simp: int_text_def strtoll_def)
qed

lemma int_textE:
  assumes "int_text n x"
  obtains m d where "x = m @ d" "m = [] \<or> m = ''-''" "nat_text d" "n = fst (strtoll x)"
proof -
  obtain m d where "x = m @ d" "m = [] \<or> m = ''-''" "nat_text d"
    using assms unfolding int_text_def by (metis append_Nil append_Cons)
  then show ?thesis
    using assms strtoll_text that by blast
qed

lemma number_lexeme_text:
  assumes "m = [] \<or> m = ''-''" "nat_text d" "\<not> starts isdigit r"
  shows "number_lexeme fl fin ((m @ d) @ r) = number_rest fl fin (m @ d) r"
proof -
  have "\<not> starts (\<lambda>b. b = CHR ''-'') (d @ r)"
    using assms(2) by (cases d) (auto simp: nat_text_def digits_def isdigit_def)
  then have "take_if (\<lambda>b. b = CHR ''-'') ([], (m @ d) @ r) = (m, d @ r)"
    using assms(1) by (auto simp: take_if_def)
  then show ?thesis
    using number_digits_text[OF assms(2, 3)] by (simp add: number_lexeme_def)
qed

lemma number_lexeme_Some:
  assumes "number_lexeme fl fin s = (t, q)" "t \<noteq> TOKEN_INVALID"
  obtains m d r where "s = (m @ d) @ r" "m = [] \<or> m = ''-''" "nat_text d" "number_rest fl fin (m @ d) r = (t, q)"
proof -
  obtain m u where m: "take_if (\<lambda>b. b = CHR ''-'') ([], s) = ([] @ m, u)" "s = m @ u" "m = [] \<or> (\<exists>b. m = [b] \<and> b = CHR ''-'')"
    by (rule take_if_split)
  then have "number_digits fl fin m u = (t, q)"
    using assms(1) by (simp add: number_lexeme_def)
  then obtain d r where "u = d @ r" "nat_text d" "number_rest fl fin (m @ d) r = (t, q)"
    by (rule number_digits_Some[OF _ assms(2)])
  then show ?thesis
    using that[of m d r] m(2, 3) by auto
qed

text \<open>The text of a token; a number or a word goes on as far as it can.\<close>

definition token_text :: "(string \<Rightarrow> bool) \<Rightarrow> token \<Rightarrow> string \<Rightarrow> bool" where
  "token_text fin t x = (case t of
     TOKEN_INVALID \<Rightarrow> False
   | TOKEN_EOF \<Rightarrow> False
   | TOKEN_STRING v \<Rightarrow> (\<exists>y. x = CHR 0x22 # y @ [CHR 0x22] \<and> string_text v y)
   | TOKEN_INTEGER n \<Rightarrow> int_text n x \<and> - (2 ^ 63) \<le> n \<and> n < 2 ^ 63
   | TOKEN_REAL y \<Rightarrow> y = x \<and> real_text x \<and> fin x
   | TOKEN_TRUE \<Rightarrow> x = ''true''
   | TOKEN_FALSE \<Rightarrow> x = ''false''
   | TOKEN_NULL \<Rightarrow> x = ''null''
   | TOKEN_CHAR b \<Rightarrow> x = [b] \<and> is_punctuation b)"

definition open_token :: "token \<Rightarrow> bool" where
  "open_token t = (case t of TOKEN_STRING _ \<Rightarrow> False | TOKEN_CHAR _ \<Rightarrow> False | _ \<Rightarrow> True)"

lemma integer_lexeme_Some:
  assumes "integer_lexeme w r = (t, q)" "t \<noteq> TOKEN_INVALID" "w = m @ d" "m = [] \<or> m = ''-''" "nat_text d"
  shows "token_text fin t w \<and> open_token t \<and> q = unread r"
  using assms strtoll_text[of d m] by (auto simp: integer_lexeme_def no_lexeme_def token_text_def open_token_def split: if_splits)

lemma number_token_Some:
  assumes "number_lexeme no_flags fin s = (t, q)" "t \<noteq> TOKEN_INVALID"
  obtains x r where "s = x @ r" "token_text fin t x" "open_token t" "q = unread r"
proof -
  let ?E = "\<lambda>b. b = CHR ''.'' \<or> b = CHR ''E'' \<or> b = CHR ''e''"
  obtain m d r where s: "s = (m @ d) @ r" and m: "m = [] \<or> m = ''-''" "nat_text d" and r: "number_rest no_flags fin (m @ d) r = (t, q)"
    using number_lexeme_Some[OF assms] .
  show ?thesis
  proof (cases "starts ?E r")
    case False
    then have "integer_lexeme (m @ d) r = (t, q)"
      using r by (simp add: number_rest_def no_flags_def)
    from integer_lexeme_Some[OF this assms(2) refl m] show ?thesis
      using that[OF s] by simp
  next
    case True
    then have "real_lexeme fin (m @ d) r = (t, q)"
      using r by (simp add: number_rest_def)
    then obtain f e u where fe: "r = f @ e @ u" "frac_text f \<or> f = []" "exp_text e \<or> e = []" "f @ e \<noteq> []"
        "fin ((m @ d) @ f @ e)" "t = TOKEN_REAL ((m @ d) @ f @ e)" "q = unread u"
      by (rule real_lexeme_Some[OF _ assms(2) True])
    have "real_text ((m @ d) @ f @ e)"
      using fe(2-4) strtoll_text[of d m] m unfolding real_text_def by blast
    then show ?thesis
      using fe s that[of "(m @ d) @ f @ e" u] by (simp add: token_text_def open_token_def)
  qed
qed

lemma integer_text_lexeme:
  assumes "int_text n x" "- (2 ^ 63) \<le> n" "n < 2 ^ 63" "delimited r"
  shows "number_lexeme no_flags fin (x @ r) = (TOKEN_INTEGER n, unread r)"
proof -
  obtain m d where x: "x = m @ d" "m = [] \<or> m = ''-''" "nat_text d" "n = fst (strtoll x)"
    using int_textE[OF assms(1)] .
  then show ?thesis
    using number_lexeme_text[OF x(2, 3) stops_number(1)[OF assms(4)], of no_flags fin] stops_number(5)[OF assms(4)] assms(2, 3)
    by (simp add: number_rest_def no_flags_def integer_lexeme_def)
qed

lemma real_text_lexeme:
  assumes "real_text x" "fin x" "delimited r"
  shows "number_lexeme no_flags fin (x @ r) = (TOKEN_REAL x, unread r)"
proof -
  obtain n i f e where x: "x = i @ f @ e" "int_text n i" "frac_text f \<or> f = []" "exp_text e \<or> e = []" "f @ e \<noteq> []"
    using assms(1) by (auto simp: real_text_def)
  obtain m d where i: "i = m @ d" "m = [] \<or> m = ''-''" "nat_text d"
    using int_textE[OF x(2)] .
  have "starts (\<lambda>b. b = CHR ''.'' \<or> b = CHR ''E'' \<or> b = CHR ''e'') (f @ e @ r)" "\<not> starts isdigit (f @ e @ r)"
    using x(3-5) by (auto simp: frac_text_def exp_text_def isdigit_def)
  then show ?thesis
    using number_lexeme_text[OF i(2, 3), of "f @ e @ r" no_flags fin] real_lexeme_text[OF x(3, 4) assms(3), of fin i] assms(2) x(1) i(1)
    by (simp add: number_rest_def)
qed

section \<open>The lexical analyzer\<close>

definition lexeme :: "json_flags \<Rightarrow> (string \<Rightarrow> bool) \<Rightarrow> string \<Rightarrow> token \<times> string" where
  "lexeme fl fin s =
     (case dropWhile is_space s of
        [] \<Rightarrow> (TOKEN_EOF, [])
      | b # r \<Rightarrow>
          if is_punctuation b then (TOKEN_CHAR b, r)
          else if b = CHR 0x22 then string_lexeme r
          else if isdigit b \<or> b = CHR ''-'' then number_lexeme fl fin (b # r)
          else if isalpha b then (word_token (takeWhile isalpha (b # r)), unread (dropWhile isalpha r))
          else no_lexeme)"

lemma word_token_EOF [simp]: "word_token x \<noteq> TOKEN_EOF"
  by (simp add: word_token_def)

lemma broken_not_utf8: "malformed D st \<Longrightarrow> \<not> utf8_check_string D"
  by (auto simp: malformed_def view_def)

lemma word_lexed:
  assumes "cur D (d, t) [] (b # r) (Byte b, l)" "isalpha b"
  shows "returns (get_save_while isalpha l \<bind> (\<lambda>(c, l). lex_unget_unsave l c \<bind>
      (\<lambda>l. Some (l\<lparr>lex_token := word_token (lex_saved_text l)\<rparr>))))
    (lexed D d (word_token (takeWhile isalpha (b # r)), unread (dropWhile isalpha r)))"
proof -
  have l: "view D (lex_stream l) r" "lex_saved_text l = [b]" "lex_depth l = d"
    using assms(1) by (auto simp: cur_def got_from_def)
  show ?thesis
  proof (rule returns_bind[OF get_save_while_cur[OF l(1), of isalpha]], clarify)
    fix c l' xs
    assume xs: "c \<noteq> Bad \<longrightarrow> xs = takeWhile isalpha r"
      and cur: "cur D (lex_depth l, lex_token l) (lex_saved_text l @ xs) (dropWhile isalpha r) (c, l')"
    show "returns (lex_unget_unsave l' c \<bind> (\<lambda>l. Some (l\<lparr>lex_token := word_token (lex_saved_text l)\<rparr>)))
      (lexed D d (word_token (takeWhile isalpha (b # r)), unread (dropWhile isalpha r)))"
    proof (cases "c = Bad")
      case True
      then show ?thesis
        using cur_Bad_D[OF cur[unfolded True]] l by (simp add: unget_unsave_Bad lexed_broken)
    next
      case False
      then show ?thesis
        using xs l assms(2) by (auto simp: given_def lexed_def intro!: returns_bind[OF unget_unsave_given[OF cur]])
    qed
  qed
qed

lemma lex_scan_lexed:
  assumes "view D (lex_stream l) s" "lex_depth l = d"
  shows "returns (lex_scan fl fin l) (lexed D d (lexeme fl fin s))"
proof -
  have "view D (lex_stream (l\<lparr>lex_saved_text := []\<rparr>)) s"
    using assms(1) by simp
  note start = get_nonspace_from[OF this]
  show ?thesis
    unfolding lex_scan_def
  proof (rule returns_bind[OF start], clarify)
    fix c l1
    assume c: "\<not> is_byte is_space c" "got_from D (dropWhile is_space s) (c, lex_stream l1)"
      and l1: "l1 = l\<lparr>lex_saved_text := [], lex_stream := lex_stream l1\<rparr>"
    have frame: "lex_depth l1 = d" "lex_saved_text l1 = []"
      using assms(2) by (subst l1, simp)+
    show "returns (case c of End \<Rightarrow> Some (l1\<lparr>lex_token := TOKEN_EOF\<rparr>) | Bad \<Rightarrow> Some (l1\<lparr>lex_token := TOKEN_INVALID\<rparr>)
      | Byte b \<Rightarrow> let l = lex_save c l1 in
          if is_punctuation b then Some (l\<lparr>lex_token := TOKEN_CHAR b\<rparr>)
          else if b = CHR 0x22 then lex_scan_string l
          else if isdigit b \<or> b = CHR ''-'' then lex_scan_number fl fin c l
          else if isalpha b then get_save_while isalpha l \<bind> (\<lambda>(c, l). lex_unget_unsave l c \<bind>
            (\<lambda>l. Some (l\<lparr>lex_token := word_token (lex_saved_text l)\<rparr>)))
          else Some ((lex_save_cached l)\<lparr>lex_token := TOKEN_INVALID\<rparr>)) (lexed D d (lexeme fl fin s))"
    proof (cases c)
      case (Byte b)
      then obtain r where r: "dropWhile is_space s = b # r" "view D (lex_stream l1) r" "holds (lex_stream l1) b"
        using c by (auto simp: got_from_def)
      define l2 where "l2 = lex_save c l1"
      have l2: "lex_stream l2 = lex_stream l1" "lex_depth l2 = d" "lex_saved_text l2 = [b]"
        using frame Byte by (simp_all add: l2_def lex_save_def)
      have cur: "cur D (d, lex_token l2) [] (b # r) (Byte b, l2)"
        using r l2 by (simp add: cur_def got_from_def)
      have "lex_depth (lex_save_cached l2) = d"
        using l2 by (simp add: lex_save_cached_def Let_def)
      then show ?thesis
        using r l2 lex_scan_string_lexed[of D l2 r d] lex_scan_number_lexed[OF cur, of fl fin] word_lexed[OF cur]
        unfolding Byte got.case l2_def[symmetric, unfolded Byte] Let_def
        by (auto simp: lexeme_def lexed_def no_lexeme_def)
    qed (use c frame in \<open>auto simp: got_from_def lexeme_def lexed_def broken_not_utf8 simp del: dropWhile_eq_Nil_conv\<close>)
  qed
qed

lemma lex_scan_broken:
  assumes "malformed D (lex_stream l)"
  shows "returns (lex_scan fl fin l) (\<lambda>l'. malformed D (lex_stream l') \<and> lex_depth l' = lex_depth l \<and> lex_token l' = TOKEN_INVALID)"
proof -
  have "lex_get (l\<lparr>lex_saved_text := []\<rparr>) = Some (Bad, l\<lparr>lex_saved_text := []\<rparr>)"
    using assms by (simp add: lex_get_def stream_get_def malformed_def)
  then show ?thesis
    using assms by (simp add: lex_scan_def get_nonspace.simps)
qed

lemma ws_space: "ws w \<longleftrightarrow> list_all is_space w"
  by (auto simp: ws_def list_all_iff is_space_def)

lemma ws_simps [simp]: "ws []" "ws (v @ w) \<longleftrightarrow> ws v \<and> ws w" "ws (c # w) \<longleftrightarrow> is_space c \<and> ws w"
  by (auto simp: ws_def is_space_def)

lemma skip_ws: "ws w \<Longrightarrow> \<not> starts is_space s \<Longrightarrow> dropWhile is_space (w @ s) = s"
  using takeWhile_text by (auto simp: ws_space)

lemma token_text_starts:
  assumes "token_text fin t x"
  shows "x \<noteq> [] \<and> \<not> starts is_space (x @ r)"
proof -
  have "x \<noteq> [] \<and> \<not> is_space (hd x)"
  proof (cases t)
    case (TOKEN_INTEGER n)
    then show ?thesis
      using assms int_textE[of n x] by (fastforce simp: token_text_def nat_text_def digits_def is_space_def isdigit_def neq_Nil_conv)
  next
    case (TOKEN_REAL y)
    then obtain i n f where "x = i @ f" "int_text n i"
      using assms by (auto simp: token_text_def real_text_def)
    then show ?thesis
      using int_textE[of n i] by (fastforce simp: nat_text_def digits_def is_space_def isdigit_def neq_Nil_conv)
  qed (use assms in \<open>auto simp: token_text_def is_space_def is_punctuation_def\<close>)
  then show ?thesis
    by (cases x) auto
qed

lemma number_starts:
  assumes "int_text n x"
  obtains b y where "x = b # y" "isdigit b \<or> b = CHR ''-''" "\<not> is_punctuation b" "b \<noteq> CHR 0x22"
proof -
  obtain m d where x: "x = m @ d" "m = [] \<or> m = ''-''" "nat_text d"
    using int_textE[OF assms] .
  then obtain b y where "x = b # y" "isdigit b \<or> b = CHR ''-''"
    by (cases d) (auto simp: nat_text_def digits_def)
  moreover from this have "\<not> is_punctuation b" "b \<noteq> CHR 0x22"
    by (auto simp: is_punctuation_def isdigit_def)
  ultimately show ?thesis
    using that by blast
qed

lemma word_lexeme:
  assumes "word_token x \<noteq> TOKEN_INVALID" "delimited r" "ws w"
  shows "lexeme fl fin (w @ x @ r) = (word_token x, unread r)"
proof -
  have x: "x \<in> {''true'', ''false'', ''null''}"
    using assms(1) by (auto simp: word_token_def split: if_splits)
  then have l: "list_all isalpha x" "hd x \<in> {CHR ''t'', CHR ''f'', CHR ''n''}" "x \<noteq> []"
    by (auto simp: isalpha_def islower_def)
  then obtain b y where b: "x = b # y" "b \<in> {CHR ''t'', CHR ''f'', CHR ''n''}"
    by (cases x) auto
  have "dropWhile is_space (w @ x @ r) = b # y @ r"
    using skip_ws[OF assms(3), of "x @ r"] b by (auto simp: is_space_def)
  moreover have "takeWhile isalpha (b # y @ r) = x" "dropWhile isalpha (y @ r) = r"
    using takeWhile_text[of isalpha x r] takeWhile_text[of isalpha y r] l b stops_number(4)[OF assms(2)] by auto
  moreover have "isalpha b \<and> \<not> is_punctuation b \<and> b \<noteq> CHR 0x22 \<and> \<not> isdigit b \<and> b \<noteq> CHR ''-''"
    using b(2) by (auto simp: isalpha_def islower_def isupper_def is_punctuation_def isdigit_def)
  ultimately show ?thesis
    by (simp add: lexeme_def)
qed

lemma lexeme_text:
  assumes "token_text fin t x" "ws w" "open_token t \<Longrightarrow> delimited r"
  shows "lexeme no_flags fin (w @ x @ r) = (t, if open_token t then unread r else r)"
proof -
  have skip: "dropWhile is_space (w @ x @ r) = x @ r"
    using skip_ws[OF assms(2)] token_text_starts[OF assms(1)] by simp
  show ?thesis
  proof (cases t)
    case (TOKEN_STRING v)
    then obtain y where "x = CHR 0x22 # y @ [CHR 0x22]" "string_text v y"
      using assms(1) by (auto simp: token_text_def)
    then show ?thesis
      using TOKEN_STRING skip string_lexeme_text[of v y r] by (simp add: lexeme_def open_token_def is_punctuation_def)
  next
    case (TOKEN_INTEGER n)
    then have n: "int_text n x" "- (2 ^ 63) \<le> n" "n < 2 ^ 63" "delimited r"
      using assms by (auto simp: token_text_def open_token_def)
    obtain b y where "x = b # y" "isdigit b \<or> b = CHR ''-''" "\<not> is_punctuation b" "b \<noteq> CHR 0x22"
      using number_starts[OF n(1)] .
    then show ?thesis
      using TOKEN_INTEGER skip integer_text_lexeme[OF n, of fin] by (simp add: lexeme_def open_token_def)
  next
    case (TOKEN_REAL z)
    then have n: "real_text x" "fin x" "delimited r" "z = x"
      using assms by (auto simp: token_text_def open_token_def)
    obtain i k f where "x = i @ f" "int_text k i"
      using n(1) by (auto simp: real_text_def)
    moreover obtain b y where "i = b # y" "isdigit b \<or> b = CHR ''-''" "\<not> is_punctuation b" "b \<noteq> CHR 0x22"
      using number_starts[OF \<open>int_text k i\<close>] .
    ultimately show ?thesis
      using TOKEN_REAL skip real_text_lexeme[of x fin r] n by (simp add: lexeme_def open_token_def)
  next
    case (TOKEN_CHAR b)
    then show ?thesis
      using assms(1) skip by (simp add: lexeme_def open_token_def token_text_def)
  qed (use assms word_lexeme[of x r w] in \<open>auto simp: token_text_def open_token_def word_token_def\<close>)
qed

lemma lexeme_EOF: "ws w \<Longrightarrow> lexeme fl fin w = (TOKEN_EOF, [])"
  by (simp add: lexeme_def ws_space list_all_iff dropWhile_eq_Nil_conv[THEN iffD2])

lemma lexeme_Some:
  assumes "lexeme no_flags fin s = (t, q)" "t \<noteq> TOKEN_INVALID" "t \<noteq> TOKEN_EOF"
  obtains w x r where "s = w @ x @ r" "ws w" "token_text fin t x" "q = (if open_token t then unread r else r)"
proof (cases "dropWhile is_space s")
  case Nil
  then show ?thesis
    using assms by (simp add: lexeme_def del: dropWhile_eq_Nil_conv)
next
  case (Cons b u)
  let ?w = "takeWhile is_space s"
  have s: "s = ?w @ b # u" and w: "ws ?w"
    using Cons takeWhile_dropWhile_id[of is_space s] by (auto simp: ws_space list_all_iff dest: set_takeWhileD)
  consider (punct) "is_punctuation b" "t = TOKEN_CHAR b" "q = u"
    | (str) "b = CHR 0x22" "string_lexeme u = (t, q)"
    | (num) "number_lexeme no_flags fin (b # u) = (t, q)"
    | (word) "isalpha b" "t = word_token (takeWhile isalpha (b # u))" "q = unread (dropWhile isalpha u)"
    using assms unfolding lexeme_def Cons list.case no_lexeme_def by (metis prod.inject)
  then show ?thesis
  proof cases
    case punct
    then show ?thesis
      using that[of ?w "[b]" u] s w by (simp add: token_text_def open_token_def)
  next
    case str
    obtain v x where "t = TOKEN_STRING v" "u = x @ CHR 0x22 # q" "string_text v x"
      using string_lexeme_Some[OF str(2) assms(2)] .
    then show ?thesis
      using that[of ?w "CHR 0x22 # x @ [CHR 0x22]" q] s w str by (auto simp: token_text_def open_token_def)
  next
    case num
    obtain x r where x: "b # u = x @ r" "token_text fin t x" "open_token t" "q = unread r"
      using number_token_Some[OF num assms(2)] .
    then show ?thesis
      using that[of ?w x r] s w x by simp
  next
    case word
    let ?x = "takeWhile isalpha (b # u)"
    have "token_text fin t ?x" "open_token t"
      using word(2) assms(2) by (auto simp: token_text_def word_token_def open_token_def split: if_splits)
    moreover have "s = ?w @ ?x @ dropWhile isalpha u"
      using s word(1) by simp
    ultimately show ?thesis
      using that w word(3) by simp
  qed
qed

lemma lexeme_EOF_D: "lexeme no_flags fin s = (TOKEN_EOF, q) \<Longrightarrow> ws s \<and> q = []"
proof (cases "dropWhile is_space s")
  case Nil
  assume "lexeme no_flags fin s = (TOKEN_EOF, q)"
  then show ?thesis
    using Nil by (auto simp: lexeme_def ws_space list_all_iff)
next
  case (Cons b u)
  assume eof: "lexeme no_flags fin s = (TOKEN_EOF, q)"
  have "string_lexeme u \<noteq> (TOKEN_EOF, q)"
    using string_lexeme_Some[of u TOKEN_EOF q] by blast
  moreover have "number_lexeme no_flags fin (b # u) \<noteq> (TOKEN_EOF, q)"
    using number_token_Some[of fin "b # u" TOKEN_EOF q] by (auto simp: token_text_def)
  moreover have "word_token x \<noteq> TOKEN_EOF" for x
    by (simp add: word_token_def)
  ultimately show ?thesis
    using eof Cons by (auto simp: lexeme_def no_lexeme_def split: if_splits)
qed

end
