(* ===== verification/JSON_Parser.thy ===== *)
theory JSON_Parser
  imports JSON_Text
begin

text \<open>
  The parser of Jansson against the grammar: it returns a result for every data, the
  tree it accepts is one the grammar gives to the text, and it accepts every text of
  the grammar.
\<close>

declare parse_value.simps [simp del] parse_object.simps [simp del] parse_members.simps [simp del]
  parse_array.simps [simp del] parse_items.simps [simp del]

lemma no_flags_simps [simp]: "\<not> JSON_REJECT_DUPLICATES no_flags" "\<not> JSON_DISABLE_EOF_CHECK no_flags" "\<not> JSON_DECODE_ANY no_flags"
  by (simp_all add: no_flags_def)

section \<open>Scanning a token\<close>

text \<open>
  After a scan from \<open>s\<close> the data is malformed, or there is no token, or the token has been
  taken from the front of \<open>s\<close> and \<open>q\<close> is left.
\<close>

definition advances :: "(string \<Rightarrow> bool) \<Rightarrow> token \<Rightarrow> string \<Rightarrow> string \<Rightarrow> bool" where
  "advances fin t s q \<longleftrightarrow> length q < length s \<and> (nul \<notin> set s \<longrightarrow> (\<exists>w x. s = w @ x @ q \<and> ws w \<and> token_text fin t x))"

definition scanned_token :: "(string \<Rightarrow> bool) \<Rightarrow> string \<Rightarrow> nat \<Rightarrow> string \<Rightarrow> lex \<Rightarrow> bool" where
  "scanned_token fin D d s l \<longleftrightarrow> lex_depth l = d \<and>
     (malformed D (lex_stream l) \<or> lex_token l = TOKEN_INVALID \<or> lex_token l = TOKEN_EOF \<or>
      (\<exists>q. view D (lex_stream l) q \<and> advances fin (lex_token l) s q))"

lemma unread_id: "nul \<notin> set s \<Longrightarrow> unread s = s"
  by (cases s) auto

lemma length_unread: "length (unread s) \<le> length s"
  by (cases s) auto

lemma lexeme_advances:
  assumes "lexeme no_flags fin s = (t, q)" "t \<noteq> TOKEN_INVALID" "t \<noteq> TOKEN_EOF"
  shows "advances fin t s q"
proof -
  obtain w x r where x: "s = w @ x @ r" "ws w" "token_text fin t x" "q = (if open_token t then unread r else r)"
    using lexeme_Some[OF assms] .
  have "x \<noteq> []"
    using token_text_starts x(3) by blast
  then have "length q < length s"
    using x(1, 4) length_unread[of r] by (cases x) auto
  moreover have "nul \<notin> set s \<Longrightarrow> q = r"
    using x(1, 4) by (simp add: unread_id)
  ultimately show ?thesis
    using x(1-3) by (auto simp: advances_def)
qed

lemma scan_token:
  assumes "view D (lex_stream l) s"
  shows "returns (lex_scan no_flags fin l) (scanned_token fin D (lex_depth l) s)"
proof (rule returns_mono[OF lex_scan_lexed[OF assms refl]])
  fix l'
  assume l': "lexed D (lex_depth l) (lexeme no_flags fin s) l'"
  obtain t q where "lexeme no_flags fin s = (t, q)"
    by (cases "lexeme no_flags fin s")
  then show "scanned_token fin D (lex_depth l) s l'"
    using l' lexeme_advances[of fin s t q] by (auto simp: scanned_token_def lexed_def)
qed

section \<open>Broken data\<close>

text \<open>Where the data is not UTF-8, every scan ends without a token, and no value is nested in another.\<close>

lemma parse_value_no_value:
  "lex_token l = TOKEN_INVALID \<or> lex_token l = TOKEN_EOF \<Longrightarrow> returns (parse_value (Suc n) fl fin l) (\<lambda>(j, l'). j = None)"
  by (auto simp: parse_value.simps(2) unless_null_def parse_scalar_def)

lemma no_value_then:
  assumes "lex_token l = TOKEN_INVALID \<or> lex_token l = TOKEN_EOF" "1 \<le> n"
  shows "returns (unless_null (parse_value n fl fin l) f) (\<lambda>(j, l'). j = None)"
  using assms parse_value_no_value[of l "n - 1" fl fin] by (auto simp: returns_def unless_null_def)

lemma parse_items_no_item:
  assumes "lex_token l = TOKEN_INVALID \<or> lex_token l = TOKEN_EOF" "2 \<le> n"
  shows "returns (parse_items n fl fin ts l) (\<lambda>(j, l'). j = None)"
proof -
  obtain k where n: "n = Suc (Suc k)"
    using assms(2) by (metis add_2_eq_Suc le_Suc_ex)
  show ?thesis
  proof (cases "lex_token l = TOKEN_EOF")
    case False
    then show ?thesis
      using no_value_then[of l "Suc k"] assms(1) by (simp add: n parse_items.simps(2))
  qed (simp add: n parse_items.simps(2))
qed

lemma parse_members_no_key:
  "lex_token l = TOKEN_INVALID \<or> lex_token l = TOKEN_EOF \<Longrightarrow> returns (parse_members (Suc n) fl fin ms l) (\<lambda>(j, l'). j = None)"
  by (auto simp: parse_members.simps(2) lex_steal_string_def)

lemma parse_object_broken:
  assumes "malformed D (lex_stream l)"
  shows "returns (parse_object (Suc (Suc n)) fl fin l) (\<lambda>(j, l'). j = None)"
  unfolding parse_object.simps(2)
  by (rule returns_bind[OF lex_scan_broken[OF assms]]) (use parse_members_no_key in auto)

lemma parse_array_broken:
  assumes "malformed D (lex_stream l)"
  shows "returns (parse_array (Suc (Suc (Suc n))) fl fin l) (\<lambda>(j, l'). j = None)"
  unfolding parse_array.simps(2)
  by (rule returns_bind[OF lex_scan_broken[OF assms]]) (use parse_items_no_item in auto)

lemma unless_null_None: "returns m (\<lambda>(j, l). j = None) \<Longrightarrow> returns (unless_null m f) (\<lambda>(j, l). j = None)"
  by (auto simp: returns_def unless_null_def)

lemma parse_value_broken:
  assumes "malformed D (lex_stream l)"
  shows "returns (parse_value (Suc (Suc (Suc (Suc n)))) fl fin l)
    (\<lambda>(j, l'). j \<noteq> None \<longrightarrow> malformed D (lex_stream l') \<and> lex_depth l' = lex_depth l)"
proof -
  let ?l = "l\<lparr>lex_depth := lex_depth l + 1\<rparr>"
  have b: "malformed D (lex_stream ?l)"
    using assms by simp
  have "returns (unless_null m f) (\<lambda>(j, l'). j \<noteq> None \<longrightarrow> P l')" if "returns m (\<lambda>(j, l). j = None)" for m f P
    using unless_null_None[OF that, of f] by (rule returns_mono) auto
  then show ?thesis
    using parse_object_broken[OF b] parse_array_broken[OF b] assms
    by (auto simp: parse_value.simps(2) unless_null_def split: option.split)
qed

lemma parse_members_broken:
  assumes "malformed D (lex_stream l)"
  shows "returns (parse_members (Suc n) fl fin ms l) (\<lambda>(j, l'). j = None)"
  by (auto simp: parse_members.simps(2) split: option.split intro!: returns_bind[OF lex_scan_broken[OF assms]])

lemma broken_value_then:
  assumes "malformed D (lex_stream l)" "4 \<le> n"
    and f: "\<And>t l. malformed D (lex_stream l) \<Longrightarrow> returns (f t l) (\<lambda>(j, l). j = None)"
  shows "returns (unless_null (parse_value n fl fin l) f) (\<lambda>(j, l'). j = None)"
proof -
  obtain k where "n = 4 + k"
    using assms(2) le_Suc_ex by blast
  then have n: "n = Suc (Suc (Suc (Suc k)))"
    by (simp add: eval_nat_numeral)
  obtain j l' where v: "parse_value n fl fin l = Some (j, l')" "j \<noteq> None \<Longrightarrow> malformed D (lex_stream l')"
    using parse_value_broken[OF assms(1), of k fl fin] by (auto simp: returns_def n)
  then show ?thesis
    using f by (cases j) (auto simp: unless_null_def)
qed

lemma parse_items_broken:
  assumes "malformed D (lex_stream l)" "5 \<le> n"
  shows "returns (parse_items n fl fin ts l) (\<lambda>(j, l'). j = None)"
proof -
  obtain k where "n = Suc k" "4 \<le> k"
    using assms(2) by (cases n) auto
  then show ?thesis
    by (auto simp: parse_items.simps(2) intro!: broken_value_then[OF assms(1)] returns_bind[OF lex_scan_broken])
qed

section \<open>Every result is in the grammar\<close>

text \<open>
  What a function leaves of \<open>s\<close>, the part behind its first token, when it returns a tree:
  \<open>G x\<close> says what the part \<open>x\<close> that it took is.
\<close>

definition took :: "string \<Rightarrow> nat \<Rightarrow> string \<Rightarrow> (json \<Rightarrow> string \<Rightarrow> bool) \<Rightarrow> json option \<times> lex \<Rightarrow> bool" where
  "took D d s G = (\<lambda>(j, l). \<forall>t. j = Some t \<longrightarrow> lex_depth l = d \<and>
     (malformed D (lex_stream l) \<or> (\<exists>q. view D (lex_stream l) q \<and> length q \<le> length s \<and> (nul \<notin> set s \<longrightarrow> (\<exists>x. s = x @ q \<and> G t x)))))"

lemma took_None [simp]: "took D d s G (None, l)"
  by (simp add: took_def)

lemma took_broken: "malformed D (lex_stream l) \<Longrightarrow> lex_depth l = d \<Longrightarrow> took D d s G (j, l)"
  by (simp add: took_def)

lemma took_failed: "returns m (\<lambda>(j, l). j = None) \<Longrightarrow> returns m (took D d s G)"
  by (auto simp: returns_def took_def)

abbreviation budget :: "nat \<Rightarrow> nat" where
  "budget d \<equiv> JSON_PARSER_MAX_DEPTH - d"

definition value_ok :: "(string \<Rightarrow> bool) \<Rightarrow> string \<Rightarrow> nat \<Rightarrow> bool" where
  "value_ok fin D n \<longleftrightarrow> (\<forall>l s. view D (lex_stream l) s \<longrightarrow> 3 * length s + 7 \<le> n \<longrightarrow>
     returns (parse_value n no_flags fin l) (took D (lex_depth l) s
       (\<lambda>t x. \<forall>y. token_text fin (lex_token l) y \<longrightarrow> value_text fin (budget (lex_depth l)) t (y @ x))))"

definition object_ok :: "(string \<Rightarrow> bool) \<Rightarrow> string \<Rightarrow> nat \<Rightarrow> bool" where
  "object_ok fin D n \<longleftrightarrow> (\<forall>l s. view D (lex_stream l) s \<longrightarrow> 3 * length s + 6 \<le> n \<longrightarrow>
     returns (parse_object n no_flags fin l) (took D (lex_depth l) s
       (\<lambda>t x. value_text fin (Suc (budget (lex_depth l))) t (CHR ''{'' # x))))"

definition members_ok :: "(string \<Rightarrow> bool) \<Rightarrow> string \<Rightarrow> nat \<Rightarrow> bool" where
  "members_ok fin D n \<longleftrightarrow> (\<forall>l s ms. view D (lex_stream l) s \<longrightarrow> 3 * length s + 8 \<le> n \<longrightarrow>
     returns (parse_members n no_flags fin ms l) (took D (lex_depth l) s
       (\<lambda>t x. \<forall>y. token_text fin (lex_token l) y \<longrightarrow>
         (\<exists>ms' z. t = JObject ms' \<and> y @ x = z @ ''}'' \<and> members_text fin (budget (lex_depth l)) ms ms' z))))"

definition array_ok :: "(string \<Rightarrow> bool) \<Rightarrow> string \<Rightarrow> nat \<Rightarrow> bool" where
  "array_ok fin D n \<longleftrightarrow> (\<forall>l s. view D (lex_stream l) s \<longrightarrow> 3 * length s + 6 \<le> n \<longrightarrow>
     returns (parse_array n no_flags fin l) (took D (lex_depth l) s
       (\<lambda>t x. value_text fin (Suc (budget (lex_depth l))) t (CHR ''['' # x))))"

definition items_ok :: "(string \<Rightarrow> bool) \<Rightarrow> string \<Rightarrow> nat \<Rightarrow> bool" where
  "items_ok fin D n \<longleftrightarrow> (\<forall>l s ts. view D (lex_stream l) s \<longrightarrow> 3 * length s + 8 \<le> n \<longrightarrow>
     returns (parse_items n no_flags fin ts l) (took D (lex_depth l) s
       (\<lambda>t x. \<forall>y. token_text fin (lex_token l) y \<longrightarrow>
         (\<exists>us z. t = JArray (ts @ us) \<and> y @ x = z @ '']'' \<and> items_text fin (budget (lex_depth l)) us z))))"

lemma value_okD: "value_ok fin D n \<Longrightarrow> view D (lex_stream l) s \<Longrightarrow> 3 * length s + 7 \<le> n \<Longrightarrow> lex_depth l = d \<Longrightarrow>
     returns (parse_value n no_flags fin l) (took D d s
       (\<lambda>t x. \<forall>y. token_text fin (lex_token l) y \<longrightarrow> value_text fin (budget d) t (y @ x)))"
  unfolding value_ok_def by blast

lemma members_okD: "members_ok fin D n \<Longrightarrow> view D (lex_stream l) s \<Longrightarrow> 3 * length s + 8 \<le> n \<Longrightarrow> lex_depth l = d \<Longrightarrow>
     returns (parse_members n no_flags fin ms l) (took D d s
       (\<lambda>t x. \<forall>y. token_text fin (lex_token l) y \<longrightarrow>
         (\<exists>ms' z. t = JObject ms' \<and> y @ x = z @ ''}'' \<and> members_text fin (budget d) ms ms' z)))"
  unfolding members_ok_def by blast

lemma array_okD: "array_ok fin D n \<Longrightarrow> view D (lex_stream l) s \<Longrightarrow> 3 * length s + 6 \<le> n \<Longrightarrow> lex_depth l = d \<Longrightarrow>
     returns (parse_array n no_flags fin l) (took D d s
       (\<lambda>t x. value_text fin (Suc (budget d)) t (CHR ''['' # x)))"
  unfolding array_ok_def by blast

lemma items_okD: "items_ok fin D n \<Longrightarrow> view D (lex_stream l) s \<Longrightarrow> 3 * length s + 8 \<le> n \<Longrightarrow> lex_depth l = d \<Longrightarrow>
     returns (parse_items n no_flags fin ts l) (took D d s
       (\<lambda>t x. \<forall>y. token_text fin (lex_token l) y \<longrightarrow>
         (\<exists>us z. t = JArray (ts @ us) \<and> y @ x = z @ '']'' \<and> items_text fin (budget d) us z)))"
  unfolding items_ok_def by blast

lemma object_okD: "object_ok fin D n \<Longrightarrow> view D (lex_stream l) s \<Longrightarrow> 3 * length s + 6 \<le> n \<Longrightarrow> lex_depth l = d \<Longrightarrow>
     returns (parse_object n no_flags fin l) (took D d s
       (\<lambda>t x. value_text fin (Suc (budget d)) t (CHR ''{'' # x)))"
  unfolding object_ok_def by blast

lemma scalar_text:
  assumes "parse_scalar no_flags t = Some j" "token_text fin t y"
  shows "value_text fin (Suc d) j y"
  using assms by (cases t) (auto simp: parse_scalar_def no_flags_def token_text_def split: if_splits intro: value_text_members_text_items_text.intros)

text \<open>A function that goes on from \<open>q\<close>, after the token \<open>t\<close> has been taken from \<open>s\<close>.\<close>

lemma took_prefix:
  assumes "took D d q G (j, l)" "advances fin t s q"
    and G': "\<And>u w x y. j = Some u \<Longrightarrow> ws w \<Longrightarrow> token_text fin t x \<Longrightarrow> G u y \<Longrightarrow> G' u (w @ x @ y)"
  shows "took D d s G' (j, l)"
proof (cases "j = None \<or> malformed D (lex_stream l)")
  case True
  then show ?thesis
    using assms(1) by (auto simp: took_def)
next
  case False
  then obtain u where j: "j = Some u"
    by (cases j) auto
  then obtain q' where q': "view D (lex_stream l) q'" "length q' \<le> length q" "lex_depth l = d"
    and x: "nul \<notin> set q \<longrightarrow> (\<exists>x. q = x @ q' \<and> G u x)"
    using assms(1) False unfolding took_def by auto
  have "length q' \<le> length s"
    using q'(2) assms(2) by (simp add: advances_def)
  moreover have "\<exists>x. s = x @ q' \<and> G' u x" if ns: "nul \<notin> set s"
  proof -
    obtain w y where s: "s = w @ y @ q" "ws w" "token_text fin t y"
      using assms(2) ns by (auto simp: advances_def)
    then obtain x where "q = x @ q'" "G u x"
      using x ns by auto
    then show ?thesis
      using s G'[OF j s(2, 3)] by (intro exI[of _ "w @ y @ x"]) simp
  qed
  ultimately show ?thesis
    using j q' by (auto simp: took_def)
qed

lemma ws_members: "members_text fin d ms ms' z \<Longrightarrow> ws w \<Longrightarrow> members_text fin d ms ms' (w @ z)"
  by (erule members_text.cases) (use Member[of "w @ w1" for w1] Members[of "w @ w1" for w1] in auto)

lemma ws_items: "items_text fin d ts z \<Longrightarrow> ws w \<Longrightarrow> items_text fin d ts (w @ z)"
  by (erule items_text.cases) (use Item[of "w @ w1" for w1] Items[of "w @ w1" for w1] in auto)

text \<open>
  The rules for the statements of the parser: a scan, after which \<open>G1\<close> is what the rest takes
  behind the token, and a value, after which \<open>G2\<close> is what the rest takes behind it.
\<close>

lemma advancesD: "advances fin t s q \<Longrightarrow> length q < length s"
  by (simp add: advances_def)

lemma took_when_broken:
  "returns m (\<lambda>(j, l). j \<noteq> None \<longrightarrow> malformed D (lex_stream l) \<and> lex_depth l = d) \<Longrightarrow> returns m (took D d s G)"
  by (auto simp: returns_def took_def)

lemma failed_any: "returns m (\<lambda>(j, l). j = None) \<Longrightarrow> returns m (\<lambda>(j, l). j \<noteq> None \<longrightarrow> P j l)"
  by (auto simp: returns_def)

lemma after_scan:
  assumes "view D (lex_stream l) s" "lex_depth l = d"
    and malformed: "\<And>l'. malformed D (lex_stream l') \<Longrightarrow> lex_depth l' = d \<Longrightarrow>
      returns (f l') (\<lambda>(j, l'). j \<noteq> None \<longrightarrow> malformed D (lex_stream l') \<and> lex_depth l' = d)"
    and none: "\<And>l'. lex_token l' = TOKEN_INVALID \<or> lex_token l' = TOKEN_EOF \<Longrightarrow> returns (f l') (\<lambda>(j, l'). j = None)"
    and token: "\<And>l' q. view D (lex_stream l') q \<Longrightarrow> length q < length s \<Longrightarrow> lex_depth l' = d \<Longrightarrow> returns (f l') (took D d q (G1 (lex_token l')))"
    and G: "\<And>t u w x y. ws w \<Longrightarrow> token_text fin t x \<Longrightarrow> G1 t u y \<Longrightarrow> G u (w @ x @ y)"
  shows "returns (lex_scan no_flags fin l \<bind> f) (took D d s G)"
proof (rule returns_bind[OF scan_token[OF assms(1)]])
  fix l'
  assume "scanned_token fin D (lex_depth l) s l'"
  then consider "malformed D (lex_stream l')" "lex_depth l' = d" | "lex_token l' = TOKEN_INVALID \<or> lex_token l' = TOKEN_EOF"
    | q where "view D (lex_stream l') q" "advances fin (lex_token l') s q" "lex_depth l' = d"
    unfolding scanned_token_def assms(2) by blast
  then show "returns (f l') (took D d s G)"
  proof cases
    case 1
    then show ?thesis
      by (intro took_when_broken malformed)
  next
    case 2
    then show ?thesis
      by (intro took_failed none)
  next
    case (3 q)
    have "returns (f l') (took D d q (G1 (lex_token l')))"
      using token 3 advancesD by blast
    then show ?thesis
      by (auto elim!: returns_mono intro: took_prefix[OF _ 3(2)] G)
  qed
qed

lemma after_value:
  assumes "returns m (took D d s G1)"
    and malformed: "\<And>t l. malformed D (lex_stream l) \<Longrightarrow> lex_depth l = d \<Longrightarrow> returns (f t l) (\<lambda>(j, l). j \<noteq> None \<longrightarrow> malformed D (lex_stream l) \<and> lex_depth l = d)"
    and rest: "\<And>t l q. view D (lex_stream l) q \<Longrightarrow> length q \<le> length s \<Longrightarrow> lex_depth l = d \<Longrightarrow> returns (f t l) (took D d q (G2 t))"
    and G: "\<And>t u x y. G1 t x \<Longrightarrow> G2 t u y \<Longrightarrow> G u (x @ y)"
  shows "returns (unless_null m f) (took D d s G)"
proof -
  obtain j l where m: "m = Some (j, l)" and took: "took D d s G1 (j, l)"
    using assms(1) by (auto simp: returns_def)
  consider "j = None" | t where "j = Some t" "malformed D (lex_stream l)" "lex_depth l = d"
    | t q where "j = Some t" "view D (lex_stream l) q" "length q \<le> length s" "lex_depth l = d" "nul \<notin> set s \<longrightarrow> (\<exists>x. s = x @ q \<and> G1 t x)"
    using took unfolding took_def by (cases j) auto
  then show ?thesis
  proof cases
    case 1
    then show ?thesis
      using m by (simp add: unless_null_def)
  next
    case (2 t)
    then show ?thesis
      using m malformed by (simp add: unless_null_def took_when_broken)
  next
    case (3 t q)
    obtain j' l' where f: "f t l = Some (j', l')" and took': "took D d q (G2 t) (j', l')"
      using rest[OF 3(2-4), of t] by (auto simp: returns_def)
    have "took D d s G (j', l')"
    proof (cases "j' = None \<or> malformed D (lex_stream l')")
      case False
      then obtain u where u: "j' = Some u"
        by (cases j') auto
      then obtain q' where q': "view D (lex_stream l') q'" "length q' \<le> length q" "lex_depth l' = d"
          "nul \<notin> set q \<longrightarrow> (\<exists>x. q = x @ q' \<and> G2 t u x)"
        using took' False unfolding took_def by auto
      have "\<exists>z. s = z @ q' \<and> G u z" if ns: "nul \<notin> set s"
      proof -
        obtain x where x: "s = x @ q" "G1 t x"
          using 3(5) ns by blast
        then obtain y where "q = y @ q'" "G2 t u y"
          using q'(4) ns by auto
        then show ?thesis
          using x G by (intro exI[of _ "x @ y"]) simp
      qed
      then show ?thesis
        using u q' 3(3) unfolding took_def by auto
    qed (use took' in \<open>auto simp: took_def\<close>)
    then show ?thesis
      using m 3(1) f by (simp add: unless_null_def)
  qed
qed

lemma took_end: "view D (lex_stream l) q \<Longrightarrow> lex_depth l = d \<Longrightarrow> G j [] \<Longrightarrow> took D d q G (Some j, l)"
  by (auto simp: took_def)

lemma object_text:
  "members_text fin d [] ms z \<Longrightarrow> ws w \<Longrightarrow> x @ y = z @ ''}'' \<Longrightarrow> value_text fin (Suc d) (JObject ms) (CHR ''{'' # w @ x @ y)"
  using Object[OF ws_members, of fin d ms z w] by simp

lemma object_step:
  assumes "members_ok fin D n"
  shows "object_ok fin D (Suc n)"
  unfolding object_ok_def
proof (intro allI impI)
  fix l :: lex and s
  assume v: "view D (lex_stream l) s" and n: "3 * length s + 6 \<le> Suc n"
  obtain k where k: "n = Suc k"
    using n by (cases n) auto
  let ?d = "lex_depth l"
  let ?G = "\<lambda>t u y. t = TOKEN_CHAR (CHR ''}'') \<and> u = JObject [] \<and> y = [] \<or>
    (\<forall>x. token_text fin t x \<longrightarrow> (\<exists>ms z. u = JObject ms \<and> x @ y = z @ ''}'' \<and> members_text fin (budget ?d) [] ms z))"
  show "returns (parse_object (Suc n) no_flags fin l) (took D ?d s (\<lambda>t x. value_text fin (Suc (budget ?d)) t (CHR ''{'' # x)))"
    unfolding parse_object.simps(2)
  proof (rule after_scan[OF v refl, where ?G1.0 = ?G])
    fix l' :: lex and q
    assume q: "view D (lex_stream l') q" "length q < length s" "lex_depth l' = ?d"
    then have "returns (parse_members n no_flags fin [] l') (took D ?d q (?G (lex_token l')))"
      using members_okD[OF assms q(1), of ?d "[]"] n by (auto elim!: returns_mono simp: took_def)
    then show "returns (if lex_token l' = TOKEN_CHAR (CHR ''}'') then Some (Some (JObject []), l') else parse_members n no_flags fin [] l')
        (took D ?d q (?G (lex_token l')))"
      using took_end q by auto
  next
    fix t u w x y
    assume "ws w" "token_text fin t x" "?G t u y"
    then show "value_text fin (Suc (budget ?d)) u (CHR ''{'' # w @ x @ y)"
      by (auto simp: token_text_def EmptyObject object_text)
  qed (use parse_members_broken parse_members_no_key in \<open>auto simp: k simp del: not_None_eq intro!: failed_any\<close>)
qed

lemma array_text:
  "items_text fin d ts z \<Longrightarrow> ws w \<Longrightarrow> x @ y = z @ '']'' \<Longrightarrow> value_text fin (Suc d) (JArray ts) (CHR ''['' # w @ x @ y)"
  using Array[OF ws_items, of fin d ts z w] by simp

lemma array_step:
  assumes "items_ok fin D n"
  shows "array_ok fin D (Suc n)"
  unfolding array_ok_def
proof (intro allI impI)
  fix l :: lex and s
  assume v: "view D (lex_stream l) s" and n: "3 * length s + 6 \<le> Suc n"
  let ?d = "lex_depth l"
  let ?G = "\<lambda>t u y. t = TOKEN_CHAR (CHR '']'') \<and> u = JArray [] \<and> y = [] \<or>
    (\<forall>x. token_text fin t x \<longrightarrow> (\<exists>ts z. u = JArray ts \<and> x @ y = z @ '']'' \<and> items_text fin (budget ?d) ts z))"
  show "returns (parse_array (Suc n) no_flags fin l) (took D ?d s (\<lambda>t x. value_text fin (Suc (budget ?d)) t (CHR ''['' # x)))"
    unfolding parse_array.simps(2)
  proof (rule after_scan[OF v refl, where ?G1.0 = ?G])
    fix l' :: lex and q
    assume q: "view D (lex_stream l') q" "length q < length s" "lex_depth l' = ?d"
    then have "returns (parse_items n no_flags fin [] l') (took D ?d q (?G (lex_token l')))"
      using items_okD[OF assms q(1), of ?d "[]"] n by (auto elim!: returns_mono simp: took_def)
    then show "returns (if lex_token l' = TOKEN_CHAR (CHR '']'') then Some (Some (JArray []), l') else parse_items n no_flags fin [] l')
        (took D ?d q (?G (lex_token l')))"
      using took_end q by auto
  next
    fix t u w x y
    assume "ws w" "token_text fin t x" "?G t u y"
    then show "value_text fin (Suc (budget ?d)) u (CHR ''['' # w @ x @ y)"
      by (auto simp: token_text_def EmptyArray array_text)
  qed (use n parse_items_broken parse_items_no_item in \<open>auto simp del: not_None_eq intro!: failed_any\<close>)
qed

lemma value_step:
  assumes "object_ok fin D n" "array_ok fin D n"
  shows "value_ok fin D (Suc n)"
  unfolding value_ok_def
proof (intro allI impI)
  fix l :: lex and s
  assume v: "view D (lex_stream l) s" and n: "3 * length s + 7 \<le> Suc n"
  let ?l = "l\<lparr>lex_depth := lex_depth l + 1\<rparr>" and ?d = "lex_depth l"
  let ?G = "\<lambda>t x. \<forall>y. token_text fin (lex_token l) y \<longrightarrow> value_text fin (budget ?d) t (y @ x)"
  show "returns (parse_value (Suc n) no_flags fin l) (took D ?d s ?G)"
  proof (cases "?d + 1 > JSON_PARSER_MAX_DEPTH")
    case True
    then show ?thesis
      by (simp add: parse_value.simps(2))
  next
    case False
    then have b: "budget ?d = Suc (budget (?d + 1))"
      by (simp add: Suc_diff_le)
    have v': "view D (lex_stream ?l) s"
      using v by simp
    define m where "m = (if lex_token l = TOKEN_CHAR (CHR ''{'') then parse_object n no_flags fin ?l
        else if lex_token l = TOKEN_CHAR (CHR ''['') then parse_array n no_flags fin ?l
        else Some (parse_scalar no_flags (lex_token l), ?l))"
    have "returns m (took D (?d + 1) s ?G)"
    proof (cases "lex_token l = TOKEN_CHAR (CHR ''{'') \<or> lex_token l = TOKEN_CHAR (CHR ''['')")
      case True
      then show ?thesis
        using object_okD[OF assms(1) v', of "?d + 1"] array_okD[OF assms(2) v', of "?d + 1"] n
        by (auto simp: m_def token_text_def b is_punctuation_def)
    next
      case False
      have "took D (?d + 1) s ?G (parse_scalar no_flags (lex_token l), ?l)"
        using v' scalar_text[of "lex_token l"] by (cases "parse_scalar no_flags (lex_token l)") (auto simp: b intro!: took_end)
      then show ?thesis
        using False by (simp add: m_def)
    qed
    then have "returns (unless_null m (\<lambda>json l. Some (Some json, l\<lparr>lex_depth := lex_depth l - 1\<rparr>))) (took D ?d s ?G)"
      unfolding returns_def unless_null_def took_def by (auto split: option.split)
    moreover have "parse_value (Suc n) no_flags fin l = unless_null m (\<lambda>json l. Some (Some json, l\<lparr>lex_depth := lex_depth l - 1\<rparr>))"
      using False by (simp add: parse_value.simps(2) m_def)
    ultimately show ?thesis
      by simp
  qed
qed

text \<open>
  The text of the member \<open>k\<close> behind its colon, and behind its value \<open>v\<close>, where \<open>ms\<close> has
  been read before it.
\<close>

definition member_rest :: "(string \<Rightarrow> bool) \<Rightarrow> nat \<Rightarrow> (string \<times> json) list \<Rightarrow> string \<Rightarrow> json \<Rightarrow> string \<Rightarrow> bool" where
  "member_rest fin d ms k u z \<longleftrightarrow> (\<exists>ms' z'. u = JObject ms' \<and> z = z' @ ''}'' \<and>
     (\<forall>kx w2. string_text k kx \<longrightarrow> ws w2 \<longrightarrow> members_text fin d ms ms' (CHR 0x22 # kx @ CHR 0x22 # w2 @ CHR '':'' # z')))"

definition member_end :: "(string \<Rightarrow> bool) \<Rightarrow> nat \<Rightarrow> (string \<times> json) list \<Rightarrow> string \<Rightarrow> json \<Rightarrow> json \<Rightarrow> string \<Rightarrow> bool" where
  "member_end fin d ms k v u z \<longleftrightarrow> (\<exists>ms' z'. u = JObject ms' \<and> z = z' @ ''}'' \<and>
     (\<forall>kx w2 w3 y. string_text k kx \<longrightarrow> ws w2 \<longrightarrow> ws w3 \<longrightarrow> value_text fin d v y \<longrightarrow>
       members_text fin d ms ms' (CHR 0x22 # kx @ CHR 0x22 # w2 @ CHR '':'' # w3 @ y @ z')))"

lemma member_end_brace: "nul \<notin> set k \<Longrightarrow> ws w \<Longrightarrow> member_end fin d ms k v (JObject (object_set ms k v)) (w @ ''}'')"
  using Member[of "[]" k] by (auto simp: member_end_def)

text \<open>After the comma: the next key and the members from there.\<close>

definition more_members :: "(string \<Rightarrow> bool) \<Rightarrow> nat \<Rightarrow> (string \<times> json) list \<Rightarrow> json \<Rightarrow> string \<Rightarrow> bool" where
  "more_members fin d ms u y \<longleftrightarrow> (\<exists>ms' z. u = JObject ms' \<and> y = z @ ''}'' \<and> members_text fin d ms ms' z)"

lemma member_end_more:
  assumes "nul \<notin> set k" "ws w" "more_members fin d (object_set ms k v) u y"
  shows "member_end fin d ms k v u (w @ CHR '','' # y)"
  using assms Members[of "[]" k _ _ _ fin d v _ w ms] unfolding more_members_def member_end_def by fastforce

lemma scan_members:
  assumes "members_ok fin D n" and v: "view D (lex_stream l) s" "lex_depth l = d" and n: "3 * length s + 5 \<le> n"
  shows "returns (lex_scan no_flags fin l \<bind> parse_members n no_flags fin ms) (took D d s (more_members fin (budget d) ms))"
proof (rule after_scan[OF v, where ?G1.0 = "\<lambda>t u y. \<forall>x. token_text fin t x \<longrightarrow>
    (\<exists>ms' z. u = JObject ms' \<and> x @ y = z @ ''}'' \<and> members_text fin (budget d) ms ms' z)"])
  fix l' :: lex and q
  assume "view D (lex_stream l') q" "length q < length s" "lex_depth l' = d"
  then show "returns (parse_members n no_flags fin ms l') (took D d q (\<lambda>u y. \<forall>x. token_text fin (lex_token l') x \<longrightarrow>
      (\<exists>ms' z. u = JObject ms' \<and> x @ y = z @ ''}'' \<and> members_text fin (budget d) ms ms' z)))"
    using n by (intro members_okD[OF assms(1)]) auto
next
  obtain k where k: "n = Suc k"
    using n by (cases n) auto
  fix l'
  show "returns (parse_members n no_flags fin ms l') (\<lambda>(j, l'). j \<noteq> None \<longrightarrow> malformed D (lex_stream l') \<and> lex_depth l' = d)"
    if "malformed D (lex_stream l')"
    using that unfolding k by (intro failed_any parse_members_broken)
  show "returns (parse_members n no_flags fin ms l') (\<lambda>(j, l'). j = None)"
    if "lex_token l' = TOKEN_INVALID \<or> lex_token l' = TOKEN_EOF"
    using that unfolding k by (intro parse_members_no_key)
next
  fix t u w x y
  assume "ws w" "token_text fin t x" "\<forall>x. token_text fin t x \<longrightarrow>
    (\<exists>ms' z. u = JObject ms' \<and> x @ y = z @ ''}'' \<and> members_text fin (budget d) ms ms' z)"
  then show "more_members fin (budget d) ms u (w @ x @ y)"
    unfolding more_members_def using ws_members by fastforce
qed

lemma scan_members_broken:
  "malformed D (lex_stream l) \<Longrightarrow> returns (lex_scan no_flags fin l \<bind> parse_members (Suc n) no_flags fin ms) (\<lambda>(j, l'). j = None)"
  by (erule returns_bind[OF lex_scan_broken]) (use parse_members_no_key in blast)

text \<open>The statements of the loop behind a value.\<close>

definition object_tail :: "nat \<Rightarrow> (string \<Rightarrow> bool) \<Rightarrow> (string \<times> json) list \<Rightarrow> lex \<Rightarrow> (json option \<times> lex) option" where
  "object_tail n fin ms l = do {
     l \<leftarrow> lex_scan no_flags fin l;
     if lex_token l = TOKEN_CHAR (CHR '','') then lex_scan no_flags fin l \<bind> parse_members n no_flags fin ms
     else if lex_token l \<noteq> TOKEN_CHAR (CHR ''}'') then Some (None, l)
     else Some (Some (JObject ms), l) }"

lemma object_tail_broken: "malformed D (lex_stream l) \<Longrightarrow> returns (object_tail n fin ms l) (\<lambda>(j, l). j = None)"
  unfolding object_tail_def by (erule returns_bind[OF lex_scan_broken]) auto

lemma member_tail:
  assumes "members_ok fin D n" and v: "view D (lex_stream l) s" "lex_depth l = d" and n: "3 * length s + 2 \<le> n" and k: "nul \<notin> set k"
  shows "returns (object_tail n fin (object_set ms k v) l) (took D d s (member_end fin (budget d) ms k v))"
  unfolding object_tail_def
proof (rule after_scan[OF v, where ?G1.0 = "\<lambda>t u y. t = TOKEN_CHAR (CHR ''}'') \<and> u = JObject (object_set ms k v) \<and> y = [] \<or>
    t = TOKEN_CHAR (CHR '','') \<and> more_members fin (budget d) (object_set ms k v) u y"], goal_cases)
  case (1 l')
  obtain n' where "n = Suc n'"
    using n by (cases n) auto
  then show ?case
    using 1 scan_members_broken by (auto simp del: not_None_eq intro!: failed_any)
next
  case (2 l')
  then show ?case
    by auto
next
  case (3 l' q)
  then have "returns (lex_scan no_flags fin l' \<bind> parse_members n no_flags fin (object_set ms k v))
      (took D d q (more_members fin (budget d) (object_set ms k v)))"
    using n by (intro scan_members[OF assms(1)]) auto
  then show ?case
    using 3 took_end by auto
next
  case (4 t u w x y)
  then show ?case
    using k by (auto simp: token_text_def member_end_brace member_end_more)
qed

lemma member_rest_value:
  assumes "nul \<notin> set k" "ws w" "value_text fin d v x" "member_end fin d ms k v u y"
  shows "member_rest fin d ms k u (w @ x @ y)"
  using assms unfolding member_end_def member_rest_def by fastforce

lemma colon_rest:
  assumes ok: "value_ok fin D n" "members_ok fin D n" and v: "view D (lex_stream l) s" "lex_depth l = d" and n: "3 * length s + 4 \<le> n"
    and k: "nul \<notin> set k"
  shows "returns (lex_scan no_flags fin l \<bind> (\<lambda>l. unless_null (parse_value n no_flags fin l) (\<lambda>json l. object_tail n fin (object_set ms k json) l)))
    (took D d s (member_rest fin (budget d) ms k))"
proof (rule after_scan[OF v, where ?G1.0 = "\<lambda>t u y. \<forall>x. token_text fin t x \<longrightarrow>
    (\<exists>v y1 y2. y = y1 @ y2 \<and> value_text fin (budget d) v (x @ y1) \<and> member_end fin (budget d) ms k v u y2)"], goal_cases)
  case (1 l')
  then show ?case
    using n by (intro failed_any broken_value_then object_tail_broken) auto
next
  case (2 l')
  then show ?case
    using n by (intro no_value_then) auto
next
  case (3 l' q)
  show ?case
  proof (rule after_value)
    show "returns (parse_value n no_flags fin l') (took D d q (\<lambda>t x. \<forall>y. token_text fin (lex_token l') y \<longrightarrow> value_text fin (budget d) t (y @ x)))"
      using 3 n by (intro value_okD[OF ok(1)]) auto
  next
    fix json q' and l :: lex
    assume "view D (lex_stream l) q'" "length q' \<le> length q" "lex_depth l = d"
    then show "returns (object_tail n fin (object_set ms k json) l) (took D d q' (member_end fin (budget d) ms k json))"
      using 3 n k by (intro member_tail[OF ok(2)]) auto
  qed (auto simp del: not_None_eq intro!: failed_any object_tail_broken)
next
  case (4 t u w x y)
  then obtain v y1 y2 where "y = y1 @ y2" "value_text fin (budget d) v (x @ y1)" "member_end fin (budget d) ms k v u y2"
    by blast
  then show ?case
    using member_rest_value[OF k 4(1), of fin "budget d" v "x @ y1" ms u y2] by simp
qed

lemma members_step:
  assumes "value_ok fin D n" "members_ok fin D n"
  shows "members_ok fin D (Suc n)"
  unfolding members_ok_def
proof (intro allI impI)
  fix l :: lex and s ms
  assume v: "view D (lex_stream l) s" and n: "3 * length s + 8 \<le> Suc n"
  let ?d = "lex_depth l"
  let ?G = "\<lambda>t x. \<forall>y. token_text fin (lex_token l) y \<longrightarrow>
    (\<exists>ms' z. t = JObject ms' \<and> y @ x = z @ ''}'' \<and> members_text fin (budget ?d) ms ms' z)"
  show "returns (parse_members (Suc n) no_flags fin ms l) (took D ?d s ?G)"
  proof (cases "\<exists>k. lex_token l = TOKEN_STRING k \<and> nul \<notin> set k")
    case False
    then show ?thesis
      by (auto simp: parse_members.simps(2) lex_steal_string_def split: token.split)
  next
    case True
    then obtain k where k: "lex_token l = TOKEN_STRING k" "nul \<notin> set k"
      by blast
    have "returns (lex_scan no_flags fin l \<bind> (\<lambda>l. if lex_token l \<noteq> TOKEN_CHAR (CHR '':'') then Some (None, l)
      else lex_scan no_flags fin l \<bind> (\<lambda>l. unless_null (parse_value n no_flags fin l) (\<lambda>json l. object_tail n fin (object_set ms k json) l))))
      (took D ?d s ?G)"
    proof (rule after_scan[OF v refl, where ?G1.0 = "\<lambda>t u y. t = TOKEN_CHAR (CHR '':'') \<and> member_rest fin (budget ?d) ms k u y"], goal_cases)
      case (1 l')
      then show ?case
        using n by (auto simp del: not_None_eq intro!: failed_any returns_bind[OF lex_scan_broken] no_value_then)
    next
      case (3 l' q)
      then show ?case
        using n colon_rest[OF assms 3(1, 3), of k ms] k(2) by auto
    next
      case (4 t u w x y)
      then show ?case
        using k by (fastforce simp: token_text_def member_rest_def)
    qed auto
    then show ?thesis
      using k unfolding object_tail_def[abs_def] by (simp add: parse_members.simps(2) lex_steal_string_def)
  qed
qed

text \<open>The text of the items behind the value \<open>v\<close>, where \<open>ts\<close> has been read before it.\<close>

definition items_end :: "(string \<Rightarrow> bool) \<Rightarrow> nat \<Rightarrow> json list \<Rightarrow> json \<Rightarrow> json \<Rightarrow> string \<Rightarrow> bool" where
  "items_end fin d ts v u z \<longleftrightarrow> (\<exists>us z'. u = JArray (ts @ us) \<and> z = z' @ '']'' \<and>
     (\<forall>y. value_text fin d v y \<longrightarrow> items_text fin d us (y @ z')))"

definition more_items :: "(string \<Rightarrow> bool) \<Rightarrow> nat \<Rightarrow> json list \<Rightarrow> json \<Rightarrow> string \<Rightarrow> bool" where
  "more_items fin d ts u y \<longleftrightarrow> (\<exists>us z. u = JArray (ts @ us) \<and> y = z @ '']'' \<and> items_text fin d us z)"

lemma items_end_bracket: "ws w \<Longrightarrow> items_end fin d ts v (JArray (ts @ [v])) (w @ '']'')"
  using Item[of "[]"] by (auto simp: items_end_def)

lemma items_end_more:
  assumes "ws w" "more_items fin d (ts @ [v]) u y"
  shows "items_end fin d ts v u (w @ CHR '','' # y)"
  using assms Items[of "[]" fin d v _ w] unfolding more_items_def items_end_def by fastforce

lemma scan_items:
  assumes "items_ok fin D n" and v: "view D (lex_stream l) s" "lex_depth l = d" and n: "3 * length s + 5 \<le> n"
  shows "returns (lex_scan no_flags fin l \<bind> parse_items n no_flags fin ts) (took D d s (more_items fin (budget d) ts))"
proof (rule after_scan[OF v, where ?G1.0 = "\<lambda>t u y. \<forall>x. token_text fin t x \<longrightarrow>
    (\<exists>us z. u = JArray (ts @ us) \<and> x @ y = z @ '']'' \<and> items_text fin (budget d) us z)"], goal_cases)
  case (1 l')
  then show ?case
    using n by (intro failed_any parse_items_broken) auto
next
  case (2 l')
  then show ?case
    using n by (intro parse_items_no_item) auto
next
  case (3 l' q)
  then show ?case
    using n by (intro items_okD[OF assms(1)]) auto
next
  case (4 t u w x y)
  then show ?case
    unfolding more_items_def using ws_items by fastforce
qed

definition array_tail :: "nat \<Rightarrow> (string \<Rightarrow> bool) \<Rightarrow> json list \<Rightarrow> lex \<Rightarrow> (json option \<times> lex) option" where
  "array_tail n fin ts l = do {
     l \<leftarrow> lex_scan no_flags fin l;
     if lex_token l = TOKEN_CHAR (CHR '','') then lex_scan no_flags fin l \<bind> parse_items n no_flags fin ts
     else if lex_token l \<noteq> TOKEN_CHAR (CHR '']'') then Some (None, l)
     else Some (Some (JArray ts), l) }"

lemma array_tail_broken: "malformed D (lex_stream l) \<Longrightarrow> returns (array_tail n fin ts l) (\<lambda>(j, l). j = None)"
  unfolding array_tail_def by (erule returns_bind[OF lex_scan_broken]) auto

lemma item_tail:
  assumes "items_ok fin D n" and v: "view D (lex_stream l) s" "lex_depth l = d" and n: "3 * length s + 2 \<le> n"
  shows "returns (array_tail n fin (ts @ [v]) l) (took D d s (items_end fin (budget d) ts v))"
  unfolding array_tail_def
proof (rule after_scan[OF v, where ?G1.0 = "\<lambda>t u y. t = TOKEN_CHAR (CHR '']'') \<and> u = JArray (ts @ [v]) \<and> y = [] \<or>
    t = TOKEN_CHAR (CHR '','') \<and> more_items fin (budget d) (ts @ [v]) u y"], goal_cases)
  case (1 l')
  then show ?case
    using n by (auto simp del: not_None_eq intro!: failed_any returns_bind[OF lex_scan_broken] parse_items_no_item)
next
  case (3 l' q)
  then have "returns (lex_scan no_flags fin l' \<bind> parse_items n no_flags fin (ts @ [v])) (took D d q (more_items fin (budget d) (ts @ [v])))"
    using n by (intro scan_items[OF assms(1)]) auto
  then show ?case
    using 3 took_end by auto
next
  case (4 t u w x y)
  then show ?case
    by (auto simp: token_text_def items_end_bracket items_end_more)
qed auto

lemma items_step:
  assumes ok: "value_ok fin D n" "items_ok fin D n"
  shows "items_ok fin D (Suc n)"
  unfolding items_ok_def
proof (intro allI impI)
  fix l :: lex and s ts
  assume v: "view D (lex_stream l) s" and n: "3 * length s + 8 \<le> Suc n"
  let ?d = "lex_depth l"
  let ?G = "\<lambda>t x. \<forall>y. token_text fin (lex_token l) y \<longrightarrow>
    (\<exists>us z. t = JArray (ts @ us) \<and> y @ x = z @ '']'' \<and> items_text fin (budget ?d) us z)"
  have "returns (unless_null (parse_value n no_flags fin l) (\<lambda>elem l. array_tail n fin (ts @ [elem]) l)) (took D ?d s ?G)"
  proof (rule after_value[OF value_okD[OF ok(1) v _ refl]])
    fix elem q and l' :: lex
    assume "view D (lex_stream l') q" "length q \<le> length s" "lex_depth l' = ?d"
    then show "returns (array_tail n fin (ts @ [elem]) l') (took D ?d q (items_end fin (budget ?d) ts elem))"
      using n by (intro item_tail[OF ok(2)]) auto
  next
    fix t u x y
    assume "\<forall>y. token_text fin (lex_token l) y \<longrightarrow> value_text fin (budget ?d) t (y @ x)" "items_end fin (budget ?d) ts t u y"
    then show "\<forall>y'. token_text fin (lex_token l) y' \<longrightarrow>
        (\<exists>us z. u = JArray (ts @ us) \<and> y' @ x @ y = z @ '']'' \<and> items_text fin (budget ?d) us z)"
      unfolding items_end_def by fastforce
  qed (use n in \<open>auto simp del: not_None_eq intro!: failed_any array_tail_broken\<close>)
  then show "returns (parse_items (Suc n) no_flags fin ts l) (took D ?d s ?G)"
    by (simp add: parse_items.simps(2) array_tail_def)
qed

lemma parser_ok: "value_ok fin D n \<and> object_ok fin D n \<and> members_ok fin D n \<and> array_ok fin D n \<and> items_ok fin D n"
proof (induction n)
  case 0
  show ?case
    by (simp add: value_ok_def object_ok_def members_ok_def array_ok_def items_ok_def)
next
  case (Suc n)
  then show ?case
    using value_step object_step members_step array_step items_step by blast
qed

section \<open>The decoder returns, and what it accepts\<close>

text \<open>The last scan finds the end only of data that is valid, and only behind white space.\<close>

lemma view_end: "view D st [] \<Longrightarrow> \<not> malformed D st \<Longrightarrow> utf8_check_string D"
  by (auto simp: view_def malformed_def split: stream_state.splits)

lemma scan_end:
  assumes "view D (lex_stream l) s"
  shows "returns (lex_scan no_flags fin l) (\<lambda>l'. lex_token l' = TOKEN_EOF \<longrightarrow> ws s \<and> utf8_check_string D)"
proof (rule returns_mono[OF lex_scan_lexed[OF assms refl]])
  fix l'
  assume "lexed D (lex_depth l) (lexeme no_flags fin s) l'"
  then show "lex_token l' = TOKEN_EOF \<longrightarrow> ws s \<and> utf8_check_string D"
    using lexeme_EOF_D[of fin s] by (auto simp: lexed_def split: prod.splits dest: view_end)
qed

lemma scan_end_broken:
  "malformed D (lex_stream l) \<Longrightarrow> returns (lex_scan no_flags fin l) (\<lambda>l'. lex_token l' \<noteq> TOKEN_EOF)"
  by (erule returns_mono[OF lex_scan_broken]) simp

text \<open>The statements of \<open>parse_json\<close> behind the value.\<close>

lemma json_end:
  assumes "took D d s G (j, l)"
  shows "returns (if j = None then Some None else lex_scan no_flags fin l \<bind> (\<lambda>l. Some (if lex_token l \<noteq> TOKEN_EOF then None else j)))
    (\<lambda>r. \<forall>t. r = Some t \<longrightarrow> utf8_check_string D \<and> (nul \<notin> set s \<longrightarrow> (\<exists>x w. s = x @ w \<and> ws w \<and> G t x)))"
proof -
  consider "j = None" | t where "j = Some t" "malformed D (lex_stream l)"
    | t q where "j = Some t" "view D (lex_stream l) q" "nul \<notin> set s \<longrightarrow> (\<exists>x. s = x @ q \<and> G t x)"
    using assms unfolding took_def by (cases j) auto
  then show ?thesis
  proof cases
    case (2 t)
    then show ?thesis
      by (auto intro!: returns_bind[OF scan_end_broken])
  next
    case (3 t q)
    then show ?thesis
      by (auto intro!: returns_bind[OF scan_end[OF 3(2)]]) blast
  qed simp
qed

lemma number_no_bracket:
  assumes "int_text n i"
  shows "hd (i @ f) \<noteq> CHR ''{'' \<and> hd (i @ f) \<noteq> CHR ''[''"
proof -
  obtain b y where "i = b # y" "\<not> is_punctuation b"
    using number_starts[OF assms] .
  then show ?thesis
    by (auto simp: is_punctuation_def)
qed

lemma value_bracket:
  assumes "value_text fin d t x" "hd x = CHR ''{'' \<or> hd x = CHR ''[''"
  shows "case t of JObject _ \<Rightarrow> True | JArray _ \<Rightarrow> True | _ \<Rightarrow> False"
  using assms(1)
proof (cases rule: value_text.cases)
  case (Integer n)
  then show ?thesis
    using assms(2) number_no_bracket[of n x "[]"] by simp
next
  case Real
  then obtain i n f where "x = i @ f" "int_text n i"
    by (auto simp: real_text_def)
  then show ?thesis
    using assms(2) number_no_bracket[of n i f] by simp
qed (use assms(2) in auto)

lemma parse_json_sound:
  assumes v: "view D (lex_stream l) s" and n: "4 * length s + 4 \<le> n"
  shows "returns (parse_json n no_flags fin l) (\<lambda>j. \<forall>t. j = Some t \<longrightarrow>
    utf8_check_string D \<and> (nul \<notin> set s \<longrightarrow> document_text fin JSON_PARSER_MAX_DEPTH t s))"
  unfolding parse_json_def
proof (rule returns_bind[OF scan_token])
  show "view D (lex_stream (l\<lparr>lex_depth := 0\<rparr>)) s"
    using v by simp
  fix l1
  assume "scanned_token fin D (lex_depth (l\<lparr>lex_depth := 0\<rparr>)) s l1"
  then have l1: "scanned_token fin D 0 s l1"
    by simp
  let ?P = "\<lambda>j. \<forall>t. j = Some t \<longrightarrow> utf8_check_string D \<and> (nul \<notin> set s \<longrightarrow> document_text fin JSON_PARSER_MAX_DEPTH t s)"
  let ?rest = "parse_value n no_flags fin l1 \<bind> (\<lambda>(j, l). if j = None then Some None
    else lex_scan no_flags fin l \<bind> (\<lambda>l. Some (if lex_token l \<noteq> TOKEN_EOF then None else j)))"
  have "returns ?rest ?P" if bracket: "lex_token l1 = TOKEN_CHAR (CHR ''['') \<or> lex_token l1 = TOKEN_CHAR (CHR ''{'')"
  proof (cases "malformed D (lex_stream l1)")
    case True
    obtain k where "n = 4 + k"
      using n le_Suc_ex by (metis add_leD2)
    then have n': "n = Suc (Suc (Suc (Suc k)))"
      by (simp add: eval_nat_numeral)
    show ?thesis
      unfolding n'
      by (rule returns_bind[OF parse_value_broken[OF True]]) (auto intro!: returns_bind[OF scan_end_broken])
  next
    case False
    then obtain q where q: "view D (lex_stream l1) q" "advances fin (lex_token l1) s q" "lex_depth l1 = 0"
      using l1 bracket by (auto simp: scanned_token_def)
    have "value_ok fin D n"
      using parser_ok by blast
    moreover have "3 * length q + 7 \<le> n"
      using advancesD[OF q(2)] n by linarith
    ultimately have "returns (parse_value n no_flags fin l1) (took D 0 q
        (\<lambda>t x. \<forall>y. token_text fin (lex_token l1) y \<longrightarrow> value_text fin (budget 0) t (y @ x)))"
      by (rule value_okD[OF _ q(1) _ q(3)])
    then show ?thesis
    proof (rule returns_bind, clarify)
      fix j l2
      assume "took D 0 q (\<lambda>t x. \<forall>y. token_text fin (lex_token l1) y \<longrightarrow> value_text fin (budget 0) t (y @ x)) (j, l2)"
      then show "returns (if j = None then Some None else lex_scan no_flags fin l2 \<bind> (\<lambda>l. Some (if lex_token l \<noteq> TOKEN_EOF then None else j))) ?P"
      proof (rule returns_mono[OF json_end], intro allI impI conjI)
        fix r t
        assume r: "\<forall>t. r = Some t \<longrightarrow> utf8_check_string D \<and> (nul \<notin> set q \<longrightarrow> (\<exists>x w. q = x @ w \<and> ws w \<and>
            (\<forall>y. token_text fin (lex_token l1) y \<longrightarrow> value_text fin (budget 0) t (y @ x))))" and t: "r = Some t"
        then show "utf8_check_string D"
          by blast
        assume ns: "nul \<notin> set s"
        obtain w1 y where y: "s = w1 @ y @ q" "ws w1" "token_text fin (lex_token l1) y"
          using q(2) ns by (auto simp: advances_def)
        then obtain x w2 where x: "q = x @ w2" "ws w2" "value_text fin (budget 0) t (y @ x)"
          using r t ns by auto
        have "hd (y @ x) = CHR ''{'' \<or> hd (y @ x) = CHR ''[''"
          using y(3) bracket by (auto simp: token_text_def)
        then show "document_text fin JSON_PARSER_MAX_DEPTH t s"
          using value_bracket[OF x(3)] x y unfolding document_text_def by (intro conjI exI[of _ w1] exI[of _ "y @ x"] exI[of _ w2]) auto
      qed
    qed
  qed
  moreover have flags: "(\<not> JSON_DISABLE_EOF_CHECK no_flags) = True"
    by simp
  ultimately show "returns (if \<not> JSON_DECODE_ANY no_flags \<and> lex_token l1 \<noteq> TOKEN_CHAR (CHR ''['') \<and> lex_token l1 \<noteq> TOKEN_CHAR (CHR ''{'') then Some None
    else parse_value n no_flags fin l1 \<bind> (\<lambda>(result, l). if result = None then Some None
      else if \<not> JSON_DISABLE_EOF_CHECK no_flags then lex_scan no_flags fin l \<bind>
        (\<lambda>l. Some (if lex_token l \<noteq> TOKEN_EOF then None else result)) else Some result)) ?P"
    unfolding flags if_True by auto
qed

end
