(* ===== verification/JSON_Complete.thy ===== *)
theory JSON_Complete
  imports JSON_Parser
begin

text \<open>
  The parser accepts every text of the grammar: from the first token of a value, of
  members or of items it returns their tree and leaves what is behind them.
\<close>

section \<open>Tokens in front of a text\<close>

lemma lexeme_ws: "ws w \<Longrightarrow> lexeme fl fin (w @ s) = lexeme fl fin s"
  by (simp add: lexeme_def ws_space list_all_iff)

text \<open>A scan of valid data, and one of data that begins with the text of a token.\<close>

lemma scan_lexeme:
  assumes "lex_scan no_flags fin l = Some l'" "view D (lex_stream l) s" "utf8_check_string D"
    and "lexeme no_flags fin s = (t, q)" "t \<noteq> TOKEN_INVALID"
  shows "lex_token l' = t \<and> lex_depth l' = lex_depth l \<and> view D (lex_stream l') q"
proof -
  have "lexed D (lex_depth l) (t, q) l'"
    using lex_scan_lexed[OF assms(2) refl, of no_flags fin] assms(1, 4) by simp
  then show ?thesis
    using assms(3, 5) broken_not_utf8 by (auto simp: lexed_def)
qed

lemma token_text_valid: "token_text fin t x \<Longrightarrow> t \<noteq> TOKEN_INVALID"
  by (auto simp: token_text_def)

lemma scan_text:
  assumes "lex_scan no_flags fin l = Some l'" "view D (lex_stream l) (w @ x @ q)" "utf8_check_string D" "nul \<notin> set (w @ x @ q)"
    and "ws w" "token_text fin t x" "open_token t \<Longrightarrow> delimited q"
  shows "lex_token l' = t \<and> lex_depth l' = lex_depth l \<and> view D (lex_stream l') q"
proof (rule scan_lexeme[OF assms(1-3)])
  show "lexeme no_flags fin (w @ x @ q) = (t, q)"
    using lexeme_text[OF assms(6, 5, 7)] assms(4) by (simp add: unread_id)
qed (rule token_text_valid[OF assms(6)])

lemma scan_char:
  assumes "lex_scan no_flags fin l = Some l'" "view D (lex_stream l) (w @ b # q)" "utf8_check_string D" "nul \<notin> set (w @ b # q)"
    and "ws w" "is_punctuation b"
  shows "lex_token l' = TOKEN_CHAR b \<and> lex_depth l' = lex_depth l \<and> view D (lex_stream l') q"
  using scan_text[of fin l l' D w "[b]" q "TOKEN_CHAR b"] assms by (simp add: token_text_def open_token_def)

lemma punctuation [simp]: "is_punctuation (CHR ''{'')" "is_punctuation (CHR ''}'')" "is_punctuation (CHR ''['')"
  "is_punctuation (CHR '']'')" "is_punctuation (CHR '':'')" "is_punctuation (CHR '','')"
  by (simp_all add: is_punctuation_def)

lemma stops_ws: "ws w \<Longrightarrow> is_punctuation b \<Longrightarrow> delimited (w @ b # r)"
  by (cases w) (auto simp: delimited_def is_space_def is_punctuation_def isalnum_def isalpha_def isupper_def islower_def isdigit_def)

lemma stops_ws_end: "ws w \<Longrightarrow> delimited w"
  by (cases w) (auto simp: delimited_def is_space_def isalnum_def isalpha_def isupper_def islower_def isdigit_def)

text \<open>The first token of a value; one that could go on is the whole value.\<close>

lemma value_first:
  assumes "value_text fin d t x"
  obtains t0 y z where "x = y @ z" "token_text fin t0 y" "open_token t0 \<longrightarrow> z = []" "t0 \<noteq> TOKEN_CHAR (CHR '']'')"
  using assms
proof (cases rule: value_text.cases)
  case StringV
  then show ?thesis
    using that[of x "[]" "TOKEN_STRING v" for v] by (auto simp: token_text_def open_token_def)
next
  case (Integer n)
  then show ?thesis
    using that[of x "[]" "TOKEN_INTEGER n"] by (auto simp: token_text_def)
next
  case Real
  then show ?thesis
    using that[of x "[]" "TOKEN_REAL x"] by (auto simp: token_text_def)
next
  case Null
  then show ?thesis
    using that[of x "[]" TOKEN_NULL] by (auto simp: token_text_def)
next
  case TrueV
  then show ?thesis
    using that[of x "[]" TOKEN_TRUE] by (auto simp: token_text_def)
next
  case FalseV
  then show ?thesis
    using that[of x "[]" TOKEN_FALSE] by (auto simp: token_text_def)
qed (use that[of "[hd x]" "tl x" "TOKEN_CHAR (hd x)"] in \<open>auto simp: token_text_def open_token_def\<close>)

lemma value_lexeme:
  assumes "value_text fin d t x" "delimited r" "nul \<notin> set (x @ r)"
  obtains t0 q where "lexeme no_flags fin (x @ r) = (t0, q)" "t0 \<noteq> TOKEN_INVALID" "t0 \<noteq> TOKEN_CHAR (CHR '']'')"
proof -
  obtain t0 y z where x: "x = y @ z" "token_text fin t0 y" "open_token t0 \<longrightarrow> z = []" "t0 \<noteq> TOKEN_CHAR (CHR '']'')"
    by (rule value_first[OF assms(1)])
  have "open_token t0 \<Longrightarrow> delimited (z @ r)"
    using x(3) assms(2) by simp
  then show ?thesis
    using that[OF _ token_text_valid[OF x(2)] x(4)] lexeme_text[OF x(2), of "[]" "z @ r"] x(1) by simp
qed

section \<open>The functions of the parser\<close>

definition reads_value :: "(string \<Rightarrow> bool) \<Rightarrow> string \<Rightarrow> nat \<Rightarrow> json \<Rightarrow> string \<Rightarrow> bool" where
  "reads_value fin D b t x \<longleftrightarrow> (\<forall>n l l' j r s. lexeme no_flags fin (x @ r) = (lex_token l, s) \<longrightarrow> view D (lex_stream l) s \<longrightarrow>
     nul \<notin> set (x @ r) \<longrightarrow> delimited r \<longrightarrow> lex_depth l + b \<le> JSON_PARSER_MAX_DEPTH \<longrightarrow> parse_value n no_flags fin l = Some (j, l') \<longrightarrow>
     j = Some t \<and> view D (lex_stream l') r \<and> lex_depth l' = lex_depth l)"

definition reads_members :: "(string \<Rightarrow> bool) \<Rightarrow> string \<Rightarrow> nat \<Rightarrow> (string \<times> json) list \<Rightarrow> (string \<times> json) list \<Rightarrow> string \<Rightarrow> bool" where
  "reads_members fin D b ms ms' z \<longleftrightarrow> (\<forall>n l l' j r s. lexeme no_flags fin (z @ CHR ''}'' # r) = (lex_token l, s) \<longrightarrow> view D (lex_stream l) s \<longrightarrow>
     nul \<notin> set (z @ CHR ''}'' # r) \<longrightarrow> lex_depth l + b \<le> JSON_PARSER_MAX_DEPTH \<longrightarrow> parse_members n no_flags fin ms l = Some (j, l') \<longrightarrow>
     j = Some (JObject ms') \<and> view D (lex_stream l') r \<and> lex_depth l' = lex_depth l)"

definition reads_items :: "(string \<Rightarrow> bool) \<Rightarrow> string \<Rightarrow> nat \<Rightarrow> json list \<Rightarrow> string \<Rightarrow> bool" where
  "reads_items fin D b us z \<longleftrightarrow> (\<forall>n l l' j r s ts. lexeme no_flags fin (z @ CHR '']'' # r) = (lex_token l, s) \<longrightarrow> view D (lex_stream l) s \<longrightarrow>
     nul \<notin> set (z @ CHR '']'' # r) \<longrightarrow> lex_depth l + b \<le> JSON_PARSER_MAX_DEPTH \<longrightarrow> parse_items n no_flags fin ts l = Some (j, l') \<longrightarrow>
     j = Some (JArray (ts @ us)) \<and> view D (lex_stream l') r \<and> lex_depth l' = lex_depth l)"

text \<open>A value between white space, from the scan of its first token.\<close>

lemma scan_value:
  assumes "reads_value fin D b t y" "value_text fin b t y" "utf8_check_string D"
    and "lex_scan no_flags fin l = Some l1" "view D (lex_stream l) (w @ y @ r)" "ws w" "nul \<notin> set (w @ y @ r)" "delimited r"
    and "lex_depth l + b \<le> JSON_PARSER_MAX_DEPTH" "parse_value n no_flags fin l1 = Some (j, l')"
  shows "j = Some t \<and> view D (lex_stream l') r \<and> lex_depth l' = lex_depth l"
proof -
  obtain t0 q where q: "lexeme no_flags fin (y @ r) = (t0, q)" "t0 \<noteq> TOKEN_INVALID"
    by (rule value_lexeme[OF assms(2, 8)]) (use assms(7) in auto)
  then have "lexeme no_flags fin (w @ y @ r) = (t0, q)"
    using lexeme_ws[OF assms(6)] by simp
  then have "lex_token l1 = t0 \<and> lex_depth l1 = lex_depth l \<and> view D (lex_stream l1) q"
    using scan_lexeme[OF assms(4, 5, 3)] q(2) by blast
  then show ?thesis
    using assms(1)[unfolded reads_value_def, rule_format, of r l1 q n j l'] q(1) assms(7-10) by auto
qed

lemma parse_members_Some:
  assumes "parse_members n no_flags fin ms l = Some (j, l')" "lex_token l = TOKEN_STRING k" "nul \<notin> set k"
  obtains m l1 where "n = Suc m" "lex_scan no_flags fin l = Some l1"
    "lex_token l1 = TOKEN_CHAR (CHR '':'') \<longrightarrow> (\<exists>l2. lex_scan no_flags fin l1 = Some l2 \<and>
       unless_null (parse_value m no_flags fin l2) (\<lambda>v. object_tail m fin (object_set ms k v)) = Some (j, l'))"
proof (cases n)
  case 0
  then show ?thesis
    using assms(1) by (simp add: parse_members.simps(1))
next
  case (Suc m)
  then obtain l1 where "lex_scan no_flags fin l = Some l1"
    using assms by (cases "lex_scan no_flags fin l") (auto simp: parse_members.simps(2) lex_steal_string_def)
  then have "\<exists>l2. lex_scan no_flags fin l1 = Some l2 \<and>
      unless_null (parse_value m no_flags fin l2) (\<lambda>v. object_tail m fin (object_set ms k v)) = Some (j, l')"
    if "lex_token l1 = TOKEN_CHAR (CHR '':'')"
    using assms Suc that unfolding object_tail_def[abs_def]
    by (cases "lex_scan no_flags fin l1") (auto simp: parse_members.simps(2) lex_steal_string_def)
  then show ?thesis
    using that[OF Suc] \<open>lex_scan no_flags fin l = Some l1\<close> by blast
qed

lemma unless_null_Some:
  assumes "unless_null m f = Some (j, l')"
  obtains j1 l1 where "m = Some (j1, l1)" "\<forall>t. j1 = Some t \<longrightarrow> f t l1 = Some (j, l')"
  using assms by (auto simp: unless_null_def split: option.splits)

text \<open>A member up to the end of its value; \<open>f\<close> is what follows.\<close>

lemma reads_member:
  assumes val: "reads_value fin D b t y" "value_text fin b t y" "utf8_check_string D"
    and member: "ws w1" "string_text k x" "nul \<notin> set k" "ws w2" "ws w3" "delimited q"
    and start: "lexeme no_flags fin (w1 @ CHR 0x22 # x @ CHR 0x22 # w2 @ CHR '':'' # w3 @ y @ q) = (lex_token l, s)" "view D (lex_stream l) s"
    and n: "nul \<notin> set (w1 @ CHR 0x22 # x @ CHR 0x22 # w2 @ CHR '':'' # w3 @ y @ q)" "lex_depth l + b \<le> JSON_PARSER_MAX_DEPTH"
    and parse: "parse_members n no_flags fin ms l = Some (j, l')"
  obtains m l3 where "n = Suc m" "view D (lex_stream l3) q" "lex_depth l3 = lex_depth l"
    "object_tail m fin (object_set ms k t) l3 = Some (j, l')"
proof -
  let ?q = "w2 @ CHR '':'' # w3 @ y @ q"
  have "lexeme no_flags fin (w1 @ (CHR 0x22 # x @ [CHR 0x22]) @ ?q) = (TOKEN_STRING k, ?q)"
    using lexeme_text[of fin "TOKEN_STRING k" "CHR 0x22 # x @ [CHR 0x22]" w1 ?q] member(1, 2) by (simp add: token_text_def open_token_def)
  then have k: "lex_token l = TOKEN_STRING k" and s: "s = ?q"
    using start(1) by auto
  obtain m l1 where m: "n = Suc m" and l1: "lex_scan no_flags fin l = Some l1"
    and rest: "lex_token l1 = TOKEN_CHAR (CHR '':'') \<longrightarrow> (\<exists>l2. lex_scan no_flags fin l1 = Some l2 \<and>
       unless_null (parse_value m no_flags fin l2) (\<lambda>v. object_tail m fin (object_set ms k v)) = Some (j, l'))"
    by (rule parse_members_Some[OF parse k member(3)])
  have colon: "lex_token l1 = TOKEN_CHAR (CHR '':'') \<and> lex_depth l1 = lex_depth l \<and> view D (lex_stream l1) (w3 @ y @ q)"
    using scan_char[OF l1 start(2)[unfolded s] val(3)] n(1) member by simp
  then obtain l2 where l2: "lex_scan no_flags fin l1 = Some l2"
    and u: "unless_null (parse_value m no_flags fin l2) (\<lambda>v. object_tail m fin (object_set ms k v)) = Some (j, l')"
    using rest by blast
  obtain j3 l3 where l3: "parse_value m no_flags fin l2 = Some (j3, l3)"
    and tail: "\<forall>v. j3 = Some v \<longrightarrow> object_tail m fin (object_set ms k v) l3 = Some (j, l')"
    by (rule unless_null_Some[OF u])
  have "j3 = Some t \<and> view D (lex_stream l3) q \<and> lex_depth l3 = lex_depth l"
    using scan_value[OF val l2 _ member(5) _ member(6) _ l3] colon n by auto
  then show ?thesis
    using that[OF m] tail by blast
qed

lemma object_tail_Some:
  assumes "object_tail m fin ms l = Some (j, l')"
  obtains l1 where "lex_scan no_flags fin l = Some l1"
    "lex_token l1 = TOKEN_CHAR (CHR ''}'') \<longrightarrow> j = Some (JObject ms) \<and> l' = l1"
    "lex_token l1 = TOKEN_CHAR (CHR '','') \<longrightarrow> (\<exists>l2. lex_scan no_flags fin l1 = Some l2 \<and> parse_members m no_flags fin ms l2 = Some (j, l'))"
  using assms by (auto simp: object_tail_def bind_eq_Some_conv split: if_splits)

lemma reads_Member:
  assumes "ws w1" "string_text k x" "nul \<notin> set k" "ws w2" "ws w3" "value_text fin b t y" "ws w4" "utf8_check_string D" "reads_value fin D b t y"
  shows "reads_members fin D b ms (object_set ms k t) (w1 @ CHR 0x22 # x @ CHR 0x22 # w2 @ CHR '':'' # w3 @ y @ w4)"
  unfolding reads_members_def
proof (intro allI impI, goal_cases)
  case (1 n l l' j r s)
  have stop: "delimited (w4 @ CHR ''}'' # r)"
    using stops_ws[OF assms(7)] by simp
  obtain m l3 where l3: "view D (lex_stream l3) (w4 @ CHR ''}'' # r)" "lex_depth l3 = lex_depth l"
    "object_tail m fin (object_set ms k t) l3 = Some (j, l')"
    by (rule reads_member[OF assms(9, 6, 8, 1-5) stop _ 1(2) _ 1(4, 5)]) (use 1(1, 3) in auto)
  obtain l4 where l4: "lex_scan no_flags fin l3 = Some l4"
    "lex_token l4 = TOKEN_CHAR (CHR ''}'') \<longrightarrow> j = Some (JObject (object_set ms k t)) \<and> l' = l4"
    by (rule object_tail_Some[OF l3(3)])
  have "lex_token l4 = TOKEN_CHAR (CHR ''}'') \<and> lex_depth l4 = lex_depth l3 \<and> view D (lex_stream l4) r"
    using scan_char[OF l4(1) l3(1) assms(8) _ assms(7)] 1(3) by simp
  then show ?case
    using l4(2) l3(2) by simp
qed

lemma members_lexeme:
  assumes "members_text fin b ms ms' z"
  obtains k q where "lexeme no_flags fin (z @ r) = (TOKEN_STRING k, q)"
proof -
  obtain w x k u where z: "z = w @ (CHR 0x22 # x @ [CHR 0x22]) @ u" "ws w" "string_text k x"
    using assms by (cases rule: members_text.cases) auto
  then show ?thesis
    using that lexeme_text[of fin "TOKEN_STRING k" "CHR 0x22 # x @ [CHR 0x22]" w "u @ r"] by (simp add: token_text_def open_token_def)
qed

lemma reads_Members:
  assumes "ws w1" "string_text k x" "nul \<notin> set k" "ws w2" "ws w3" "value_text fin b t y" "ws w4" "utf8_check_string D" "reads_value fin D b t y"
    and rest: "reads_members fin D b (object_set ms k t) ms' z" "members_text fin b (object_set ms k t) ms' z"
  shows "reads_members fin D b ms ms' (w1 @ CHR 0x22 # x @ CHR 0x22 # w2 @ CHR '':'' # w3 @ y @ w4 @ CHR '','' # z)"
  unfolding reads_members_def
proof (intro allI impI, goal_cases)
  case (1 n l l' j r s)
  let ?q = "z @ CHR ''}'' # r"
  have stop: "delimited (w4 @ CHR '','' # ?q)"
    using stops_ws[OF assms(7)] by simp
  obtain m l3 where l3: "view D (lex_stream l3) (w4 @ CHR '','' # ?q)" "lex_depth l3 = lex_depth l"
    "object_tail m fin (object_set ms k t) l3 = Some (j, l')"
    by (rule reads_member[OF assms(9, 6, 8, 1-5) stop _ 1(2) _ 1(4, 5)]) (use 1(1, 3) in auto)
  obtain l4 where l4: "lex_scan no_flags fin l3 = Some l4"
    "lex_token l4 = TOKEN_CHAR (CHR '','') \<longrightarrow> (\<exists>l5. lex_scan no_flags fin l4 = Some l5 \<and>
       parse_members m no_flags fin (object_set ms k t) l5 = Some (j, l'))"
    by (rule object_tail_Some[OF l3(3)])
  have comma: "lex_token l4 = TOKEN_CHAR (CHR '','') \<and> lex_depth l4 = lex_depth l3 \<and> view D (lex_stream l4) ?q"
    using scan_char[OF l4(1) l3(1) assms(8) _ assms(7)] 1(3) by simp
  then obtain l5 where l5: "lex_scan no_flags fin l4 = Some l5" "parse_members m no_flags fin (object_set ms k t) l5 = Some (j, l')"
    using l4(2) by blast
  obtain kt q where kt: "lexeme no_flags fin ?q = (TOKEN_STRING kt, q)"
    by (rule members_lexeme[OF rest(2)])
  then have "lex_token l5 = TOKEN_STRING kt \<and> lex_depth l5 = lex_depth l4 \<and> view D (lex_stream l5) q"
    using scan_lexeme[OF l5(1) _ assms(8) kt] comma by blast
  then show ?case
    using rest(1)[unfolded reads_members_def, rule_format, of r l5 q m j l'] kt l5(2) 1(3, 4) comma l3(2) by simp
qed

lemma array_tail_Some:
  assumes "array_tail m fin ts l = Some (j, l')"
  obtains l1 where "lex_scan no_flags fin l = Some l1"
    "lex_token l1 = TOKEN_CHAR (CHR '']'') \<longrightarrow> j = Some (JArray ts) \<and> l' = l1"
    "lex_token l1 = TOKEN_CHAR (CHR '','') \<longrightarrow> (\<exists>l2. lex_scan no_flags fin l1 = Some l2 \<and> parse_items m no_flags fin ts l2 = Some (j, l'))"
  using assms by (auto simp: array_tail_def bind_eq_Some_conv split: if_splits)

lemma parse_items_Some:
  assumes "parse_items n no_flags fin ts l = Some (j, l')" "lex_token l \<noteq> TOKEN_EOF"
  obtains m where "n = Suc m" "unless_null (parse_value m no_flags fin l) (\<lambda>v. array_tail m fin (ts @ [v])) = Some (j, l')"
proof (cases n)
  case 0
  then show ?thesis
    using assms(1) by (simp add: parse_items.simps(1))
next
  case (Suc m)
  then show ?thesis
    using assms that[of m] unfolding array_tail_def[abs_def] by (simp add: parse_items.simps(2))
qed

lemma value_lexeme_EOF:
  assumes "value_text fin d t x" "delimited r" "nul \<notin> set (x @ r)"
  shows "fst (lexeme no_flags fin (x @ r)) \<noteq> TOKEN_EOF"
proof -
  obtain t0 y z where x: "x = y @ z" "token_text fin t0 y" "open_token t0 \<longrightarrow> z = []" "t0 \<noteq> TOKEN_CHAR (CHR '']'')"
    by (rule value_first[OF assms(1)])
  then show ?thesis
    using lexeme_text[OF x(2), of "[]" "z @ r"] assms(2) by (auto simp: token_text_def)
qed

lemma reads_item:
  assumes val: "reads_value fin D b t y" "value_text fin b t y"
    and item: "ws w1" "delimited q"
    and start: "lexeme no_flags fin (w1 @ y @ q) = (lex_token l, s)" "view D (lex_stream l) s"
    and n: "nul \<notin> set (w1 @ y @ q)" "lex_depth l + b \<le> JSON_PARSER_MAX_DEPTH"
    and parse: "parse_items n no_flags fin ts l = Some (j, l')"
  obtains m l3 where "view D (lex_stream l3) q" "lex_depth l3 = lex_depth l" "array_tail m fin (ts @ [t]) l3 = Some (j, l')"
proof -
  have lex: "lexeme no_flags fin (y @ q) = (lex_token l, s)"
    using start(1) lexeme_ws[OF item(1)] by simp
  then have "lex_token l \<noteq> TOKEN_EOF"
    using value_lexeme_EOF[OF val(2) item(2)] n(1) by auto
  then obtain m where u: "unless_null (parse_value m no_flags fin l) (\<lambda>v. array_tail m fin (ts @ [v])) = Some (j, l')"
    by (rule parse_items_Some[OF parse])
  obtain j3 l3 where l3: "parse_value m no_flags fin l = Some (j3, l3)"
    and tail: "\<forall>v. j3 = Some v \<longrightarrow> array_tail m fin (ts @ [v]) l3 = Some (j, l')"
    by (rule unless_null_Some[OF u])
  have "j3 = Some t \<and> view D (lex_stream l3) q \<and> lex_depth l3 = lex_depth l"
    using val(1)[unfolded reads_value_def, rule_format, OF lex start(2) _ item(2) n(2) l3] n(1) by simp
  then show ?thesis
    using that tail by blast
qed

lemma reads_Item:
  assumes "ws w1" "value_text fin b t y" "ws w2" "utf8_check_string D" "reads_value fin D b t y"
  shows "reads_items fin D b [t] (w1 @ y @ w2)"
  unfolding reads_items_def
proof (intro allI impI, goal_cases)
  case (1 n l l' j r s ts)
  have stop: "delimited (w2 @ CHR '']'' # r)"
    using stops_ws[OF assms(3)] by simp
  obtain m l3 where l3: "view D (lex_stream l3) (w2 @ CHR '']'' # r)" "lex_depth l3 = lex_depth l"
    "array_tail m fin (ts @ [t]) l3 = Some (j, l')"
    by (rule reads_item[OF assms(5, 2, 1) stop _ 1(2) _ 1(4, 5)]) (use 1(1, 3) in auto)
  obtain l4 where l4: "lex_scan no_flags fin l3 = Some l4"
    "lex_token l4 = TOKEN_CHAR (CHR '']'') \<longrightarrow> j = Some (JArray (ts @ [t])) \<and> l' = l4"
    by (rule array_tail_Some[OF l3(3)])
  have "lex_token l4 = TOKEN_CHAR (CHR '']'') \<and> lex_depth l4 = lex_depth l3 \<and> view D (lex_stream l4) r"
    using scan_char[OF l4(1) l3(1) assms(4) _ assms(3)] 1(3) by simp
  then show ?case
    using l4(2) l3(2) by simp
qed

lemma items_lexeme:
  assumes "items_text fin b us z" "nul \<notin> set (z @ CHR '']'' # r)"
  obtains t0 q where "lexeme no_flags fin (z @ CHR '']'' # r) = (t0, q)" "t0 \<noteq> TOKEN_INVALID" "t0 \<noteq> TOKEN_CHAR (CHR '']'')"
proof -
  obtain w t y v where z: "z = w @ y @ v" "ws w" "value_text fin b t y" "delimited (v @ CHR '']'' # r)"
    using assms(1)
  proof (cases rule: items_text.cases)
    case (Item w1 t y w2)
    then show ?thesis
      using that[of w1 y w2 t] stops_ws by simp
  next
    case (Items w1 t y w2 ts z')
    then show ?thesis
      using that[of w1 y "w2 @ CHR '','' # z'" t] stops_ws[of w2 "CHR '',''"] by simp
  qed
  have "nul \<notin> set (y @ v @ CHR '']'' # r)"
    using assms(2) z(1) by simp
  then obtain t0 q where "lexeme no_flags fin (y @ v @ CHR '']'' # r) = (t0, q)" "t0 \<noteq> TOKEN_INVALID" "t0 \<noteq> TOKEN_CHAR (CHR '']'')"
    by (rule value_lexeme[OF z(3, 4)])
  then show ?thesis
    using that lexeme_ws[OF z(2)] z(1) by simp
qed

lemma reads_Items:
  assumes "ws w1" "value_text fin b t y" "ws w2" "utf8_check_string D" "reads_value fin D b t y"
    and rest: "reads_items fin D b us z" "items_text fin b us z"
  shows "reads_items fin D b (t # us) (w1 @ y @ w2 @ CHR '','' # z)"
  unfolding reads_items_def
proof (intro allI impI, goal_cases)
  case (1 n l l' j r s ts)
  let ?q = "z @ CHR '']'' # r"
  have stop: "delimited (w2 @ CHR '','' # ?q)"
    using stops_ws[OF assms(3)] by simp
  obtain m l3 where l3: "view D (lex_stream l3) (w2 @ CHR '','' # ?q)" "lex_depth l3 = lex_depth l"
    "array_tail m fin (ts @ [t]) l3 = Some (j, l')"
    by (rule reads_item[OF assms(5, 2, 1) stop _ 1(2) _ 1(4, 5)]) (use 1(1, 3) in auto)
  obtain l4 where l4: "lex_scan no_flags fin l3 = Some l4"
    "lex_token l4 = TOKEN_CHAR (CHR '','') \<longrightarrow> (\<exists>l5. lex_scan no_flags fin l4 = Some l5 \<and>
       parse_items m no_flags fin (ts @ [t]) l5 = Some (j, l'))"
    by (rule array_tail_Some[OF l3(3)])
  have comma: "lex_token l4 = TOKEN_CHAR (CHR '','') \<and> lex_depth l4 = lex_depth l3 \<and> view D (lex_stream l4) ?q"
    using scan_char[OF l4(1) l3(1) assms(4) _ assms(3)] 1(3) by simp
  then obtain l5 where l5: "lex_scan no_flags fin l4 = Some l5" "parse_items m no_flags fin (ts @ [t]) l5 = Some (j, l')"
    using l4(2) by blast
  have ns: "nul \<notin> set ?q"
    using 1(3) by simp
  obtain t0 q where t0: "lexeme no_flags fin ?q = (t0, q)" "t0 \<noteq> TOKEN_INVALID"
    by (rule items_lexeme[OF rest(2) ns])
  then have "lex_token l5 = t0 \<and> lex_depth l5 = lex_depth l4 \<and> view D (lex_stream l5) q"
    using scan_lexeme[OF l5(1) _ assms(4) t0] comma by blast
  then show ?case
    using rest(1)[unfolded reads_items_def, rule_format, of r l5 q m "ts @ [t]" j l'] t0 l5(2) 1(4) comma l3(2) ns by simp
qed

lemma reads_scalar:
  assumes x: "token_text fin t0 x" "parse_scalar no_flags t0 = Some t"
  shows "reads_value fin D (Suc b) t x"
  unfolding reads_value_def
proof (intro allI impI, goal_cases)
  case (1 n l l' j r s)
  have "lexeme no_flags fin (x @ r) = (t0, r)"
    using lexeme_text[OF x(1), of "[]" r] 1(3, 4) by (simp add: unread_id)
  then have l: "lex_token l = t0" "s = r"
    using 1(1) by auto
  moreover have "t0 \<noteq> TOKEN_CHAR (CHR ''{'')" "t0 \<noteq> TOKEN_CHAR (CHR ''['')"
    using x(2) by (auto simp: parse_scalar_def)
  ultimately show ?case
    using 1(2, 5, 6) x(2) by (cases n) (auto simp: parse_value.simps unless_null_def)
qed

text \<open>An object or an array: the value is what the function for it returns, one level deeper.\<close>

lemma parse_value_bracket:
  assumes "parse_value n no_flags fin l = Some (j, l')" "lex_depth l + Suc b \<le> JSON_PARSER_MAX_DEPTH"
    and "lex_token l = TOKEN_CHAR (CHR ''{'') \<and> f = parse_object \<or> lex_token l = TOKEN_CHAR (CHR ''['') \<and> f = parse_array"
  obtains m l1 where "f m no_flags fin (l\<lparr>lex_depth := lex_depth l + 1\<rparr>) = Some (j, l1)"
    "j \<noteq> None \<longrightarrow> lex_stream l' = lex_stream l1 \<and> lex_depth l' = lex_depth l1 - 1"
  using assms by (cases n) (auto simp: parse_value.simps unless_null_def split: option.splits if_splits)

lemma bracket_lexeme:
  assumes "lexeme no_flags fin (b # s) = (t, q)" "is_punctuation b"
  shows "t = TOKEN_CHAR b \<and> q = s"
  using lexeme_text[of fin "TOKEN_CHAR b" "[b]" "[]" s] assms by (simp add: token_text_def open_token_def)

lemma reads_object:
  assumes utf8: "utf8_check_string D"
    and members: "ws z \<and> ms = [] \<or> reads_members fin D b [] ms z \<and> members_text fin b [] ms z"
  shows "reads_value fin D (Suc b) (JObject ms) (CHR ''{'' # z @ ''}'')"
  unfolding reads_value_def
proof (intro allI impI, goal_cases)
  case (1 n l l' j r s)
  let ?l = "l\<lparr>lex_depth := lex_depth l + 1\<rparr>" and ?q = "z @ CHR ''}'' # r"
  have t: "lex_token l = TOKEN_CHAR (CHR ''{'')" "s = ?q"
    using bracket_lexeme[of fin "CHR ''{''" ?q] 1(1) by auto
  obtain m l1 where l1: "parse_object m no_flags fin ?l = Some (j, l1)"
    "j \<noteq> None \<longrightarrow> lex_stream l' = lex_stream l1 \<and> lex_depth l' = lex_depth l1 - 1"
    using parse_value_bracket[OF 1(6, 5), of parse_object] t(1) by blast
  obtain k l2 where k: "m = Suc k" and l2: "lex_scan no_flags fin ?l = Some l2"
    and rest: "(if lex_token l2 = TOKEN_CHAR (CHR ''}'') then Some (Some (JObject []), l2) else parse_members k no_flags fin [] l2) = Some (j, l1)"
    using l1(1) by (cases m) (auto simp: parse_object.simps bind_eq_Some_conv)
  have v: "view D (lex_stream ?l) ?q"
    using 1(2) t(2) by simp
  have ns: "nul \<notin> set ?q"
    using 1(3) by simp
  have "j = Some (JObject ms) \<and> view D (lex_stream l1) r \<and> lex_depth l1 = lex_depth l + 1"
    using members
  proof
    assume "ws z \<and> ms = []"
    then show ?thesis
      using scan_char[OF l2 v utf8 ns] rest by auto
  next
    assume m: "reads_members fin D b [] ms z \<and> members_text fin b [] ms z"
    obtain kt q where kt: "lexeme no_flags fin ?q = (TOKEN_STRING kt, q)"
      using members_lexeme m by metis
    then have "lex_token l2 = TOKEN_STRING kt \<and> lex_depth l2 = lex_depth l + 1 \<and> view D (lex_stream l2) q"
      using scan_lexeme[OF l2 v utf8 kt] by simp
    then show ?thesis
      using m[unfolded reads_members_def, THEN conjunct1, rule_format, of r l2 q k j l1] kt rest ns 1(5) by simp
  qed
  then show ?case
    using l1(2) by simp
qed

lemma reads_array:
  assumes utf8: "utf8_check_string D"
    and items: "ws z \<and> ts = [] \<or> reads_items fin D b ts z \<and> items_text fin b ts z"
  shows "reads_value fin D (Suc b) (JArray ts) (CHR ''['' # z @ '']'')"
  unfolding reads_value_def
proof (intro allI impI, goal_cases)
  case (1 n l l' j r s)
  let ?l = "l\<lparr>lex_depth := lex_depth l + 1\<rparr>" and ?q = "z @ CHR '']'' # r"
  have t: "lex_token l = TOKEN_CHAR (CHR ''['')" "s = ?q"
    using bracket_lexeme[of fin "CHR ''[''" ?q] 1(1) by auto
  obtain m l1 where l1: "parse_array m no_flags fin ?l = Some (j, l1)"
    "j \<noteq> None \<longrightarrow> lex_stream l' = lex_stream l1 \<and> lex_depth l' = lex_depth l1 - 1"
    using parse_value_bracket[OF 1(6, 5), of parse_array] t(1) by blast
  obtain k l2 where k: "m = Suc k" and l2: "lex_scan no_flags fin ?l = Some l2"
    and rest: "(if lex_token l2 = TOKEN_CHAR (CHR '']'') then Some (Some (JArray []), l2) else parse_items k no_flags fin [] l2) = Some (j, l1)"
    using l1(1) by (cases m) (auto simp: parse_array.simps bind_eq_Some_conv)
  have v: "view D (lex_stream ?l) ?q"
    using 1(2) t(2) by simp
  have ns: "nul \<notin> set ?q"
    using 1(3) by simp
  have "j = Some (JArray ts) \<and> view D (lex_stream l1) r \<and> lex_depth l1 = lex_depth l + 1"
    using items
  proof
    assume "ws z \<and> ts = []"
    then show ?thesis
      using scan_char[OF l2 v utf8 ns] rest by auto
  next
    assume m: "reads_items fin D b ts z \<and> items_text fin b ts z"
    obtain t0 q where t0: "lexeme no_flags fin ?q = (t0, q)" "t0 \<noteq> TOKEN_INVALID" and t0': "t0 \<noteq> TOKEN_CHAR (CHR '']'')"
      by (rule items_lexeme[OF m[THEN conjunct2] ns])
    then have "lex_token l2 = t0 \<and> lex_depth l2 = lex_depth l + 1 \<and> view D (lex_stream l2) q"
      using scan_lexeme[OF l2 v utf8 t0] by simp
    then show ?thesis
      using m[unfolded reads_items_def, THEN conjunct1, rule_format, of r l2 q k "[]" j l1] t0 t0' rest ns 1(5) by simp
  qed
  then show ?case
    using l1(2) by simp
qed

lemma grammar_reads:
  assumes "utf8_check_string D"
  shows value_reads: "value_text fin b t x \<Longrightarrow> reads_value fin D b t x"
    and members_reads: "members_text fin b ms ms' z \<Longrightarrow> reads_members fin D b ms ms' z"
    and items_reads: "items_text fin b ts z \<Longrightarrow> reads_items fin D b ts z"
proof (induction rule: value_text_members_text_items_text.inducts)
  case (StringV v x d)
  then show ?case
    by (intro reads_scalar[of _ "TOKEN_STRING v"]) (auto simp: token_text_def parse_scalar_def)
next
  case (Integer n x d)
  then show ?case
    by (intro reads_scalar[of _ "TOKEN_INTEGER n"]) (auto simp: token_text_def parse_scalar_def)
next
  case (Real x d)
  then show ?case
    by (intro reads_scalar[of _ "TOKEN_REAL x"]) (auto simp: token_text_def parse_scalar_def)
next
  case (Null d)
  show ?case
    by (rule reads_scalar[of _ TOKEN_NULL]) (auto simp: token_text_def parse_scalar_def)
next
  case (TrueV d)
  show ?case
    by (rule reads_scalar[of _ TOKEN_TRUE]) (auto simp: token_text_def parse_scalar_def)
next
  case (FalseV d)
  show ?case
    by (rule reads_scalar[of _ TOKEN_FALSE]) (auto simp: token_text_def parse_scalar_def)
next
  case (Member w1 k x w2 w3 d t y w4 ms)
  then show ?case
    using assms by (intro reads_Member)
next
  case (Members w1 k x w2 w3 d t y w4 ms ms' z)
  then show ?case
    using assms by (intro reads_Members)
next
  case (Item w1 d t y w2)
  then show ?case
    using assms by (intro reads_Item)
next
  case (Items w1 d t y w2 ts z)
  then show ?case
    using assms by (intro reads_Items)
qed (use assms in \<open>auto intro!: reads_object reads_array\<close>)

section \<open>The decoder\<close>

lemma json_load_sound:
  "returns (json_load no_flags fin data) (\<lambda>j. \<forall>t. j = Some t \<longrightarrow>
    utf8_check_string data \<and> (nul \<notin> set data \<longrightarrow> document_text fin JSON_PARSER_MAX_DEPTH t data))"
  unfolding json_load_def by (rule parse_json_sound) (simp_all add: lex_init_def view_init)

lemma parse_json_Some:
  assumes "parse_json n no_flags fin l = Some r"
  obtains l1 where "lex_scan no_flags fin (l\<lparr>lex_depth := 0\<rparr>) = Some l1"
    "lex_token l1 = TOKEN_CHAR (CHR ''['') \<or> lex_token l1 = TOKEN_CHAR (CHR ''{'') \<longrightarrow>
      (\<exists>j l2. parse_value n no_flags fin l1 = Some (j, l2) \<and>
        (j \<noteq> None \<longrightarrow> (\<exists>l3. lex_scan no_flags fin l2 = Some l3 \<and> r = (if lex_token l3 \<noteq> TOKEN_EOF then None else j))))"
  using assms by (fastforce simp: parse_json_def bind_eq_Some_conv split: if_splits)

lemma container_first:
  assumes "value_text fin b t x" "case t of JObject _ \<Rightarrow> True | JArray _ \<Rightarrow> True | _ \<Rightarrow> False"
  obtains c z where "x = c # z" "c = CHR ''{'' \<or> c = CHR ''[''"
  using assms by (cases rule: value_text.cases) auto

lemma json_load_complete:
  assumes "utf8_check_string data" "nul \<notin> set data" "document_text fin JSON_PARSER_MAX_DEPTH t data"
  shows "json_load no_flags fin data = Some (Some t)"
proof -
  obtain w1 x w2 where doc: "data = w1 @ x @ w2" "ws w1" "value_text fin JSON_PARSER_MAX_DEPTH t x" "ws w2"
    and t: "case t of JObject _ \<Rightarrow> True | JArray _ \<Rightarrow> True | _ \<Rightarrow> False"
    using assms(3) by (auto simp: document_text_def)
  obtain c z where c: "x = c # z" "c = CHR ''{'' \<or> c = CHR ''[''"
    by (rule container_first[OF doc(3) t])
  let ?l = "(lex_init data)\<lparr>lex_depth := 0\<rparr>" and ?n = "4 * length data + 4"
  obtain r where r: "parse_json ?n no_flags fin (lex_init data) = Some r"
    using json_load_sound[of fin data] by (auto simp: returns_def json_load_def)
  obtain l1 where l1: "lex_scan no_flags fin ?l = Some l1"
    and rest: "lex_token l1 = TOKEN_CHAR (CHR ''['') \<or> lex_token l1 = TOKEN_CHAR (CHR ''{'') \<longrightarrow>
      (\<exists>j l2. parse_value ?n no_flags fin l1 = Some (j, l2) \<and>
        (j \<noteq> None \<longrightarrow> (\<exists>l3. lex_scan no_flags fin l2 = Some l3 \<and> r = (if lex_token l3 \<noteq> TOKEN_EOF then None else j))))"
    by (rule parse_json_Some[OF r])
  have v: "view data (lex_stream ?l) (w1 @ x @ w2)"
    using view_init[of data] doc(1) by (simp add: lex_init_def)
  have "lex_token l1 = TOKEN_CHAR c"
    using scan_char[OF l1, of data w1 c "z @ w2"] v c doc assms by auto
  then obtain j l2 where j: "parse_value ?n no_flags fin l1 = Some (j, l2)"
    "j \<noteq> None \<longrightarrow> (\<exists>l3. lex_scan no_flags fin l2 = Some l3 \<and> r = (if lex_token l3 \<noteq> TOKEN_EOF then None else j))"
    using rest c(2) by auto
  have fini: "j = Some t \<and> view data (lex_stream l2) w2 \<and> lex_depth l2 = 0"
    using scan_value[OF value_reads[OF assms(1) doc(3)] doc(3) assms(1) l1 v doc(2) _ stops_ws_end[OF doc(4)] _ j(1)] assms(2) doc(1)
    by (simp add: lex_init_def)
  then obtain l3 where l3: "lex_scan no_flags fin l2 = Some l3" "r = (if lex_token l3 \<noteq> TOKEN_EOF then None else j)"
    using j(2) by auto
  have "lex_token l3 = TOKEN_EOF"
    using scan_lexeme[OF l3(1) _ assms(1) lexeme_EOF[OF doc(4)]] fini by simp
  then show ?thesis
    using r l3(2) fini by (simp add: json_load_def)
qed

text \<open>The decoder returns, and it accepts exactly the texts of the grammar, with their trees.\<close>

lemma json_load_returns: "json_load no_flags fin data \<noteq> None"
  using json_load_sound[of fin data] by (auto simp: returns_def)

lemma json_load_grammar:
  "nul \<notin> set data \<Longrightarrow> json_load no_flags fin data = Some (Some t) \<longleftrightarrow>
    utf8_check_string data \<and> document_text fin JSON_PARSER_MAX_DEPTH t data"
  using json_load_sound[of fin data] json_load_complete[of data fin t] by (auto simp: returns_def)

end
