(* ===== verification/Demo.thy ===== *)
theory Demo
  imports End_To_End Codes JSON_Complete
begin

text \<open>
  Concrete parameters for the examples: a regular expression library, a JSON
  reader, a digest, an operating system and exchanges that answer, and the facts
  that they meet the hypotheses of the properties.
\<close>

section \<open>Regular expressions\<close>

text \<open>
  A pattern is a text, it matches at the front of the subject, and its group is the
  rest of the subject.
\<close>

definition demo_rx :: "string pcre2" where
  "demo_rx = \<lparr>pcre2_compile = Some,
     pcre2_match = (\<lambda>c s. if prefix c s then Some [(0, length s), (length c, length s)] else None),
     pcre2_substitute = (\<lambda>c s. if prefix c s then Some (drop (length c) s) else Some s)\<rparr>"

definition demo_ruleset :: "string ruleset" where
  "demo_ruleset = \<lparr>url_pattern = ''http://'', rules = [''utm=1&''], raw_rules = [], referral_marketing = [],
     exceptions = [''http://keep''], redirections = [''http://exit.com/?u='']\<rparr>"

definition demo_flags :: clean_flags where
  "demo_flags = \<lparr>ignore_referral_marketing = False, ignore_rules = False, ignore_exceptions = False,
     ignore_raw_rules = False, ignore_redirections = False, strip_empty = True, strip_duplicates = True\<rparr>"

lemma demo_rx_ok: "pcre2_ok demo_rx"
proof -
  have "subseq (drop n s) s" for n :: nat and s :: string
    by (metis append_take_drop_id list_emb_append2 subseq_order.order_refl)
  then show ?thesis
    by (auto simp: pcre2_ok_def demo_rx_def)
qed

lemma demo_groups_ok: "groups_ok demo_rx [demo_ruleset]"
  by (auto simp: groups_ok_def group_ok_def demo_ruleset_def demo_rx_def dest: prefix_length_le)

lemma demo_groups_late: "groups_late demo_rx [demo_ruleset]"
  by (auto simp: groups_late_def demo_ruleset_def demo_rx_def)

lemma demo_redirects:
  "regex_match demo_rx c s \<longleftrightarrow> prefix c s"
  by (simp add: regex_match_def demo_rx_def)

section \<open>Exchanges\<close>

text \<open>Objects are followed by an unused byte, which the request buffer needs.\<close>

definition demo_platform :: platform where
  "demo_platform = test_platform\<lparr>slack := 1\<rparr>"

lemma ample_demo_platform [simp]: "ample demo_platform" "slack demo_platform = 1"
  "inet_pton4 demo_platform = (\<lambda>s. s = ''127.0.0.1'')" "inet_pton6 demo_platform = (\<lambda>s. s = ''::1'')"
  by (simp_all add: demo_platform_def ample_def test_platform_def)

text \<open>The answer arrives in two pieces, the first of seven bytes.\<close>

definition demo_exchange :: "string \<Rightarrow> exchange" where
  "demo_exchange msg = \<lparr>ex_gai = (\<lambda>h s. None), ex_socket = 3, ex_rcvtimeo_ok = True, ex_sndtimeo_ok = True,
     ex_connect_ok = True, ex_send = (\<lambda>b. int (length b)), ex_ssl_write = 0,
     ex_incoming = [Bytes (take 7 msg), Bytes (drop 7 msg)], ex_stale = replicate MAX_HEADERS_SIZE CHR ''x''\<rparr>"

definition demo_headers :: "(string \<times> string) list" where
  "demo_headers = [(''Server'', ''demo'')]"

definition demo_redirect :: "(string \<times> string) list" where
  "demo_redirect = [(''Server'', ''demo''), (''Location'', ''http://127.0.0.1/b'')]"

lemma demo_message_ok: "message_ok HTTP10 200 ''OK'' demo_headers" "message_ok HTTP11 301 ''Moved'' demo_redirect"
  by code_simp+

text \<open>The first arrival ends in the middle of the status line, the second one behind the headers.\<close>

lemma demo_cut:
  assumes "msg = s @ t" "s \<noteq> []" "length s \<le> MAX_CHUNK_SIZE" "last s \<notin> set CRLF" "n \<le> MAX_CHUNK_SIZE" "n \<le> length msg"
  shows "cut_inside_lines n (received_chunks [Bytes s, Bytes t])"
proof -
  have 1: "received_chunks [Bytes s, Bytes t] = s # received_chunks [Bytes t]"
    using assms(2,3) by (intro received_chunks_Received) simp
  show ?thesis
  proof (cases "t = []")
    case True
    then show ?thesis
      using assms(1,6) 1 by simp
  next
    case False
    then have "\<exists>rest. received_chunks [Bytes t] = take MAX_CHUNK_SIZE t # rest"
      using received_chunks_Received[of "[Bytes t]"] by (cases "length t \<le> MAX_CHUNK_SIZE") auto
    then show ?thesis
      using assms(1,4-6) 1 by auto
  qed
qed

lemma demo_delivers:
  assumes "message_ok v n reason kvs" "length (response_head v n reason kvs) \<le> 1000"
  shows "delivers (demo_exchange (response_text v n reason kvs bs)) (response_text v n reason kvs bs)"
proof -
  let ?msg = "response_text v n reason kvs bs"
  have "headers_length ?msg = length (response_head v n reason kvs) + 4"
    using message_ok_sizes(3)[OF assms(1), of bs] by (simp add: headers_length_def response_text_def)
  moreover have "length (response_head v n reason kvs) + 4 \<le> length ?msg"
    by (simp add: response_text_def CRLFCRLF_def)
  moreover have "take 7 ?msg = ''HTTP/1.''"
    by (cases v; cases kvs) (simp_all add: response_text_def status_line_def join_Cons)
  moreover from this have "?msg = ''HTTP/1.'' @ drop 7 ?msg"
    by (metis append_take_drop_id)
  ultimately have "cut_inside_lines (headers_length ?msg) (received_chunks [Bytes (take 7 ?msg), Bytes (drop 7 ?msg)])"
    using assms(2) by (intro demo_cut[of ?msg]) (simp_all add: MAX_CHUNK_SIZE_def CRLF_def)
  moreover have "arrived [Bytes (take 7 ?msg), Bytes (drop 7 ?msg)] = ?msg"
    by simp
  ultimately show ?thesis
    by (simp only: delivers_def demo_exchange_def exchange.simps broken.simps) simp
qed

lemma demo_head_short:
  "length (response_head HTTP10 200 ''OK'' demo_headers) \<le> 1000" "length (response_head HTTP11 301 ''Moved'' demo_redirect) \<le> 1000"
  by code_simp+

lemmas demo_delivered = demo_delivers[OF demo_message_ok(1) demo_head_short(1)] demo_delivers[OF demo_message_ok(2) demo_head_short(2)]

text \<open>The URLs of the examples, at an address that needs no resolver.\<close>

definition demo_uri :: "string \<Rightarrow> uri" where
  "demo_uri path = zero_uri\<lparr>uri_scheme := Some ''http'', uri_hostname := Some ''127.0.0.1'', uri_path := Some path\<rparr>"

lemma demo_parse:
  "uri_parse demo_platform zero_uri ''http://127.0.0.1/a'' = Some (UNALIXERR_SUCCESS, demo_uri ''a'')"
  "uri_parse demo_platform zero_uri ''http://127.0.0.1/b'' = Some (UNALIXERR_SUCCESS, demo_uri ''b'')"
  by code_simp+

lemma demo_reachable: "reachable p ex (demo_uri path)" if "inet_pton4 p = inet_pton4 demo_platform" for p ex
  using that by (simp add: reachable_def demo_uri_def HTTP_SCHEME_def)

lemma demo_texts: "host_text (demo_uri path) = ''127.0.0.1''" "location_text (demo_uri path) = ''/'' @ path"
  by (simp_all add: host_text_def location_text_def demo_uri_def default_port_def opt_str_def zero_uri_def)

lemma demo_url_ready:
  "url_ready demo_platform ex ''http://127.0.0.1/a'' (demo_uri ''a'')"
  "url_ready demo_platform ex ''http://127.0.0.1/b'' (demo_uri ''b'')"
  by (simp_all add: url_ready_def demo_parse demo_reachable demo_texts)

text \<open>A nested call of an allocator that answers every request is like the call itself.\<close>

lemma in_call_demo [simp]: "in_call k demo_platform = demo_platform"
  by (simp add: in_call_def demo_platform_def test_platform_def)

section \<open>An update\<close>

definition demo_os :: os where
  "demo_os = \<lparr>os_getenv = (\<lambda>n. None), os_can_read = (\<lambda>n. True), os_can_write = (\<lambda>n. True),
     os_read_error = (\<lambda>n. None), os_space = (\<lambda>n. None), os_unlink = (\<lambda>n. True),
     os_rename = (\<lambda>a b. Renamed), os_ferror_closed = (\<lambda>n. Some False), os_clock = 42\<rparr>"

definition quoted :: "string \<Rightarrow> string" where
  "quoted s = CHR 0x22 # s @ [CHR 0x22]"

definition demo_content :: string where
  "demo_content = concat [''{'', quoted ''providers'', '':{'', quoted ''demo-provider'', '':{'', quoted ''urlPattern'', '': '',
     quoted ''http://ab'', ''}}}'']"

definition demo_decoded :: json where
  "demo_decoded = JObject [(PROVIDERS, JObject [(''demo-provider'', JObject [(URL_PATTERN, JString ''http://ab'')])])]"

lemma demo_decodes: "json_load no_flags (\<lambda>s. True) demo_content = Some (Some demo_decoded)"
  by code_simp

definition demo_hash :: string where
  "demo_hash = hex_digest demo_content"

definition demo_services :: "string services" where
  "demo_services = \<lparr>sv_platform = demo_platform, sv_os = demo_os, sv_regex = demo_rx, sv_strtod = (\<lambda>s. True),
     sv_exchange = (\<lambda>k. demo_exchange (response_text HTTP10 200 ''OK'' demo_headers (if k = 0 then demo_content else demo_hash)))\<rparr>"

lemma demo_services_simps [simp]:
  "sv_platform demo_services = demo_platform" "sv_os demo_services = demo_os" "sv_regex demo_services = demo_rx"
  "sv_strtod demo_services = (\<lambda>s. True)"
  "sv_exchange demo_services k = demo_exchange (response_text HTTP10 200 ''OK'' demo_headers (if k = 0 then demo_content else demo_hash))"
  by (simp_all add: demo_services_def)

lemma demo_serves:
  "serves demo_services demo_platform 0 ''http://127.0.0.1/a'' demo_content"
  "serves demo_services demo_platform 1 ''http://127.0.0.1/b'' demo_hash"
proof -
  have "length demo_content \<le> PTRDIFF_MAX" "length demo_hash \<le> PTRDIFF_MAX"
    by (simp_all add: demo_content_def quoted_def demo_hash_def PTRDIFF_MAX_def length_concat sum_list_replicate)
  then show "serves demo_services demo_platform 0 ''http://127.0.0.1/a'' demo_content"
    "serves demo_services demo_platform 1 ''http://127.0.0.1/b'' demo_hash"
    unfolding serves_def STATUS_OK_def using demo_delivered(1) demo_message_ok(1) demo_url_ready by fastforce+
qed

lemma demo_digest: "hex_digest demo_content = map lower_hex (take 64 demo_hash)"
  by (simp add: demo_hash_def)

definition demo_loaded :: "string rulesets" where
  "demo_loaded = \<lparr>rss_offset = 1, rss_size = sizeof_Ruleset, rss_items = [\<lparr>url_pattern = ''http://ab'', rules = [],
     raw_rules = [], referral_marketing = [], exceptions = [], redirections = []\<rparr>]\<rparr>"

lemma demo_load_ruleset:
  "load_ruleset demo_platform demo_rx demo_decoded zero_rulesets = Some (UNALIXERR_SUCCESS, demo_loaded)"
  by code_simp

lemma demo_loads:
  assumes "fs name = Some f" "file_content f = demo_content"
  shows "loads demo_services name fs"
proof -
  have "load_file demo_platform demo_rx (\<lambda>s. True) demo_os fs name zero_rulesets = Some (UNALIXERR_SUCCESS, demo_loaded)"
    using assms demo_load_ruleset
    by (simp add: load_file_def json_load_file_def fopen_read_def stream_data_def demo_os_def json_loadf_def demo_decodes)
  then show ?thesis
    by (simp add: loads_def)
qed

lemma demo_update:
  "\<exists>events. unalix_ruleset_update demo_services (Some ''/r'') (Some ''http://127.0.0.1/a'') (Some ''http://127.0.0.1/b'') (Some ''/t/'')
     Map.empty = Some (UNALIXERR_SUCCESS, events,
       Map.empty(''/t/'' @ RULESET_TEMPORARY_FILE := None, ''/r'' \<mapsto> file_node (sv_os demo_services) demo_content))"
proof (rule update_installs[where published = demo_hash])
  show "64 \<le> length demo_hash"
    by (simp add: demo_hash_def)
qed (use demo_serves demo_digest in \<open>auto simp: can_write_new_def can_read_back_def demo_os_def file_node_def intro: demo_loads\<close>)

section \<open>A redirect that is followed\<close>

definition demo_exchanges :: "nat \<Rightarrow> exchange" where
  "demo_exchanges k = demo_exchange (if k = 0 then response_text HTTP11 301 ''Moved'' demo_redirect []
     else response_text HTTP10 200 ''OK'' demo_headers ''hello'')"

definition demo_hops :: "(string \<times> string) list" where
  "demo_hops = [(''http://127.0.0.1/a'', ''http://127.0.0.1/a''), (''http://127.0.0.1/b'', ''http://127.0.0.1/b'')]"

lemma demo_clean:
  "unalix_clean_url 1 demo_platform demo_rx [demo_ruleset] demo_flags (Some ''http://127.0.0.1/a'') True =
     Some (UNALIXERR_SUCCESS, Some ''http://127.0.0.1/a'')"
  "unalix_clean_url 1 demo_platform demo_rx [demo_ruleset] demo_flags (Some ''http://127.0.0.1/b'') True =
     Some (UNALIXERR_SUCCESS, Some ''http://127.0.0.1/b'')"
  by code_simp+

lemma demo_redirect_target:
  "redirect_target 301 demo_redirect = Some ''http://127.0.0.1/b''" "redirect_target 200 demo_headers = None"
  "absolute_form ''http://127.0.0.1/b''"
  by code_simp+

lemma demo_hops_ok: "hops (hop 1 demo_platform demo_rx [demo_ruleset] demo_exchanges demo_flags) 0 demo_hops"
proof -
  have "hop 1 demo_platform demo_rx [demo_ruleset] demo_exchanges demo_flags 0 ''http://127.0.0.1/a'' ''http://127.0.0.1/a''
      (Some ''http://127.0.0.1/b'')"
    unfolding hop_def in_call_demo demo_clean(1) using demo_url_ready(1)[of "demo_exchanges 0"] demo_message_ok(2)
      demo_delivered(2)[of "[]"] demo_redirect_target(1,3)
    by (intro conjI exI[of _ "demo_uri ''a''"] exI[of _ HTTP11] exI[of _ 301] exI[of _ "''Moved''"] exI[of _ demo_redirect]
        exI[of _ "[]"]) (simp_all add: demo_exchanges_def)
  moreover have "hop 1 demo_platform demo_rx [demo_ruleset] demo_exchanges demo_flags 1 ''http://127.0.0.1/b'' ''http://127.0.0.1/b'' None"
    unfolding hop_def in_call_demo demo_clean(2) using demo_url_ready(2)[of "demo_exchanges 1"] demo_message_ok(1)
      demo_delivered(1)[of "''hello''"] demo_redirect_target(2)
    by (intro conjI exI[of _ "demo_uri ''b''"] exI[of _ HTTP10] exI[of _ 200] exI[of _ "''OK''"] exI[of _ demo_headers]
        exI[of _ "''hello''"]) (simp_all add: demo_exchanges_def PTRDIFF_MAX_def)
  ultimately show ?thesis
    by (simp add: demo_hops_def)
qed

text \<open>An exchange without a resolver.\<close>

definition demo_offline :: exchange where
  "demo_offline = \<lparr>ex_gai = (\<lambda>h s. None), ex_socket = 3, ex_rcvtimeo_ok = True, ex_sndtimeo_ok = True,
     ex_connect_ok = False, ex_send = (\<lambda>b. int (length b)), ex_ssl_write = 0, ex_incoming = [], ex_stale = []\<rparr>"

lemma demo_unshort_offline:
  "unalix_unshort_url 1 demo_platform demo_rx [demo_ruleset] (\<lambda>k. demo_offline) demo_flags None 0
     (Some ''http://127.0.0.1/'') (Some None) =
   Some (UNALIXERR_SOCKET_CONNECT_FAILURE, Some ''http://127.0.0.1/'', [Ev_socket 3, Ev_close 3])"
  by code_simp

end
