(* ===== verification/HTTP_Properties.thy ===== *)
theory HTTP_Properties
  imports DNS Demo
begin

text \<open>
  The properties of HTTP messages, redirects and connections.
\<close>

section \<open>Requests\<close>

text \<open>
  \<open>http_request_add_header\<close> keeps the invariant of the headers: the array has room for
  exactly its headers, and \<open>slength\<close> is the number of characters they print to,
  separators included.  It appends one header, or reports an error and leaves
  them as they were.
\<close>

theorem add_header_accounts:
  assumes "hdr.accounted (rq_headers r)"
  shows "\<exists>e r'. http_request_add_header p r key val = Some (e, r') \<and> hdr.accounted (rq_headers r') \<and>
     (if e = UNALIXERR_SUCCESS then hs_items (rq_headers r') = hs_items (rq_headers r) @ [mk_header (key, val)] else r' = r)"
proof -
  have inv: "headers_inv (rq_headers r)"
    using assms by (simp add: hdr.accounted_def)
  obtain e hs where add: "http_headers_add p (rq_headers r) key val = Some (e, hs)"
    using hdr.push_defined[OF inv, of p "(key, val)"] by auto
  then show ?thesis
    using hdr.accounted_push[OF assms, of p "(key, val)" e hs] hdr.push_err[OF inv, of p "(key, val)" e hs]
    by (auto simp: http_request_add_header_def)
qed

lemma add_header_accounts_witness:
  "\<exists>e r'. http_request_add_header test_platform zero_request ''Accept'' ''*/*'' = Some (e, r') \<and> hdr.accounted (rq_headers r') \<and>
     (if e = UNALIXERR_SUCCESS then hs_items (rq_headers r') = hs_items (rq_headers zero_request) @ [mk_header (''Accept'', ''*/*'')]
      else r' = zero_request)"
  by (rule add_header_accounts) (simp add: zero_request_def hdr.accounted_empty)

text \<open>
  C32. What a request without a body is printed as: the request line, the headers and
  a blank line.  The buffer has no room for the terminator: the last \<open>strcat\<close>
  writes one byte behind it, so the call is only defined where that byte is unused.
\<close>

theorem request_text_printed:
  assumes "hdr.accounted (rq_headers r)" "body_size (rq_body r) = 0" "ample p" "length (request_bytes r) \<le> PTRDIFF_MAX"
  shows "http_request_stringify p r = (if slack p > 0 then Some (UNALIXERR_SUCCESS, r, Some (request_bytes r)) else None)"
  using http_request_stringify_eq[OF hdr.accounted_roomy[OF assms(1)] assms(2), of p] assms(3,4)
  by (simp add: request_bytes_def)

lemma request_text_printed_witness:
  "http_request_stringify demo_platform zero_request = Some (UNALIXERR_SUCCESS, zero_request, Some (request_bytes zero_request)) \<and>
   http_request_stringify test_platform zero_request = None \<and>
   request_bytes zero_request = ''GET / HTTP/1.0'' @ CRLF @ CRLFCRLF"
proof -
  have printed: "request_bytes zero_request = ''GET / HTTP/1.0'' @ CRLF @ CRLFCRLF"
    by code_simp
  then have "length (request_bytes zero_request) \<le> PTRDIFF_MAX"
    by (simp add: PTRDIFF_MAX_def CRLF_def CRLFCRLF_def)
  moreover have "hdr.accounted (rq_headers zero_request)" "body_size (rq_body zero_request) = 0"
    using hdr.accounted_empty by (simp_all add: zero_request_def zero_body_def)
  ultimately have "http_request_stringify p zero_request =
      (if slack p > 0 then Some (UNALIXERR_SUCCESS, zero_request, Some (request_bytes zero_request)) else None)"
    if "ample p" for p
    using that by (intro request_text_printed)
  from this[of demo_platform] this[of test_platform] printed show ?thesis
    by simp
qed

section \<open>Responses\<close>

text \<open>
  C16. The text of a response, a status line with a code the table knows, header lines
  of safe characters and a body of any bytes, is parsed to these parts, in order;
  the reason phrase is replaced by the library's own.
\<close>

theorem response_print_parse:
  assumes "ample p" "http_status_stringify n \<noteq> None" "reason_ok reason"
    and "kvs \<noteq> []" "\<forall>kv \<in> set kvs. header_ok kv \<and> length (line_text kv) < PTRDIFF_MAX" "length kvs < 2 ^ 58"
    and "length bs \<le> PTRDIFF_MAX"
  shows "\<exists>hs. parse_http_response p zero_response (response_text v n reason kvs bs) = Some (UNALIXERR_SUCCESS,
       \<lparr>rs_status = \<lparr>status_code = n, status_message = http_status_stringify n\<rparr>, rs_version = v, rs_headers = hs,
        rs_body = \<lparr>body_size = length bs, body_content = nonempty bs\<rparr>\<rparr>) \<and> hs_items hs = map mk_header kvs"
  using parse_response_text[OF assms(1) fresh_zero assms(2-7)] by blast

lemma response_print_parse_witness:
  "\<exists>hs. parse_http_response demo_platform zero_response (response_text HTTP11 301 ''Moved'' demo_redirect ''ab'') =
     Some (UNALIXERR_SUCCESS,
       \<lparr>rs_status = \<lparr>status_code = 301, status_message = http_status_stringify 301\<rparr>, rs_version = HTTP11, rs_headers = hs,
        rs_body = \<lparr>body_size = length ''ab'', body_content = nonempty ''ab''\<rparr>\<rparr>) \<and> hs_items hs = map mk_header demo_redirect"
  by (rule response_print_parse)
    (use demo_message_ok(2) message_ok_sizes(1,2)[OF demo_message_ok(2)] in \<open>simp_all add: message_ok_def PTRDIFF_MAX_def\<close>)

section \<open>Sending and receiving\<close>

text \<open>
  C13. \<open>http_request_send\<close> delivers: when the connection works and the peer sends a
  response whose headers leave a chunk of room in the array, the call succeeds
  with that message.  The bytes are cut into arrivals in any way but one: no call of
  \<open>recv\<close> that ends inside the headers ends in a CR or an LF (\<open>cut_inside_lines\<close>), for
  then the search for the blank line compares bytes that nobody has written.  What
  came with the headers is in the body, and the rest of the body is still to be
  read, in order.  All this where the platform leaves a byte behind an object; where
  it does not, the request has been printed past its buffer and the call is undefined.
\<close>

theorem send_delivers:
  assumes "ample p" "sendable p ex (ctx_request context)" "fresh (ctx_response context)"
    and "delivers ex (response_text v n reason kvs bs)" "message_ok v n reason kvs" "length bs \<le> PTRDIFF_MAX"
  shows "if slack p = 0 then http_request_send p ex context = None
     else \<exists>context'. http_request_send p ex context = Some (UNALIXERR_SUCCESS, context') \<and> answered v n kvs bs context' \<and>
       ctx_request context' = ctx_request context"
  using http_request_send_answer[OF assms(1) _ assms(2-6)] http_request_send_tight[OF assms(1) _ assms(2,4)] by simp

lemma send_delivers_witness:
  "\<exists>context'. http_request_send demo_platform (demo_exchange (response_text HTTP11 301 ''Moved'' demo_redirect ''hello''))
       ((new_context GET 8)\<lparr>ctx_request := zero_request\<lparr>rq_uri := demo_uri ''a''\<rparr>\<rparr>) = Some (UNALIXERR_SUCCESS, context') \<and>
     answered HTTP11 301 demo_redirect ''hello'' context' \<and>
     ctx_request context' = ctx_request ((new_context GET 8)\<lparr>ctx_request := zero_request\<lparr>rq_uri := demo_uri ''a''\<rparr>\<rparr>)"
proof -
  have "length (request_bytes (zero_request\<lparr>rq_uri := demo_uri ''a''\<rparr>)) = 21"
    by code_simp
  then have "sendable demo_platform (demo_exchange (response_text HTTP11 301 ''Moved'' demo_redirect ''hello''))
      (ctx_request ((new_context GET 8)\<lparr>ctx_request := zero_request\<lparr>rq_uri := demo_uri ''a''\<rparr>\<rparr>))"
    by (simp add: sendable_def demo_reachable PTRDIFF_MAX_def zero_request_def zero_body_def hdr.accounted_roomy hdr.accounted_empty)
  from send_delivers[OF ample_demo_platform(1) this _ demo_delivered(2) demo_message_ok(2)] show ?thesis
    by (simp add: new_context_def PTRDIFF_MAX_def)
qed

text \<open>
  C27. Reading a response into a file appends exactly the body: what came with the
  headers and then everything that arrives, in order, whatever the sizes of the
  arrivals; nothing else changes.
\<close>

theorem body_saved:
  assumes "body_ok (rs_body (ctx_response context))" "broken (conn_incoming (ctx_connection context)) = None"
    and "os_space os name = None" "fs name \<noteq> None" "uri_scheme (rq_uri (ctx_request context)) \<noteq> None"
  shows "http_response_read p os context (Some name) fs = Some (UNALIXERR_SUCCESS,
     on_connection (\<lambda>c. c\<lparr>conn_incoming := []\<rparr>) context,
     appended name (body_text (rs_body (ctx_response context)) @ arrived (conn_incoming (ctx_connection context))) fs)"
  using assms by (rule http_response_read_saved)

definition demo_reading :: http_context where
  "demo_reading = (let c = new_context GET 8 in c\<lparr>ctx_request := zero_request\<lparr>rq_uri := demo_uri ''a''\<rparr>,
     ctx_response := zero_response\<lparr>rs_body := \<lparr>body_size = 2, body_content = Some ''ab''\<rparr>\<rparr>,
     ctx_connection := (ctx_connection c)\<lparr>conn_incoming := [Bytes ''cd'', Bytes ''e'']\<rparr>\<rparr>)"

lemma body_saved_witness:
  "\<exists>context'. http_response_read demo_platform demo_os demo_reading (Some ''f'') [''f'' \<mapsto> file_node demo_os ''x''] =
     Some (UNALIXERR_SUCCESS, context', [''f'' \<mapsto> file_node demo_os ''xabcde''])"
proof -
  have "appended ''f'' ''abcde'' [''f'' \<mapsto> file_node demo_os ''x''] = [''f'' \<mapsto> file_node demo_os ''xabcde'']"
    by (simp add: appended_def file_node_def)
  moreover have "body_text (rs_body (ctx_response demo_reading)) @ arrived (conn_incoming (ctx_connection demo_reading)) = ''abcde''"
    by code_simp
  moreover have "http_response_read demo_platform demo_os demo_reading (Some ''f'') [''f'' \<mapsto> file_node demo_os ''x''] =
      Some (UNALIXERR_SUCCESS, on_connection (\<lambda>c. c\<lparr>conn_incoming := []\<rparr>) demo_reading, appended ''f''
        (body_text (rs_body (ctx_response demo_reading)) @ arrived (conn_incoming (ctx_connection demo_reading)))
        [''f'' \<mapsto> file_node demo_os ''x''])"
    by (rule body_saved) (simp_all add: demo_reading_def body_ok_def demo_os_def demo_uri_def Let_def)
  ultimately show ?thesis
    by metis
qed

text \<open>
  \<open>sock_read\<close> and \<open>sock_write\<close>: answers with \<open>EINTR\<close> are skipped, and the first
  other one decides: its count, or -1 for an error and for the end of the stream;
  the answers behind it are left.  The two callbacks behave alike.
\<close>

theorem sock_retries:
  "sock_write answers = (case dropWhile (\<lambda>a. a = Io_EINTR) answers of
     [] \<Rightarrow> None
   | a # rest \<Rightarrow> Some (case a of Io_count n \<Rightarrow> if n = 0 then - 1 else to_int n | _ \<Rightarrow> - 1, rest)) \<and>
   sock_read answers = sock_write answers"
  by (simp add: sock_write_eq sock_read_eq)

section \<open>Redirects\<close>


definition demo_redirected :: "string \<Rightarrow> http_response" where
  "demo_redirected location = zero_response\<lparr>rs_status := \<lparr>status_code = 302, status_message = Some ''Found''\<rparr>,
     rs_headers := \<lparr>hs_offset = 1, hs_size = 16, hs_items = [mk_header (''Location'', location)], hs_slength = 0\<rparr>\<rparr>"

definition demo_request :: http_request where
  "demo_request = zero_request\<lparr>rq_uri := demo_uri ''a'',
     rq_headers := \<lparr>hs_offset = 1, hs_size = 16, hs_items = [mk_header (''Host'', ''ab.cd'')], hs_slength = 11\<rparr>\<rparr>"

lemma demo_redirect_context: "redirect_context demo_request (demo_redirected location) location ''ab.cd'' ''http''"
  by (simp add: redirect_context_def demo_request_def demo_redirected_def is_redirect_def FOUND_def http_headers_get_def mk_header_def
      demo_uri_def)


text \<open>
  C29. A redirect to \<open>/\<close>, or to a path like \<open>/a/b\<close>, is rejected as an invalid location:
  the code looks at the third character for the second slash of \<open>//host\<close>.
\<close>

theorem short_paths_rejected:
  assumes "redirect_context request response location host scheme"
    and "location = ''/'' \<or> (\<exists>c rest. location = CHR ''/'' # c # CHR ''/'' # rest \<and> c \<noteq> CHR ''/'')"
  shows "http_get_redirect p request response = Some (UNALIXERR_HTTP_HEADERS_INVALID_LOCATION, None)"
  by (rule redirect_rejects[OF assms])

lemma short_paths_rejected_witness:
  "http_get_redirect demo_platform demo_request (demo_redirected ''/a/b'') = Some (UNALIXERR_HTTP_HEADERS_INVALID_LOCATION, None)"
  by (rule short_paths_rejected[OF demo_redirect_context]) simp

text \<open>
  C39. The message \<open>dns_request_stringify\<close> writes for a name whose labels have 1 to 63
  bytes stays in its buffer and reads back, as RFC 1035 says, as one question for
  these labels, the type and the class IN.  The name is short enough for the offset,
  which is an \<open>int\<close>.  The size counts the prefix twice, so seven bytes of the buffer
  that is returned are not written.
\<close>

theorem dns_message_read:
  assumes "malloc p AtBuffer (request_size obj)" "length (dr_domain_name obj) + 20 < 2 ^ 31"
    and "\<forall>l \<in> set (split_on CHR ''.'' (dr_domain_name obj)). l \<noteq> [] \<and> length l < 64"
  shows "\<exists>query. dns_request_stringify p obj = Some (UNALIXERR_SUCCESS,
       map Some ((if length_field_required obj then length_field (request_size obj) else []) @ query) @ replicate 7 None) \<and>
     read_query query = Some (split_on CHR ''.'' (dr_domain_name obj), qtype_code (dr_qtype obj), 1)"
  using dns_request_stringify_eq[OF assms(1,2)] read_query_text[OF assms(3)] by blast

definition demo_dns :: dns_request where
  "demo_dns = \<lparr>dr_qtype = Qtype_AAAA, dr_domain_name = ''g.co'', dr_specification = DNS_OVER_PLAIN_TCP\<rparr>"

lemma dns_message_read_witness:
  "\<exists>query. dns_request_stringify demo_platform demo_dns = Some (UNALIXERR_SUCCESS,
       map Some ([CHR 0x00, CHR 0x1D] @ query) @ replicate 7 None) \<and>
     read_query query = Some ([''g'', ''co''], 28, 1)"
proof -
  have size: "request_size demo_dns = 31"
    by (simp add: request_size_def demo_dns_def length_field_required_def TCP_LENGTH_FIELD_def DNS_BUFFER_PREFIX_def)
  have "malloc demo_platform AtBuffer (request_size demo_dns)"
    unfolding size by (simp add: demo_platform_def test_platform_def PTRDIFF_MAX_def malloc_def)
  moreover have "length_field 31 = [CHR 0x00, CHR 0x1D]"
    by code_simp
  ultimately show ?thesis
    using dns_message_read[of demo_platform demo_dns] size by (simp add: demo_dns_def length_field_required_def)
qed

end
