(* ===== verification/SHA256_Answer.thy ===== *)
theory SHA256_Answer
  imports SHA256_Proofs
begin

unbundle bit_operations_syntax

text \<open>
  A known answer: the digest of the one-block example of FIPS 180-4, evaluated by
  rewriting in the kernel.  It checks the constants and the byte order.  Numerals are
  kept below 2 to the 32 by \<open>norm32\<close>, which is the identity.
\<close>

definition norm32 :: "32 word \<Rightarrow> 32 word" where
  "norm32 x = x"

lemma norm32_numeral: "norm32 (numeral n) = (case take_bit_num 32 n of None \<Rightarrow> 0 | Some m \<Rightarrow> numeral m)"
proof -
  have "unat (numeral n :: 32 word) = (case take_bit_num 32 n of None \<Rightarrow> 0 | Some m \<Rightarrow> numeral m)"
    by simp
  then have "(numeral n :: 32 word) = of_nat (case take_bit_num 32 n of None \<Rightarrow> 0 | Some m \<Rightarrow> numeral m)"
    by (metis of_nat_unat ucast_id)
  also have "\<dots> = (case take_bit_num 32 n of None \<Rightarrow> 0 | Some m \<Rightarrow> numeral m)"
    by (simp split: option.split)
  finally show ?thesis
    unfolding norm32_def .
qed

lemma norm32_simps: "norm32 0 = 0" "norm32 1 = 1"
  by (simp_all add: norm32_def)

lemma schedule_entry_norm:
  "schedule_entry w i = norm32 (SSG2_1 (w ! (i - 2)) + w ! (i - 7) + SSG2_0 (w ! (i - 15)) + w ! (i - 16))"
  by (simp add: norm32_def schedule_entry_def)

lemma round_step_norm:
  "round_step W t (a, b, c, d, e, f, g, h) =
     (let T1 = norm32 (h + Sigma1 e + Ch e f g + K256 ! t + W t)
      in (norm32 (T1 + (Sigma0 a + Maj a b c)), a, b, c, norm32 (d + T1), e, f, g))"
  by (simp add: norm32_def)

lemma word_rotr_ROTR: "numeral n < (32 :: nat) \<Longrightarrow> word_rotr (numeral n) x = ROTR x (numeral n)"
  by (simp add: ROTR_word_rotr)

lemmas digest_eval = norm32_numeral norm32_simps schedule_entry_norm round_step_norm word_rotr_ROTR
  SSG2_0_def SSG2_1_def Sigma0_def Sigma1_def ROTR_def Ch_def Maj_def

lemma unroll:
  "replicate (numeral k) x = x # replicate (pred_numeral k) x"
  "br_range_dec32be (numeral k) buf = br_dec32be buf # br_range_dec32be (pred_numeral k) (drop 4 buf)"
  by (simp_all add: numeral_eq_Suc)

lemma fold_rounds:
  assumes "\<And>t. t \<in> set ts \<Longrightarrow> W t = W' t"
  shows "fold (round_step W) ts v = fold (round_step W') ts v"
proof (rule fold_cong)
  fix t assume "t \<in> set ts"
  then have "round_step W t v = round_step W' t v" for v
    using assms by (cases "(W, t, v)" rule: round_step.cases) simp
  then show "round_step W t = round_step W' t" ..
qed simp_all

lemma compress_schedule:
  assumes "sha2_schedule block = w"
  shows "compress H block = add_working H (fold (round_step (\<lambda>t. w ! t)) (0 # 1 # [2..<64]) (working_of H))"
proof -
  have upt: "[0..<64] = 0 # 1 # [2..<64 :: nat]"
    by (simp add: upt_rec)
  have "schedule (br_range_dec32be 16 block) t = w ! t" if "t \<in> set [0..<64]" for t
    using that by (simp add: assms[symmetric] sha2_schedule_eq del: upt_rec_numeral)
  from fold_rounds[OF this] show ?thesis
    unfolding compress_def by (simp only: upt)
qed

section \<open>The digest of abc\<close>

lemma padded_abc: "padded ''abc'' = ''abc'' @ [CHR 0x80] @ replicate 52 nul @ br_enc64be 24"
  by (simp add: padded_def)

definition schedule_abc :: "32 word list" where
  "schedule_abc =
    [0x61626380, 0x00000000, 0x00000000, 0x00000000, 0x00000000, 0x00000000,
     0x00000000, 0x00000000, 0x00000000, 0x00000000, 0x00000000, 0x00000000,
     0x00000000, 0x00000000, 0x00000000, 0x00000018, 0x61626380, 0x000F0000,
     0x7DA86405, 0x600003C6, 0x3E9D7B78, 0x0183FC00, 0x12DCBFDB, 0xE2E2C38E,
     0xC8215C1A, 0xB73679A2, 0xE5BC3909, 0x32663C5B, 0x9D209D67, 0xEC8726CB,
     0x702138A4, 0xD3B7973B, 0x93F5997F, 0x3B68BA73, 0xAFF4FFC1, 0xF10A5C62,
     0x0A8B3996, 0x72AF830A, 0x9409E33E, 0x24641522, 0x9F47BF94, 0xF0A64F5A,
     0x3E246A79, 0x27333BA3, 0x0C4763F2, 0x840ABF27, 0x7A290D5D, 0x065C43DA,
     0xFB3E89CB, 0xCC7617DB, 0xB9E66C34, 0xA9993667, 0x84BADEDD, 0xC21462BC,
     0x1487472C, 0xB20F7A99, 0xEF57B9CD, 0xEBE6B238, 0x9FE3095E, 0x78BC8D4B,
     0xA43FCF15, 0x668B2FF8, 0xEEABA2CC, 0x12B1EDEB]"

lemma sha2_schedule_abc: "sha2_schedule (padded ''abc'') = schedule_abc"
proof -
  have "br_range_dec32be 16 (padded ''abc'') = [0x61626380, 0, 0, 0, 0, 0, 0, 0, 0, 0, 0, 0, 0, 0, 0, 24]"
    by (simp add: padded_abc br_enc64be_def br_enc32be_def br_dec32be_def nul_def unroll)
  then show ?thesis
    unfolding sha2_schedule_def schedule_abc_def by (simp add: digest_eval)
qed

lemma rounds_abc:
  "add_working br_sha256_IV (fold (round_step (\<lambda>t. schedule_abc ! t)) (0 # 1 # [2..<64]) (working_of br_sha256_IV)) =
    [0xBA7816BF, 0x8F01CFEA, 0x414140DE, 0x5DAE2223,
     0xB00361A3, 0x96177A9C, 0xB410FF61, 0xF20015AD]"
  by (simp add: schedule_abc_def digest_eval K256_def br_sha256_IV_def del: round_step.simps)

lemma chain_abc: "chain br_sha256_IV (padded ''abc'') =
    [0xBA7816BF, 0x8F01CFEA, 0x414140DE, 0x5DAE2223,
     0xB00361A3, 0x96177A9C, 0xB410FF61, 0xF20015AD]"
proof -
  have "length (padded ''abc'') = 64"
    by (simp add: padded_abc)
  then show ?thesis
    by (simp only: chain_block compress_schedule[OF sha2_schedule_abc] rounds_abc)
qed

lemma SHA256_abc: "SHA256 ''abc'' = map char_of
    [0xba, 0x78, 0x16, 0xbf, 0x8f, 0x01, 0xcf, 0xea, 0x41, 0x41, 0x40, 0xde, 0x5d, 0xae, 0x22, 0x23,
     0xb0, 0x03, 0x61, 0xa3, 0x96, 0x17, 0x7a, 0x9c, 0xb4, 0x10, 0xff, 0x61, 0xf2, 0x00, 0x15, 0xad :: nat]"
  by (simp add: SHA256_def chain_abc br_enc32be_def)

end
