(* ===== verification/Ruleset_Texts.thy ===== *)
theory Ruleset_Texts
  imports Rulesets_Proofs JSON_Complete
begin

text \<open>
  The loader and the decoder together: what a document is when its text is read, how
  large the tree of a text can be, and that loading returns on every text.
\<close>

section \<open>The size of a tree\<close>

text \<open>No array or object of a tree has more than \<open>n\<close> entries.\<close>

fun fits :: "nat \<Rightarrow> json \<Rightarrow> bool" where
  "fits n (JArray ts) \<longleftrightarrow> length ts \<le> n \<and> (\<forall>t \<in> set ts. fits n t)"
| "fits n (JObject ms) \<longleftrightarrow> length ms \<le> n \<and> (\<forall>kv \<in> set ms. fits n (snd kv))"
| "fits n t \<longleftrightarrow> True"

definition all_fit :: "nat \<Rightarrow> (string \<times> json) list \<Rightarrow> bool" where
  "all_fit n ms \<longleftrightarrow> (\<forall>kv \<in> set ms. fits n (snd kv))"

lemma all_fit_simps [simp]: "all_fit n []" "all_fit n ((k, t) # ms) \<longleftrightarrow> fits n t \<and> all_fit n ms"
  by (simp_all add: all_fit_def)

lemma all_fit_set: "all_fit n ms \<Longrightarrow> fits n t \<Longrightarrow> all_fit n (object_set ms k t)"
  by (induction ms k t rule: object_set.induct) auto

lemma length_object_set: "length (object_set ms k t) \<le> Suc (length ms)"
  by (induction ms k t rule: object_set.induct) auto

lemma text_fits:
  "value_text fin d t x \<Longrightarrow> length x \<le> n \<Longrightarrow> fits n t"
  "members_text fin d ms ms' x \<Longrightarrow> length ms + length x \<le> n \<Longrightarrow> all_fit n ms \<Longrightarrow> length ms' \<le> n \<and> all_fit n ms'"
  "items_text fin d ts x \<Longrightarrow> length x \<le> n \<Longrightarrow> length ts \<le> Suc (length x) \<and> (\<forall>t \<in> set ts. fits n t)"
proof (induction rule: value_text_members_text_items_text.inducts)
  case (Object d ms x)
  then show ?case
    by (simp add: all_fit_def)
next
  case (Member w1 k x w2 w3 d t y w4 ms)
  then show ?case
    using length_object_set[of ms k t] all_fit_set[of n ms t k] by simp
next
  case (Members w1 k x w2 w3 d t y w4 ms ms' z)
  then show ?case
    using length_object_set[of ms k t] all_fit_set[of n ms t k] by simp
qed simp_all

lemma document_fits: "document_text fin d t s \<Longrightarrow> fits (length s) t"
  by (auto simp: document_text_def intro!: text_fits(1))

lemma fits_get: "fits n t \<Longrightarrow> json_object_get t k = Some t' \<Longrightarrow> fits n t'"
  by (cases t) (force simp: json_object_get_def dest: map_of_SomeD)+

lemma document_small:
  assumes "document_text fin d t s" "m + length s < 2 ^ 56"
  shows "tree_small t m"
proof -
  have fits: "fits (length s) t"
    by (rule document_fits[OF assms(1)])
  show ?thesis
    unfolding tree_small_def
  proof (intro allI impI)
    fix kvs
    assume "json_object_get t PROVIDERS = Some (JObject kvs)"
    with fits have kvs: "fits (length s) (JObject kvs)"
      by (rule fits_get)
    have "arrays_small (snd kv)" if "kv \<in> set kvs" for kv
    proof -
      have "fits (length s) (snd kv)"
        using kvs that by simp
      then have "length ts \<le> length s" if "json_object_get (snd kv) name = Some (JArray ts)" for name ts
        using fits_get[OF _ that] by simp
      with assms(2) show ?thesis
        by (fastforce simp: arrays_small_def)
    qed
    with kvs assms(2) show "m + length kvs < 2 ^ 56 \<and> (\<forall>kv \<in> set kvs. arrays_small (snd kv))"
      by auto
  qed
qed

section \<open>The bytes of a document\<close>

lemma digits_no_nul: "digits s \<Longrightarrow> nul \<notin> set s"
  by (auto simp: digits_def list_all_iff isdigit_def nul_def)

lemma hex4_no_nul: "hex4 h n \<Longrightarrow> nul \<notin> set h"
proof
  assume "hex4 h n" "nul \<in> set h"
  then have "None \<notin> set (map hex_digit h)" "hex_digit nul = None"
    by (auto simp: hex4_def hex_digit_def nul_def)
  with \<open>nul \<in> set h\<close> show False
    by (metis image_eqI list.set_map)
qed

lemma ws_no_nul: "ws w \<Longrightarrow> nul \<notin> set w"
  by (auto simp: ws_def nul_def)

lemma string_text_no_nul: "string_text v x \<Longrightarrow> nul \<notin> set x"
  by (induction rule: string_text.induct) (auto simp: nul_def short_escapes_def dest: hex4_no_nul[unfolded nul_def])

lemma int_text_no_nul: "int_text n s \<Longrightarrow> nul \<notin> set s"
  by (auto simp: int_text_def nat_text_def nul_def dest!: digits_no_nul)

lemma real_text_no_nul: "real_text s \<Longrightarrow> nul \<notin> set s"
  by (auto simp: real_text_def frac_text_def exp_text_def nul_def dest!: int_text_no_nul digits_no_nul)

lemma text_no_nul:
  "value_text fin d t x \<Longrightarrow> nul \<notin> set x"
  "members_text fin d ms ms' x \<Longrightarrow> nul \<notin> set x"
  "items_text fin d ts x \<Longrightarrow> nul \<notin> set x"
  by (induction rule: value_text_members_text_items_text.inducts)
    (simp_all add: ws_no_nul string_text_no_nul int_text_no_nul real_text_no_nul, simp_all add: nul_def)

lemma document_no_nul: "document_text fin d t s \<Longrightarrow> nul \<notin> set s"
  by (auto simp: document_text_def ws_no_nul text_no_nul)

section \<open>A NUL byte in a file\<close>

text \<open>Numbers and words are ASCII.\<close>

definition ascii :: "string \<Rightarrow> bool" where
  "ascii s \<longleftrightarrow> (\<forall>c \<in> set s. code c < 128)"

lemma ascii_utf8: "ascii s \<Longrightarrow> utf8_check_string s"
  by (induction s) (auto simp: ascii_def utf8_check_string.simps utf8_check_first_def Let_def)

lemma ascii_append [simp]: "ascii (s @ t) \<longleftrightarrow> ascii s \<and> ascii t" "ascii (c # s) \<longleftrightarrow> code c < 128 \<and> ascii s" "ascii []"
  by (auto simp: ascii_def)

lemma digits_ascii: "digits s \<Longrightarrow> ascii s"
  by (auto simp: digits_def list_all_iff isdigit_def ascii_def)

lemma int_text_ascii: "int_text n s \<Longrightarrow> ascii s"
  by (auto simp: int_text_def nat_text_def digits_ascii)

lemma real_text_ascii: "real_text s \<Longrightarrow> ascii s"
  by (auto simp: real_text_def frac_text_def exp_text_def int_text_ascii digits_ascii)

lemma scalar_token:
  assumes "value_text fin b v x" "case v of JString s \<Rightarrow> False | JArray ts \<Rightarrow> False | JObject ms \<Rightarrow> False | _ \<Rightarrow> True"
  obtains t where "token_text fin t x" "open_token t" "parse_scalar no_flags t = Some v" "ascii x" "t \<noteq> TOKEN_EOF"
  using assms
proof (cases rule: value_text.cases)
  case (Null d)
  then show ?thesis
    using that[of TOKEN_NULL] by (simp add: token_text_def open_token_def parse_scalar_def)
next
  case (TrueV d)
  then show ?thesis
    using that[of TOKEN_TRUE] by (simp add: token_text_def open_token_def parse_scalar_def)
next
  case (FalseV d)
  then show ?thesis
    using that[of TOKEN_FALSE] by (simp add: token_text_def open_token_def parse_scalar_def)
next
  case (Integer n d)
  then show ?thesis
    using that[of "TOKEN_INTEGER n"] by (simp add: token_text_def open_token_def parse_scalar_def int_text_ascii)
next
  case (Real d)
  then show ?thesis
    using that[of "TOKEN_REAL x"] by (simp add: token_text_def open_token_def parse_scalar_def real_text_ascii)
qed auto

text \<open>
  A token that is given back to the stream, with a NUL byte behind it: the array it is
  the only item of is read to its end.
\<close>

lemma nul_array_read:
  assumes x: "token_text fin t x" "open_token t" "parse_scalar no_flags t = Some v" and D: "utf8_check_string D"
    and l: "lex_token l = TOKEN_CHAR (CHR ''['')" "view D (lex_stream l) (x @ [nul] @ '']'')" "lex_depth l = 0"
    and run: "parse_value n no_flags fin l = Some (j, l')"
  shows "j = Some (JArray [v]) \<and> view D (lex_stream l') []"
proof -
  let ?l = "l\<lparr>lex_depth := lex_depth l + 1\<rparr>"
  obtain m l1 where l1: "parse_array m no_flags fin ?l = Some (j, l1)" "j \<noteq> None \<longrightarrow> lex_stream l' = lex_stream l1"
  proof (rule parse_value_bracket[OF run, of 0 parse_array])
    show "lex_depth l + Suc 0 \<le> JSON_PARSER_MAX_DEPTH"
      by (simp add: l(3) JSON_PARSER_MAX_DEPTH_def)
  qed (use l(1) in \<open>auto intro: that\<close>)
  obtain k l2 where l2: "lex_scan no_flags fin ?l = Some l2"
    and rest: "(if lex_token l2 = TOKEN_CHAR (CHR '']'') then Some (Some (JArray []), l2) else parse_items k no_flags fin [] l2) = Some (j, l1)"
    using l1(1) by (cases m) (auto simp: parse_array.simps bind_eq_Some_conv)
  have "lexeme no_flags fin (x @ [nul] @ '']'') = (t, '']'')"
    using lexeme_text[OF x(1), of "[]" "[nul] @ '']''"] x(2) by (simp add: delimited_def isalnum_def isalpha_def isdigit_def isupper_def islower_def nul_def)
  then have tok: "lex_token l2 = t" "view D (lex_stream l2) '']''" "lex_depth l2 = 1"
    using scan_lexeme[OF l2 _ D, of "x @ [nul] @ '']''" t] l(2,3) token_text_valid[OF x(1)] by auto
  have other: "t \<noteq> TOKEN_CHAR b" "t \<noteq> TOKEN_EOF" for b
    using x(2,3) by (auto simp: open_token_def parse_scalar_def)
  then have "parse_items k no_flags fin [] l2 = Some (j, l1)" "lex_token l2 \<noteq> TOKEN_EOF"
    using rest tok(1) by auto
  then obtain m' where u: "unless_null (parse_value m' no_flags fin l2) (\<lambda>v. array_tail m' fin ([] @ [v])) = Some (j, l1)"
    by (rule parse_items_Some)
  obtain j3 l3 where l3: "parse_value m' no_flags fin l2 = Some (j3, l3)"
    and tail: "\<forall>v. j3 = Some v \<longrightarrow> array_tail m' fin ([] @ [v]) l3 = Some (j, l1)"
    by (rule unless_null_Some[OF u])
  have "j3 = Some v \<and> lex_stream l3 = lex_stream l2"
    using l3 other x(3) tok(1,3) by (cases m') (auto simp: parse_value.simps unless_null_def JSON_PARSER_MAX_DEPTH_def)
  then have run: "array_tail m' fin [v] l3 = Some (j, l1)" and v3: "view D (lex_stream l3) '']''"
    using tail tok(2) by simp_all
  obtain l4 where l4: "lex_scan no_flags fin l3 = Some l4"
    "lex_token l4 = TOKEN_CHAR (CHR '']'') \<longrightarrow> j = Some (JArray [v]) \<and> l1 = l4"
    by (rule array_tail_Some[OF run])
  have "lex_token l4 = TOKEN_CHAR (CHR '']'') \<and> view D (lex_stream l4) []"
    using scan_char[OF l4(1), of D "[]" "CHR '']''" "[]"] v3 D by (simp add: nul_def)
  then show ?thesis
    using l4(2) l1(2) by simp
qed

lemma json_load_nul:
  assumes "value_text fin b v x" "case v of JString s \<Rightarrow> False | JArray ts \<Rightarrow> False | JObject ms \<Rightarrow> False | _ \<Rightarrow> True"
  shows "json_load no_flags fin (''['' @ x @ [nul] @ '']'') = Some (Some (JArray [v]))"
proof -
  let ?D = "''['' @ x @ [nul] @ '']''"
  let ?l = "(lex_init ?D)\<lparr>lex_depth := 0\<rparr>" and ?n = "4 * length ?D + 4"
  obtain t where x: "token_text fin t x" "open_token t" "parse_scalar no_flags t = Some v" "ascii x"
    by (rule scalar_token[OF assms])
  have D: "utf8_check_string ?D"
    using x(4) by (intro ascii_utf8) (simp add: nul_def)
  obtain r where r: "parse_json ?n no_flags fin (lex_init ?D) = Some r"
    using json_load_sound[of fin ?D] by (auto simp: returns_def json_load_def)
  obtain l1 where l1: "lex_scan no_flags fin ?l = Some l1"
    and rest: "lex_token l1 = TOKEN_CHAR (CHR ''['') \<or> lex_token l1 = TOKEN_CHAR (CHR ''{'') \<longrightarrow>
      (\<exists>j l2. parse_value ?n no_flags fin l1 = Some (j, l2) \<and>
        (j \<noteq> None \<longrightarrow> (\<exists>l3. lex_scan no_flags fin l2 = Some l3 \<and> r = (if lex_token l3 \<noteq> TOKEN_EOF then None else j))))"
    by (rule parse_json_Some[OF r])
  have v: "view ?D (lex_stream ?l) ?D"
    using view_init[of ?D] by (simp add: lex_init_def)
  have "lexeme no_flags fin ?D = (TOKEN_CHAR (CHR ''[''), x @ [nul] @ '']'')"
    using lexeme_text[of fin "TOKEN_CHAR (CHR ''['')" "''[''" "[]" "x @ [nul] @ '']''"] by (simp add: token_text_def open_token_def)
  then have tok: "lex_token l1 = TOKEN_CHAR (CHR ''['')" "lex_depth l1 = 0" "view ?D (lex_stream l1) (x @ [nul] @ '']'')"
    using scan_lexeme[OF l1 v D] by simp_all
  then obtain j l2 where j: "parse_value ?n no_flags fin l1 = Some (j, l2)"
    "j \<noteq> None \<longrightarrow> (\<exists>l3. lex_scan no_flags fin l2 = Some l3 \<and> r = (if lex_token l3 \<noteq> TOKEN_EOF then None else j))"
    using rest by auto
  have fini: "j = Some (JArray [v]) \<and> view ?D (lex_stream l2) []"
    by (rule nul_array_read[OF x(1-3) D tok(1,3,2) j(1)])
  then obtain l3 where l3: "lex_scan no_flags fin l2 = Some l3" "r = (if lex_token l3 \<noteq> TOKEN_EOF then None else j)"
    using j(2) by auto
  have "lex_token l3 = TOKEN_EOF"
    using scan_lexeme[OF l3(1) _ D lexeme_EOF[of "[]"]] fini by (simp add: ws_def)
  then show ?thesis
    using r l3(2) fini by (simp add: json_load_def)
qed

section \<open>Loading a text\<close>

lemma json_loads_grammar:
  "json_loads no_flags fin s = Some (Some t) \<longleftrightarrow>
     utf8_text (c_str s) \<and> document_text fin JSON_PARSER_MAX_DEPTH t (c_str s)"
  using json_load_grammar[of "c_str s" fin t] by (simp add: json_loads_def utf8_check_string_eq utf8_text_def)

lemma json_loads_cases:
  obtains (tree) t where "json_loads no_flags fin s = Some (Some t)" "utf8_text (c_str s)"
    "document_text fin JSON_PARSER_MAX_DEPTH t (c_str s)"
  | (none) "json_loads no_flags fin s = Some None"
    "\<nexists>t. utf8_text (c_str s) \<and> document_text fin JSON_PARSER_MAX_DEPTH t (c_str s)"
proof (cases "json_loads no_flags fin s")
  case None
  then show ?thesis
    using json_load_returns by (simp add: json_loads_def)
next
  case (Some r)
  show ?thesis
  proof (cases r)
    case None
    then show ?thesis
      using Some json_loads_grammar[of fin s] by (intro none) auto
  next
    case (Some t)
    then show ?thesis
      using \<open>json_loads no_flags fin s = Some r\<close> json_loads_grammar[of fin s t] by (intro tree[of t]) auto
  qed
qed

lemma load_string_none:
  assumes "str \<noteq> []" "\<nexists>t. utf8_text (c_str str) \<and> document_text fin JSON_PARSER_MAX_DEPTH t (c_str str)"
  shows "unalix_load_string p rx fin (Some str) obj = Some (UNALIXERR_JSON_CANNOT_PARSE, obj)"
  by (rule json_loads_cases[of fin str]) (use assms in \<open>auto simp: unalix_load_string_def\<close>)

lemma json_load_file_returns: "\<exists>r. json_load_file no_flags fin os fs filename = Some r"
  using json_load_returns by (auto simp: json_load_file_def json_loadf_def split: option.splits)

text \<open>A tree was decoded that has a provider whose name is too short for \<open>memcmp\<close>.\<close>

definition decoded_short :: "platform \<Rightarrow> json option option \<Rightarrow> bool" where
  "decoded_short p decoded \<longleftrightarrow> (\<exists>t. decoded = Some (Some t) \<and> short_name p t)"

lemma load_string_appends:
  assumes "rulesets_inv obj"
  shows "only_appended obj (\<exists>s. str = Some s \<and> decoded_short p (json_loads no_flags fin s)) (unalix_load_string p rx fin str obj)"
proof (cases "str = None \<or> str = Some []")
  case True
  then show ?thesis
    using assms by (auto simp: unalix_load_string_def only_appended_def)
next
  case False
  then obtain s where s: "str = Some s" "s \<noteq> []"
    by auto
  show ?thesis
    by (rule json_loads_cases[of fin s]) 
      (use s assms load_ruleset_appends[OF assms] in \<open>auto simp: unalix_load_string_def only_appended_def decoded_short_def\<close>)
qed

lemma load_file_appends:
  assumes "rulesets_inv obj"
  shows "only_appended obj (decoded_short p (json_load_file no_flags fin os fs filename)) (load_file p rx fin os fs filename obj)"
proof -
  obtain r where "json_load_file no_flags fin os fs filename = Some r"
    using json_load_file_returns by blast
  with load_ruleset_appends[OF assms, of p _ rx] assms show ?thesis
    by (cases r) (auto simp: load_file_def decoded_short_def only_appended_def split: option.splits)
qed

lemma unalix_load_file_appends:
  assumes "rulesets_inv obj"
  shows "only_appended obj (\<exists>name. filename = Some name \<and> decoded_short p (json_load_file no_flags fin os fs name))
     (unalix_load_file p rx fin os fs filename obj)"
proof (cases filename)
  case None
  then show ?thesis
    using assms by (simp add: unalix_load_file_def only_appended_def)
next
  case (Some name)
  then show ?thesis
    using load_file_appends[OF assms, of p fin os fs name rx] assms
    by (cases "name = []") (auto simp: unalix_load_file_def only_appended_def split: option.splits)
qed

lemma load_string_eq:
  assumes "ample p" "rulesets_inv obj" "str \<noteq> []" "length (rss_items obj) + length str < 2 ^ 56"
    and "utf8_text (c_str str)" "document_text fin JSON_PARSER_MAX_DEPTH t (c_str str)"
  shows "unalix_load_string p rx fin (Some str) obj =
     (if tree_readable p rx t
      then Some (fst (rulesets_of rx t), rulesets_with (rss_items obj @ snd (rulesets_of rx t))) else None)"
proof -
  have "length (c_str str) \<le> length str"
    by (simp add: c_str_def length_takeWhile_le)
  then have "tree_small t (length (rss_items obj))"
    using document_small[OF assms(6), of "length (rss_items obj)"] assms(4) by simp
  moreover have "json_loads no_flags fin str = Some (Some t)"
    using assms(5,6) by (simp add: json_loads_grammar)
  ultimately show ?thesis
    using load_ruleset_eq[OF assms(1,2)] assms(3) by (simp add: unalix_load_string_def)
qed

end
