(* ===== verification/Ruleset_Properties.thy ===== *)
theory Ruleset_Properties
  imports SHA256_Answer Demo Ruleset_Texts
begin

text \<open>
  The properties of the JSON decoder and the ruleset loader, of the update of the
  ruleset file and of the check for one.
\<close>

section \<open>Decoding\<close>

text \<open>
  C8. \<open>json_loads\<close> against RFC 8259: the tree it returns for a text is \<open>t\<close> if and only
  if the text up to its terminator is UTF-8 and the grammar reads \<open>t\<close> from it: an object
  or an array in white space, nested at most 2048 deep, escapes and surrogate pairs
  decoded, integers of 64 bits, no string with a terminator in it, and of equal keys
  the last.
\<close>

theorem decoder_reads_grammar:
  "json_loads no_flags fin s = Some (Some t) \<longleftrightarrow>
     utf8_text (c_str s) \<and> document_text fin JSON_PARSER_MAX_DEPTH t (c_str s)"
  by (rule json_loads_grammar)

text \<open>
  C10. The decoder returns on every string and every file, with any bytes in them: no
  assertion of \<open>load.c\<close> fails, the second pass over a string never reads behind its
  closing quote nor writes more than the first pass has saved, and the recursion ends.
\<close>

theorem decoder_returns:
  "(\<exists>r. json_loads no_flags fin str = Some r) \<and> (\<exists>r. json_load_file no_flags fin os fs filename = Some r)"
  using json_load_file_returns json_load_returns by (simp add: json_loads_def)

text \<open>
  C31. A NUL byte in a file, behind a number or a word, is lost: \<open>stream_unget\<close> steps
  back in front of it, where \<open>stream_get\<close> takes it for the end of its buffer.  So for
  every text \<open>x\<close> of a number, \<open>true\<close>, \<open>false\<close> or \<open>null\<close>, \<open>json_loadf\<close> reads the
  array with \<open>x\<close> from bytes that are not JSON.
\<close>

theorem nul_byte_skipped:
  assumes "value_text fin b v x" "case v of JString s \<Rightarrow> False | JArray ts \<Rightarrow> False | JObject ms \<Rightarrow> False | _ \<Rightarrow> True"
  shows "json_loadf no_flags fin (''['' @ x @ [nul] @ '']'') = Some (Some (JArray [v])) \<and>
     (\<nexists>t. document_text fin d t (''['' @ x @ [nul] @ '']''))"
proof -
  have "\<not> document_text fin d t (''['' @ x @ [nul] @ '']'')" for t
    using document_no_nul[of fin d t "''['' @ x @ [nul] @ '']''"] by auto
  then show ?thesis
    using json_load_nul[OF assms] by (simp add: json_loadf_def)
qed

lemma nul_byte_skipped_witness:
  "json_loadf no_flags (\<lambda>s. True) (''['' @ ''null'' @ [nul] @ '']'') = Some (Some (JArray [JNull])) \<and>
     (\<nexists>t. document_text (\<lambda>s. True) 1 t (''['' @ ''null'' @ [nul] @ '']''))"
  by (rule nul_byte_skipped[OF value_text_members_text_items_text.Null]) simp

section \<open>Loading\<close>

text \<open>
  C17. With memory for every request, \<open>load_ruleset\<close> ends with the code and the
  rulesets of an abstract reading of the JSON tree: the providers in order, those
  to be ignored left out, every pattern compiled, up to the first provider that is
  malformed; what was loaded before it stays.  The one exception is exact as well:
  \<open>tree_readable\<close> says that \<open>memcmp\<close> stays inside each name up to there and what
  the platform leaves behind it, as it does inside names of 12 or more characters;
  where it does not, the call is undefined.
\<close>

theorem load_ruleset_refines:
  assumes "ample p" "rulesets_inv obj" "tree_small tree (length (rss_items obj))"
  shows "load_ruleset p rx tree obj =
     (if tree_readable p rx tree
      then Some (fst (rulesets_of rx tree), rulesets_with (rss_items obj @ snd (rulesets_of rx tree))) else None)"
  by (rule load_ruleset_eq[OF assms])

definition demo_tree :: json where
  "demo_tree = JObject [(PROVIDERS, JObject
     [(''ClearURLsTest'', JNull),
      (''demo-provider'', JObject [(URL_PATTERN, JString ''x''), (RULES, JArray [JString ''k'']), (RAW_RULES, JArray [JString ''w''])]),
      (''bad-provider'', JObject [(URL_PATTERN, JInteger 1)]),
      (''c'', JObject [(URL_PATTERN, JString ''y'')])])]"

text \<open>The last name is short, but it stands behind the malformed provider.\<close>

lemma demo_tree_readable: "tree_readable test_platform demo_rx demo_tree"
  by code_simp

lemma demo_tree_reading:
  "rulesets_of demo_rx demo_tree = (UNALIXERR_JSON_NON_MATCHING_TYPE, [\<lparr>url_pattern = ''x'', rules = [extended ''k''],
     raw_rules = [''w''], referral_marketing = [], exceptions = [], redirections = []\<rparr>])"
  by code_simp

lemma demo_tree_small: "tree_small demo_tree n \<longleftrightarrow> n + 4 < 2 ^ 56"
proof -
  have "arrays_small JNull" "arrays_small (JObject [(URL_PATTERN, JString ''x''), (RULES, JArray [JString ''k'']), (RAW_RULES, JArray [JString ''w''])])"
    "arrays_small (JObject [(URL_PATTERN, JInteger 1)])" "arrays_small (JObject [(URL_PATTERN, JString ''y'')])"
    by (auto simp: arrays_small_def json_object_get_def json_key_defs split: if_splits)
  then show ?thesis
    by (simp add: tree_small_def demo_tree_def json_object_get_def)
qed

lemma load_ruleset_refines_witness:
  "load_ruleset test_platform demo_rx demo_tree (rulesets_with [demo_ruleset]) = Some (UNALIXERR_JSON_NON_MATCHING_TYPE,
     rulesets_with [demo_ruleset, \<lparr>url_pattern = ''x'', rules = [extended ''k''], raw_rules = [''w''],
       referral_marketing = [], exceptions = [], redirections = []\<rparr>])"
proof -
  have "tree_small demo_tree (length (rss_items (rulesets_with [demo_ruleset])))"
    by (simp add: demo_tree_small rulesets_with_def)
  then have "load_ruleset test_platform demo_rx demo_tree (rulesets_with [demo_ruleset]) =
      Some (fst (rulesets_of demo_rx demo_tree), rulesets_with (rss_items (rulesets_with [demo_ruleset]) @ snd (rulesets_of demo_rx demo_tree)))"
    by (subst load_ruleset_refines) (simp_all add: demo_tree_readable)
  then show ?thesis
    by (simp add: demo_tree_reading) (simp add: rulesets_with_def)
qed

text \<open>
  C18. From the text to the rulesets: with memory, \<open>unalix_load_string\<close> on a text of the
  grammar ends with the code and the rulesets of the abstract reading of its tree,
  unless \<open>memcmp\<close> reads past a provider name, where it is undefined; on every other
  text it answers \<open>UNALIXERR_JSON_CANNOT_PARSE\<close> and changes nothing.
\<close>

theorem load_string_reads:
  assumes "ample p" "rulesets_inv obj" "str \<noteq> []" "length (rss_items obj) + length str < 2 ^ 56"
  shows "(\<forall>t. utf8_text (c_str str) \<and> document_text fin JSON_PARSER_MAX_DEPTH t (c_str str) \<longrightarrow>
       unalix_load_string p rx fin (Some str) obj =
         (if tree_readable p rx t
          then Some (fst (rulesets_of rx t), rulesets_with (rss_items obj @ snd (rulesets_of rx t))) else None)) \<and>
     ((\<nexists>t. utf8_text (c_str str) \<and> document_text fin JSON_PARSER_MAX_DEPTH t (c_str str)) \<longrightarrow>
       unalix_load_string p rx fin (Some str) obj = Some (UNALIXERR_JSON_CANNOT_PARSE, obj))"
  using load_string_eq[OF assms] load_string_none[OF assms(3)] by blast

lemma load_string_reads_witness:
  "unalix_load_string test_platform demo_rx (\<lambda>s. True) (Some demo_content) (rulesets_with []) =
     Some (UNALIXERR_SUCCESS, rulesets_with [\<lparr>url_pattern = ''http://ab'', rules = [], raw_rules = [],
       referral_marketing = [], exceptions = [], redirections = []\<rparr>])"
proof -
  have c: "c_str demo_content = demo_content" "demo_content \<noteq> []" "length demo_content < 2 ^ 56"
    by (simp_all add: demo_content_def quoted_def c_str_def nul_def)
  then have "json_loads no_flags (\<lambda>s. True) demo_content = Some (Some demo_decoded)"
    using demo_decodes by (simp add: json_loads_def)
  then have "utf8_text (c_str demo_content) \<and> document_text (\<lambda>s. True) JSON_PARSER_MAX_DEPTH demo_decoded (c_str demo_content)"
    by (simp only: json_loads_grammar)
  moreover have r: "rss_items (rulesets_with ([] :: string ruleset list)) = []"
    by (simp add: rulesets_with_def)
  moreover have "rulesets_of demo_rx demo_decoded = (UNALIXERR_SUCCESS, [\<lparr>url_pattern = ''http://ab'', rules = [], raw_rules = [],
      referral_marketing = [], exceptions = [], redirections = []\<rparr>])"
    by code_simp
  moreover have "tree_readable test_platform demo_rx demo_decoded"
    by code_simp
  ultimately show ?thesis
    using conjunct1[OF load_string_reads[OF ample_test_platform, of "rulesets_with []" demo_content "\<lambda>s. True" demo_rx],
        rule_format, of demo_decoded] c r by simp
qed

text \<open>
  C30. Loading a string or a file, whichever allocations fail: the size and the offset of
  the array stay those of its items, and the rulesets that were loaded before stay, in
  order, in front of what is added.  The only way to be undefined is a text that
  decodes to a tree with a provider whose name is shorter than 12 characters:
  \<open>memcmp\<close> with the length of the prefix reads past it.
\<close>

theorem loading_keeps:
  assumes "rulesets_inv obj"
  shows "(case unalix_load_string p rx fin str obj of
       Some (rc, obj') \<Rightarrow> rulesets_inv obj' \<and> prefix (rss_items obj) (rss_items obj')
     | None \<Rightarrow> \<exists>s. str = Some s \<and> decoded_short p (json_loads no_flags fin s)) \<and>
     (case unalix_load_file p rx fin os fs filename obj of
       Some (rc, obj') \<Rightarrow> rulesets_inv obj' \<and> prefix (rss_items obj) (rss_items obj')
     | None \<Rightarrow> \<exists>name. filename = Some name \<and> decoded_short p (json_load_file no_flags fin os fs name))"
  using load_string_appends[OF assms, of str p fin rx] unalix_load_file_appends[OF assms, of filename p fin os fs rx]
  unfolding only_appended_def by auto

text \<open>The array does not grow past its first element.\<close>

definition demo_scarce :: platform where
  "demo_scarce = test_platform\<lparr>malloc_ok := (\<lambda>s n. s \<noteq> AtRuleset 1)\<rparr>"

lemma loading_keeps_witness:
  "\<exists>rc obj'. unalix_load_string demo_scarce demo_rx (\<lambda>s. True) (Some demo_content) (rulesets_with [demo_ruleset]) = Some (rc, obj') \<and>
     rulesets_inv obj' \<and> prefix (rss_items (rulesets_with [demo_ruleset])) (rss_items obj')"
proof -
  have "json_loads no_flags (\<lambda>s. True) demo_content = Some (Some demo_decoded)"
    using demo_decodes by (simp add: json_loads_def c_str_def demo_content_def quoted_def nul_def)
  moreover have "\<not> short_name demo_scarce demo_decoded"
    by (simp add: short_name_def demo_decoded_def json_object_get_def)
  ultimately have "\<not> decoded_short demo_scarce (json_loads no_flags (\<lambda>s. True) demo_content)"
    by (simp add: decoded_short_def)
  then show ?thesis
    using loading_keeps[of "rulesets_with [demo_ruleset]", where p = demo_scarce
        and rx = demo_rx and fin = "\<lambda>s. True" and str = "Some demo_content", THEN conjunct1]
    by (cases "unalix_load_string demo_scarce demo_rx (\<lambda>s. True) (Some demo_content) (rulesets_with [demo_ruleset])") auto
qed

text \<open>
  A provider that is loaded: for each of the five array keys the ruleset has one
  compiled pattern per entry, in order; the texts of \<open>rules\<close> and
  \<open>referralMarketing\<close> are put into the pattern of a query parameter first, those of
  the other three are compiled as they are.
\<close>

theorem provider_patterns:
  assumes "ample p" "arrays_small val" "load_provider p rx i (key, val) = Some (Inr (Some r))"
    and "name \<in> set ARRAY_KEYS" "json_object_get val name = Some (JArray ts)"
  shows "map Some (rules_named name r) = map (compiled rx (if name \<in> {RULES, REFERRAL_MARKETING} then extended else id)) ts"
  by (rule load_provider_patterns[OF assms])

definition demo_provider :: json where
  "demo_provider = JObject [(URL_PATTERN, JString ''x''), (RULES, JArray [JString ''k'', JString ''l''])]"

lemma provider_patterns_witness:
  "map Some [extended ''k'', extended ''l''] = map (compiled demo_rx extended) [JString ''k'', JString ''l'']"
proof -
  let ?r = "\<lparr>url_pattern = ''x'', rules = [extended ''k'', extended ''l''], raw_rules = [], referral_marketing = [],
     exceptions = [], redirections = []\<rparr>"
  have "load_provider test_platform demo_rx 0 (''demo-provider'', demo_provider) = Some (Inr (Some ?r))"
    by code_simp
  moreover have "arrays_small demo_provider"
    by (auto simp: arrays_small_def demo_provider_def json_object_get_def json_key_defs split: if_splits)
  moreover have "json_object_get demo_provider RULES = Some (JArray [JString ''k'', JString ''l''])" "RULES \<in> set ARRAY_KEYS"
    by (simp_all add: demo_provider_def json_object_get_def ARRAY_KEYS_def URL_PATTERN_def RULES_def)
  ultimately show ?thesis
    using provider_patterns[OF ample_test_platform, of demo_provider demo_rx 0 "''demo-provider''" ?r RULES] by (simp add: rules_named_def)
qed

section \<open>Updating\<close>

text \<open>
  C5. An update with a hash URL that reports success: the file that was downloaded
  has the SHA-256 digest that the second exchange delivered, and loads as a
  ruleset; only then it is moved, and \<open>move_file\<close> did not answer 0.
\<close>

theorem update_verified:
  assumes "unalix_ruleset_update sv (Some filename) (Some url) (Some hash_url) (Some d) fs = Some (UNALIXERR_SUCCESS, events, fs')"
  shows "\<exists>fs1 m. same_but {d @ RULESET_TEMPORARY_FILE} fs fs1 \<and> hash_matches sv hash_url (d @ RULESET_TEMPORARY_FILE) fs1 \<and>
     loads sv (d @ RULESET_TEMPORARY_FILE) fs1 \<and>
     move_file (sv_os sv) fs1 (d @ RULESET_TEMPORARY_FILE) filename = Some (m, fs') \<and> m \<noteq> 0"
proof -
  have "filename \<noteq> []" "url \<noteq> []" "d \<noteq> []"
    using assms by (auto simp: unalix_ruleset_update_def blank_def)
  from unalix_ruleset_update_files[OF assms this] show ?thesis
    by (auto simp: updated_def installed_def)
qed

lemma update_verified_witness:
  "\<exists>fs1. hash_matches demo_services ''http://127.0.0.1/b'' ''/t/ruleset.json'' fs1 \<and> loads demo_services ''/t/ruleset.json'' fs1"
proof -
  have name: "''/t/'' @ RULESET_TEMPORARY_FILE = ''/t/ruleset.json''"
    by (simp add: RULESET_TEMPORARY_FILE_def)
  have "\<exists>events. unalix_ruleset_update demo_services (Some ''/r'') (Some ''http://127.0.0.1/a'') (Some ''http://127.0.0.1/b'') (Some ''/t/'')
      Map.empty = Some (UNALIXERR_SUCCESS, events,
       Map.empty(''/t/'' @ RULESET_TEMPORARY_FILE := None, ''/r'' \<mapsto> file_node (sv_os demo_services) demo_content))"
    by (rule demo_update)
  with update_verified[of demo_services "''/r''" "''http://127.0.0.1/a''" "''http://127.0.0.1/b''" "''/t/''"] show ?thesis
    unfolding name by blast
qed

text \<open>
  C6. Whatever fails, an update changes no file but the temporary one and the target;
  the target is as before unless the call reports success or
  \<open>UNALIXERR_FILE_CANNOT_MOVE\<close>, so a failed download, a wrong hash or a file that
  does not load leaves the rulesets of the user alone.
\<close>

theorem update_confined:
  assumes "unalix_ruleset_update sv (Some filename) (Some url) hash_url (Some d) fs = Some (rc, events, fs')"
    and "filename \<noteq> []" "url \<noteq> []" "d \<noteq> []"
  shows "(\<forall>n. n \<noteq> d @ RULESET_TEMPORARY_FILE \<and> n \<noteq> filename \<longrightarrow> fs' n = fs n) \<and>
     (filename \<noteq> d @ RULESET_TEMPORARY_FILE \<and> rc \<noteq> UNALIXERR_SUCCESS \<and> rc \<noteq> UNALIXERR_FILE_CANNOT_MOVE \<longrightarrow> fs' filename = fs filename)"
  using unalix_ruleset_update_files[OF assms] by (fastforce simp: updated_def installed_def same_but_def)

lemma update_confined_witness:
  "(Map.empty(''/t/'' @ RULESET_TEMPORARY_FILE := None, ''/r'' \<mapsto> file_node demo_os demo_content)) ''/x'' = (Map.empty :: filesys) ''/x''"
proof -
  obtain events where "unalix_ruleset_update demo_services (Some ''/r'') (Some ''http://127.0.0.1/a'') (Some ''http://127.0.0.1/b'') (Some ''/t/'')
      Map.empty = Some (UNALIXERR_SUCCESS, events,
       Map.empty(''/t/'' @ RULESET_TEMPORARY_FILE := None, ''/r'' \<mapsto> file_node demo_os demo_content))"
    using demo_update by auto
  from update_confined[OF this] show ?thesis
    by (auto simp: RULESET_TEMPORARY_FILE_def)
qed

text \<open>
  A \<open>rename\<close> that fails for another reason than the device is not noticed:
  \<open>move_file\<close> hands its -1 on, the update tests for 0, and so the last step reports
  success with every file as it was.
\<close>

theorem rename_error_ignored:
  assumes "loads sv file fs" "os_rename (sv_os sv) file filename = Rename_Error"
  shows "install sv file filename (context, fs) = Some (UNALIXERR_SUCCESS, context, fs)"
  by (rule install_rename_fails[OF assms])

lemma rename_error_ignored_witness:
  "install (demo_services\<lparr>sv_os := demo_os\<lparr>os_rename := \<lambda>a b. Rename_Error\<rparr>\<rparr>) ''/t'' ''/r'' (new_context GET 8, [''/t'' \<mapsto> file_node demo_os demo_content]) =
     Some (UNALIXERR_SUCCESS, new_context GET 8, [''/t'' \<mapsto> file_node demo_os demo_content])"
proof (rule rename_error_ignored)
  have "loads demo_services ''/t'' [''/t'' \<mapsto> file_node demo_os demo_content]"
    by (rule demo_loads[where f = "file_node demo_os demo_content"]) (simp_all add: file_node_def)
  then show "loads (demo_services\<lparr>sv_os := demo_os\<lparr>os_rename := \<lambda>a b. Rename_Error\<rparr>\<rparr>) ''/t'' [''/t'' \<mapsto> file_node demo_os demo_content]"
    by (simp add: loads_def load_file_def json_load_file_def fopen_read_def stream_data_def demo_os_def)
qed simp

text \<open>
  When the date of the local file cannot be determined, the check for an update
  returns that error and sends nothing, but it closes descriptor 0: the context
  starts with descriptor 0, and it is closed although no socket was opened.
\<close>

theorem check_update_closes_stdin:
  assumes "local_date cal fs filename = Inl rc" "filename \<noteq> []" "url \<noteq> []"
  shows "unalix_ruleset_check_update p cal ex fs (Some filename) (Some url) = Some (rc, [Ev_close 0])"
  by (rule check_update_local_error[OF assms])

lemma check_update_closes_stdin_witness:
  "unalix_ruleset_check_update demo_platform (undefined :: unit calendar) (demo_exchange []) Map.empty (Some ''/r'') (Some ''http://127.0.0.1/a'') =
     Some (UNALIXERR_OS_STAT_FAILURE, [Ev_close 0])"
  by (rule check_update_closes_stdin) (simp_all add: local_date_def file_exists_def)

text \<open>
  C35. The digest of a file: the loop over chunks hashes the whole content, the text
  has two hexadecimal digits for each byte of its SHA-256, and reading the digits
  back with \<open>from_hex\<close> gives the digest.
\<close>

theorem digest_read_back:
  assumes "fs filename = Some f" "os_can_read os filename" "os_read_error os filename = None"
  shows "\<exists>text. sha256_digest os fs filename = (UNALIXERR_SUCCESS, text) \<and> length text = 64 \<and>
     set text \<subseteq> set ''0123456789abcdef'' \<and> unhex text = SHA256 (file_content f)"
proof -
  have "sha256_digest os fs filename = (UNALIXERR_SUCCESS, hex_digest (file_content f))"
    using assms by (rule sha256_digest_eq)
  moreover have "unhex (hex_digest (file_content f)) = SHA256 (file_content f)"
    by (simp add: hex_digest_def unhex_digest)
  ultimately show ?thesis
    using hex_digest_digits by simp
qed

lemma digest_read_back_witness:
  "\<exists>text. sha256_digest demo_os [''/t'' \<mapsto> file_node demo_os ''ab''] ''/t'' = (UNALIXERR_SUCCESS, text) \<and> length text = 64 \<and>
     set text \<subseteq> set ''0123456789abcdef'' \<and> unhex text = SHA256 (file_content (file_node demo_os ''ab''))"
  by (rule digest_read_back) (simp_all add: demo_os_def)

text \<open>
  C7. BearSSL's SHA-256 is that of FIPS 180-4: however a text is cut into the pieces
  handed to \<open>br_sha256_update\<close>, \<open>br_sha256_out\<close> gives the digest that the standard
  defines for the whole text, padded to blocks of 64 bytes with its length in bits.
\<close>

theorem sha256_streams:
  "br_sha256_out (fold (\<lambda>chunk cc. br_sha256_update cc chunk) chunks (br_sha256_init zero_sha256)) = SHA256 (concat chunks)"
  using out_SHA256[OF updates_absorbed[OF init_absorbed]] by (simp add: zero_sha256_def)

text \<open>
  C21. The compression function: eight unrolled steps with rotating names per
  iteration, the schedule computed ahead into an array and the shortened formulas of
  the macros give what the standard defines by 64 rounds, a recursive schedule and
  rotations.
\<close>

theorem sha256_round:
  assumes "length val = 8"
  shows "br_sha2small_round buf val =
     add_working val (fold (round_step (schedule (br_range_dec32be 16 buf))) [0..<64] (working_of val))"
  using round_compress[OF assms] by (simp add: compress_def del: upt_rec_numeral)

lemma sha256_round_witness:
  "br_sha2small_round (replicate 64 nul) br_sha256_IV = add_working br_sha256_IV
     (fold (round_step (schedule (br_range_dec32be 16 (replicate 64 nul)))) [0..<64] (working_of br_sha256_IV))"
  by (rule sha256_round) (rule length_IV)

text \<open>
  C33. An update that succeeds ends with the same calls twice: \<open>ruleset_update\<close> has
  released its context, which keeps the descriptor and the flag of the TLS session,
  and \<open>unalix_ruleset_update\<close> releases it again, so a descriptor that another thread
  got in between is closed.
\<close>

theorem update_closes_twice:
  assumes "unalix_ruleset_update sv (Some filename) (Some url) hash_url (Some d) fs = Some (UNALIXERR_SUCCESS, events, fs')"
  shows "\<exists>before c. events = before @ close_events c @ close_events c"
proof -
  obtain context' where run: "ruleset_update sv filename url hash_url (Some d) (new_context GET HTTP_DEFAULT_TIMEOUT, fs) =
      Some (UNALIXERR_SUCCESS, context', fs')" and log: "events = conn_log (ctx_connection (http_context_free context'))"
    using assms by (auto simp: unalix_ruleset_update_def split: if_splits)
  obtain c0 where "context' = http_context_free c0"
    using ruleset_update_released[OF run ruleset_file_given] by (auto simp: released_def)
  then show ?thesis
    using log free_twice_log[of c0] by blast
qed

lemma update_closes_twice_witness:
  "\<exists>events before c. unalix_ruleset_update demo_services (Some ''/r'') (Some ''http://127.0.0.1/a'') (Some ''http://127.0.0.1/b'') (Some ''/t/'')
     Map.empty = Some (UNALIXERR_SUCCESS, events,
       Map.empty(''/t/'' @ RULESET_TEMPORARY_FILE := None, ''/r'' \<mapsto> file_node (sv_os demo_services) demo_content)) \<and>
     events = before @ close_events c @ close_events c"
  using demo_update update_closes_twice by blast

end
