(* ===== verification/Lookup3.thy ===== *)
theory Lookup3
  imports Prelude
begin

unbundle bit_operations_syntax

text \<open>
  The hash function of Jansson's tables, \<open>submodules/jansson/src/lookup3.h\<close>, on a
  little-endian machine.  \<open>k\<close> is the memory from the key on, a byte for each offset;
  \<open>addr\<close> is the address of the key, of which the last two bits select how it is read.
\<close>

section \<open>The function\<close>

type_synonym memory = "nat \<Rightarrow> 8 word"
type_synonym state3 = "32 word \<times> 32 word \<times> 32 word"

definition rot :: "32 word \<Rightarrow> nat \<Rightarrow> 32 word" where
  "rot x k = push_bit k x OR drop_bit (32 - k) x"

definition mix :: "state3 \<Rightarrow> state3" where
  "mix s = (let (a, b, c) = s;
     a = a - c; a = a XOR rot c 4; c = c + b;
     b = b - a; b = b XOR rot a 6; a = a + c;
     c = c - b; c = c XOR rot b 8; b = b + a;
     a = a - c; a = a XOR rot c 16; c = c + b;
     b = b - a; b = b XOR rot a 19; a = a + c;
     c = c - b; c = c XOR rot b 4; b = b + a
   in (a, b, c))"

definition final :: "state3 \<Rightarrow> state3" where
  "final s = (let (a, b, c) = s;
     c = c XOR b; c = c - rot b 14;
     a = a XOR c; a = a - rot c 11;
     b = b XOR a; b = b - rot a 25;
     c = c XOR b; c = c - rot b 16;
     a = a XOR c; a = a - rot c 4;
     b = b XOR a; b = b - rot a 14;
     c = c XOR b; c = c - rot b 24
   in (a, b, c))"

text \<open>What the machine reads: a byte, and the chunks of two and of four bytes.\<close>

definition k8 :: "memory \<Rightarrow> nat \<Rightarrow> 32 word" where
  "k8 k i = ucast (k i)"

definition k16 :: "memory \<Rightarrow> nat \<Rightarrow> 32 word" where
  "k16 k i = k8 k (2 * i) OR push_bit 8 (k8 k (2 * i + 1))"

definition k32 :: "memory \<Rightarrow> nat \<Rightarrow> 32 word" where
  "k32 k i = k16 k (2 * i) OR push_bit 16 (k16 k (2 * i + 1))"

text \<open>The three ways to add a block of twelve bytes.\<close>

definition block32 :: "memory \<Rightarrow> state3 \<Rightarrow> state3" where
  "block32 k s = (let (a, b, c) = s in (a + k32 k 0, b + k32 k 1, c + k32 k 2))"

definition block16 :: "memory \<Rightarrow> state3 \<Rightarrow> state3" where
  "block16 k s = (let (a, b, c) = s in
     (a + (k16 k 0 + push_bit 16 (k16 k 1)),
      b + (k16 k 2 + push_bit 16 (k16 k 3)),
      c + (k16 k 4 + push_bit 16 (k16 k 5))))"

definition block8 :: "memory \<Rightarrow> state3 \<Rightarrow> state3" where
  "block8 k s = (let (a, b, c) = s;
     a = a + k8 k 0; a = a + push_bit 8 (k8 k 1); a = a + push_bit 16 (k8 k 2); a = a + push_bit 24 (k8 k 3);
     b = b + k8 k 4; b = b + push_bit 8 (k8 k 5); b = b + push_bit 16 (k8 k 6); b = b + push_bit 24 (k8 k 7);
     c = c + k8 k 8; c = c + push_bit 8 (k8 k 9); c = c + push_bit 16 (k8 k 10); c = c + push_bit 24 (k8 k 11)
   in (a, b, c))"

text \<open>The last block; \<open>length\<close> is at most 12, and 0 is tested before.\<close>

definition tail32 :: "memory \<Rightarrow> nat \<Rightarrow> state3 \<Rightarrow> state3" where
  "tail32 k len s = (let (a, b, c) = s in
     if len = 12 then (a + k32 k 0, b + k32 k 1, c + k32 k 2)
     else if len = 11 then (a + k32 k 0, b + k32 k 1, c + (k32 k 2 AND 0xffffff))
     else if len = 10 then (a + k32 k 0, b + k32 k 1, c + (k32 k 2 AND 0xffff))
     else if len = 9 then (a + k32 k 0, b + k32 k 1, c + (k32 k 2 AND 0xff))
     else if len = 8 then (a + k32 k 0, b + k32 k 1, c)
     else if len = 7 then (a + k32 k 0, b + (k32 k 1 AND 0xffffff), c)
     else if len = 6 then (a + k32 k 0, b + (k32 k 1 AND 0xffff), c)
     else if len = 5 then (a + k32 k 0, b + (k32 k 1 AND 0xff), c)
     else if len = 4 then (a + k32 k 0, b, c)
     else if len = 3 then (a + (k32 k 0 AND 0xffffff), b, c)
     else if len = 2 then (a + (k32 k 0 AND 0xffff), b, c)
     else (a + (k32 k 0 AND 0xff), b, c))"

definition tail16 :: "memory \<Rightarrow> nat \<Rightarrow> state3 \<Rightarrow> state3" where
  "tail16 k len s = (let (a, b, c) = s;
       w0 = k16 k 0 + push_bit 16 (k16 k 1); w1 = k16 k 2 + push_bit 16 (k16 k 3) in
     if len = 12 then (a + w0, b + w1, c + (k16 k 4 + push_bit 16 (k16 k 5)))
     else if len = 11 then (a + w0, b + w1, c + push_bit 16 (k8 k 10) + k16 k 4)
     else if len = 10 then (a + w0, b + w1, c + k16 k 4)
     else if len = 9 then (a + w0, b + w1, c + k8 k 8)
     else if len = 8 then (a + w0, b + w1, c)
     else if len = 7 then (a + w0, b + push_bit 16 (k8 k 6) + k16 k 2, c)
     else if len = 6 then (a + w0, b + k16 k 2, c)
     else if len = 5 then (a + w0, b + k8 k 4, c)
     else if len = 4 then (a + w0, b, c)
     else if len = 3 then (a + push_bit 16 (k8 k 2) + k16 k 0, b, c)
     else if len = 2 then (a + k16 k 0, b, c)
     else (a + k8 k 0, b, c))"

text \<open>All the cases fall through.\<close>

definition tail8 :: "memory \<Rightarrow> nat \<Rightarrow> state3 \<Rightarrow> state3" where
  "tail8 k len s = (let (a, b, c) = s;
     c = (if 12 \<le> len then c + push_bit 24 (k8 k 11) else c);
     c = (if 11 \<le> len then c + push_bit 16 (k8 k 10) else c);
     c = (if 10 \<le> len then c + push_bit 8 (k8 k 9) else c);
     c = (if 9 \<le> len then c + k8 k 8 else c);
     b = (if 8 \<le> len then b + push_bit 24 (k8 k 7) else b);
     b = (if 7 \<le> len then b + push_bit 16 (k8 k 6) else b);
     b = (if 6 \<le> len then b + push_bit 8 (k8 k 5) else b);
     b = (if 5 \<le> len then b + k8 k 4 else b);
     a = (if 4 \<le> len then a + push_bit 24 (k8 k 3) else a);
     a = (if 3 \<le> len then a + push_bit 16 (k8 k 2) else a);
     a = (if 2 \<le> len then a + push_bit 8 (k8 k 1) else a);
     a = (if 1 \<le> len then a + k8 k 0 else a)
   in (a, b, c))"

text \<open>The loop over the blocks, with one way to add a block and one to add the last.\<close>

function hash_loop3 :: "(memory \<Rightarrow> state3 \<Rightarrow> state3) \<Rightarrow> (memory \<Rightarrow> nat \<Rightarrow> state3 \<Rightarrow> state3)
    \<Rightarrow> memory \<Rightarrow> nat \<Rightarrow> state3 \<Rightarrow> 32 word" where
  "hash_loop3 add last_block k len s =
     (if len > 12 then hash_loop3 add last_block (\<lambda>i. k (i + 12)) (len - 12) (mix (add k s))
      else if len = 0 then snd (snd s)
      else snd (snd (final (last_block k len s))))"
  by pat_completeness auto
termination
  by (relation "measure (\<lambda>(add, last_block, k, len, s). len)") auto

definition hashlittle :: "nat \<Rightarrow> memory \<Rightarrow> nat \<Rightarrow> 32 word \<Rightarrow> 32 word" where
  "hashlittle addr k len initval =
     (let a = 0xdeadbeef + of_nat len + initval; s = (a, a, a) in
      if addr AND 3 = 0 then hash_loop3 block32 tail32 k len s
      else if addr AND 1 = 0 then hash_loop3 block16 tail16 k len s
      else hash_loop3 block8 tail8 k len s)"

declare hash_loop3.simps [simp del]

section \<open>The ways to read a key agree\<close>

lemma bit_k8: "bit (k8 k i) n \<longleftrightarrow> n < 8 \<and> bit (k i) n"
  by (auto simp: k8_def bit_ucast_iff dest: bit_imp_le_length)

lemma bit_k16: "bit (k16 k i) n \<longleftrightarrow> (if n < 8 then bit (k (2 * i)) n else n < 16 \<and> bit (k (2 * i + 1)) (n - 8))"
  by (auto simp: k16_def bit_or_iff bit_push_bit_iff bit_k8)

text \<open>Bytes at different places do not overlap, so adding them is joining them.\<close>

lemma add_bytes: "x AND y = 0 \<Longrightarrow> x + y = x OR (y :: 32 word)"
proof (rule disjunctive_add)
  show "\<not> bit x n \<or> \<not> bit y n" if "x AND y = 0" for n
    using arg_cong[OF that, of "\<lambda>w. bit w n"] by (simp add: bit_and_iff)
qed

lemma k16_sum: "k16 k i = k8 k (2 * i) + push_bit 8 (k8 k (2 * i + 1))"
  unfolding k16_def by (rule add_bytes[symmetric]) (auto intro!: bit_eqI simp: bit_and_iff bit_push_bit_iff bit_k8)

lemma k32_sum: "k32 k i = k16 k (2 * i) + push_bit 16 (k16 k (2 * i + 1))"
  unfolding k32_def by (rule add_bytes[symmetric]) (auto intro!: bit_eqI simp: bit_and_iff bit_push_bit_iff bit_k16)

lemma masks: "(0xff :: 32 word) = mask 8" "(0xffff :: 32 word) = mask 16" "(0xffffff :: 32 word) = mask 24"
  by (simp_all add: mask_eq_exp_minus_1)

lemma k32_masked:
  "k32 k i AND 0xff = k8 k (4 * i)"
  "k32 k i AND 0xffff = k16 k (2 * i)"
  "k32 k i AND 0xffffff = k16 k (2 * i) + push_bit 16 (k8 k (4 * i + 2))"
proof -
  show "k32 k i AND 0xff = k8 k (4 * i)"
    by (rule bit_eqI) (auto simp: masks k32_def bit_and_iff bit_or_iff bit_mask_iff bit_push_bit_iff bit_k16 bit_k8)
  show "k32 k i AND 0xffff = k16 k (2 * i)"
    by (rule bit_eqI) (auto simp: masks k32_def bit_and_iff bit_or_iff bit_mask_iff bit_push_bit_iff bit_k16)
  have "k16 k (2 * i) + push_bit 16 (k8 k (4 * i + 2)) = k16 k (2 * i) OR push_bit 16 (k8 k (4 * i + 2))"
    by (rule add_bytes) (auto intro!: bit_eqI simp: bit_and_iff bit_push_bit_iff bit_k16 bit_k8)
  also have "\<dots> = k32 k i AND 0xffffff"
    by (rule bit_eqI) (auto simp: masks k32_def bit_and_iff bit_or_iff bit_mask_iff bit_push_bit_iff bit_k16 bit_k8)
  finally show "k32 k i AND 0xffffff = k16 k (2 * i) + push_bit 16 (k8 k (4 * i + 2))" ..
qed

lemma push_bit_sum: "push_bit n (x + y) = push_bit n x + push_bit n (y :: 32 word)"
  by (simp add: push_bit_eq_mult distrib_right)

lemma push_bit_8_16: "push_bit 16 (push_bit 8 x) = push_bit 24 (x :: 32 word)"
  by (simp add: push_bit_push_bit)

lemmas chunk_sums = k32_sum k16_sum push_bit_sum push_bit_8_16

lemma block_ways: "block32 = block8" "block16 = block8"
  by (intro ext, simp add: block32_def block16_def block8_def Let_def chunk_sums add.assoc split: prod.split)+

definition tail_lengths :: "nat list" where
  "tail_lengths = [1, 2, 3, 4, 5, 6, 7, 8, 9, 10, 11, 12]"

lemma in_tail_lengths: "0 < len \<Longrightarrow> len \<le> 12 \<Longrightarrow> len \<in> set tail_lengths"
proof -
  assume "0 < len" "len \<le> 12"
  then have "len = 1 \<or> len = 2 \<or> len = 3 \<or> len = 4 \<or> len = 5 \<or> len = 6 \<or> len = 7 \<or> len = 8 \<or> len = 9 \<or> len = 10 \<or>
      len = 11 \<or> len = 12"
    by presburger
  then show ?thesis
    by (simp add: tail_lengths_def)
qed

lemma tails_agree:
  "\<forall>n \<in> set tail_lengths. tail32 k n (a, b, c) = tail8 k n (a, b, c)"
  "\<forall>n \<in> set tail_lengths. tail16 k n (a, b, c) = tail8 k n (a, b, c)"
  unfolding tail_lengths_def tail32_def tail16_def k32_masked
  by (simp_all add: tail8_def chunk_sums add_ac del: One_nat_def add_2_eq_Suc')

lemma tail_ways:
  assumes "0 < len" "len \<le> 12"
  shows "tail32 k len s = tail8 k len s" "tail16 k len s = tail8 k len s"
  using tails_agree in_tail_lengths[OF assms] by (cases s; blast)+

lemma loop_way:
  assumes "\<And>len k s. 0 < len \<Longrightarrow> len \<le> 12 \<Longrightarrow> f k len s = tail8 k len s"
  shows "hash_loop3 block8 f k len s = hash_loop3 block8 tail8 k len s"
proof (induction len arbitrary: k s rule: less_induct)
  case (less len)
  then show ?case
    using assms[of len k s] by (subst (1 2) hash_loop3.simps) simp
qed

lemmas loop_ways = loop_way[OF tail_ways(1)] loop_way[OF tail_ways(2)]

text \<open>Nothing behind the key counts.\<close>

lemma block8_cong: "(\<And>i. i < 12 \<Longrightarrow> k i = k' i) \<Longrightarrow> block8 k s = block8 k' s"
  by (cases s) (simp add: block8_def k8_def)

lemma tail8_cong: "len \<le> 12 \<Longrightarrow> (\<And>i. i < len \<Longrightarrow> k i = k' i) \<Longrightarrow> tail8 k len s = tail8 k' len s"
  by (cases s) (simp add: tail8_def k8_def)

lemma loop8_cong:
  "(\<And>i. i < len \<Longrightarrow> k i = k' i) \<Longrightarrow> hash_loop3 block8 tail8 k len s = hash_loop3 block8 tail8 k' len s"
proof (induction len arbitrary: k k' s rule: less_induct)
  case (less len)
  show ?case
  proof (cases "len > 12")
    case True
    then have "hash_loop3 block8 tail8 (\<lambda>i. k (i + 12)) (len - 12) s' = hash_loop3 block8 tail8 (\<lambda>i. k' (i + 12)) (len - 12) s'" for s'
      using less.prems by (intro less.IH) auto
    then show ?thesis
      using True less.prems block8_cong[of k k' s] by (subst (1 2) hash_loop3.simps) simp
  next
    case False
    then show ?thesis
      using less.prems tail8_cong[of len k k' s] by (subst (1 2) hash_loop3.simps) simp
  qed
qed

lemma hashlittle_ways:
  assumes "\<And>i. i < len \<Longrightarrow> k i = k' i"
  shows "hashlittle addr k len initval = hashlittle addr' k' len initval"
  using loop8_cong[of len k k', OF assms] by (simp add: hashlittle_def block_ways loop_ways Let_def)

section \<open>The hash of a key\<close>

definition key_bytes :: "string \<Rightarrow> memory" where
  "key_bytes key i = (if i < length key then of_nat (code (key ! i)) else 0)"

text \<open>By \<open>hashlittle_ways\<close> neither the address nor the bytes behind the key matter.\<close>

definition hash_str :: "32 word \<Rightarrow> string \<Rightarrow> nat" where
  "hash_str seed key = unat (hashlittle 0 (key_bytes key) (length key) seed)"

end
