(* ===== verification/Hashtable.thy ===== *)
theory Hashtable
  imports Lookup3 JSON
begin

text \<open>
  The tables of Jansson's objects, \<open>submodules/jansson/src/hashtable.c\<close>, with their
  memory: two circular lists with both links, the buckets as pairs of pointers into one
  of them, and the pairs by their addresses.  None is an access to memory that is not
  there, or was freed; the allocator never gives an address twice.
\<close>

section \<open>Lists\<close>

text \<open>
  A pointer to a \<open>struct hashtable_list\<close>: the one in the table, or the one in the pair at
  an address.  The members \<open>list\<close> of all of them are one \<open>chain\<close>, and so are the
  members \<open>ordered_list\<close>.
\<close>

datatype link = Table | At nat

record chain =
  ch_next :: "link \<Rightarrow> link option"
  ch_prev :: "link \<Rightarrow> link option"

definition write_link :: "(link \<Rightarrow> link option) \<Rightarrow> link \<Rightarrow> link \<Rightarrow> (link \<Rightarrow> link option) option" where
  "write_link m l v = (if m l = None then None else Some (m(l \<mapsto> v)))"

definition list_init :: "link \<Rightarrow> chain \<Rightarrow> chain" where
  "list_init list ch = \<lparr>ch_next = (ch_next ch)(list \<mapsto> list), ch_prev = (ch_prev ch)(list \<mapsto> list)\<rparr>"

definition list_insert :: "link \<Rightarrow> link \<Rightarrow> chain \<Rightarrow> chain option" where
  "list_insert list node ch = do {
     nx \<leftarrow> write_link (ch_next ch) node list;
     p \<leftarrow> ch_prev ch list;
     pv \<leftarrow> write_link (ch_prev ch) node p;
     p \<leftarrow> pv list;
     nx \<leftarrow> write_link nx p node;
     pv \<leftarrow> write_link pv list node;
     Some \<lparr>ch_next = nx, ch_prev = pv\<rparr> }"

definition list_remove :: "link \<Rightarrow> chain \<Rightarrow> chain option" where
  "list_remove list ch = do {
     p \<leftarrow> ch_prev ch list;
     n \<leftarrow> ch_next ch list;
     nx \<leftarrow> write_link (ch_next ch) p n;
     n \<leftarrow> nx list;
     p \<leftarrow> ch_prev ch list;
     pv \<leftarrow> write_link (ch_prev ch) n p;
     Some \<lparr>ch_next = nx, ch_prev = pv\<rparr> }"

text \<open>The links in a pair that is freed are gone.\<close>

definition list_free :: "link \<Rightarrow> chain \<Rightarrow> chain" where
  "list_free list ch = \<lparr>ch_next = (ch_next ch)(list := None), ch_prev = (ch_prev ch)(list := None)\<rparr>"

section \<open>The table\<close>

record 'v pair =
  pr_hash :: nat
  pr_key :: string
  pr_value :: 'v

record bucket =
  bk_first :: link
  bk_last :: link

text \<open>\<open>ht_pairs\<close> and \<open>ht_fresh\<close>, the address the allocator gives next, are the memory of the pairs.\<close>

record 'v hashtable =
  ht_size :: nat
  ht_buckets :: "bucket list"
  ht_order :: nat
  ht_list :: chain
  ht_ordered :: chain
  ht_pairs :: "nat \<Rightarrow> 'v pair option"
  ht_fresh :: nat

definition INITIAL_HASHTABLE_ORDER :: nat where "INITIAL_HASHTABLE_ORDER = 3"
definition sizeof_bucket :: nat where "sizeof_bucket = 16"
definition offsetof_key :: nat where "offsetof_key = 56"

text \<open>
  \<open>ok\<close> says which requests \<open>malloc\<close> answers; no object is larger than \<open>PTRDIFF_MAX\<close>, so
  the order of a table stays below 59 and the sizes do not wrap around.
\<close>

definition jsonp_malloc :: "(nat \<Rightarrow> bool) \<Rightarrow> nat \<Rightarrow> bool" where
  "jsonp_malloc ok n \<longleftrightarrow> n \<noteq> 0 \<and> n \<le> PTRDIFF_MAX \<and> ok n"

definition hashsize :: "nat \<Rightarrow> nat" where "hashsize n = 2 ^ n"
definition hashmask :: "nat \<Rightarrow> nat" where "hashmask n = hashsize n - 1"

definition pair_at :: "'v hashtable \<Rightarrow> link \<Rightarrow> 'v pair option" where
  "pair_at ht list = (case list of Table \<Rightarrow> None | At a \<Rightarrow> ht_pairs ht a)"

definition empty_bucket :: bucket where
  "empty_bucket = \<lparr>bk_first = Table, bk_last = Table\<rparr>"

definition bucket_is_empty :: "bucket \<Rightarrow> bool" where
  "bucket_is_empty bucket \<longleftrightarrow> bk_first bucket = Table \<and> bk_first bucket = bk_last bucket"

definition insert_to_bucket :: "nat \<Rightarrow> link \<Rightarrow> 'v hashtable \<Rightarrow> 'v hashtable option" where
  "insert_to_bucket index list ht =
     (if length (ht_buckets ht) \<le> index then None
      else
        let bucket = ht_buckets ht ! index in
        if bucket_is_empty bucket then do {
          ch \<leftarrow> list_insert Table list (ht_list ht);
          Some (ht\<lparr>ht_list := ch, ht_buckets := (ht_buckets ht)[index := \<lparr>bk_first = list, bk_last = list\<rparr>]\<rparr>) }
        else do {
          ch \<leftarrow> list_insert (bk_first bucket) list (ht_list ht);
          Some (ht\<lparr>ht_list := ch, ht_buckets := (ht_buckets ht)[index := bucket\<lparr>bk_first := list\<rparr>]\<rparr>) })"

partial_function (option) find_loop :: "'v hashtable \<Rightarrow> link \<Rightarrow> string \<Rightarrow> nat \<Rightarrow> link \<Rightarrow> link option option" where
  "find_loop ht lst key hash list = do {
     pair \<leftarrow> pair_at ht list;
     if pr_hash pair = hash \<and> pr_key pair = key then Some (Some list)
     else if list = lst then Some None
     else do {
       next \<leftarrow> ch_next (ht_list ht) list;
       find_loop ht lst key hash next } }"

definition hashtable_find_pair :: "'v hashtable \<Rightarrow> nat \<Rightarrow> string \<Rightarrow> nat \<Rightarrow> link option option" where
  "hashtable_find_pair ht index key hash =
     (if length (ht_buckets ht) \<le> index then None
      else
        let bucket = ht_buckets ht ! index in
        if bucket_is_empty bucket then Some None
        else find_loop ht (bk_last bucket) key hash (bk_first bucket))"

definition free_pair :: "link \<Rightarrow> 'v hashtable \<Rightarrow> 'v hashtable" where
  "free_pair list ht = ht\<lparr>ht_list := list_free list (ht_list ht), ht_ordered := list_free list (ht_ordered ht),
     ht_pairs := (case list of Table \<Rightarrow> ht_pairs ht | At a \<Rightarrow> (ht_pairs ht)(a := None))\<rparr>"

text \<open>The bucket behind the removal of one of its pairs.\<close>

definition bucket_without :: "link \<Rightarrow> chain \<Rightarrow> bucket \<Rightarrow> bucket option" where
  "bucket_without list ch bucket =
     (if list = bk_first bucket \<and> list = bk_last bucket then Some empty_bucket
      else if list = bk_first bucket then do {
        next \<leftarrow> ch_next ch list;
        Some (bucket\<lparr>bk_first := next\<rparr>) }
      else if list = bk_last bucket then do {
        prev \<leftarrow> ch_prev ch list;
        Some (bucket\<lparr>bk_last := prev\<rparr>) }
      else Some bucket)"

text \<open>The functions that can fail return 0 or -1.\<close>

definition hashtable_do_del :: "string \<Rightarrow> nat \<Rightarrow> 'v hashtable \<Rightarrow> (int \<times> 'v hashtable) option" where
  "hashtable_do_del key hash ht =
     (let index = hash AND hashmask (ht_order ht) in do {
       found \<leftarrow> hashtable_find_pair ht index key hash;
       (case found of
          None \<Rightarrow> Some (- 1, ht)
        | Some list \<Rightarrow> do {
            bucket \<leftarrow> bucket_without list (ht_list ht) (ht_buckets ht ! index);
            ch \<leftarrow> list_remove list (ht_list ht);
            ord \<leftarrow> list_remove list (ht_ordered ht);
            Some (0, (free_pair list (ht\<lparr>ht_buckets := (ht_buckets ht)[index := bucket], ht_list := ch, ht_ordered := ord\<rparr>))
              \<lparr>ht_size := ht_size ht - 1\<rparr>) }) })"

partial_function (option) clear_loop :: "link \<Rightarrow> 'v hashtable \<Rightarrow> 'v hashtable option" where
  "clear_loop list ht =
     (if list = Table then Some ht
      else do {
        next \<leftarrow> ch_next (ht_list ht) list;
        pair \<leftarrow> pair_at ht list;
        clear_loop next (free_pair list ht) })"

definition hashtable_do_clear :: "'v hashtable \<Rightarrow> 'v hashtable option" where
  "hashtable_do_clear ht = do {
     list \<leftarrow> ch_next (ht_list ht) Table;
     clear_loop list ht }"

partial_function (option) rehash_loop :: "link \<Rightarrow> 'v hashtable \<Rightarrow> 'v hashtable option" where
  "rehash_loop list ht =
     (if list = Table then Some ht
      else do {
        next \<leftarrow> ch_next (ht_list ht) list;
        pair \<leftarrow> pair_at ht list;
        ht \<leftarrow> insert_to_bucket (pr_hash pair mod hashsize (ht_order ht)) list ht;
        rehash_loop next ht })"

definition hashtable_do_rehash :: "(nat \<Rightarrow> bool) \<Rightarrow> 'v hashtable \<Rightarrow> (int \<times> 'v hashtable) option" where
  "hashtable_do_rehash ok ht =
     (let new_order = ht_order ht + 1; new_size = hashsize new_order in
      if \<not> jsonp_malloc ok (new_size * sizeof_bucket) then Some (- 1, ht)
      else do {
        list \<leftarrow> ch_next (ht_list ht) Table;
        ht \<leftarrow> rehash_loop list (ht\<lparr>ht_buckets := replicate new_size empty_bucket, ht_order := new_order,
          ht_list := list_init Table (ht_list ht)\<rparr>);
        Some (0, ht) })"

text \<open>None is the result -1.\<close>

definition hashtable_init :: "(nat \<Rightarrow> bool) \<Rightarrow> 'v hashtable option" where
  "hashtable_init ok =
     (if \<not> jsonp_malloc ok (hashsize INITIAL_HASHTABLE_ORDER * sizeof_bucket) then None
      else Some \<lparr>ht_size = 0, ht_buckets = replicate (hashsize INITIAL_HASHTABLE_ORDER) empty_bucket,
        ht_order = INITIAL_HASHTABLE_ORDER,
        ht_list = list_init Table \<lparr>ch_next = \<lambda>l. None, ch_prev = \<lambda>l. None\<rparr>,
        ht_ordered = list_init Table \<lparr>ch_next = \<lambda>l. None, ch_prev = \<lambda>l. None\<rparr>,
        ht_pairs = \<lambda>a. None, ht_fresh = 0\<rparr>)"

text \<open>The new pair and its address; None is the result NULL.\<close>

definition init_pair :: "(nat \<Rightarrow> bool) \<Rightarrow> 'v \<Rightarrow> string \<Rightarrow> nat \<Rightarrow> 'v hashtable \<Rightarrow> (link \<times> 'v hashtable) option" where
  "init_pair ok val key hash ht =
     (if length key \<ge> 2 ^ 64 - 1 - offsetof_key then None
      else if \<not> jsonp_malloc ok (offsetof_key + length key + 1) then None
      else
        let list = At (ht_fresh ht) in
        Some (list, ht\<lparr>ht_pairs := (ht_pairs ht)(ht_fresh ht \<mapsto> \<lparr>pr_hash = hash, pr_key = key, pr_value = val\<rparr>),
          ht_fresh := ht_fresh ht + 1, ht_list := list_init list (ht_list ht), ht_ordered := list_init list (ht_ordered ht)\<rparr>))"

definition set_pair_value :: "link \<Rightarrow> 'v \<Rightarrow> 'v hashtable \<Rightarrow> 'v hashtable option" where
  "set_pair_value list val ht =
     (case list of
        Table \<Rightarrow> None
      | At a \<Rightarrow> do {
          pair \<leftarrow> ht_pairs ht a;
          Some (ht\<lparr>ht_pairs := (ht_pairs ht)(a \<mapsto> pair\<lparr>pr_value := val\<rparr>)\<rparr>) })"

text \<open>What \<open>hashtable_set\<close> does when the table is large enough.\<close>

definition set_in_table :: "32 word \<Rightarrow> (nat \<Rightarrow> bool) \<Rightarrow> string \<Rightarrow> 'v \<Rightarrow> 'v hashtable \<Rightarrow> (int \<times> 'v hashtable) option" where
  "set_in_table seed ok key val ht =
     (let hash = hash_str seed key; index = hash AND hashmask (ht_order ht) in do {
       found \<leftarrow> hashtable_find_pair ht index key hash;
       (case found of
          Some list \<Rightarrow> do {
            ht \<leftarrow> set_pair_value list val ht;
            Some (0, ht) }
        | None \<Rightarrow>
            (case init_pair ok val key hash ht of
               None \<Rightarrow> Some (- 1, ht)
             | Some (list, ht) \<Rightarrow> do {
                 ht \<leftarrow> insert_to_bucket index list ht;
                 ord \<leftarrow> list_insert Table list (ht_ordered ht);
                 Some (0, ht\<lparr>ht_ordered := ord, ht_size := ht_size ht + 1\<rparr>) })) })"

definition hashtable_set :: "32 word \<Rightarrow> (nat \<Rightarrow> bool) \<Rightarrow> string \<Rightarrow> 'v \<Rightarrow> 'v hashtable \<Rightarrow> (int \<times> 'v hashtable) option" where
  "hashtable_set seed ok key val ht = do {
     (rc, ht) \<leftarrow> (if ht_size ht \<ge> hashsize (ht_order ht) then hashtable_do_rehash ok ht else Some (0, ht));
     if rc \<noteq> 0 then Some (- 1, ht)
     else set_in_table seed ok key val ht }"

text \<open>The inner None is the result NULL.\<close>

definition hashtable_get :: "32 word \<Rightarrow> string \<Rightarrow> 'v hashtable \<Rightarrow> 'v option option" where
  "hashtable_get seed key ht =
     (let hash = hash_str seed key in do {
       found \<leftarrow> hashtable_find_pair ht (hash AND hashmask (ht_order ht)) key hash;
       (case found of
          None \<Rightarrow> Some None
        | Some list \<Rightarrow> do {
            pair \<leftarrow> pair_at ht list;
            Some (Some (pr_value pair)) }) })"

definition hashtable_del :: "32 word \<Rightarrow> string \<Rightarrow> 'v hashtable \<Rightarrow> (int \<times> 'v hashtable) option" where
  "hashtable_del seed key ht = hashtable_do_del key (hash_str seed key) ht"

definition hashtable_clear :: "'v hashtable \<Rightarrow> 'v hashtable option" where
  "hashtable_clear ht = do {
     ht \<leftarrow> hashtable_do_clear ht;
     Some (ht\<lparr>ht_buckets := replicate (hashsize (ht_order ht)) empty_bucket, ht_list := list_init Table (ht_list ht),
       ht_ordered := list_init Table (ht_ordered ht), ht_size := 0\<rparr>) }"

definition hashtable_close :: "'v hashtable \<Rightarrow> 'v hashtable option" where
  "hashtable_close ht = do {
     ht \<leftarrow> hashtable_do_clear ht;
     Some (ht\<lparr>ht_buckets := []\<rparr>) }"

section \<open>Iteration\<close>

definition hashtable_iter_next :: "'v hashtable \<Rightarrow> link \<Rightarrow> link option option" where
  "hashtable_iter_next ht iter = do {
     next \<leftarrow> ch_next (ht_ordered ht) iter;
     Some (if next = Table then None else Some next) }"

definition hashtable_iter :: "'v hashtable \<Rightarrow> link option option" where
  "hashtable_iter ht = hashtable_iter_next ht Table"

definition hashtable_iter_key :: "'v hashtable \<Rightarrow> link \<Rightarrow> string option" where
  "hashtable_iter_key ht iter = map_option pr_key (pair_at ht iter)"

definition hashtable_iter_value :: "'v hashtable \<Rightarrow> link \<Rightarrow> 'v option" where
  "hashtable_iter_value ht iter = map_option pr_value (pair_at ht iter)"

definition hashtable_iter_at :: "32 word \<Rightarrow> string \<Rightarrow> 'v hashtable \<Rightarrow> link option option" where
  "hashtable_iter_at seed key ht =
     (let hash = hash_str seed key in hashtable_find_pair ht (hash AND hashmask (ht_order ht)) key hash)"

definition hashtable_iter_set :: "link \<Rightarrow> 'v \<Rightarrow> 'v hashtable \<Rightarrow> 'v hashtable option" where
  "hashtable_iter_set iter val ht = set_pair_value iter val ht"

text \<open>\<open>json_object_foreach\<close>: the keys and values it visits.\<close>

partial_function (option) foreach_loop :: "'v hashtable \<Rightarrow> link option \<Rightarrow> (string \<times> 'v) list option" where
  "foreach_loop ht iter =
     (case iter of
        None \<Rightarrow> Some []
      | Some list \<Rightarrow> do {
          key \<leftarrow> hashtable_iter_key ht list;
          val \<leftarrow> hashtable_iter_value ht list;
          iter \<leftarrow> hashtable_iter_next ht list;
          rest \<leftarrow> foreach_loop ht iter;
          Some ((key, val) # rest) })"

definition json_object_foreach :: "'v hashtable \<Rightarrow> (string \<times> 'v) list option" where
  "json_object_foreach ht = do {
     iter \<leftarrow> hashtable_iter ht;
     foreach_loop ht iter }"

end
