(* ===== verification/Circular_Lists.thy ===== *)
theory Circular_Lists
  imports Hashtable
begin

text \<open>
  Circular lists with both links, as lists of the addresses of their members, and what
  inserting and removing does to them.
\<close>

section \<open>Circular lists\<close>

type_synonym links = "link \<Rightarrow> link option"

text \<open>The links from \<open>x\<close> through the pairs to \<open>y\<close> and back.\<close>

primrec linked :: "links \<Rightarrow> links \<Rightarrow> link \<Rightarrow> nat list \<Rightarrow> link \<Rightarrow> bool" where
  "linked nx pv x [] y \<longleftrightarrow> nx x = Some y \<and> pv y = Some x"
| "linked nx pv x (a # as) y \<longleftrightarrow> nx x = Some (At a) \<and> pv (At a) = Some x \<and> linked nx pv (At a) as y"

abbreviation pairs_of :: "nat list \<Rightarrow> link set" where
  "pairs_of as \<equiv> At ` set as"

definition first_link :: "nat list \<Rightarrow> link \<Rightarrow> link" where
  "first_link as y = (case as of [] \<Rightarrow> y | a # _ \<Rightarrow> At a)"

definition last_link :: "link \<Rightarrow> nat list \<Rightarrow> link" where
  "last_link x as = (if as = [] then x else At (last as))"

lemma first_link_simps [simp]: "first_link [] y = y" "first_link (a # as) y = At a"
  by (simp_all add: first_link_def)

lemma last_link_simps [simp]: "last_link x [] = x" "last_link x (a # as) = last_link (At a) as"
  "last_link x (as @ [a]) = At a"
  by (simp_all add: last_link_def)

lemma last_link_in: "last_link x as \<in> insert x (pairs_of as)"
  by (simp add: last_link_def)

definition tail_linked :: "links \<Rightarrow> links \<Rightarrow> nat list \<Rightarrow> link \<Rightarrow> bool" where
  "tail_linked nx pv as y \<longleftrightarrow> (case as of [] \<Rightarrow> True | a # bs \<Rightarrow> linked nx pv (At a) bs y)"

lemma tail_linked_simps [simp]: "tail_linked nx pv [] y" "tail_linked nx pv (a # as) y \<longleftrightarrow> linked nx pv (At a) as y"
  by (simp_all add: tail_linked_def)

lemma linked_app: "linked nx pv x (as @ bs) y \<longleftrightarrow> linked nx pv x as (first_link bs y) \<and> tail_linked nx pv bs y"
  by (induction as arbitrary: x) (cases bs; auto)+

lemma linked_cong:
  assumes "\<And>l. l \<in> insert x (pairs_of as) \<Longrightarrow> nx l = nx' l" "\<And>l. l \<in> insert y (pairs_of as) \<Longrightarrow> pv l = pv' l"
  shows "linked nx pv x as y = linked nx' pv' x as y"
  using assms by (induction as arbitrary: x) auto

lemma linked_last: "linked nx pv x as y \<Longrightarrow> pv y = Some (last_link x as) \<and> nx (last_link x as) = Some y"
  by (induction as arbitrary: x) auto

lemma linked_first: "linked nx pv x as y \<Longrightarrow> nx x = Some (first_link as y)"
  by (cases as) auto

lemma linked_here: "linked nx pv x as y \<Longrightarrow> l \<in> pairs_of as \<Longrightarrow> nx l \<noteq> None \<and> pv l \<noteq> None"
  by (induction as arbitrary: x) (auto simp: linked_first)

lemma linked_insert:
  assumes "linked nx pv x as t" "p = last_link x as" "distinct as" "x \<notin> pairs_of as" "t \<notin> pairs_of as"
    and "At n \<notin> insert x (insert t (pairs_of as))"
  shows "linked (nx(At n \<mapsto> t, p \<mapsto> At n)) (pv(At n \<mapsto> p, t \<mapsto> At n)) x (as @ [n]) t"
  using assms
proof (induction as arbitrary: x)
  case (Cons a as)
  have "p \<noteq> x" "p \<noteq> At n"
    using last_link_in[of "At a" as] Cons.prems by auto
  then show ?case
    using Cons by auto
qed auto

text \<open>A ring: the list of the pairs between the link of the table and itself.\<close>

definition circular :: "chain \<Rightarrow> nat list \<Rightarrow> bool" where
  "circular ch xs \<longleftrightarrow> linked (ch_next ch) (ch_prev ch) Table xs Table \<and> distinct xs"

text \<open>The chain changed only at the links in \<open>S\<close>, and has links where it had some.\<close>

definition only_changed :: "link set \<Rightarrow> chain \<Rightarrow> chain \<Rightarrow> bool" where
  "only_changed S ch ch' \<longleftrightarrow> (\<forall>l. l \<notin> S \<longrightarrow> ch_next ch' l = ch_next ch l \<and> ch_prev ch' l = ch_prev ch l) \<and>
     dom (ch_next ch') = dom (ch_next ch) \<and> dom (ch_prev ch') = dom (ch_prev ch)"

lemma ring_insert:
  assumes "circular ch (as @ bs)" "n \<notin> set (as @ bs)" "At n \<in> dom (ch_next ch)" "At n \<in> dom (ch_prev ch)"
  obtains ch' where "list_insert (first_link bs Table) (At n) ch = Some ch'" "circular ch' (as @ n # bs)"
    "only_changed (insert Table (pairs_of (n # as @ bs))) ch ch'"
proof -
  let ?t = "first_link bs Table" and ?p = "last_link Table as" and ?nx = "ch_next ch" and ?pv = "ch_prev ch"
  let ?ch = "\<lparr>ch_next = ?nx(At n \<mapsto> ?t, ?p \<mapsto> At n), ch_prev = ?pv(At n \<mapsto> ?p, ?t \<mapsto> At n)\<rparr>"
  have r: "linked ?nx ?pv Table as ?t" "tail_linked ?nx ?pv bs Table" "distinct (as @ bs)"
    using assms(1) by (auto simp: circular_def linked_app)
  have t: "?t \<notin> pairs_of as" "?t \<in> insert Table (pairs_of bs)" "?t \<noteq> At n"
    using r(3) assms(2) by (cases bs; auto)+
  have p: "?p \<in> insert Table (pairs_of as)" "?p \<noteq> At n"
    using last_link_in[of Table as] assms(2) by auto
  have pt: "?pv ?t = Some ?p" "?nx ?p = Some ?t"
    using linked_last[OF r(1)] by auto
  have "list_insert ?t (At n) ch = Some ?ch"
    using assms(3,4) pt p t by (auto simp: list_insert_def write_link_def)
  moreover have "circular ?ch (as @ n # bs)"
  proof -
    have "linked (?nx(At n \<mapsto> ?t, ?p \<mapsto> At n)) (?pv(At n \<mapsto> ?p, ?t \<mapsto> At n)) Table (as @ [n]) ?t"
      using r t assms(2) by (intro linked_insert) auto
    moreover have "tail_linked (?nx(At n \<mapsto> ?t, ?p \<mapsto> At n)) (?pv(At n \<mapsto> ?p, ?t \<mapsto> At n)) bs Table =
        tail_linked ?nx ?pv bs Table"
    proof (cases bs)
      case (Cons b bs')
      then show ?thesis
        using r(3) assms(2) p unfolding Cons tail_linked_simps by (intro linked_cong) auto
    qed simp
    ultimately show ?thesis
      using r assms(2) linked_app[of "?nx(At n \<mapsto> ?t, ?p \<mapsto> At n)" _ Table "as @ [n]" bs Table] by (auto simp: circular_def)
  qed
  moreover have "only_changed (insert Table (pairs_of (n # as @ bs))) ch ?ch"
    using assms(3,4) pt p t by (auto simp: only_changed_def)
  ultimately show thesis
    by (rule that)
qed

lemma linked_shortcut:
  assumes "linked nx pv x as m" "p = last_link x as" "distinct as" "x \<notin> pairs_of as" "t \<notin> pairs_of as"
  shows "linked (nx(p \<mapsto> t)) (pv(t \<mapsto> p)) x as t"
  using assms
proof (induction as arbitrary: x)
  case (Cons a as)
  have "p \<noteq> x"
    using last_link_in[of "At a" as] Cons.prems by auto
  then show ?case
    using Cons by auto
qed auto

lemma ring_remove:
  assumes "circular ch (as @ n # bs)"
  obtains ch' where "list_remove (At n) ch = Some ch'" "circular (list_free (At n) ch') (as @ bs)"
    "only_changed (insert Table (pairs_of (as @ bs))) ch ch'"
proof -
  let ?t = "first_link bs Table" and ?p = "last_link Table as" and ?nx = "ch_next ch" and ?pv = "ch_prev ch"
  let ?ch = "\<lparr>ch_next = ?nx(?p \<mapsto> ?t), ch_prev = ?pv(?t \<mapsto> ?p)\<rparr>"
  have r: "linked ?nx ?pv Table as (At n)" "linked ?nx ?pv (At n) bs Table" "distinct (as @ n # bs)"
    using assms by (auto simp: circular_def linked_app)
  have t: "?t \<notin> pairs_of as" "?t \<in> insert Table (pairs_of bs)" "?t \<noteq> At n"
    using r(3) by (cases bs; auto)+
  have p: "?p \<in> insert Table (pairs_of as)" "?p \<noteq> At n"
    using last_link_in[of Table as] r(3) by auto
  have ends: "?pv (At n) = Some ?p" "?nx ?p = Some (At n)" "?nx (At n) = Some ?t" "?pv ?t = Some (At n)"
    using linked_last[OF r(1)] linked_first[OF r(2)] r(2) by (cases bs; auto)+
  have "list_remove (At n) ch = Some ?ch"
    using ends p t by (auto simp: list_remove_def write_link_def)
  moreover have "circular (list_free (At n) ?ch) (as @ bs)"
  proof -
    let ?nx' = "(?nx(?p \<mapsto> ?t))(At n := None)" and ?pv' = "(?pv(?t \<mapsto> ?p))(At n := None)"
    have "linked (?nx(?p \<mapsto> ?t)) (?pv(?t \<mapsto> ?p)) Table as ?t"
      using r t by (intro linked_shortcut) auto
    then have "linked ?nx' ?pv' Table as ?t"
      using r(3) t(3) by (subst linked_cong) auto
    moreover have "tail_linked ?nx' ?pv' bs Table"
    proof (cases bs)
      case (Cons b bs')
      have "linked ?nx ?pv (At b) bs' Table"
        using r(2) Cons by simp
      then have "linked ?nx' ?pv' (At b) bs' Table"
        using r(3) p Cons by (subst linked_cong) auto
      then show ?thesis
        by (simp only: Cons tail_linked_simps)
    qed simp
    ultimately show ?thesis
      using r(3) by (simp add: circular_def list_free_def linked_app)
  qed
  moreover have "only_changed (insert Table (pairs_of (as @ bs))) ch ?ch"
    using ends p t by (auto simp: only_changed_def)
  ultimately show thesis
    by (rule that)
qed

lemma ring_next:
  assumes "circular ch (as @ n # bs)"
  shows "ch_next ch (At n) = Some (first_link bs Table)" "ch_prev ch (At n) = Some (last_link Table as)"
  using assms linked_first[of "ch_next ch" "ch_prev ch" "At n" bs Table]
  by (auto simp: circular_def linked_app dest: linked_last)

lemma ring_start: "circular ch xs \<Longrightarrow> ch_next ch Table = Some (first_link xs Table)"
  by (auto simp: circular_def dest: linked_first)

end
