(* ===== verification/Hashtable_Inv.thy ===== *)
theory Hashtable_Inv
  imports Circular_Lists
begin

text \<open>
  The invariant of a table: the buckets are segments of the first list of its pairs, and
  the second list is the order in which the keys came.  Looking up and iterating are
  those of the association list the table stands for.
\<close>

section \<open>Buckets\<close>

text \<open>A pair of the bucket \<open>i\<close>; a bucket is a segment of the first ring.\<close>

definition in_bucket :: "'v hashtable \<Rightarrow> nat \<Rightarrow> nat \<Rightarrow> bool" where
  "in_bucket ht i a \<longleftrightarrow> (\<exists>pr. ht_pairs ht a = Some pr \<and> pr_hash pr mod hashsize (ht_order ht) = i)"

definition bucket_of :: "nat list \<Rightarrow> bucket" where
  "bucket_of as = (if as = [] then empty_bucket else \<lparr>bk_first = At (hd as), bk_last = At (last as)\<rparr>)"

definition bucket_ok :: "'v hashtable \<Rightarrow> nat list \<Rightarrow> nat \<Rightarrow> bool" where
  "bucket_ok ht xs i \<longleftrightarrow> sublist (filter (in_bucket ht i) xs) xs \<and> ht_buckets ht ! i = bucket_of (filter (in_bucket ht i) xs)"

definition table_ok :: "'v hashtable \<Rightarrow> nat list \<Rightarrow> bool" where
  "table_ok ht xs \<longleftrightarrow> circular (ht_list ht) xs \<and> set xs \<subseteq> dom (ht_pairs ht) \<and>
     length (ht_buckets ht) = hashsize (ht_order ht) \<and> (\<forall>i < hashsize (ht_order ht). bucket_ok ht xs i)"

lemma in_bucket_cong [simp]:
  "in_bucket (ht\<lparr>ht_list := ch\<rparr>) = in_bucket ht" "in_bucket (ht\<lparr>ht_buckets := bs\<rparr>) = in_bucket ht"
  "in_bucket (ht\<lparr>ht_ordered := ch\<rparr>) = in_bucket ht" "in_bucket (ht\<lparr>ht_size := n\<rparr>) = in_bucket ht"
  by (simp_all add: in_bucket_def fun_eq_iff)

lemma bucket_of_empty [simp]: "bucket_is_empty (bucket_of as) \<longleftrightarrow> as = []"
  by (simp add: bucket_is_empty_def bucket_of_def empty_bucket_def)

lemma sublist_off: "sublist ys (us @ z # vs) \<Longrightarrow> z \<notin> set ys \<Longrightarrow> sublist ys (us @ a # z # vs)"
  by (auto simp: sublist_append sublist_Cons_right prefix_Cons)

lemma sublist_end: "sublist ys xs \<Longrightarrow> sublist ys (xs @ zs)"
  by (simp add: sublist_append)

text \<open>What inserting keeps of the other buckets.\<close>

lemma other_bucket:
  assumes "bucket_ok ht (us @ vs) j" "\<not> in_bucket ht j a" "vs = [] \<or> \<not> in_bucket ht j (hd vs)"
  shows "sublist (filter (in_bucket ht j) (us @ a # vs)) (us @ a # vs)"
    "filter (in_bucket ht j) (us @ a # vs) = filter (in_bucket ht j) (us @ vs)"
proof -
  show "filter (in_bucket ht j) (us @ a # vs) = filter (in_bucket ht j) (us @ vs)"
    using assms(2) by simp
  moreover have "sublist (filter (in_bucket ht j) (us @ vs)) (us @ a # vs)"
  proof (cases vs)
    case Nil
    then show ?thesis
      using assms(1) sublist_end[of _ us "[a]"] by (simp add: bucket_ok_def)
  next
    case (Cons v vs')
    then have "v \<notin> set (filter (in_bucket ht j) (us @ vs))"
      using assms(3) by simp
    then show ?thesis
      using assms(1) sublist_off[of "filter (in_bucket ht j) (us @ vs)" us v vs' a] Cons by (simp add: bucket_ok_def)
  qed
  ultimately show "sublist (filter (in_bucket ht j) (us @ a # vs)) (us @ a # vs)"
    by simp
qed

lemma filter_segment:
  assumes "filter P xs = ys" "xs = us @ ys @ vs"
  shows "filter P us = []" "filter P vs = []" "filter P ys = ys"
proof -
  have "filter P ys = ys"
    using assms(1) by (auto simp: filter_id_conv)
  moreover have "length (filter P us) + length (filter P ys) + length (filter P vs) = length ys"
    using arg_cong[OF assms(1), of length] unfolding assms(2) by simp
  ultimately show "filter P us = []" "filter P vs = []" "filter P ys = ys"
    by simp_all
qed

lemma insert_to_bucket_ok:
  assumes ok: "table_ok ht xs" and a: "a \<notin> set xs" "in_bucket ht i a" "i < hashsize (ht_order ht)"
    and dom: "At a \<in> dom (ch_next (ht_list ht))" "At a \<in> dom (ch_prev (ht_list ht))"
  obtains ch bs us vs where "insert_to_bucket i (At a) ht = Some (ht\<lparr>ht_list := ch, ht_buckets := bs\<rparr>)" "xs = us @ vs"
    "table_ok (ht\<lparr>ht_list := ch, ht_buckets := bs\<rparr>) (us @ a # vs)"
    "only_changed (insert Table (pairs_of (a # xs))) (ht_list ht) ch"
proof -
  define ys where "ys = filter (in_bucket ht i) xs"
  have len: "i < length (ht_buckets ht)" and buckets: "\<And>j. j < hashsize (ht_order ht) \<Longrightarrow> bucket_ok ht xs j"
    and circular: "circular (ht_list ht) xs"
    using ok a(3) by (auto simp: table_ok_def)
  have b: "ht_buckets ht ! i = bucket_of ys" "sublist ys xs"
    using buckets[OF a(3)] by (auto simp: bucket_ok_def ys_def)
  obtain us vs zs where xs: "xs = us @ vs" "vs = ys @ zs" and nil: "ys = [] \<longrightarrow> vs = []"
  proof (cases "ys = []")
    case False
    obtain us zs where "xs = us @ ys @ zs"
      using b(2) by (auto simp: sublist_def)
    then show thesis
      using False by (intro that[of us "ys @ zs" zs]) auto
  qed (rule that[of xs "[]" "[]"]; simp)
  have parts: "filter (in_bucket ht i) us = []" "filter (in_bucket ht i) vs = ys"
  proof -
    have "xs = us @ ys @ zs"
      using xs by simp
    note filter_segment[OF ys_def[symmetric] this]
    then show "filter (in_bucket ht i) us = []" "filter (in_bucket ht i) vs = ys"
      by (simp_all add: xs(2))
  qed
  define b' where "b' = (if ys = [] then \<lparr>bk_first = At a, bk_last = At a\<rparr> else (bucket_of ys)\<lparr>bk_first := At a\<rparr>)"
  obtain ch where ch: "list_insert (first_link vs Table) (At a) (ht_list ht) = Some ch" "circular ch (us @ a # vs)"
    "only_changed (insert Table (pairs_of (a # xs))) (ht_list ht) ch"
    using ring_insert[of "ht_list ht" us vs a] circular a(1) dom xs(1) by metis
  let ?ht = "ht\<lparr>ht_list := ch, ht_buckets := (ht_buckets ht)[i := b']\<rparr>"
  have target: "first_link vs Table = (if ys = [] then Table else bk_first (bucket_of ys))"
    using xs(2) nil by (cases ys) (auto simp: bucket_of_def)
  have "insert_to_bucket i (At a) ht = Some ?ht"
    using len ch(1) b(1) unfolding target by (simp add: insert_to_bucket_def b'_def split: if_splits)
  moreover have "table_ok ?ht (us @ a # vs)"
  proof -
    have "bucket_ok ?ht (us @ a # vs) j" if j: "j < hashsize (ht_order ht)" for j
    proof (cases "j = i")
      case True
      have "sublist (a # ys) (us @ a # vs)"
        unfolding xs(2) sublist_def by (metis append_Cons)
      then show ?thesis
        using True parts a(2) len by (simp add: bucket_ok_def b'_def bucket_of_def)
    next
      case False
      have only: "\<not> in_bucket ht j c" if "in_bucket ht i c" for c
        using that False by (auto simp: in_bucket_def)
      have "\<forall>c \<in> set ys. in_bucket ht i c"
        by (simp add: ys_def)
      then have "vs = [] \<or> in_bucket ht i (hd vs)"
        using xs(2) nil by (cases ys) auto
      then show ?thesis
        using other_bucket[of ht us vs j a] buckets[OF j] only a(2) False xs(1) by (auto simp: bucket_ok_def)
    qed
    moreover have "set (us @ a # vs) \<subseteq> dom (ht_pairs ht)"
      using ok a(2) xs(1) by (auto simp: table_ok_def in_bucket_def)
    ultimately show ?thesis
      using ok ch(2) by (simp add: table_ok_def)
  qed
  ultimately show thesis
    using that ch(3) xs(1) by blast
qed

section \<open>Finding a pair\<close>

definition pair_is :: "'v hashtable \<Rightarrow> string \<Rightarrow> nat \<Rightarrow> nat \<Rightarrow> bool" where
  "pair_is ht key hash a \<longleftrightarrow> (\<exists>pr. ht_pairs ht a = Some pr \<and> pr_hash pr = hash \<and> pr_key pr = key)"

lemma find_loop_segment:
  assumes "circular (ht_list ht) (us @ ys @ vs)" "ys \<noteq> []" "set ys \<subseteq> dom (ht_pairs ht)"
  shows "find_loop ht (At (last ys)) key hash (At (hd ys)) = Some (map_option At (find (pair_is ht key hash) ys))"
  using assms
proof (induction ys arbitrary: us)
  case (Cons y ys)
  obtain pr where pr: "ht_pairs ht y = Some pr"
    using Cons.prems(3) by auto
  have is_y: "pair_is ht key hash y \<longleftrightarrow> pr_hash pr = hash \<and> pr_key pr = key"
    using pr by (simp add: pair_is_def)
  have unfold: "find_loop ht lst key hash (At y) =
      (if pr_hash pr = hash \<and> pr_key pr = key then Some (Some (At y))
       else if At y = lst then Some None
       else Option.bind (ch_next (ht_list ht) (At y)) (find_loop ht lst key hash))" for lst
    by (subst find_loop.simps) (simp add: pair_at_def pr)
  show ?case
  proof (cases "pr_hash pr = hash \<and> pr_key pr = key")
    case True
    then show ?thesis
      using is_y by (simp add: unfold)
  next
    case no: False
    show ?thesis
    proof (cases ys)
      case Nil
      then show ?thesis
        using no is_y by (simp add: unfold)
    next
      case (Cons z zs)
      have "distinct (y # ys)"
        using Cons.prems(1) by (simp add: circular_def)
      then have "y \<noteq> last ys"
        using Cons by auto
      moreover have "ch_next (ht_list ht) (At y) = Some (At (hd ys))"
        using ring_next(1)[of "ht_list ht" us y "ys @ vs"] Cons.prems(1) Cons by simp
      moreover have "find_loop ht (At (last ys)) key hash (At (hd ys)) = Some (map_option At (find (pair_is ht key hash) ys))"
        using Cons.IH[of "us @ [y]"] Cons.prems Cons by simp
      ultimately show ?thesis
        using no is_y Cons by (auto simp: unfold)
    qed
  qed
qed simp

lemma find_pair_ok:
  assumes "table_ok ht xs" "i < hashsize (ht_order ht)"
  shows "hashtable_find_pair ht i key hash = Some (map_option At (find (pair_is ht key hash) (filter (in_bucket ht i) xs)))"
proof -
  define ys where "ys = filter (in_bucket ht i) xs"
  have b: "ht_buckets ht ! i = bucket_of ys" "sublist ys xs" "i < length (ht_buckets ht)" "set ys \<subseteq> dom (ht_pairs ht)"
    "circular (ht_list ht) xs"
    using assms by (auto simp: table_ok_def bucket_ok_def ys_def)
  obtain us vs where "xs = us @ ys @ vs"
    using b(2) by (auto simp: sublist_def)
  then show ?thesis
    using b find_loop_segment[of ht us ys vs key hash]
    unfolding ys_def[symmetric] by (auto simp: hashtable_find_pair_def bucket_of_def empty_bucket_def bucket_is_empty_def)
qed

lemma hash_and_mask: "hash AND hashmask n = hash mod hashsize n"
  unfolding hashmask_def hashsize_def by (metis mask_eq_exp_minus_1 take_bit_eq_mask take_bit_eq_mod)

lemma hashsize_pos [simp]: "0 < hashsize n"
  by (simp add: hashsize_def)

section \<open>The invariant\<close>

definition key_at :: "'v hashtable \<Rightarrow> nat \<Rightarrow> string" where
  "key_at ht a = pr_key (the (ht_pairs ht a))"

definition value_at :: "'v hashtable \<Rightarrow> nat \<Rightarrow> 'v" where
  "value_at ht a = pr_value (the (ht_pairs ht a))"

lemma key_value_cong [simp]:
  "key_at (ht\<lparr>ht_list := ch\<rparr>) = key_at ht" "key_at (ht\<lparr>ht_ordered := ch\<rparr>) = key_at ht"
  "key_at (ht\<lparr>ht_buckets := bs\<rparr>) = key_at ht" "key_at (ht\<lparr>ht_order := n\<rparr>) = key_at ht" "key_at (ht\<lparr>ht_size := n\<rparr>) = key_at ht"
  "value_at (ht\<lparr>ht_list := ch\<rparr>) = value_at ht" "value_at (ht\<lparr>ht_ordered := ch\<rparr>) = value_at ht"
  "value_at (ht\<lparr>ht_buckets := bs\<rparr>) = value_at ht" "value_at (ht\<lparr>ht_order := n\<rparr>) = value_at ht" "value_at (ht\<lparr>ht_size := n\<rparr>) = value_at ht"
  by (simp_all add: key_at_def value_at_def fun_eq_iff)

definition links_of :: "'v hashtable \<Rightarrow> link set" where
  "links_of ht = insert Table (At ` dom (ht_pairs ht))"

definition chain_ok :: "'v hashtable \<Rightarrow> chain \<Rightarrow> bool" where
  "chain_ok ht ch \<longleftrightarrow> dom (ch_next ch) = links_of ht \<and> dom (ch_prev ch) = links_of ht"

definition pairs_ok :: "32 word \<Rightarrow> 'v hashtable \<Rightarrow> bool" where
  "pairs_ok seed ht \<longleftrightarrow> (\<forall>a pr. ht_pairs ht a = Some pr \<longrightarrow> a < ht_fresh ht \<and> pr_hash pr = hash_str seed (pr_key pr))"

text \<open>\<open>ys\<close> are the addresses in the order of the keys, \<open>xs\<close> those of the list of the buckets.\<close>

definition ht_ok :: "32 word \<Rightarrow> 'v hashtable \<Rightarrow> nat list \<Rightarrow> nat list \<Rightarrow> bool" where
  "ht_ok seed ht xs ys \<longleftrightarrow> table_ok ht xs \<and> set xs = dom (ht_pairs ht) \<and> circular (ht_ordered ht) ys \<and> set ys = dom (ht_pairs ht) \<and>
     chain_ok ht (ht_list ht) \<and> chain_ok ht (ht_ordered ht) \<and> pairs_ok seed ht \<and>
     distinct (map (key_at ht) ys) \<and> ht_size ht = length ys"

definition contents :: "'v hashtable \<Rightarrow> nat list \<Rightarrow> (string \<times> 'v) list" where
  "contents ht ys = map (\<lambda>a. (key_at ht a, value_at ht a)) ys"

text \<open>The table stands for an association list.\<close>

definition table_for :: "32 word \<Rightarrow> 'v hashtable \<Rightarrow> (string \<times> 'v) list \<Rightarrow> bool" where
  "table_for seed ht kvs \<longleftrightarrow> (\<exists>xs ys. ht_ok seed ht xs ys \<and> kvs = contents ht ys)"

lemma find_same:
  assumes "\<And>a. a \<in> set as \<and> P a \<longleftrightarrow> a \<in> set bs \<and> Q a" "\<And>a b. a \<in> set as \<Longrightarrow> P a \<Longrightarrow> b \<in> set as \<Longrightarrow> P b \<Longrightarrow> a = b"
  shows "find P as = find Q bs"
proof (cases "find P as")
  case None
  then have "\<not> (\<exists>b \<in> set bs. Q b)"
    using assms(1) by (auto simp: find_None_iff)
  then show ?thesis
    using None by (metis find_None_iff)
next
  case (Some a)
  then have a: "a \<in> set as" "P a"
    by (auto simp: find_Some_iff)
  obtain b where b: "find Q bs = Some b"
    using a assms(1) by (metis find_None_iff not_None_eq)
  then have "b \<in> set bs" "Q b"
    by (auto simp: find_Some_iff)
  then show ?thesis
    using Some a b assms by metis
qed

lemma find_key_ok:
  assumes "ht_ok seed ht xs ys"
  shows "hashtable_find_pair ht (hash_str seed key AND hashmask (ht_order ht)) key (hash_str seed key) =
     Some (map_option At (find (\<lambda>a. key_at ht a = key) ys))"
proof -
  let ?h = "hash_str seed key" and ?i = "hash_str seed key mod hashsize (ht_order ht)"
  have ok: "table_ok ht xs" "set xs = set ys" "set ys = dom (ht_pairs ht)" "distinct (map (key_at ht) ys)"
    and hash: "\<And>a pr. ht_pairs ht a = Some pr \<Longrightarrow> pr_hash pr = hash_str seed (pr_key pr)"
    using assms by (auto simp: ht_ok_def pairs_ok_def)
  have "find (pair_is ht key ?h) (filter (in_bucket ht ?i) xs) = find (\<lambda>a. key_at ht a = key) ys"
  proof (rule find_same)
    show "a \<in> set (filter (in_bucket ht ?i) xs) \<and> pair_is ht key ?h a \<longleftrightarrow> a \<in> set ys \<and> key_at ht a = key" for a
      using ok(2,3) hash[of a] by (auto simp: pair_is_def in_bucket_def key_at_def)
    show "a = b" if "a \<in> set (filter (in_bucket ht ?i) xs)" "pair_is ht key ?h a"
      "b \<in> set (filter (in_bucket ht ?i) xs)" "pair_is ht key ?h b" for a b
      using that ok(2,4) by (auto simp: pair_is_def key_at_def distinct_map inj_on_def)
  qed
  then show ?thesis
    using find_pair_ok[OF ok(1), of ?i key ?h] by (simp add: hash_and_mask)
qed

lemma find_map_of: "map_of (map (\<lambda>a. (f a, g a)) as) k = map_option g (find (\<lambda>a. f a = k) as)"
  by (induction as) auto

lemma get_content:
  assumes "ht_ok seed ht xs ys"
  shows "hashtable_get seed key ht = Some (map_of (contents ht ys) key)"
proof -
  have "a \<in> dom (ht_pairs ht)" if "find (\<lambda>a. key_at ht a = key) ys = Some a" for a
    using that assms by (auto simp: ht_ok_def find_Some_iff)
  then show ?thesis
    by (cases "find (\<lambda>a. key_at ht a = key) ys")
      (auto simp: hashtable_get_def find_key_ok[OF assms] contents_def find_map_of pair_at_def value_at_def)
qed

lemma foreach_loop_ring:
  assumes "circular (ht_ordered ht) (us @ ys)" "set ys \<subseteq> dom (ht_pairs ht)"
  shows "foreach_loop ht (case ys of [] \<Rightarrow> None | a # _ \<Rightarrow> Some (At a)) = Some (contents ht ys)"
  using assms
proof (induction ys arbitrary: us)
  case Nil
  then show ?case
    by (simp add: foreach_loop.simps contents_def)
next
  case (Cons a ys)
  obtain pr where pr: "ht_pairs ht a = Some pr"
    using Cons.prems(2) by auto
  have "ch_next (ht_ordered ht) (At a) = Some (first_link ys Table)"
    using ring_next(1)[of "ht_ordered ht" us a ys] Cons.prems(1) by simp
  then have "hashtable_iter_next ht (At a) = Some (case ys of [] \<Rightarrow> None | b # _ \<Rightarrow> Some (At b))"
    by (simp add: hashtable_iter_next_def split: list.split)
  moreover have "foreach_loop ht (case ys of [] \<Rightarrow> None | b # _ \<Rightarrow> Some (At b)) = Some (contents ht ys)"
    using Cons.IH[of "us @ [a]"] Cons.prems by simp
  ultimately show ?case
    by (subst foreach_loop.simps)
      (simp add: hashtable_iter_key_def hashtable_iter_value_def pair_at_def pr contents_def key_at_def value_at_def)
qed

lemma foreach_content:
  assumes "ht_ok seed ht xs ys"
  shows "json_object_foreach ht = Some (contents ht ys)"
proof -
  have r: "circular (ht_ordered ht) ([] @ ys)" "set ys \<subseteq> dom (ht_pairs ht)"
    using assms by (auto simp: ht_ok_def)
  then have "hashtable_iter ht = Some (case ys of [] \<Rightarrow> None | a # _ \<Rightarrow> Some (At a))"
    using ring_start[of "ht_ordered ht" ys] by (simp add: hashtable_iter_def hashtable_iter_next_def split: list.split)
  then show ?thesis
    using foreach_loop_ring[OF r] by (simp add: json_object_foreach_def)
qed

end
