(* ===== verification/Hashtable_Proofs.thy ===== *)
theory Hashtable_Proofs
  imports Hashtable_Inv
begin

text \<open>
  The operations that change a table keep its invariant and compute those of the
  association list, whichever requests for memory fail.
\<close>

section \<open>The operations\<close>

lemma table_ok_initial: "table_ok (ht\<lparr>ht_buckets := replicate (hashsize n) empty_bucket, ht_order := n, ht_list := list_init Table ch\<rparr>) []"
  by (simp add: table_ok_def circular_def list_init_def bucket_ok_def bucket_of_def)

lemma init_for: "hashtable_init ok = Some ht \<Longrightarrow> table_for seed ht []"
proof -
  assume "hashtable_init ok = Some ht"
  then have ht: "ht = \<lparr>ht_size = 0, ht_buckets = replicate (hashsize INITIAL_HASHTABLE_ORDER) empty_bucket,
      ht_order = INITIAL_HASHTABLE_ORDER, ht_list = list_init Table \<lparr>ch_next = \<lambda>l. None, ch_prev = \<lambda>l. None\<rparr>,
      ht_ordered = list_init Table \<lparr>ch_next = \<lambda>l. None, ch_prev = \<lambda>l. None\<rparr>, ht_pairs = \<lambda>a. None, ht_fresh = 0\<rparr>"
    by (simp add: hashtable_init_def split: if_splits)
  have "ht_ok seed ht [] []"
    unfolding ht by (auto simp: ht_ok_def table_ok_def circular_def list_init_def bucket_ok_def bucket_of_def chain_ok_def links_of_def pairs_ok_def dom_def)
  then show ?thesis
    by (force simp: table_for_def contents_def)
qed

text \<open>Rehashing moves the pairs of \<open>rs\<close>, of which only the forward links are still intact.\<close>

primrec next_links :: "links \<Rightarrow> nat list \<Rightarrow> bool" where
  "next_links nx [] \<longleftrightarrow> True"
| "next_links nx (r # rs) \<longleftrightarrow> nx (At r) = Some (first_link rs Table) \<and> next_links nx rs"

lemma next_links_cong: "(\<And>l. l \<in> pairs_of rs \<Longrightarrow> nx l = nx' l) \<Longrightarrow> next_links nx rs = next_links nx' rs"
  by (induction rs) auto

lemma ring_next_links: "circular ch (as @ bs) \<Longrightarrow> next_links (ch_next ch) bs"
proof (induction bs arbitrary: as)
  case (Cons b bs)
  then show ?case
    using ring_next(1)[of ch as b bs] Cons.IH[of "as @ [b]"] by simp
qed simp

lemma rehash_loop_ok:
  assumes "table_ok ht ps" "next_links (ch_next (ht_list ht)) rs" "distinct (rs @ ps)" "set rs \<subseteq> dom (ht_pairs ht)"
    and "chain_ok ht (ht_list ht)"
  obtains ch bs ps' where "rehash_loop (first_link rs Table) ht = Some (ht\<lparr>ht_list := ch, ht_buckets := bs\<rparr>)"
    "table_ok (ht\<lparr>ht_list := ch, ht_buckets := bs\<rparr>) ps'" "set ps' = set ps \<union> set rs" "chain_ok ht ch"
  using assms
proof (induction rs arbitrary: ht ps thesis)
  case Nil
  then show ?case
    using Nil.prems(1)[of "ht_buckets ht" "ht_list ht" ps] by (simp add: rehash_loop.simps)
next
  case (Cons r rs)
  obtain pr where pr: "ht_pairs ht r = Some pr"
    using Cons.prems(5) by auto
  let ?i = "pr_hash pr mod hashsize (ht_order ht)"
  obtain ch bs us vs where ins: "insert_to_bucket ?i (At r) ht = Some (ht\<lparr>ht_list := ch, ht_buckets := bs\<rparr>)" "ps = us @ vs"
    "table_ok (ht\<lparr>ht_list := ch, ht_buckets := bs\<rparr>) (us @ r # vs)" "only_changed (insert Table (pairs_of (r # ps))) (ht_list ht) ch"
  proof (rule insert_to_bucket_ok[OF Cons.prems(2), of r ?i])
    show "in_bucket ht ?i r"
      by (simp add: in_bucket_def pr)
    show "At r \<in> dom (ch_next (ht_list ht))" "At r \<in> dom (ch_prev (ht_list ht))"
      using Cons.prems(5,6) by (auto simp: chain_ok_def links_of_def)
  qed (use Cons.prems(4) in auto)
  let ?ht = "ht\<lparr>ht_list := ch, ht_buckets := bs\<rparr>"
  have "next_links (ch_next ch) rs"
    using Cons.prems(3,4) ins(4) by (subst next_links_cong[of rs _ "ch_next (ht_list ht)"]) (auto simp: only_changed_def)
  moreover have "chain_ok ?ht ch"
    using Cons.prems(6) ins(4) by (simp add: chain_ok_def only_changed_def links_of_def)
  ultimately obtain ch' bs' ps' where rest: "rehash_loop (first_link rs Table) ?ht = Some (?ht\<lparr>ht_list := ch', ht_buckets := bs'\<rparr>)"
    "table_ok (?ht\<lparr>ht_list := ch', ht_buckets := bs'\<rparr>) ps'" "set ps' = set (us @ r # vs) \<union> set rs" "chain_ok ?ht ch'"
    using Cons.prems(4,5) ins(2,3) by (rule_tac Cons.IH[of ?ht "us @ r # vs"]) auto
  have "rehash_loop (first_link (r # rs) Table) ht = Some (ht\<lparr>ht_list := ch', ht_buckets := bs'\<rparr>)"
    using Cons.prems(3) rest(1) by (subst rehash_loop.simps) (simp add: pair_at_def pr ins(1))
  then show ?case
    using Cons.prems(1)[of bs' ch' ps'] rest ins(2) by (auto simp: chain_ok_def links_of_def)
qed

lemma do_rehash_ok:
  assumes "ht_ok seed ht xs ys" "jsonp_malloc ok (hashsize (ht_order ht + 1) * sizeof_bucket)"
  obtains ht' xs' where "hashtable_do_rehash ok ht = Some (0, ht')" "ht_ok seed ht' xs' ys" "contents ht' ys = contents ht ys"
proof -
  let ?n = "ht_order ht + 1"
  let ?ht = "ht\<lparr>ht_buckets := replicate (hashsize ?n) empty_bucket, ht_order := ?n, ht_list := list_init Table (ht_list ht)\<rparr>"
  have circular: "circular (ht_list ht) ([] @ xs)" and xs: "set xs = dom (ht_pairs ht)" "distinct xs" and chain: "chain_ok ht (ht_list ht)"
    using assms(1) by (auto simp: ht_ok_def table_ok_def circular_def)
  have "next_links (ch_next (list_init Table (ht_list ht))) xs"
    using ring_next_links[OF circular] by (subst next_links_cong[of _ _ "ch_next (ht_list ht)"]) (auto simp: list_init_def)
  moreover have "chain_ok ?ht (list_init Table (ht_list ht))"
    using chain by (auto simp: chain_ok_def links_of_def list_init_def)
  ultimately obtain ch bs ps where loop: "rehash_loop (first_link xs Table) ?ht = Some (?ht\<lparr>ht_list := ch, ht_buckets := bs\<rparr>)"
    "table_ok (?ht\<lparr>ht_list := ch, ht_buckets := bs\<rparr>) ps" "set ps = set [] \<union> set xs" "chain_ok ?ht ch"
    using xs by (rule_tac rehash_loop_ok[OF table_ok_initial, where rs = xs]) auto
  let ?ht' = "?ht\<lparr>ht_list := ch, ht_buckets := bs\<rparr>"
  have "hashtable_do_rehash ok ht = Some (0, ?ht')"
    using assms(2) loop(1) ring_start[of "ht_list ht" xs] circular by (simp add: hashtable_do_rehash_def)
  moreover have "ht_ok seed ?ht' ps ys"
    using assms(1) loop(2-4) by (auto simp: ht_ok_def chain_ok_def links_of_def pairs_ok_def)
  moreover have "contents ?ht' ys = contents ht ys"
    by (simp add: contents_def)
  ultimately show thesis
    by (rule that)
qed

lemma object_set_in_place:
  assumes "distinct (map f ys)" "a \<in> set ys"
  shows "object_set (map (\<lambda>b. (f b, g b)) ys) (f a) val = map (\<lambda>b. (f b, if b = a then val else g b)) ys"
  using assms
proof (induction ys)
  case (Cons y ys)
  show ?case
  proof (cases "y = a")
    case True
    then have "\<And>b. b \<in> set ys \<Longrightarrow> b \<noteq> a"
      using Cons.prems(1) by auto
    then show ?thesis
      using True by auto
  next
    case False
    then show ?thesis
      using Cons by (auto simp: rev_image_eqI)
  qed
qed simp

text \<open>The value of a key that is there changes in its place.\<close>

lemma set_value_ok:
  assumes "ht_ok seed ht xs ys" "a \<in> set ys"
  obtains ht' where "set_pair_value (At a) val ht = Some ht'" "ht_ok seed ht' xs ys"
    "contents ht' ys = object_set (contents ht ys) (key_at ht a) val"
proof -
  obtain pr where pr: "ht_pairs ht a = Some pr"
    using assms by (auto simp: ht_ok_def)
  let ?ht = "ht\<lparr>ht_pairs := (ht_pairs ht)(a \<mapsto> pr\<lparr>pr_value := val\<rparr>)\<rparr>"
  have key: "key_at ?ht = key_at ht" and val: "value_at ?ht = (value_at ht)(a := val)"
    using pr by (auto simp: key_at_def value_at_def fun_eq_iff)
  have in_bucket: "in_bucket ?ht = in_bucket ht" and dom: "dom (ht_pairs ?ht) = dom (ht_pairs ht)"
    using pr by (auto simp: in_bucket_def fun_eq_iff)
  have "set_pair_value (At a) val ht = Some ?ht"
    by (simp add: set_pair_value_def pr)
  moreover have "ht_ok seed ?ht xs ys"
    using assms(1) pr unfolding ht_ok_def table_ok_def bucket_ok_def chain_ok_def links_of_def key in_bucket dom
    by (auto simp: pairs_ok_def)
  moreover have "distinct (map (key_at ht) ys)"
    using assms(1) by (simp add: ht_ok_def)
  then have "contents ?ht ys = object_set (contents ht ys) (key_at ht a) val"
    using object_set_in_place[OF _ assms(2), of "key_at ht" "value_at ht" val] unfolding contents_def key val
    by (simp add: fun_upd_def)
  ultimately show thesis
    by (rule that)
qed

lemma ring_cong:
  "circular ch xs \<Longrightarrow> (\<And>l. l \<in> insert Table (pairs_of xs) \<Longrightarrow> ch_next ch' l = ch_next ch l \<and> ch_prev ch' l = ch_prev ch l) \<Longrightarrow> circular ch' xs"
  unfolding circular_def using linked_cong[of Table xs "ch_next ch" "ch_next ch'" Table "ch_prev ch" "ch_prev ch'"] by auto

lemma ring_init:
  assumes "circular ch xs" "a \<notin> set xs"
  shows "circular (list_init (At a) ch) xs"
proof (rule ring_cong[OF assms(1)])
  fix l
  assume "l \<in> insert Table (pairs_of xs)"
  then have "l \<noteq> At a"
    using assms(2) by auto
  then show "ch_next (list_init (At a) ch) l = ch_next ch l \<and> ch_prev (list_init (At a) ch) l = ch_prev ch l"
    by (simp add: list_init_def)
qed

text \<open>A new pair comes into its bucket and to the end of the order.\<close>

lemma add_pair_ok:
  assumes "ht_ok seed ht xs ys" "key \<notin> set (map (key_at ht) ys)" "init_pair ok val key (hash_str seed key) ht = Some (list, ht1)"
  obtains ht2 ord xs' ys' where "insert_to_bucket (hash_str seed key mod hashsize (ht_order ht)) list ht1 = Some ht2"
    "list_insert Table list (ht_ordered ht2) = Some ord"
    "ht_ok seed (ht2\<lparr>ht_ordered := ord, ht_size := ht_size ht2 + 1\<rparr>) xs' ys'"
    "contents (ht2\<lparr>ht_ordered := ord, ht_size := ht_size ht2 + 1\<rparr>) ys' = contents ht ys @ [(key, val)]"
proof -
  define a where "a = ht_fresh ht"
  let ?h = "hash_str seed key" and ?pairs = "(ht_pairs ht)(a \<mapsto> \<lparr>pr_hash = hash_str seed key, pr_key = key, pr_value = val\<rparr>)"
  let ?i = "?h mod hashsize (ht_order ht)"
  have list: "list = At a" and ht1: "ht1 = ht\<lparr>ht_pairs := ?pairs, ht_fresh := a + 1,
      ht_list := list_init (At a) (ht_list ht), ht_ordered := list_init (At a) (ht_ordered ht)\<rparr>"
    using assms(3) by (auto simp: init_pair_def Let_def a_def split: if_splits)
  have ok: "table_ok ht xs" "set xs = dom (ht_pairs ht)" "circular (ht_ordered ht) ys" "set ys = dom (ht_pairs ht)"
    "chain_ok ht (ht_list ht)" "chain_ok ht (ht_ordered ht)" "pairs_ok seed ht" "distinct (map (key_at ht) ys)" "ht_size ht = length ys"
    using assms(1) by (simp_all add: ht_ok_def)
  have fresh: "ht_pairs ht a = None" "a \<notin> set xs" "a \<notin> set ys"
    using ok(2,4,7) by (auto simp: pairs_ok_def a_def domIff)
  have filter: "filter (in_bucket ht1 j) xs = filter (in_bucket ht j) xs" for j
  proof (rule filter_cong[OF refl])
    show "in_bucket ht1 j b = in_bucket ht j b" if "b \<in> set xs" for b
    proof -
      have "b \<noteq> a"
        using that fresh(2) by blast
      then show ?thesis
        by (simp add: in_bucket_def ht1)
    qed
  qed
  have dom: "dom (ht_pairs ht1) = insert a (dom (ht_pairs ht))"
    by (simp add: ht1)
  have "circular (ht_list ht) xs"
    using ok(1) by (simp add: table_ok_def)
  then have "circular (ht_list ht1) xs"
    using ring_init[OF _ fresh(2)] by (simp add: ht1)
  then have table1: "table_ok ht1 xs"
    using ok(1) dom unfolding table_ok_def bucket_ok_def filter by (simp add: ht1 subset_insertI2)
  have order1: "hashsize (ht_order ht1) = hashsize (ht_order ht)"
    by (simp add: ht1)
  obtain ch bs us vs where ins: "insert_to_bucket ?i (At a) ht1 = Some (ht1\<lparr>ht_list := ch, ht_buckets := bs\<rparr>)" "xs = us @ vs"
    "table_ok (ht1\<lparr>ht_list := ch, ht_buckets := bs\<rparr>) (us @ a # vs)" "only_changed (insert Table (pairs_of (a # xs))) (ht_list ht1) ch"
  proof (rule insert_to_bucket_ok[OF table1 fresh(2), of ?i])
    show "in_bucket ht1 ?i a"
      by (simp add: in_bucket_def ht1)
    show "?i < hashsize (ht_order ht1)"
      by (simp add: order1)
  qed (auto simp: ht1 list_init_def)
  let ?ht2 = "ht1\<lparr>ht_list := ch, ht_buckets := bs\<rparr>"
  have "circular (ht_ordered ht1) (ys @ [])"
    using ring_init[OF ok(3) fresh(3)] by (simp add: ht1)
  then obtain ord where ord: "list_insert (first_link [] Table) (At a) (ht_ordered ht1) = Some ord" "circular ord (ys @ [a])"
    "only_changed (insert Table (pairs_of (a # ys @ []))) (ht_ordered ht1) ord"
    by (rule ring_insert[of _ _ _ a]) (use fresh(3) in \<open>auto simp: ht1 list_init_def\<close>)
  let ?ht3 = "?ht2\<lparr>ht_ordered := ord, ht_size := ht_size ?ht2 + 1\<rparr>"
  have key: "key_at ?ht3 b = (if b = a then key else key_at ht b)" "value_at ?ht3 b = (if b = a then val else value_at ht b)" for b
    by (simp_all add: ht1 key_at_def value_at_def)
  have keys: "map (key_at ?ht3) (ys @ [a]) = map (key_at ht) ys @ [key]"
    using fresh(3) unfolding map_append key(1)[abs_def] by auto
  have "ht_ok seed ?ht3 (us @ a # vs) (ys @ [a])"
  proof -
    have "chain_ok ?ht3 ch" "chain_ok ?ht3 ord"
      using ins(4) ord(3) ok(5,6) by (auto simp: chain_ok_def links_of_def only_changed_def ht1 list_init_def)
    moreover have "pairs_ok seed ?ht3"
      using ok(7) by (auto simp: pairs_ok_def ht1 a_def less_Suc_eq)
    moreover have "distinct (map (key_at ?ht3) (ys @ [a]))"
      using ok(8) assms(2) unfolding keys by simp
    moreover have "table_ok ?ht3 (us @ a # vs)"
      using ins(3) by (simp add: table_ok_def bucket_ok_def)
    moreover have "set (us @ a # vs) = dom (ht_pairs ?ht3)" "set (ys @ [a]) = dom (ht_pairs ?ht3)"
      using ok(2,4) ins(2) dom by auto
    moreover have "ht_size ?ht3 = length (ys @ [a])"
      using ok(9) by (simp add: ht1)
    ultimately show ?thesis
      using ord(2) by (simp add: ht_ok_def)
  qed
  moreover have "contents ?ht3 (ys @ [a]) = contents ht ys @ [(key, val)]"
    using fresh(3) unfolding contents_def map_append key by auto
  moreover have "list_insert Table list (ht_ordered ?ht2) = Some ord"
    using ord(1) list by simp
  ultimately show thesis
    using that[of ?ht2 ord] ins(1) list by blast
qed

text \<open>Whether the memory is there or not, the table stays one; the code -1 leaves what it stands for.\<close>

lemma set_in_table_ok:
  assumes "table_for seed ht kvs"
  obtains rc ht' where "set_in_table seed ok key val ht = Some (rc, ht')"
    "table_for seed ht' (if rc = 0 then object_set kvs key val else kvs)"
    "jsonp_malloc ok (offsetof_key + length key + 1) \<longrightarrow> rc = 0"
proof -
  let ?h = "hash_str seed key"
  obtain xs ys where ok: "ht_ok seed ht xs ys" and kvs: "kvs = contents ht ys"
    using assms(1) by (auto simp: table_for_def)
  note found = find_key_ok[OF ok, of key]
  show thesis
  proof (cases "find (\<lambda>a. key_at ht a = key) ys")
    case (Some a)
    then have a: "a \<in> set ys" "key_at ht a = key"
      by (auto simp: find_Some_iff)
    obtain ht' where "set_pair_value (At a) val ht = Some ht'" "ht_ok seed ht' xs ys" "contents ht' ys = object_set (contents ht ys) key val"
      using set_value_ok[OF ok a(1), of val] a(2) by metis
    moreover from this have "table_for seed ht' (object_set kvs key val)"
      unfolding table_for_def kvs by metis
    ultimately show thesis
      using that[of 0 ht'] found Some by (simp add: set_in_table_def Let_def)
  next
    case None
    then have key: "key \<notin> set (map (key_at ht) ys)"
      by (auto simp: find_None_iff)
    show thesis
    proof (cases "init_pair ok val key ?h ht")
      case no: None
      then have "\<not> jsonp_malloc ok (offsetof_key + length key + 1)"
        by (auto simp: init_pair_def Let_def jsonp_malloc_def PTRDIFF_MAX_def offsetof_key_def split: if_splits)
      then show thesis
        using that[of "- 1" ht] found None no assms by (simp add: set_in_table_def Let_def)
    next
      case (Some r)
      obtain list ht1 where init: "init_pair ok val key ?h ht = Some (list, ht1)"
        using Some by (cases r) simp
      obtain ht2 ord xs' ys' where add: "insert_to_bucket (?h mod hashsize (ht_order ht)) list ht1 = Some ht2"
        "list_insert Table list (ht_ordered ht2) = Some ord" "ht_ok seed (ht2\<lparr>ht_ordered := ord, ht_size := ht_size ht2 + 1\<rparr>) xs' ys'"
        "contents (ht2\<lparr>ht_ordered := ord, ht_size := ht_size ht2 + 1\<rparr>) ys' = contents ht ys @ [(key, val)]"
        by (rule add_pair_ok[OF ok key init])
      have "key \<notin> fst ` set (contents ht ys)"
        using key by (auto simp: contents_def image_iff)
      then have "object_set kvs key val = contents ht ys @ [(key, val)]"
        by (simp add: kvs object_set_new)
      then have "table_for seed (ht2\<lparr>ht_ordered := ord, ht_size := ht_size ht2 + 1\<rparr>) (object_set kvs key val)"
        using add(3,4) by (force simp: table_for_def)
      then show thesis
        using that[of 0] found None init add(1,2) by (simp add: set_in_table_def Let_def hash_and_mask)
    qed
  qed
qed

text \<open>\<open>set_memory\<close>: what one call of \<open>hashtable_set\<close> may ask for.\<close>

definition set_memory :: "(nat \<Rightarrow> bool) \<Rightarrow> string \<Rightarrow> 'v hashtable \<Rightarrow> bool" where
  "set_memory ok key ht \<longleftrightarrow> jsonp_malloc ok (offsetof_key + length key + 1) \<and>
     (ht_size ht < hashsize (ht_order ht) \<or> jsonp_malloc ok (hashsize (ht_order ht + 1) * sizeof_bucket))"

lemma set_for:
  assumes "table_for seed ht kvs"
  obtains rc ht' where "hashtable_set seed ok key val ht = Some (rc, ht')"
    "table_for seed ht' (if rc = 0 then object_set kvs key val else kvs)" "set_memory ok key ht \<longrightarrow> rc = 0"
proof (cases "ht_size ht \<ge> hashsize (ht_order ht) \<and> \<not> jsonp_malloc ok (hashsize (ht_order ht + 1) * sizeof_bucket)")
  case True
  then have "hashtable_set seed ok key val ht = Some (- 1, ht)" "\<not> set_memory ok key ht"
    by (auto simp: hashtable_set_def hashtable_do_rehash_def set_memory_def)
  then show thesis
    using that[of "- 1" ht] assms by simp
next
  case False
  obtain ht1 where 1: "(if ht_size ht \<ge> hashsize (ht_order ht) then hashtable_do_rehash ok ht else Some (0, ht)) = Some (0, ht1)"
    "table_for seed ht1 kvs"
  proof (cases "ht_size ht \<ge> hashsize (ht_order ht)")
    case True
    obtain xs ys where "ht_ok seed ht xs ys" "kvs = contents ht ys"
      using assms(1) by (auto simp: table_for_def)
    moreover have "jsonp_malloc ok (hashsize (ht_order ht + 1) * sizeof_bucket)"
      using False True by simp
    ultimately obtain ht' xs' where "hashtable_do_rehash ok ht = Some (0, ht')" "ht_ok seed ht' xs' ys" "contents ht' ys = kvs"
      by (metis do_rehash_ok)
    then show thesis
      using that[of ht'] True by (auto simp: table_for_def)
  qed (use that[of ht] assms(1) in auto)
  obtain rc ht' where "set_in_table seed ok key val ht1 = Some (rc, ht')"
    "table_for seed ht' (if rc = 0 then object_set kvs key val else kvs)"
    "jsonp_malloc ok (offsetof_key + length key + 1) \<longrightarrow> rc = 0"
    by (rule set_in_table_ok[OF 1(2)])
  then show thesis
    using that[of rc ht'] 1(1) by (simp add: hashtable_set_def set_memory_def)
qed

section \<open>Removing\<close>

lemma filter_off: "distinct (as @ a # bs) \<Longrightarrow> filter (\<lambda>b. b \<noteq> a) (as @ a # bs) = as @ bs"
  by (simp, intro arg_cong2[of _ _ _ _ append]) (auto simp: filter_id_conv)

lemma sublist_filter: "sublist ys xs \<Longrightarrow> sublist (filter P ys) (filter P xs)"
  by (auto simp: sublist_def) (metis filter_append)

text \<open>The bucket of a pair behind its removal.\<close>

lemma bucket_without_ok:
  assumes "circular ch (us @ ys @ vs)" "a \<in> set ys"
  shows "bucket_without (At a) ch (bucket_of ys) = Some (bucket_of (filter (\<lambda>b. b \<noteq> a) ys))"
proof -
  obtain as bs where ys: "ys = as @ a # bs"
    using assms(2) by (auto dest: split_list)
  have d: "distinct (as @ a # bs)"
    using assms(1) ys by (auto simp: circular_def)
  have rest: "filter (\<lambda>b. b \<noteq> a) ys = as @ bs"
    unfolding ys by (rule filter_off[OF d])
  have r: "circular ch ((us @ as) @ a # (bs @ vs))"
    using assms(1) ys by simp
  have first: "hd ys = a \<longleftrightarrow> as = []"
    using d by (cases as) (auto simp: ys)
  have last: "last ys = a \<longleftrightarrow> bs = []"
    using d by (cases bs rule: rev_cases) (auto simp: ys)
  show ?thesis
    using ring_next[OF r] first last unfolding rest
    by (cases bs; cases as rule: rev_cases)
      (auto simp: ys bucket_without_def bucket_of_def first_link_def last_link_def empty_bucket_def hd_append)
qed

text \<open>What is left of a list of pairs behind the removal of one.\<close>

abbreviation without :: "nat \<Rightarrow> nat list \<Rightarrow> nat list" where
  "without a as \<equiv> filter (\<lambda>b. b \<noteq> a) as"

lemma ring_without:
  assumes "circular ch xs" "a \<in> set xs"
  obtains ch' where "list_remove (At a) ch = Some ch'" "circular (list_free (At a) ch') (without a xs)"
    "dom (ch_next (list_free (At a) ch')) = dom (ch_next ch) - {At a}"
    "dom (ch_prev (list_free (At a) ch')) = dom (ch_prev ch) - {At a}"
proof -
  obtain as bs where xs: "xs = as @ a # bs"
    using assms(2) by (auto dest: split_list)
  have "distinct xs"
    using assms(1) by (simp add: circular_def)
  then have rest: "without a xs = as @ bs"
    unfolding xs by (rule filter_off)
  obtain ch' where ch': "list_remove (At a) ch = Some ch'" "circular (list_free (At a) ch') (as @ bs)"
    "only_changed (insert Table (pairs_of (as @ bs))) ch ch'"
    using ring_remove[of ch as a bs] assms(1) xs by metis
  then have "dom (ch_next (list_free (At a) ch')) = dom (ch_next ch) - {At a}"
    "dom (ch_prev (list_free (At a) ch')) = dom (ch_prev ch) - {At a}"
    by (simp_all add: only_changed_def list_free_def)
  with ch'(1,2) show thesis
    unfolding rest[symmetric] by (rule that)
qed

lemma free_pair_ok:
  assumes "ht_ok seed ht xs ys" "a \<in> set ys" "i = hash_str seed (key_at ht a) mod hashsize (ht_order ht)"
  obtains bucket ch ord ht' where "bucket_without (At a) (ht_list ht) (ht_buckets ht ! i) = Some bucket"
    "list_remove (At a) (ht_list ht) = Some ch" "list_remove (At a) (ht_ordered ht) = Some ord"
    "ht' = (free_pair (At a) (ht\<lparr>ht_buckets := (ht_buckets ht)[i := bucket], ht_list := ch, ht_ordered := ord\<rparr>))\<lparr>ht_size := ht_size ht - 1\<rparr>"
    "ht_ok seed ht' (without a xs) (without a ys)" "contents ht' (without a ys) = filter (\<lambda>kv. fst kv \<noteq> key_at ht a) (contents ht ys)"
proof -
  have ok: "table_ok ht xs" "set xs = dom (ht_pairs ht)" "circular (ht_ordered ht) ys" "set ys = dom (ht_pairs ht)"
    "chain_ok ht (ht_list ht)" "chain_ok ht (ht_ordered ht)" "pairs_ok seed ht" "distinct (map (key_at ht) ys)" "ht_size ht = length ys"
    using assms(1) by (simp_all add: ht_ok_def)
  obtain pr where pr: "ht_pairs ht a = Some pr"
    using ok(4) assms(2) by auto
  have hash: "pr_hash pr mod hashsize (ht_order ht) = i"
    using ok(7) pr assms(3) by (simp add: pairs_ok_def key_at_def)
  have i: "i < hashsize (ht_order ht)"
    by (simp add: assms(3))
  have circular: "circular (ht_list ht) xs" and len: "length (ht_buckets ht) = hashsize (ht_order ht)"
    and buckets: "\<And>j. j < hashsize (ht_order ht) \<Longrightarrow> bucket_ok ht xs j"
    using ok(1) by (auto simp: table_ok_def)
  define bs where "bs = filter (in_bucket ht i) xs"
  have bs: "sublist bs xs" "ht_buckets ht ! i = bucket_of bs" "a \<in> set bs"
    using buckets[OF i] ok(2) pr hash by (auto simp: bucket_ok_def bs_def in_bucket_def)
  obtain us vs where "xs = us @ bs @ vs"
    using bs(1) by (auto simp: sublist_def)
  then have bucket: "bucket_without (At a) (ht_list ht) (ht_buckets ht ! i) = Some (bucket_of (without a bs))"
    using bucket_without_ok[of "ht_list ht" us bs vs a] circular bs(2,3) by simp
  obtain ch where ch: "list_remove (At a) (ht_list ht) = Some ch" "circular (list_free (At a) ch) (without a xs)"
    "dom (ch_next (list_free (At a) ch)) = dom (ch_next (ht_list ht)) - {At a}"
    "dom (ch_prev (list_free (At a) ch)) = dom (ch_prev (ht_list ht)) - {At a}"
    using ring_without[OF circular, of a] ok(2,4) assms(2) by metis
  obtain ord where ord: "list_remove (At a) (ht_ordered ht) = Some ord" "circular (list_free (At a) ord) (without a ys)"
    "dom (ch_next (list_free (At a) ord)) = dom (ch_next (ht_ordered ht)) - {At a}"
    "dom (ch_prev (list_free (At a) ord)) = dom (ch_prev (ht_ordered ht)) - {At a}"
    using ring_without[OF ok(3) assms(2)] by metis
  define ht' where "ht' = (free_pair (At a) (ht\<lparr>ht_buckets := (ht_buckets ht)[i := bucket_of (without a bs)], ht_list := ch,
      ht_ordered := ord\<rparr>))\<lparr>ht_size := ht_size ht - 1\<rparr>"
  have sel: "ht_pairs ht' = (ht_pairs ht)(a := None)" "ht_list ht' = list_free (At a) ch" "ht_ordered ht' = list_free (At a) ord"
    "ht_buckets ht' = (ht_buckets ht)[i := bucket_of (without a bs)]" "ht_order ht' = ht_order ht" "ht_fresh ht' = ht_fresh ht"
    "ht_size ht' = ht_size ht - 1"
    by (simp_all add: ht'_def free_pair_def)
  have in_bucket: "filter (in_bucket ht' j) (without a xs) = without a (filter (in_bucket ht j) xs)" for j
    unfolding filter_filter by (rule filter_cong) (auto simp: in_bucket_def sel)
  have same: "key_at ht' b = key_at ht b" "value_at ht' b = value_at ht b" if "b \<noteq> a" for b
    using that by (simp_all add: key_at_def value_at_def sel)
  have links: "links_of ht' = links_of ht - {At a}"
    using pr by (auto simp: links_of_def sel dom_def)
  have "bucket_ok ht' (without a xs) j" if "j < hashsize (ht_order ht)" for j
  proof -
    have "a \<notin> set (filter (in_bucket ht j) xs)" if "j \<noteq> i"
      using pr hash that by (auto simp: in_bucket_def)
    moreover have "without a zs = zs" if "a \<notin> set zs" for zs
      using that by (auto simp: filter_id_conv)
    ultimately have other: "without a (filter (in_bucket ht j) xs) = filter (in_bucket ht j) xs" if "j \<noteq> i"
      using that by blast
    have "sublist (without a (filter (in_bucket ht j) xs)) (without a xs)"
      using buckets[OF that] by (intro sublist_filter) (simp add: bucket_ok_def)
    then show ?thesis
      using buckets[OF that] len i other unfolding bucket_ok_def in_bucket
      by (cases "j = i") (simp_all add: sel bs_def del: filter_filter)
  qed
  then have "table_ok ht' (without a xs)"
    using ch(2) len ok(2) by (auto simp: table_ok_def sel)
  moreover have "chain_ok ht' (ht_list ht')" "chain_ok ht' (ht_ordered ht')"
    using ok(5,6) ch(3,4) ord(3,4) by (simp_all add: chain_ok_def links sel)
  moreover have "pairs_ok seed ht'"
    using ok(7) by (auto simp: pairs_ok_def sel split: if_splits)
  moreover have "set (without a xs) = dom (ht_pairs ht')" "set (without a ys) = dom (ht_pairs ht')"
    using ok(2,4) by (auto simp: sel)
  moreover have "map (key_at ht') (without a ys) = map (key_at ht) (without a ys)"
    using same(1) by simp
  then have "distinct (map (key_at ht') (without a ys))"
    using ok(8) distinct_map_filter by (simp del: map_eq_conv)
  moreover have "ht_size ht' = length (without a ys)"
  proof -
    have d: "distinct ys"
      using ok(3) by (simp add: circular_def)
    have "without a ys = remove1 a ys"
      unfolding distinct_remove1_removeAll[OF d] removeAll_filter_not_eq by (rule filter_cong) auto
    then show ?thesis
      using ok(9) assms(2) by (simp add: sel length_remove1)
  qed
  ultimately have "ht_ok seed ht' (without a xs) (without a ys)"
    using ord(2) by (simp add: ht_ok_def sel)
  moreover have "contents ht' (without a ys) = filter (\<lambda>kv. fst kv \<noteq> key_at ht a) (contents ht ys)"
  proof -
    have "b = a \<longleftrightarrow> key_at ht b = key_at ht a" if "b \<in> set ys" for b
      using that ok(8) assms(2) by (auto simp: distinct_map inj_on_def)
    then have "without a ys = filter (\<lambda>b. key_at ht b \<noteq> key_at ht a) ys"
      by (auto intro: filter_cong)
    moreover have "contents ht' (without a ys) = contents ht (without a ys)"
      using same by (simp add: contents_def)
    ultimately show ?thesis
      by (simp add: contents_def filter_map comp_def)
  qed
  ultimately show thesis
    by (rule that[OF bucket ch(1) ord(1) ht'_def])
qed

lemma del_for:
  assumes "table_for seed ht kvs"
  obtains ht' where "hashtable_del seed key ht = Some (if key \<in> fst ` set kvs then 0 else - 1, ht')"
    "table_for seed ht' (filter (\<lambda>kv. fst kv \<noteq> key) kvs)"
proof -
  obtain xs ys where ok: "ht_ok seed ht xs ys" and kvs: "kvs = contents ht ys"
    using assms(1) by (auto simp: table_for_def)
  note found = find_key_ok[OF ok, of key]
  show thesis
  proof (cases "find (\<lambda>a. key_at ht a = key) ys")
    case (Some a)
    then have a: "a \<in> set ys" "key_at ht a = key"
      by (auto simp: find_Some_iff)
    obtain bucket ch ord ht' where rm: "bucket_without (At a) (ht_list ht)
        (ht_buckets ht ! (hash_str seed key mod hashsize (ht_order ht))) = Some bucket"
      "list_remove (At a) (ht_list ht) = Some ch" "list_remove (At a) (ht_ordered ht) = Some ord"
      "ht' = (free_pair (At a) (ht\<lparr>ht_buckets := (ht_buckets ht)[hash_str seed key mod hashsize (ht_order ht) := bucket],
        ht_list := ch, ht_ordered := ord\<rparr>))\<lparr>ht_size := ht_size ht - 1\<rparr>"
      "ht_ok seed ht' (without a xs) (without a ys)" "contents ht' (without a ys) = filter (\<lambda>kv. fst kv \<noteq> key) kvs"
      using free_pair_ok[OF ok a(1) refl] a(2) kvs by metis
    have "key \<in> fst ` set kvs"
      using a by (force simp: kvs contents_def)
    moreover have "hashtable_del seed key ht = Some (0, ht')"
      using found Some rm(1-3) unfolding rm(4) by (simp add: hashtable_del_def hashtable_do_del_def Let_def hash_and_mask)
    moreover have "table_for seed ht' (filter (\<lambda>kv. fst kv \<noteq> key) kvs)"
      unfolding table_for_def using rm(5,6) by metis
    ultimately show thesis
      using that[of ht'] by simp
  next
    case None
    then have "\<forall>b \<in> set ys. key_at ht b \<noteq> key"
      by (auto simp: find_None_iff)
    then have "key \<notin> fst ` set kvs" "filter (\<lambda>kv. fst kv \<noteq> key) kvs = kvs"
      by (auto simp: kvs contents_def filter_id_conv)
    then show thesis
      using that[of ht] found None assms by (simp add: hashtable_del_def hashtable_do_del_def Let_def)
  qed
qed

section \<open>Clearing\<close>

definition chain_free :: "nat set \<Rightarrow> chain \<Rightarrow> chain \<Rightarrow> bool" where
  "chain_free A ch ch' \<longleftrightarrow> dom (ch_next ch') = dom (ch_next ch) - At ` A \<and> dom (ch_prev ch') = dom (ch_prev ch) - At ` A"

lemma chain_free_one: "chain_free {a} ch (list_free (At a) ch)"
  by (simp add: chain_free_def list_free_def)

lemma chain_free_trans: "chain_free A ch ch1 \<Longrightarrow> chain_free B ch1 ch2 \<Longrightarrow> chain_free (A \<union> B) ch ch2"
  by (auto simp: chain_free_def)

lemma clear_loop_ok:
  assumes "next_links (ch_next (ht_list ht)) rs" "distinct rs" "set rs \<subseteq> dom (ht_pairs ht)"
  obtains ch ord where "clear_loop (first_link rs Table) ht =
      Some (ht\<lparr>ht_list := ch, ht_ordered := ord, ht_pairs := ht_pairs ht |` (- set rs)\<rparr>)"
    "chain_free (set rs) (ht_list ht) ch" "chain_free (set rs) (ht_ordered ht) ord"
  using assms
proof (induction rs arbitrary: ht thesis)
  case Nil
  then show ?case
    using Nil.prems(1)[of "ht_ordered ht" "ht_list ht"] by (simp add: clear_loop.simps restrict_map_def chain_free_def)
next
  case (Cons r rs)
  obtain pr where pr: "ht_pairs ht r = Some pr"
    using Cons.prems(4) by auto
  let ?ht = "free_pair (At r) ht"
  have "next_links (ch_next (ht_list ?ht)) rs"
    using Cons.prems(2,3) by (subst next_links_cong[of rs _ "ch_next (ht_list ht)"]) (auto simp: free_pair_def list_free_def)
  moreover have "set rs \<subseteq> dom (ht_pairs ?ht)"
    using Cons.prems(3,4) by (auto simp: free_pair_def)
  ultimately obtain ch ord where rest: "clear_loop (first_link rs Table) ?ht =
      Some (?ht\<lparr>ht_list := ch, ht_ordered := ord, ht_pairs := ht_pairs ?ht |` (- set rs)\<rparr>)"
    "chain_free (set rs) (ht_list ?ht) ch" "chain_free (set rs) (ht_ordered ?ht) ord"
    using Cons.prems(3) by (rule_tac Cons.IH[of ?ht]) auto
  have "ht_pairs ?ht |` (- set rs) = ht_pairs ht |` (- set (r # rs))"
    by (auto simp: free_pair_def restrict_map_def fun_eq_iff)
  then have "clear_loop (first_link (r # rs) Table) ht =
      Some (ht\<lparr>ht_list := ch, ht_ordered := ord, ht_pairs := ht_pairs ht |` (- set (r # rs))\<rparr>)"
    using Cons.prems(2) rest(1) by (subst clear_loop.simps) (simp add: pair_at_def pr, simp add: free_pair_def)
  moreover have "chain_free (set (r # rs)) (ht_list ht) ch" "chain_free (set (r # rs)) (ht_ordered ht) ord"
    using chain_free_trans[OF chain_free_one[of r]] rest(2,3) by (auto simp: free_pair_def)
  ultimately show ?case
    by (rule Cons.prems(1))
qed

lemma clear_for:
  assumes "table_for seed ht kvs"
  obtains ht' where "hashtable_clear ht = Some ht'" "table_for seed ht' []"
proof -
  obtain xs ys where ok: "ht_ok seed ht xs ys"
    using assms by (auto simp: table_for_def)
  then have circular: "circular (ht_list ht) ([] @ xs)" and xs: "set xs = dom (ht_pairs ht)" "distinct xs"
    and chain: "chain_ok ht (ht_list ht)" "chain_ok ht (ht_ordered ht)"
    by (auto simp: ht_ok_def table_ok_def circular_def)
  have "set xs \<subseteq> dom (ht_pairs ht)"
    by (simp add: xs(1))
  from clear_loop_ok[OF ring_next_links[OF circular] xs(2) this] obtain ch ord where loop: "clear_loop (first_link xs Table) ht =
      Some (ht\<lparr>ht_list := ch, ht_ordered := ord, ht_pairs := ht_pairs ht |` (- set xs)\<rparr>)"
    "chain_free (set xs) (ht_list ht) ch" "chain_free (set xs) (ht_ordered ht) ord" .
  have none: "ht_pairs ht |` (- set xs) = Map.empty"
    by (auto simp: xs(1) restrict_map_def fun_eq_iff domIff)
  let ?ht = "ht\<lparr>ht_list := list_init Table ch, ht_ordered := list_init Table ord, ht_pairs := Map.empty,
      ht_buckets := replicate (hashsize (ht_order ht)) empty_bucket, ht_size := 0\<rparr>"
  have "hashtable_clear ht = Some ?ht"
    using loop(1) ring_start[of "ht_list ht" xs] circular none by (simp add: hashtable_clear_def hashtable_do_clear_def)
  moreover have "ht_ok seed ?ht [] []"
    using chain loop(2,3) xs(1)
    by (auto simp: ht_ok_def table_ok_def circular_def list_init_def bucket_ok_def bucket_of_def chain_ok_def chain_free_def links_of_def pairs_ok_def)
  then have "table_for seed ?ht []"
    by (force simp: table_for_def contents_def)
  ultimately show thesis
    by (rule that)
qed

lemma get_for: "table_for seed ht kvs \<Longrightarrow> hashtable_get seed key ht = Some (map_of kvs key)"
  using get_content by (auto simp: table_for_def)

lemma foreach_for: "table_for seed ht kvs \<Longrightarrow> json_object_foreach ht = Some kvs"
  using foreach_content by (auto simp: table_for_def)

end
