(* ===== verification/Object_Table.thy ===== *)
theory Object_Table
  imports Hashtable_Proofs
begin

text \<open>
  The tables as the decoder and the loader use them: the interface \<open>member_table\<close>, its
  interpretation on \<open>hashtable.c\<close>, and the properties of the tables and their hash.
\<close>

section \<open>Objects\<close>

text \<open>
  What the parser and the loader ask of a table: setting the members of an object, one
  after the other, makes a table that is read like the list.
\<close>

locale member_table =
  fixes stands :: "'t \<Rightarrow> (string \<times> 'v) list \<Rightarrow> bool"
    and room :: "string \<Rightarrow> nat \<Rightarrow> bool"
    and set_member :: "string \<Rightarrow> 'v \<Rightarrow> 't \<Rightarrow> 't option"
    and get_member :: "string \<Rightarrow> 't \<Rightarrow> 'v option option"
    and members :: "'t \<Rightarrow> (string \<times> 'v) list option"
  assumes set_stands: "stands t kvs \<Longrightarrow> room k (length kvs) \<Longrightarrow> \<exists>t'. set_member k v t = Some t' \<and> stands t' (object_set kvs k v)"
    and get_stands: "stands t kvs \<Longrightarrow> get_member k t = Some (map_of kvs k)"
    and members_stand: "stands t kvs \<Longrightarrow> members t = Some kvs"
begin

lemma set_all:
  assumes "stands t kvs" "\<forall>(k, v) \<in> set ms. \<forall>n < length kvs + length ms. room k n"
  shows "\<exists>t'. fold (\<lambda>(k, v) r. Option.bind r (set_member k v)) ms (Some t) = Some t' \<and>
    stands t' (fold (\<lambda>(k, v) kvs. object_set kvs k v) ms kvs)"
  using assms
proof (induction ms arbitrary: t kvs)
  case (Cons m ms)
  obtain k v where m: "m = (k, v)"
    by (cases m)
  obtain t1 where t1: "set_member k v t = Some t1" "stands t1 (object_set kvs k v)"
    using set_stands[OF Cons.prems(1), of k v] Cons.prems(2) m by auto
  have "length (object_set kvs k v) \<le> Suc (length kvs)"
    by (induction kvs k v rule: object_set.induct) auto
  then have "\<forall>(k', v') \<in> set ms. \<forall>n < length (object_set kvs k v) + length ms. room k' n"
    using Cons.prems(2) by fastforce
  from Cons.IH[OF t1(2) this] show ?case
    by (simp add: m t1(1))
qed auto

lemma map_of_sets: "map_of (fold (\<lambda>(k, v) kvs. object_set kvs k v) ms kvs) = map_of kvs ++ map_of (rev ms)"
proof (induction ms arbitrary: kvs)
  case (Cons m ms)
  then show ?case
    by (cases m) (auto simp: map_of_object_set map_add_def fun_eq_iff split: option.splits)
qed simp

lemma built:
  assumes "stands t []" "\<forall>(k, v) \<in> set ms. \<forall>n < length ms. room k n"
  obtains t' where "fold (\<lambda>(k, v) r. Option.bind r (set_member k v)) ms (Some t) = Some t'"
    "members t' = Some (fold (\<lambda>(k, v) kvs. object_set kvs k v) ms [])"
    "\<And>k. get_member k t' = Some (map_of (rev ms) k)"
proof -
  obtain t' where t': "fold (\<lambda>(k, v) r. Option.bind r (set_member k v)) ms (Some t) = Some t'"
    "stands t' (fold (\<lambda>(k, v) kvs. object_set kvs k v) ms [])"
    using set_all[OF assms(1), of ms] assms(2) by auto
  have "get_member k t' = Some (map_of (rev ms) k)" for k
    using get_stands[OF t'(2), of k] by (simp add: map_of_sets)
  then show thesis
    by (rule that[OF t'(1) members_stand[OF t'(2)]])
qed

end

text \<open>A call of \<open>hashtable_set\<close> by \<open>json_object_setn_new_nocheck\<close>, which fails unless the code is 0.\<close>

definition set_or_fail :: "32 word \<Rightarrow> string \<Rightarrow> 'v \<Rightarrow> 'v hashtable \<Rightarrow> 'v hashtable option" where
  "set_or_fail seed key val ht = do {
     (rc, ht) \<leftarrow> hashtable_set seed (\<lambda>n. True) key val ht;
     if rc = 0 then Some ht else None }"

definition roomy_key :: "string \<Rightarrow> nat \<Rightarrow> bool" where
  "roomy_key key n \<longleftrightarrow> length key < 2 ^ 62 \<and> n < 2 ^ 58"

lemma roomy_memory:
  assumes "table_for seed ht kvs" "roomy_key key (length kvs)"
  shows "set_memory (\<lambda>n. True) key ht"
proof -
  have size: "ht_size ht = length kvs"
    using assms(1) by (auto simp: table_for_def ht_ok_def contents_def)
  have "hashsize (ht_order ht + 1) * sizeof_bucket \<le> 2 ^ 62" if "ht_size ht \<ge> hashsize (ht_order ht)"
  proof -
    have "(2 :: nat) ^ ht_order ht < 2 ^ 58"
      using that size assms(2) by (simp add: hashsize_def roomy_key_def)
    then have "ht_order ht + 1 \<le> 58"
      using power_less_imp_less_exp[of "2 :: nat" "ht_order ht" 58] by simp
    then have "(2 :: nat) ^ (ht_order ht + 1) \<le> 2 ^ 58"
      by (intro power_increasing) auto
    then show ?thesis
      by (simp add: hashsize_def sizeof_bucket_def)
  qed
  moreover have "hashsize (ht_order ht + 1) * sizeof_bucket \<noteq> 0"
    by (simp add: hashsize_def sizeof_bucket_def)
  ultimately show ?thesis
    using assms(2) by (force simp: set_memory_def jsonp_malloc_def PTRDIFF_MAX_def roomy_key_def offsetof_key_def)
qed

interpretation ht: member_table "table_for seed" roomy_key "set_or_fail seed" "hashtable_get seed" json_object_foreach for seed
proof
  show "\<exists>ht'. set_or_fail seed k v ht = Some ht' \<and> table_for seed ht' (object_set kvs k v)"
    if ht: "table_for seed ht kvs" and room: "roomy_key k (length kvs)" for ht :: "'v hashtable" and kvs k v
  proof -
    obtain rc ht' where "hashtable_set seed (\<lambda>n. True) k v ht = Some (rc, ht')"
      "table_for seed ht' (if rc = 0 then object_set kvs k v else kvs)" "set_memory (\<lambda>n. True) k ht \<longrightarrow> rc = 0"
      by (rule set_for[OF ht])
    then show ?thesis
      using roomy_memory[OF ht room] by (auto simp: set_or_fail_def)
  qed
qed (simp_all add: get_for foreach_for)

section \<open>Properties\<close>

text \<open>
  C25. The hash of a key depends on its bytes alone: the address, of which the last bits
  select reads of four bytes, of two or of one, and what the masked reads of the last
  word see behind the key make no difference.
\<close>

theorem hash_of_key:
  assumes "\<forall>i < len. k i = k' i"
  shows "hashlittle addr k len initval = hashlittle addr' k' len initval"
  using assms by (intro hashlittle_ways) simp

lemma hash_of_key_witness: "hashlittle 0 (key_bytes ''rules'') 5 7 = hashlittle 3 (key_bytes ''rulesets'') 5 7"
  by (rule hash_of_key) (simp add: key_bytes_def less_Suc_eq numeral_eq_Suc)

text \<open>
  C14. A table stands for an association list in the order its keys came, and every
  operation on its linked lists and buckets, rehashing included, stays within live
  memory and computes that of the list: looking up, iterating, setting in place or at
  the end, deleting and clearing.  Setting answers -1 and changes nothing only when
  memory is missing.
\<close>

theorem table_refines:
  assumes "table_for seed ht kvs"
  shows "hashtable_get seed key ht = Some (map_of kvs key) \<and> json_object_foreach ht = Some kvs \<and>
     (\<exists>rc ht'. hashtable_set seed ok key val ht = Some (rc, ht') \<and>
        table_for seed ht' (if rc = 0 then object_set kvs key val else kvs) \<and> (set_memory ok key ht \<longrightarrow> rc = 0)) \<and>
     (\<exists>ht'. hashtable_del seed key ht = Some (if key \<in> fst ` set kvs then 0 else - 1, ht') \<and>
        table_for seed ht' (filter (\<lambda>kv. fst kv \<noteq> key) kvs)) \<and>
     (\<exists>ht'. hashtable_clear ht = Some ht' \<and> table_for seed ht' [])"
  using get_for[OF assms] foreach_for[OF assms] set_for[OF assms, of ok key val] del_for[OF assms, of key] clear_for[OF assms]
  by metis

lemma init_empty: "\<exists>ht :: 'v hashtable. hashtable_init (\<lambda>n. True) = Some ht \<and> table_for seed ht []"
  using init_for[of "\<lambda>n. True" _ seed]
  by (auto simp: hashtable_init_def jsonp_malloc_def hashsize_def INITIAL_HASHTABLE_ORDER_def sizeof_bucket_def PTRDIFF_MAX_def)

lemma table_refines_witness:
  "\<exists>ht rc ht'. hashtable_init (\<lambda>n. True) = Some ht \<and> hashtable_get 7 ''k'' ht = Some None \<and>
     hashtable_set 7 (\<lambda>n. True) ''k'' (1 :: int) ht = Some (rc, ht') \<and> table_for 7 ht' (if rc = 0 then [(''k'', 1)] else [])"
proof -
  obtain ht :: "int hashtable" where ht: "hashtable_init (\<lambda>n. True) = Some ht" "table_for 7 ht []"
    using init_empty by blast
  obtain rc ht' where "hashtable_get 7 ''k'' ht = Some None" "hashtable_set 7 (\<lambda>n. True) ''k'' 1 ht = Some (rc, ht')"
    "table_for 7 ht' (if rc = 0 then [(''k'', 1)] else [])"
    using table_refines[OF ht(2), of "''k''" "\<lambda>n. True" 1] unfolding object_set.simps by auto
  with ht(1) show ?thesis
    by blast
qed

text \<open>
  C15. An object that is filled with a list of members: iterating over it gives the keys
  in the order in which they first came with their last values, and looking a key up
  gives its last value, whatever the seed of the hash is.
\<close>

theorem object_built:
  fixes ms :: "(string \<times> 'v) list"
  assumes "\<forall>m \<in> set ms. length (fst m) < 2 ^ 62" "length ms \<le> 2 ^ 58"
  shows "\<exists>empty ht. hashtable_init (\<lambda>n. True) = Some empty \<and>
     fold (\<lambda>(k, v) r. Option.bind r (set_or_fail seed k v)) ms (Some empty) = Some ht \<and>
     json_object_foreach ht = Some (fold (\<lambda>(k, v) kvs. object_set kvs k v) ms []) \<and>
     (\<forall>k. hashtable_get seed k ht = Some (map_of (rev ms) k))"
proof -
  obtain empty :: "'v hashtable" where empty: "hashtable_init (\<lambda>n. True) = Some empty" "table_for seed empty []"
    using init_empty by blast
  have "\<forall>(k, v) \<in> set ms. \<forall>n < length ms. roomy_key k n"
    using assms by (force simp: roomy_key_def)
  from ht.built[OF empty(2) this] empty(1) show ?thesis
    by metis
qed

lemma object_built_witness:
  "\<exists>empty ht. hashtable_init (\<lambda>n. True) = Some empty \<and>
     fold (\<lambda>(k, v) r. Option.bind r (set_or_fail 7 k v)) [(''a'', 1), (''b'', 2), (''a'', 3 :: int)] (Some empty) = Some ht \<and>
     json_object_foreach ht = Some [(''a'', 3), (''b'', 2)] \<and> hashtable_get 7 ''a'' ht = Some (Some 3)"
  using object_built[of "[(''a'', 1), (''b'', 2), (''a'', 3 :: int)]" 7] by auto

end
