(* ===== verification/Spec2Isabelle.thy ===== *)
theory Spec2Isabelle
  imports HTTP_Properties Ruleset_Properties Object_Table
begin

text \<open>
  libunalix cleans URLs: it removes tracking parameters by rules, follows the
  redirections that are written in the URL itself, follows HTTP redirects, and
  keeps the file of its rules up to date.  This development models the C sources
  under \<open>src/src\<close> and proves what makes them correct, or where they are not.

  The parts of the program and their theories:

  \<^item> \<open>Prelude\<close>: the platform (a parameter: which calls of \<open>malloc\<close> succeed, each
    call having a site; \<open>inet_pton\<close>; how many bytes behind an object are unused,
    \<open>slack\<close>), the 32-bit \<open>int\<close> and \<open>size_t\<close> conversions, and statements with early
    returns (\<open>stage\<close>, \<open>body\<close>) with a calculus of total (\<open>ends\<close>) and partial
    (\<open>leaves\<close>) correctness.  \<open>CString\<close>: \<open>strstr\<close>, \<open>strcat\<close> into a buffer of a given
    size, \<open>memcpy\<close> of a range, \<open>atoi\<close>, \<open>snprintf("%i")\<close>.
  \<^item> \<open>Errors\<close>: \<open>errors.h\<close>, \<open>errors.c\<close> and the exception classes of \<open>unalix_jni.c\<close>.
  \<^item> \<open>Utils\<close>, \<open>Utils_Proofs\<close>: the string helpers of \<open>utils.c\<close>; \<open>httpnormpath\<close> as a
    machine on path components.  \<open>Files\<close>: the file helpers of \<open>utils.c\<close> and
    \<open>sha256.c\<close>, over a map from names to files.
  \<^item> \<open>SHA256\<close>, \<open>SHA256_Proofs\<close>, \<open>SHA256_Answer\<close>: the SHA-256 of the vendored BearSSL
    (\<open>submodules/bearssl/src/hash/sha2small.c\<close>), the function of FIPS 180-4 that it
    computes in pieces, and a known answer evaluated in the kernel.
  \<^item> \<open>URI\<close>, \<open>URI_Proofs\<close>, \<open>URI_Roundtrip\<close>: \<open>uri.c\<close>.  The parser is the code's
    sequence of searches and copies with its cursors; one lemma per stage says
    that it stays in the text and what it stores; printing and parsing is a round
    trip.
  \<^item> \<open>Accounting\<close>: the locale \<open>accounted_array\<close>, the interface between the growable
    arrays and the loops that print them into \<open>slength + 1\<close> bytes.  It is
    interpreted on \<open>put_parameter\<close> and \<open>add_parameter\<close> of \<open>query.c\<close> (\<open>Query\<close>) and on
    \<open>http_headers_add\<close> of \<open>http.c\<close> (\<open>HTTP_Proofs\<close>).
  \<^item> \<open>Regex\<close>: \<open>regex.c\<close>; PCRE2 is a record of three functions.
  \<^item> \<open>CleanUrl\<close>, \<open>CleanUrl_Proofs\<close>, \<open>CleanUrl_Query\<close>: \<open>clean_url.c\<close>.
  \<^item> \<open>HTTP\<close>, \<open>HTTP_Response\<close>, \<open>HTTP_Proofs\<close>, \<open>HTTP_Roundtrip\<close>, \<open>HTTP_Redirect\<close>: the
    messages of \<open>http.c\<close> and \<open>http.h\<close>, the parser of responses, the redirects.
  \<^item> \<open>Network\<close>, \<open>Network_Proofs\<close>: \<open>address.c\<close>, \<open>connection.c\<close>, \<open>callbacks.c\<close> and the
    sending and receiving functions of \<open>http.c\<close>.  What the other side of one
    connection does is an \<open>exchange\<close>; a connection keeps the arrivals its reads have
    not consumed and a log of the calls that reached the kernel.
  \<^item> \<open>UTF8\<close>, \<open>JSON\<close>, \<open>JSON_Load\<close>: the decoder of the vendored Jansson
    (\<open>submodules/jansson/src/load.c\<close>, \<open>utf.c\<close>): the stream with its buffer of one
    character, the lexical analyzer, the recursive parser.  \<open>JSON_Grammar\<close> is the
    grammar of RFC 8259 with the tree of each text; \<open>JSON_Lexer\<close> and \<open>JSON_Text\<close> show
    that a call of \<open>lex_scan\<close> reads one lexeme of it, \<open>JSON_Parser\<close> that the parser
    returns and gives only trees of the grammar, \<open>JSON_Complete\<close> that it gives all.
  \<^item> \<open>Lookup3\<close>, \<open>Hashtable\<close>: the objects of Jansson (\<open>lookup3.h\<close>, \<open>hashtable.c\<close>), with the
    links of their circular lists as memory that can be accessed wrongly.
    \<open>Circular_Lists\<close>, \<open>Hashtable_Inv\<close> and \<open>Hashtable_Proofs\<close> show that a table is an
    association list in insertion order, which is what the trees of \<open>JSON\<close> have;
    \<open>Object_Table\<close> has the interface \<open>member_table\<close>, its interpretation on the hash
    table and the properties.
  \<^item> \<open>Rulesets\<close>, \<open>Rulesets_Proofs\<close>, \<open>Ruleset_Texts\<close>: the loader of \<open>ruleset.c\<close>, against
    an abstract reading of the JSON tree, from the text to the rulesets, and what a
    NUL byte in a file does to the decoder.
  \<^item> \<open>Update\<close>, \<open>Unshort_Proofs\<close>, \<open>Update_Proofs\<close>: \<open>unshort_url.c\<close> and the update of
    \<open>ruleset.c\<close>; the calls of a request on its socket, and what an update can do to
    the files.  The log of a connection is a run of the automaton \<open>calls\<close>.
    \<open>JNI\<close>, \<open>Codes\<close>: the native methods of \<open>unalix_jni.c\<close> and the codes
    that cleaning can end with.
  \<^item> \<open>DNS\<close>: the message builder of \<open>dns.c\<close> with its buffer and its \<open>int\<close> offset, and a
    reader of such messages.
  \<^item> \<open>Delivery\<close>, \<open>End_To_End\<close>: runs over exchanges that answer, from the bytes that
    arrive to the file that is installed and the URL that is returned.
  \<^item> \<open>Demo\<close>: concrete parameters; \<open>HTTP_Properties\<close>, \<open>Ruleset_Properties\<close> and this
    theory: the properties.

  How the code is read.  A structure is a record with the same members; a pointer
  to text is a \<open>string option\<close>, None being NULL; an enumeration is a datatype or
  the \<open>int\<close> the code casts.  A function that can access memory outside its objects,
  dereference NULL or ask for what C leaves undefined returns an \<open>option\<close>, and None
  is that undefined behaviour, so a theorem that a call returns Some says that it
  stays within its memory.  An error is a code of \<open>errors.h\<close> in the result, with
  the state as the code leaves it.  Several buffers of the code are one byte too
  short; \<open>slack\<close> is the number of bytes behind an object that are unused, 0 being
  the object model of C.  No theorem assumes that it is positive: those about a
  request that is sent say what the call does where a byte is unused, and that it is
  undefined where none is, and those about the loader say which provider names
  \<open>memcmp\<close> can compare.  Bytes of an array that nobody has written (\<open>ex_stale\<close>) are
  arbitrary.

  Bounds.  Loops over data are structural recursions or have a measure; the bound of
  20 redirects makes \<open>unshort_loop\<close> total.  Only \<open>unalix_clean_url\<close> calls itself
  without a bound of its own: \<open>frames\<close> counts its activations, and one more than
  the URL has characters is enough when every redirection captures a group behind
  the scheme (\<open>clean_url_returns\<close>).  The functions of the JSON parser call each other
  with fuel, and \<open>4 * length data + 4\<close> is enough for every text (\<open>decoder_returns\<close>).  The sizes in hypotheses (\<open>2 ^ 57\<close> and the like)
  keep sums of lengths below \<open>PTRDIFF_MAX\<close>, the most \<open>malloc\<close> gives.

  What the groups of properties show: cleaning returns and computes an abstract
  result; the JSON decoder accepts exactly the grammar and loading computes an abstract
  reading of its tree; its hash tables are association lists; an update installs exactly what was downloaded and verified, and
  otherwise leaves the target alone; the unshortener follows the chain it is
  given, stops, and closes every socket before it opens the next; the hash is the
  SHA-256 of the standard however the file is cut into chunks; messages, URIs, queries and digests round-trip; the arrays keep
  their accounts; and several deviations (a \<open>rename\<close> error that is ignored, paths
  that are rejected, a descriptor that is closed twice or was never opened).

  Not modelled.  The branches for Windows; the internals of PCRE2, the C library's
  resolver and calendar, and the range of \<open>strtod\<close>, which are parameters; of Jansson,
  the encoder, the reference counts, the positions and messages of errors and the
  failure of its allocations while it decodes (those of its tables are modelled); of BearSSL, what is
  not SHA-256: the TLS session (its buffers and certificates), of which the outcome
  of a write and the arrivals are kept; \<open>ssl.h\<close>, a generated table of trust anchors;
  \<open>dns_query\<close> of \<open>dns.c\<close>, an experiment that ends the process on its first answer,
  is not built and includes a header and uses a code that do not exist; the tests and
  build files.  Memory that is not released is not tracked: a
  function that frees an object resets its record, and a leak has no effect here.
\<close>


section \<open>Cleaning a URL\<close>

text \<open>
  C1. \<open>unalix_clean_url\<close> returns: if every redirection has a group that lies in the
  subject and starts behind the scheme, each recursive call gets a shorter URL,
  so a bound of one activation more than the URL has characters is never
  reached; and no activation leaves the memory it owns (the copies of the
  components, the decoded redirection with its scheme, the rewritten query in
  its buffer of three times the query), whichever allocations fail, except the
  one of \<open>uri_stringify\<close>, which the code does not check.
\<close>

theorem clean_url_returns:
  assumes "pcre2_ok rx" "groups_ok rx rs" "groups_late rx rs" "buffers_ok p" "subject_ok url"
    and "length url < frames"
  shows "\<exists>r. unalix_clean_url frames p rx rs fl (Some url) has_target = Some r"
  by (rule unalix_clean_url_runs[OF assms])

lemma clean_url_returns_witness:
  "\<exists>r. unalix_clean_url 40 test_platform demo_rx [demo_ruleset] demo_flags
     (Some ''http://exit.com/?u=http%3A//a.bc'') True = Some r"
  by (rule clean_url_returns[OF demo_rx_ok demo_groups_ok demo_groups_late])
    (simp_all add: ample_buffers subject_ok_def nul_def)

text \<open>
  C2. With memory for every request and no redirection that applies, cleaning a URL
  that parses stores the printed form of an abstract result: the rules of the
  rulesets that apply, in order, with the matches removed from query, fragment
  and path, and then the filtered query.
\<close>

theorem clean_url_refines:
  assumes "pcre2_ok rx" "ample p" "subject_ok url" "rs \<noteq> []" "\<forall>r \<in> set rs. \<not> redirects rx fl url r"
    and "uri_parse p zero_uri url = Some (UNALIXERR_SUCCESS, u)"
  shows "unalix_clean_url (Suc n) p rx rs fl (Some url) True =
     Some (UNALIXERR_SUCCESS, Some (concat (uri_parts (clean_text rx fl url rs u))))"
  by (simp add: clean_frame_plain[OF assms])

lemma clean_url_refines_witness:
  "unalix_clean_url 1 test_platform demo_rx [demo_ruleset] demo_flags (Some ''http://ab.cd/x?utm=1&k=v&e=&k=w#f'') True =
     Some (UNALIXERR_SUCCESS, Some ''http://ab.cd/x?k=v#f'')"
proof -
  let ?url = "''http://ab.cd/x?utm=1&k=v&e=&k=w#f''"
  let ?u = "zero_uri\<lparr>uri_scheme := Some ''http'', uri_hostname := Some ''ab.cd'', uri_path := Some ''x'',
     uri_query := Some ''utm=1&k=v&e=&k=w'', uri_fragment := Some ''f''\<rparr>"
  have "uri_parse test_platform zero_uri ?url = Some (UNALIXERR_SUCCESS, ?u)"
    by code_simp
  moreover have "\<forall>r \<in> set [demo_ruleset]. \<not> redirects demo_rx demo_flags ?url r"
    by (simp add: redirects_def demo_redirects demo_ruleset_def)
  moreover have "concat (uri_parts (clean_text demo_rx demo_flags ?url [demo_ruleset] ?u)) = ''http://ab.cd/x?k=v#f''"
    by code_simp
  ultimately show ?thesis
    using clean_url_refines[OF demo_rx_ok ample_test_platform, of ?url "[demo_ruleset]" demo_flags ?u 0]
    by (simp add: subject_ok_def nul_def)
qed

text \<open>
  C12. The first ruleset that applies and has a redirection that matches decides: the
  function returns what it returns on the captured URL (decoded, with a scheme),
  for the same options, and what the rulesets before it removed is lost.
\<close>

theorem clean_url_redirects:
  assumes "pcre2_ok rx" "subject_ok url" "uri_parse p zero_uri url = Some (UNALIXERR_SUCCESS, u)"
    and "\<forall>a \<in> set before. \<not> redirects rx fl url a"
    and "applies rx fl url r" "\<not> ignore_redirections fl"
    and "first_redirection rx (redirections r) url = Some ovector"
    and "redirection_url (in_call 1 p) url ovector = Some target"
  shows "unalix_clean_url (Suc n) p rx (before @ r # after) fl (Some url) True =
     unalix_clean_url n (in_call 0 p) rx (before @ r # after) fl (Some target) True"
proof -
  have "fields_in url u" "url \<noteq> []"
    using uri_parse_fields[of url p] subject_ok_PTRDIFF[OF assms(2)] assms(3)
    by (metis less_imp_le option.inject prod.inject, metis parse_nonempty)
  from clean_rulesets_first_redirect[OF assms(1,2) this(1) assms(4), of p r after] this(2)
  show ?thesis
    using assms(3,5-8) by (auto simp: clean_frame_def applies_def exception_matched_iff)
qed

lemma clean_url_redirects_witness:
  "unalix_clean_url 2 test_platform demo_rx [demo_ruleset] demo_flags (Some ''http://exit.com/?u=a.bc%2Fd'') True =
     Some (UNALIXERR_SUCCESS, Some ''http://a.bc/d'')"
proof -
  let ?url = "''http://exit.com/?u=a.bc%2Fd''"
  let ?u = "zero_uri\<lparr>uri_scheme := Some ''http'', uri_hostname := Some ''exit.com'', uri_query := Some ''u=a.bc%2Fd''\<rparr>"
  have "uri_parse test_platform zero_uri ?url = Some (UNALIXERR_SUCCESS, ?u)"
    by code_simp
  moreover have "redirection_url (in_call 1 test_platform) ?url [(0, 27), (19, 27)] = Some ''http://a.bc/d''"
    by code_simp
  moreover have "applies demo_rx demo_flags ?url demo_ruleset" "\<not> ignore_redirections demo_flags"
    by (simp_all add: applies_def demo_redirects demo_ruleset_def demo_flags_def)
  moreover have "first_redirection demo_rx (redirections demo_ruleset) ?url = Some [(0, 27), (19, 27)]"
    by code_simp
  ultimately have "unalix_clean_url (Suc 1) test_platform demo_rx ([] @ demo_ruleset # []) demo_flags (Some ?url) True =
      unalix_clean_url 1 (in_call 0 test_platform) demo_rx ([] @ demo_ruleset # []) demo_flags (Some ''http://a.bc/d'') True"
    by (intro clean_url_redirects[OF demo_rx_ok]) (simp_all add: subject_ok_def nul_def)
  moreover have "unalix_clean_url 1 (in_call 0 test_platform) demo_rx [demo_ruleset] demo_flags (Some ''http://a.bc/d'') True =
      Some (UNALIXERR_SUCCESS, Some ''http://a.bc/d'')"
    by code_simp
  ultimately show ?thesis
    by (simp only: append_Nil Suc_1)
qed

text \<open>
  C20. An exception that matches turns its whole ruleset off: the activation does the
  same as without the ruleset, redirections included.
\<close>

theorem exception_disables_ruleset:
  assumes "\<not> ignore_exceptions fl" "c \<in> set (exceptions r)" "regex_match rx c url" "before @ after \<noteq> []"
  shows "clean_frame p rx (before @ r # after) fl (Some url) has_target =
     clean_frame p rx (before @ after) fl (Some url) has_target"
  by (rule clean_frame_skip) (use assms in \<open>auto simp: applies_def\<close>)

lemma exception_disables_ruleset_witness:
  "clean_frame test_platform demo_rx ([demo_ruleset] @ demo_ruleset # []) demo_flags (Some ''http://keep.it/?utm=1&a=b'') True =
     clean_frame test_platform demo_rx ([demo_ruleset] @ []) demo_flags (Some ''http://keep.it/?utm=1&a=b'') True"
  by (rule exception_disables_ruleset[of _ "''http://keep''"])
    (simp_all add: demo_flags_def demo_ruleset_def demo_redirects)

text \<open>
  Rewriting the query is idempotent: the query of a cleaned URL is its own
  rewritten form under the same options.
\<close>

theorem clean_query_idempotent:
  assumes "ample p" "length q < 2 ^ 57" "q \<noteq> []" "clean_query p fl q = Some (Inr (Some q'))" "length q' < 2 ^ 57"
  shows "clean_query p fl q' = Some (Inr (Some q'))"
proof -
  have "clean_query_text fl q = Some q'"
    using clean_query_ample[OF assms(3,1), of fl] assms(2,4) by simp
  moreover have "q' \<noteq> []"
    using calculation by (auto simp: clean_query_text_def nonempty_def split: if_splits)
  ultimately show ?thesis
    using clean_query_ample[OF _ assms(1), of q' fl] assms(5) clean_query_text_idem by simp
qed

lemma clean_query_idempotent_witness:
  "clean_query test_platform demo_flags ''k=v&j=w'' = Some (Inr (Some ''k=v&j=w''))"
proof (rule clean_query_idempotent[of _ "''k=v&&k=2&e=&j=w''"])
  show "clean_query test_platform demo_flags ''k=v&&k=2&e=&j=w'' = Some (Inr (Some ''k=v&j=w''))"
    by code_simp
qed simp_all

text \<open>
  C19. What is in the rewritten query: a selection of the parameters in their order;
  all of them when no option asks for less; with \<open>strip_empty\<close> none whose key or
  value is empty; with \<open>strip_duplicates\<close> each key once.  Nothing else is lost: each
  key keeps the value of its first parameter that the options let through, and
  without \<open>strip_duplicates\<close> all parameters they let through are there.
\<close>

theorem clean_query_keeps:
  assumes "q \<noteq> []" "clean_query p fl q = Some (Inr (Some q'))"
  shows "subseq (query_pieces q') (query_pieces q) \<and>
     (strip_empty fl \<or> strip_duplicates fl \<or> query_pieces q' = query_pieces q) \<and>
     (strip_empty fl \<longrightarrow> (\<forall>(k, v) \<in> set (query_pieces q'). k \<noteq> [] \<and> v \<noteq> [])) \<and>
     (strip_duplicates fl \<longrightarrow> distinct (map fst (query_pieces q'))) \<and>
     map_of (query_pieces q') = map_of (filter (qualifies fl) (query_pieces q)) \<and>
     (strip_duplicates fl \<or> query_pieces q' = filter (qualifies fl) (query_pieces q))"
proof -
  have "clean_query_text fl q = Some q'"
    using clean_query_cases[OF assms(1), of p fl] assms(2) by auto
  note pieces = clean_query_text_pairs[OF this]
  have "\<not> strip_empty fl \<Longrightarrow> \<not> strip_duplicates fl \<Longrightarrow> kept_pairs fl q = query_pieces q"
    by (simp add: kept_pairs_def kept_all comp_def)
  then have all: "strip_empty fl \<or> strip_duplicates fl \<or> kept_pairs fl q = query_pieces q"
    by blast
  have nonempty: "strip_empty fl \<longrightarrow> (\<forall>(k, v) \<in> set (kept_pairs fl q). k \<noteq> [] \<and> v \<noteq> [])"
    using kept_pairs_nonempty[of fl _ q] by force
  have filtered: "strip_duplicates fl \<or> kept_pairs fl q = filter (qualifies fl) (query_pieces q)"
    using kept_pairs_filter by blast
  show ?thesis
    unfolding pieces
    by (intro conjI kept_pairs_subseq all nonempty impI kept_pairs_distinct kept_pairs_map_of filtered)
qed

lemma clean_query_keeps_witness:
  "subseq (query_pieces ''k=v&j=w'') (query_pieces ''k=v&&k=2&e=&j=w'') \<and> distinct (map fst (query_pieces ''k=v&j=w'')) \<and>
     map_of (query_pieces ''k=v&j=w'') = map_of (filter (qualifies demo_flags) (query_pieces ''k=v&&k=2&e=&j=w''))"
proof -
  have "clean_query test_platform demo_flags ''k=v&&k=2&e=&j=w'' = Some (Inr (Some ''k=v&j=w''))"
    by code_simp
  from clean_query_keeps[OF _ this] show ?thesis
    by (simp add: demo_flags_def)
qed

text \<open>
  \<open>regex_strip\<close>: a text that does not match, or whose substitution fails or
  removes nothing (its result does not fit in the output array, so the length
  becomes \<open>PCRE2_UNSET\<close> and \<open>strncpy\<close> copies 0 bytes), is left alone; otherwise
  the matches go, and a text of which nothing is left becomes NULL.
\<close>

theorem regex_strip_removes:
  assumes "pcre2_ok rx" "s \<noteq> []" "nul \<notin> set s" "length s < PTRDIFF_MAX"
  shows "regex_strip rx c s = Some (
     case pcre2_substitute rx c s of
       Some t \<Rightarrow> if regex_match rx c s \<and> length t < length s then (if t = [] then None else Some t) else Some s
     | None \<Rightarrow> Some s)"
  using assms(2) by (auto simp: regex_strip_spec[OF assms] strip_spec_def nonempty_def split: option.splits)

lemma regex_strip_removes_witness:
  "regex_strip demo_rx ''ab'' ''abc'' = Some (Some ''c'') \<and> regex_strip demo_rx ''abc'' ''abc'' = Some None"
  using regex_strip_removes[OF demo_rx_ok, of "''abc''" "''ab''"] regex_strip_removes[OF demo_rx_ok, of "''abc''" "''abc''"]
  by (simp add: nul_def PTRDIFF_MAX_def demo_rx_def regex_match_def)

section \<open>Whole runs\<close>

text \<open>
  C3. An update gets through: when both requests are answered with status 200 and
  their bytes arrive cut in any way that does not split the end of a header line, the
  hash that is published is the SHA-256 of the content, and the content loads, the
  call succeeds, the target is a file with exactly the content, the temporary file is
  gone and no other file changed.  The second request reuses the released context of
  the first.  Where the platform leaves no byte behind an object, the call is
  undefined instead: the first request is printed past its buffer.
\<close>

theorem update_installs_content:
  assumes "ample (sv_platform sv)" "filename \<noteq> []" "url \<noteq> []" "d \<noteq> []"
    and "serves sv (sv_platform sv) 0 url content"
    and "serves sv (in_call 1 (sv_platform sv)) 1 hash_url published"
    and "64 \<le> length published" "hex_digest content = map lower_hex (take 64 published)"
    and "can_write_new (sv_os sv) fs (d @ RULESET_TEMPORARY_FILE)" "can_read_back (sv_os sv) (d @ RULESET_TEMPORARY_FILE)"
    and "os_rename (sv_os sv) (d @ RULESET_TEMPORARY_FILE) filename = Renamed"
    and "loads sv (d @ RULESET_TEMPORARY_FILE) (fs(d @ RULESET_TEMPORARY_FILE \<mapsto> file_node (sv_os sv) content))"
  shows "if slack (sv_platform sv) = 0
     then unalix_ruleset_update sv (Some filename) (Some url) (Some hash_url) (Some d) fs = None
     else \<exists>events. unalix_ruleset_update sv (Some filename) (Some url) (Some hash_url) (Some d) fs =
       Some (UNALIXERR_SUCCESS, events, fs(d @ RULESET_TEMPORARY_FILE := None, filename \<mapsto> file_node (sv_os sv) content))"
  using update_installs[OF assms(1) _ assms(2-12)] update_tight[OF assms(1) _ assms(2-5)] by simp

lemma update_installs_content_witness:
  "\<exists>events. unalix_ruleset_update demo_services (Some ''/r'') (Some ''http://127.0.0.1/a'') (Some ''http://127.0.0.1/b'') (Some ''/t/'')
     Map.empty = Some (UNALIXERR_SUCCESS, events,
       Map.empty(''/t/'' @ RULESET_TEMPORARY_FILE := None, ''/r'' \<mapsto> file_node (sv_os demo_services) demo_content))"
proof -
  have "if slack (sv_platform demo_services) = 0
     then unalix_ruleset_update demo_services (Some ''/r'') (Some ''http://127.0.0.1/a'') (Some ''http://127.0.0.1/b'') (Some ''/t/'')
       Map.empty = None
     else \<exists>events. unalix_ruleset_update demo_services (Some ''/r'') (Some ''http://127.0.0.1/a'') (Some ''http://127.0.0.1/b'')
       (Some ''/t/'') Map.empty = Some (UNALIXERR_SUCCESS, events,
         Map.empty(''/t/'' @ RULESET_TEMPORARY_FILE := None, ''/r'' \<mapsto> file_node (sv_os demo_services) demo_content))"
  proof (rule update_installs_content[where published = demo_hash])
    show "64 \<le> length demo_hash"
      by (simp add: demo_hash_def)
  qed (use demo_serves demo_digest in \<open>auto simp: can_write_new_def can_read_back_def demo_os_def file_node_def intro: demo_loads\<close>)
  then show ?thesis
    by simp
qed

text \<open>
  C4. The unshortener follows a chain of redirects: when each location is cleaned and
  its request answered with a redirect to the next, the bytes of no answer cut at the
  end of a header line, the result is the cleaned URL of the last one if there are at
  most 20 redirects; a longer chain stops behind the 21st request with
  \<open>UNALIXERR_HTTP_TOO_MANY_REDIRECTS\<close> and the URL it asked for.  Where the platform
  leaves no byte behind an object, the call is undefined instead: the first request is
  printed past its buffer.  All texts are far shorter than the address space.
\<close>

theorem unshort_follows_redirects:
  assumes "hops (hop frames p rx rs exs fl) 0 hs" "ample p" "length (agent user_agent) < 2 ^ 58"
    and "fst (hd hs) \<noteq> []"
  shows "if slack p = 0
     then unalix_unshort_url frames p rx rs exs fl user_agent timeout (Some (fst (hd hs))) (Some target) = None
     else \<exists>events. unalix_unshort_url frames p rx rs exs fl user_agent timeout (Some (fst (hd hs))) (Some target) =
       Some (if length hs \<le> 21 then (UNALIXERR_SUCCESS, Some (snd (last hs)), events)
         else (UNALIXERR_HTTP_TOO_MANY_REDIRECTS, Some (snd (hs ! 20)), events))"
  using unshort_hops[OF assms(1,2) _ assms(3,4)] unshort_hops_tight[OF assms(1,2) _ assms(3,4)] by simp

lemma unshort_follows_redirects_witness:
  "\<exists>events. unalix_unshort_url 1 demo_platform demo_rx [demo_ruleset] demo_exchanges demo_flags None 0
     (Some ''http://127.0.0.1/a'') (Some None) = Some (UNALIXERR_SUCCESS, Some ''http://127.0.0.1/b'', events)"
  using unshort_follows_redirects[OF demo_hops_ok, of None 0 None]
  by (simp add: demo_hops_def agent_def HTTP_DEFAULT_USER_AGENT_def)

text \<open>
  C26. Whatever the servers answer and whatever fails, the calls of
  \<open>unalix_unshort_url\<close> are a run of the connection automaton from idle to idle: a
  socket is connected before anything is sent on it, at most one request is sent,
  TLS is ended only behind a connect, and the descriptor is closed, 0 when there was no
  socket, before the next socket is opened.  So every socket is closed.
\<close>

theorem unshort_protocol:
  assumes "unalix_unshort_url frames p rx rs exs fl user_agent timeout source_url target_url = Some (rc, t, events)"
  shows "calls Idle events Idle \<and> sockets events \<le> length (filter closes events)"
proof -
  have "calls Idle events Idle"
    using assms by (auto simp: unalix_unshort_url_def split: option.splits if_splits dest: unshort_loop_calls)
  then show ?thesis
    using calls_closed by (fastforce simp: is_open_def)
qed

lemma unshort_protocol_witness:
  "calls Idle [Ev_socket 3, Ev_close 3] Idle \<and>
     sockets [Ev_socket 3, Ev_close 3] \<le> length (filter closes [Ev_socket 3, Ev_close 3])"
  using unshort_protocol[OF demo_unshort_offline] .

text \<open>
  C24. Whatever the servers answer, a call of \<open>unalix_unshort_url\<close> opens at most 21
  sockets, one for the URL and one for each of the 20 redirects it follows.
\<close>

theorem unshort_bounded:
  assumes "unalix_unshort_url frames p rx rs exs fl user_agent timeout source_url target_url = Some (rc, t, events)"
  shows "sockets events \<le> 21"
proof (cases "\<exists>s target. source_url = Some s \<and> target_url = Some target \<and> s \<noteq> []")
  case True
  then obtain s target where
    "unshort_loop frames p rx rs exs fl user_agent timeout 0 s target [] = Some (rc, t, events)"
    using assms by (auto simp: unalix_unshort_url_def)
  from unshort_loop_sockets[OF this] show ?thesis
    by (simp add: HTTP_DEFAULT_MAX_REDIRECTS_def)
next
  case False
  then have "events = []"
    using assms by (auto simp: unalix_unshort_url_def split: option.splits if_splits)
  then show ?thesis by simp
qed

lemma unshort_bounded_witness: "sockets [Ev_socket 3, Ev_close 3] \<le> 21"
  using unshort_bounded[OF demo_unshort_offline] .

text \<open>
  C34. The exceptions of the Java method \<open>cleanUrl\<close>: only the classes of URI errors,
  memory errors and ruleset errors, and the base class (for an empty URL), whatever
  the parser, the rewriting of the query and the allocator answer.
\<close>

theorem clean_url_exceptions:
  assumes "cleanUrl frames p rx rulesets fl url = Some (Thrown c m)"
  shows "c \<in> exception_class ` {''URIException'', ''MemoryException'', ''RulesetsException'', ''Exception''}"
  by (rule cleanUrl_class[OF assms])

lemma clean_url_exceptions_witness:
  "exception_class ''URIException'' \<in> exception_class ` {''URIException'', ''MemoryException'', ''RulesetsException'', ''Exception''}"
proof -
  have "cleanUrl 1 test_platform demo_rx (rulesets_with [demo_ruleset]) demo_flags (Some ''http://a..b/'') =
      Some (Thrown (exception_class ''URIException'') ''Hostname label is empty'')"
    by code_simp
  from clean_url_exceptions[OF this] show ?thesis .
qed

section \<open>URIs\<close>

text \<open>
  C9. \<open>uri_parse\<close> on a fresh record is defined on every text a program can hold,
  whichever allocations fail: no copy leaves the text, although several sizes
  wrap around (\<open>malloc\<close> refuses those).  What it accepts has a scheme of scheme
  characters in lower case, a host of labels of 1 to 63 letters, digits and
  inner hyphens (or an address \<open>inet_pton\<close> accepts), a port from 1 to 65535 or
  none, and components that are texts of the URI; on an error nothing is left
  in the record.
\<close>

theorem uri_parse_valid:
  assumes "length url \<le> PTRDIFF_MAX"
  shows "\<exists>e u. uri_parse p zero_uri url = Some (e, u) \<and>
     (if e = UNALIXERR_SUCCESS then uri_ok p u \<and> fields_in url u else u = zero_uri)"
  by (rule uri_parse_fields[OF assms, of p]) auto

lemma uri_parse_valid_witness:
  "\<exists>e u. uri_parse test_platform zero_uri ''HTTP://u@Ab.cd:8/x'' = Some (e, u) \<and>
     (if e = UNALIXERR_SUCCESS then uri_ok test_platform u \<and> fields_in ''HTTP://u@Ab.cd:8/x'' u else u = zero_uri)"
  by (rule uri_parse_valid) (simp add: PTRDIFF_MAX_def)

text \<open>
  C11. Printing and parsing: \<open>uri_parse\<close> reads the text \<open>uri_stringify\<close> prints for a
  record back to that record.  The record has to be one whose parts can be told
  apart (\<open>uri_printable\<close>): scheme, host and port are accepted ones, no part is empty,
  no part holds the delimiter that ends it, and what the parser gets wrong is
  excluded, an at sign anywhere in a URI without user information and a fragment
  without a query.
\<close>

theorem uri_print_parse:
  assumes "uri_printable p u" "ample p" "uri_mem_size u < PTRDIFF_MAX"
  shows "\<exists>s. uri_stringify p u = Some s \<and> uri_parse p zero_uri s = Some (UNALIXERR_SUCCESS, u)"
  using roundtrip[OF assms] uri_stringify_eq[of p u] assms(2,3) by simp

lemma uri_print_parse_witness:
  "\<exists>s. uri_stringify test_platform (zero_uri\<lparr>uri_scheme := Some ''http'', uri_hostname := Some ''ab.cd'',
     uri_port := 81, uri_path := Some ''x/y''\<rparr>) = Some s \<and>
     uri_parse test_platform zero_uri s = Some (UNALIXERR_SUCCESS, zero_uri\<lparr>uri_scheme := Some ''http'',
     uri_hostname := Some ''ab.cd'', uri_port := 81, uri_path := Some ''x/y''\<rparr>)"
proof (rule uri_print_parse[OF _ ample_test_platform])
  let ?u = "zero_uri\<lparr>uri_scheme := Some ''http'', uri_hostname := Some ''ab.cd'', uri_port := 81, uri_path := Some ''x/y''\<rparr>"
  have "scheme_ok ''http'' \<and> hostname_ok ''ab.cd''"
    by code_simp
  then show "uri_printable test_platform ?u"
    by (simp add: uri_printable_def host_printable_def tail_printable_def port_ok_def zero_uri_def ctype_simps)
  show "uri_mem_size ?u < PTRDIFF_MAX"
  proof -
    have "uri_mem_size ?u = 19"
      by code_simp
    then show ?thesis
      by (simp add: PTRDIFF_MAX_def)
  qed
qed

text \<open>
  C22. The buffer of \<open>uri_stringify\<close>: its size is the length of the printed text and
  one byte for the terminator, for every record; the function is undefined
  exactly when the allocation, which it does not check, fails.
\<close>

theorem uri_stringify_exact:
  "uri_stringify p u = (if malloc p AtBuffer (uri_mem_size u + 1) then Some (concat (uri_parts u)) else None) \<and>
   length (concat (uri_parts u)) = uri_mem_size u"
proof (cases "malloc p AtBuffer (uri_mem_size u + 1)")
  case True
  then show ?thesis
    using uri_stringify_eq[OF True] uri_mem_size_parts[of u] by (simp del: length_concat)
next
  case False
  then show ?thesis
    using uri_mem_size_parts[of u] by (simp add: uri_stringify_def del: length_concat)
qed

text \<open>
  The loop over the host name, which tracks one label at a time, accepts
  exactly the names all of whose dot-separated labels have 1 to 63 letters,
  digits and hyphens and no hyphen at either end; its result is the name in
  lower case.
\<close>

theorem hostname_labels:
  "label_loop [] 0 h = Inr r \<longleftrightarrow> r = map lower h \<and> (\<forall>l \<in> set (split_on CHR ''.'' h). label_ok l)"
  by (rule label_loop_start)

lemma hostname_labels_witness:
  "label_loop [] 0 ''Ab.c-d'' = Inr ''ab.c-d'' \<and> list_all label_ok (split_on CHR ''.'' ''Ab.c-d'')"
proof -
  have "label_loop [] 0 ''Ab.c-d'' = Inr ''ab.c-d''"
    by code_simp
  with hostname_labels[of "''Ab.c-d''" "''ab.c-d''"] show ?thesis
    unfolding list_all_iff by blast
qed



section \<open>Query strings\<close>

text \<open>
  \<open>query_parse\<close> is a run of \<open>add_parameter\<close> over the pieces of the query between
  ampersands, each cut at its first equals sign; it stops at the first error.
\<close>

theorem query_parse_splits:
  "query_parse p q s = push_all (\<lambda>q (k, v). add_parameter p q k v) q (map key_value (split_on CHR ''&'' s))"
  by (simp add: query_parse_pieces query_pieces_def)

text \<open>
  C36. A query built with \<open>add_parameter\<close>, printed by \<open>query_stringify\<close> into \<open>slength + 1\<close>
  bytes and parsed again is the same query, for keys and values without the
  separators.
\<close>

theorem query_build_print_parse:
  assumes "ample p" "xs \<noteq> []" "length xs < 2 ^ 58" "\<forall>kv \<in> set xs. pair_ok kv \<and> length (pair_str kv) < PTRDIFF_MAX"
  shows "\<exists>q s. push_all (\<lambda>q (k, v). add_parameter p q k v) zero_query xs = Some (UNALIXERR_SUCCESS, q) \<and>
     query_stringify (q_slength q + 1) q = Some s \<and> query_parse p zero_query s = Some (UNALIXERR_SUCCESS, q)"
proof -
  obtain q where q: "push_all (\<lambda>q (k, v). add_parameter p q k v) zero_query xs = Some (UNALIXERR_SUCCESS, q)"
    "put.accounted q" "q_parameters q = map mk_parameter xs"
    by (rule query_built[OF assms(1,3)]) (use assms(4) in auto)
  have "query_stringify (q_slength q + 1) q = Some (join ''&'' (map pair_str xs))"
    using query_stringify_items[OF q(2), of "q_slength q + 1"] unfolding q(3) rendered_pairs by simp
  moreover have "query_pieces (join ''&'' (map pair_str xs)) = xs"
    by (rule query_pieces_join) (use assms(2,4) in auto)
  ultimately show ?thesis
    using q(1) by (simp add: query_parse_pieces)
qed

lemma query_build_print_parse_witness:
  "\<exists>q s. push_all (\<lambda>q (k, v). add_parameter test_platform q k v) zero_query [(''a'', ''b''), (''c'', [])] =
       Some (UNALIXERR_SUCCESS, q) \<and>
     query_stringify (q_slength q + 1) q = Some s \<and> query_parse test_platform zero_query s = Some (UNALIXERR_SUCCESS, q)"
  by (rule query_build_print_parse) (simp_all add: pair_ok_def pair_str_def PTRDIFF_MAX_def)

text \<open>
  C37. \<open>add_parameter\<close> keeps the invariant of a query: the array has room for exactly
  its parameters, and \<open>slength\<close> is the number of characters they print to.  It
  appends the parameter, or reports an error and leaves the query as it was.
\<close>

theorem add_parameter_accounts:
  assumes "query_ok q"
  shows "\<exists>e q'. add_parameter p q k v = Some (e, q') \<and> query_ok q' \<and>
     (if e = UNALIXERR_SUCCESS then q_parameters q' = q_parameters q @ [mk_parameter (k, v)] else q' = q)"
proof -
  have inv: "query_inv q"
    using assms by (simp add: query_ok_def)
  obtain e q' where add: "add_parameter p q k v = Some (e, q')"
    using add.push_defined[OF inv, of p "(k, v)"] by auto
  moreover have "query_ok q'" "e = UNALIXERR_SUCCESS \<longrightarrow> q_parameters q' = q_parameters q @ [mk_parameter (k, v)]"
    using add.accounted_push[of q p "(k, v)" e q'] assms add by (auto simp: query_ok_accounted(2))
  moreover have "e \<noteq> UNALIXERR_SUCCESS \<longrightarrow> q' = q"
    using add.push_err[OF inv, of p "(k, v)" e q'] add by auto
  ultimately show ?thesis by auto
qed

lemma add_parameter_accounts_witness:
  "\<exists>e q'. add_parameter test_platform zero_query ''a'' ''b'' = Some (e, q') \<and> query_ok q' \<and>
     (if e = UNALIXERR_SUCCESS then q_parameters q' = q_parameters zero_query @ [mk_parameter (''a'', ''b'')] else q' = zero_query)"
  by (rule add_parameter_accounts) (simp add: query_ok_def query_inv_zero, simp add: zero_query_def)

text \<open>
  \<open>slength + 1\<close> is exactly the room \<open>query_stringify\<close> needs: it prints the
  parameters joined by ampersands into a buffer of that size, and overruns every
  smaller one.
\<close>

theorem query_stringify_exact:
  assumes "query_ok q"
  shows "query_stringify cap q = (if q_slength q + 1 \<le> cap
     then Some (join ''&'' (map (\<lambda>x. opt_str (par_key x) @ ''='' @ opt_str (par_value x)) (q_parameters q))) else None)"
proof -
  have parts: "concat (parameter_parts x) = opt_str (par_key x) @ ''='' @ opt_str (par_value x)" for x
    by (simp add: parameter_parts_def EQUAL_def opt_str_def split: option.split)
  have "take (q_position q) (q_parameters q) = q_parameters q" "q_slength q = length (join ''&'' (rendered parameter_parts (q_parameters q)))"
    using assms by (simp_all add: query_ok_def)
  then show ?thesis
    using print_items_exact[OF put.parts_nonempty, where cap = cap and sep = "''&''" and xs = "q_parameters q"]
    by (simp add: query_stringify_def AND_SIGN_def parts)
qed

lemma query_stringify_exact_witness: "query_stringify 1 zero_query = Some []"
  using query_stringify_exact[of zero_query 1] by (simp add: query_ok_def query_inv_zero) (simp add: zero_query_def)

section \<open>Paths\<close>





section \<open>Error codes\<close>

text \<open>
  Messages: two codes other than \<open>UNALIXERR_ARG_INVALID\<close> with the same message are
  equal, and none of them has the text for unknown codes; that text is what
  every number that is not a code gets, and \<open>UNALIXERR_ARG_INVALID\<close>, which the
  switch forgets.
\<close>

theorem strerror_distinct:
  assumes "e \<noteq> UNALIXERR_ARG_INVALID" "f \<noteq> UNALIXERR_ARG_INVALID" "n \<notin> range err_code"
  shows "(unalix_strerror (err_code e) = unalix_strerror (err_code f) \<longrightarrow> e = f) \<and>
     unalix_strerror (err_code e) \<noteq> ''Unknown error code'' \<and>
     unalix_strerror n = ''Unknown error code'' \<and>
     unalix_strerror (err_code UNALIXERR_ARG_INVALID) = ''Unknown error code''"
  using strerror_known_inj strerror_known strerror_other strerror_ARG_INVALID assms by blast

lemma strerror_distinct_witness:
  "unalix_strerror (err_code UNALIXERR_SUCCESS) \<noteq> ''Unknown error code'' \<and> unalix_strerror 1 = ''Unknown error code''"
proof -
  have "(1::int) \<notin> range err_code"
  proof
    assume "(1::int) \<in> range err_code"
    then obtain e where "err_code e = 1" by auto
    then show False by (cases e) simp_all
  qed
  from strerror_distinct[OF _ _ this, of UNALIXERR_SUCCESS UNALIXERR_SUCCESS] show ?thesis by simp
qed

end
